(* ===== verification/Prelude.thy ===== *)
theory Prelude
  imports Main "HOL-Library.Word"
begin

text \<open>
  Shared ground of the development: the C integer types of \<^verbatim>\<open>kernel/inc/types.h\<close> as words, faults
  as values, the sequencing of fallible steps, the page loop
  \<^verbatim>\<open>for (addr = start; addr < end; addr += kVMPageSize)\<close> that half of the kernel is built on, and
  the generic lemmas on words and lists that the component theories share.
\<close>

unbundle bit_operations_syntax

section \<open>Integer types\<close>

type_synonym UInt8 = "8 word"
type_synonym UInt16 = "16 word"
type_synonym UInt32 = "32 word"
type_synonym UInt64 = "64 word"
type_synonym Int32 = "32 word"
type_synonym Int64 = "64 word"

text \<open>Signed values are words read through \<^term>\<open>sint\<close>; the C operators on them wrap.\<close>

named_theorems word_to_nat \<open>rules that move word facts to natural numbers\<close>

named_theorems err_simps \<open>evaluation and inversion of fallible steps\<close>

lemma unat_Suc_below [word_to_nat]: "i < (n :: 'a :: len word) \<Longrightarrow> unat (i + 1) = Suc (unat i)"
proof -
  assume "i < n"
  then have "i \<noteq> - 1" by (auto simp: not_less dest: leD)
  then have "1 + i \<noteq> 0" by (simp add: eq_neg_iff_add_eq_0 add.commute)
  then show ?thesis by (simp add: unatSuc add.commute)
qed

section \<open>Faults\<close>

text \<open>
  What an operation of the kernel does instead of returning: \<open>Panic\<close> is \<^verbatim>\<open>OSPanic\<close> with its
  message (it never returns), \<open>OutOfBounds\<close> an access outside the object a pointer refers to,
  \<open>Diverges\<close> a loop that never ends (a wrapped page loop, a spinlock that nobody releases) and
  \<open>DivideError\<close> the hardware's divide exception.
\<close>

datatype fault = Panic string | OutOfBounds | Diverges | DivideError

text \<open>Sequencing: a fault ends the computation, a value is handed on.\<close>

definition bindE :: "'e + 'a \<Rightarrow> ('a \<Rightarrow> 'e + 'b) \<Rightarrow> 'e + 'b" where
  "bindE r f = (case r of Inl e \<Rightarrow> Inl e | Inr x \<Rightarrow> f x)"

lemma bindE_Inl [simp]: "bindE (Inl e) f = Inl e"
  by (simp add: bindE_def)

lemma bindE_Inr [simp]: "bindE (Inr x) f = f x"
  by (simp add: bindE_def)

lemma bindE_eq_Inr [err_simps]: "bindE r f = Inr y \<longleftrightarrow> (\<exists>x. r = Inr x \<and> f x = Inr y)"
  by (cases r) simp_all

lemma bindE_eq_Inl [err_simps]:
  "bindE r f = Inl e \<longleftrightarrow> r = Inl e \<or> (\<exists>x. r = Inr x \<and> f x = Inl e)"
  by (cases r) simp_all

lemma bindE_assoc: "bindE (bindE r f) g = bindE r (\<lambda>x. bindE (f x) g)"
  by (cases r) simp_all

lemma bindE_cong [fundef_cong]:
  "r = r' \<Longrightarrow> (\<And>x. r' = Inr x \<Longrightarrow> f x = f' x) \<Longrightarrow> bindE r f = bindE r' f'"
  by (cases r') simp_all

section \<open>Array accesses\<close>

text \<open>An array object is a list; an access outside it is a fault, not an unspecified value.\<close>

definition array_get :: "'a list \<Rightarrow> nat \<Rightarrow> fault + 'a" where
  "array_get xs i = (if i < length xs then Inr (xs ! i) else Inl OutOfBounds)"

definition array_set :: "'a list \<Rightarrow> nat \<Rightarrow> 'a \<Rightarrow> fault + 'a list" where
  "array_set xs i v = (if i < length xs then Inr (xs[i := v]) else Inl OutOfBounds)"

lemma array_get_Inr [err_simps]: "array_get xs i = Inr v \<longleftrightarrow> i < length xs \<and> v = xs ! i"
  by (auto simp: array_get_def)

lemma array_set_Inr [err_simps]:
  "array_set xs i v = Inr ys \<longleftrightarrow> i < length xs \<and> ys = xs[i := v]"
  by (auto simp: array_set_def)

section \<open>The page loop\<close>

text \<open>
  \<^verbatim>\<open>for (UInt64 addr = start; addr < end; addr += step) body;\<close> on 64-bit addresses. When
  the increment wraps, the address is below \<open>end\<close> again and, the step dividing \<open>2^64\<close>, the loop
  walks the same addresses for ever, hence \<open>Diverges\<close>.
\<close>

function for_range ::
  "UInt64 \<Rightarrow> UInt64 \<Rightarrow> UInt64 \<Rightarrow> (UInt64 \<Rightarrow> 's \<Rightarrow> fault + 's) \<Rightarrow> 's \<Rightarrow> fault + 's" where
  "for_range addr limit step body s =
     (if addr < limit
      then bindE (body addr s)
             (\<lambda>s'. if addr + step \<le> addr then Inl Diverges
                   else for_range (addr + step) limit step body s')
      else Inr s)"
  by pat_completeness auto
termination
proof (relation "measure (\<lambda>(addr, limit, step, body, s). 2 ^ 64 - unat addr)")
  fix addr limit step :: UInt64 and body :: "UInt64 \<Rightarrow> 's \<Rightarrow> fault + 's" and s s' :: 's
  assume "\<not> addr + step \<le> addr"
  then have "unat addr < unat (addr + step)"
    by (simp add: word_less_nat_alt [symmetric])
  moreover have "unat (addr + step) < 2 ^ 64"
    using unsigned_less [of "addr + step"] by simp
  ultimately show "((addr + step, limit, step, body, s'), addr, limit, step, body, s)
      \<in> measure (\<lambda>(addr, limit, step, body, s). 2 ^ 64 - unat addr)"
    by simp
qed simp

declare for_range.simps [simp del]

lemma for_range_done [simp]: "\<not> a < limit \<Longrightarrow> for_range a limit step body s = Inr s"
  by (subst for_range.simps) simp

lemma for_range_step:
  "a < limit \<Longrightarrow> body a s = Inr s' \<Longrightarrow> a < a + step \<Longrightarrow>
   for_range a limit step body s = for_range (a + step) limit step body s'"
  by (subst for_range.simps) (simp add: not_le)

text \<open>
  Total correctness of a page loop: an invariant indexed by the address that every iteration keeps,
  and no wrap before the limit is passed.
\<close>

lemma for_range_total:
  fixes start limit step :: UInt64
  assumes room: "unat limit + unat step \<le> 2 ^ 64" and pos: "0 < step"
    and init: "I start s"
    and body: "\<And>a s. start \<le> a \<Longrightarrow> a < limit \<Longrightarrow> I a s \<Longrightarrow> \<exists>s'. body a s = Inr s' \<and> I (a + step) s'"
  shows "\<exists>s' a. for_range start limit step body s = Inr s' \<and> I a s' \<and> limit \<le> a
           \<and> (a = start \<or> (\<exists>b. start \<le> b \<and> b < limit \<and> a = b + step))"
  using room pos init body
proof (induction start limit step body s rule: for_range.induct)
  case (1 a limit step body s)
  note room = "1.prems"(1) and pos = "1.prems"(2) and init = "1.prems"(3) and body = "1.prems"(4)
  show ?case
  proof (cases "a < limit")
    case False
    then show ?thesis using init by (auto simp: not_less)
  next
    case True
    have nat: "unat (a + step) = unat a + unat step"
      using room True by (subst unat_add_lem [symmetric]) (simp add: word_less_nat_alt)
    have up: "a < a + step"
      using pos nat by (simp add: word_less_nat_alt)
    from body [OF order_refl True init] obtain s' where s': "body a s = Inr s'" "I (a + step) s'"
      by blast
    have "\<exists>s'' b. for_range (a + step) limit step body s' = Inr s'' \<and> I b s'' \<and> limit \<le> b
        \<and> (b = a + step \<or> (\<exists>c. a + step \<le> c \<and> c < limit \<and> b = c + step))"
    proof (rule "1.IH" [OF True s'(1) _ room pos s'(2)])
      show "\<not> a + step \<le> a" using up by (simp add: not_le)
      show "\<exists>t'. body b t = Inr t' \<and> I (b + step) t'"
        if "a + step \<le> b" "b < limit" "I b t" for b t
        by (rule body [OF order_trans [OF less_imp_le [OF up] that(1)] that(2,3)])
    qed
    then obtain s'' b where *: "for_range (a + step) limit step body s' = Inr s''" "I b s''"
      "limit \<le> b" "b = a + step \<or> (\<exists>c. a + step \<le> c \<and> c < limit \<and> b = c + step)"
      by blast
    have "for_range a limit step body s = Inr s''"
      using for_range_step [of a limit body s s' step, OF True s'(1) up] *(1) by simp
    moreover have "\<exists>c. a \<le> c \<and> c < limit \<and> b = c + step"
    proof (cases "b = a + step")
      case False
      then obtain c where c: "a + step \<le> c" "c < limit" "b = c + step" using *(4) by blast
      with order_trans [OF less_imp_le [OF up] c(1)] show ?thesis by blast
    qed (use True in blast)
    ultimately show ?thesis using *(2,3) by blast
  qed
qed

text \<open>The same with faults allowed: every fault of the body satisfies \<open>E\<close>.\<close>

lemma for_range_rule:
  fixes start limit step :: UInt64
  assumes room: "unat limit + unat step \<le> 2 ^ 64" and pos: "0 < step"
    and init: "I start s"
    and body: "\<And>a s. start \<le> a \<Longrightarrow> a < limit \<Longrightarrow> I a s \<Longrightarrow>
      case body a s of Inl e \<Rightarrow> E e | Inr s' \<Rightarrow> I (a + step) s'"
  shows "case for_range start limit step body s of
      Inl e \<Rightarrow> E e | Inr s' \<Rightarrow> \<exists>a. I a s' \<and> limit \<le> a"
  using room pos init body
proof (induction start limit step body s rule: for_range.induct)
  case (1 a limit step body s)
  note room = "1.prems"(1) and pos = "1.prems"(2) and init = "1.prems"(3) and body = "1.prems"(4)
  show ?case
  proof (cases "a < limit")
    case False
    then show ?thesis using init by (auto simp: not_less)
  next
    case True
    have "unat (a + step) = unat a + unat step"
      using room True by (subst unat_add_lem [symmetric]) (simp add: word_less_nat_alt)
    then have up: "a < a + step" using pos by (simp add: word_less_nat_alt)
    show ?thesis
    proof (cases "body a s")
      case (Inl e)
      then show ?thesis using body [OF order_refl True init] True by (subst for_range.simps) simp
    next
      case (Inr s')
      have next_inv: "I (a + step) s'" using body [OF order_refl True init] Inr by simp
      have "case for_range (a + step) limit step body s' of
          Inl e \<Rightarrow> E e | Inr s' \<Rightarrow> \<exists>a. I a s' \<and> limit \<le> a"
      proof (rule "1.IH" [OF True Inr _ room pos next_inv])
        show "\<not> a + step \<le> a" using up by (simp add: not_le)
        show "case body b t of Inl e \<Rightarrow> E e | Inr s' \<Rightarrow> I (b + step) s'"
          if "a + step \<le> b" "b < limit" "I b t" for b t
          by (rule body [OF order_trans [OF less_imp_le [OF up] that(1)] that(2,3)])
      qed
      then show ?thesis using for_range_step [of a limit body s s' step, OF True Inr up] by simp
    qed
  qed
qed

end
