(* ===== verification/Machine.thy ===== *)
theory Machine
  imports Prelude
begin

text \<open>
  The machine under the kernel: byte-addressed memory with 64-bit loads and stores, and the processor
  state the kernel touches (interrupt flag, \<^verbatim>\<open>CR3\<close>, port writes, \<^verbatim>\<open>invlpg\<close>). On it the memory
  routines of \<^verbatim>\<open>kernel/src/lib/String.c\<close>: \<open>MemorySet\<close> and \<open>MemoryCopy\<close>, with the lemmas that
  give their effect in one equation each.
\<close>

section \<open>Memory\<close>

type_synonym memory = "UInt64 \<Rightarrow> UInt8"

text \<open>A 64-bit load and store, little endian, as the processor performs \<^verbatim>\<open>*(UInt64*)p\<close>.\<close>

definition load64 :: "memory \<Rightarrow> UInt64 \<Rightarrow> UInt64" where
  "load64 m a = foldr (\<lambda>i w. push_bit 8 w OR ucast (m (a + of_nat i))) [0..<8] 0"

definition store64 :: "memory \<Rightarrow> UInt64 \<Rightarrow> UInt64 \<Rightarrow> memory" where
  "store64 m a v = (\<lambda>x. if x - a < 8 then ucast (drop_bit (8 * unat (x - a)) v) else m x)"

lemma byte_split: "push_bit 8 (drop_bit 8 w) OR ucast (ucast w :: UInt8) = (w :: UInt64)"
  by (rule bit_word_eqI) (auto simp: bit_simps)

lemma bytes_of_word:
  fixes v :: UInt64
  shows "k \<le> 8 \<Longrightarrow> foldr (\<lambda>i w. push_bit 8 w OR ucast (ucast (drop_bit (8 * i) v) :: UInt8)) [k..<8] 0
           = drop_bit (8 * k) v"
proof (induction "8 - k" arbitrary: k)
  case 0
  then have "k = 8" by simp
  have "drop_bit 64 v = 0" by (rule bit_word_eqI) (auto simp: bit_simps)
  with \<open>k = 8\<close> show ?case by simp
next
  case (Suc n)
  then have k: "k < 8" "n = 8 - Suc k" "Suc k \<le> 8" by auto
  have "[k..<8] = k # [Suc k..<8]" using k(1) by (simp add: upt_conv_Cons)
  moreover have "drop_bit (8 * Suc k) v = drop_bit 8 (drop_bit (8 * k) v)"
    by (simp add: drop_bit_drop_bit add.commute)
  ultimately show ?case
    using Suc.hyps(1) [OF k(2,3)] byte_split [of "drop_bit (8 * k) v"] by simp
qed

lemma load64_store64_same [simp]: "load64 (store64 m a v) a = v"
proof -
  have "foldr (\<lambda>i w. push_bit 8 w OR ucast (store64 m a v (a + of_nat i))) [0..<8] 0
      = foldr (\<lambda>i w. push_bit 8 w OR ucast (ucast (drop_bit (8 * i) v) :: UInt8)) [0..<8] (0 :: UInt64)"
  proof (rule foldr_cong)
    fix i w assume "i \<in> set [0..<8]"
    then have "unat (of_nat i :: UInt64) = i" by (simp add: unat_of_nat)
    then show "push_bit 8 w OR ucast (store64 m a v (a + of_nat i))
        = (push_bit 8 w OR ucast (ucast (drop_bit (8 * i) v) :: UInt8) :: UInt64)"
      using \<open>i \<in> set [0..<8]\<close> by (simp add: store64_def word_less_nat_alt)
  qed simp_all
  then show ?thesis
    using bytes_of_word [of 0 v] by (simp add: load64_def)
qed

lemma load64_cong:
  assumes "\<And>i. i < 8 \<Longrightarrow> m (a + of_nat i) = m' (a + of_nat i)"
  shows "load64 m a = load64 m' a"
  unfolding load64_def by (rule foldr_cong) (use assms in auto)

lemma store64_apart: "\<not> x - a < 8 \<Longrightarrow> store64 m a v x = m x"
  by (simp add: store64_def)

lemma load64_zero: "(\<And>i. i < 8 \<Longrightarrow> m (a + of_nat i) = 0) \<Longrightarrow> load64 m a = 0"
proof -
  assume "\<And>i. i < 8 \<Longrightarrow> m (a + of_nat i) = 0"
  then have "load64 m a = load64 (\<lambda>_. 0) a" by (intro load64_cong) simp
  also have "foldr (\<lambda>i :: nat. push_bit 8) xs (0 :: UInt64) = 0" for xs
    by (induction xs) simp_all
  then have "load64 (\<lambda>_. 0) a = 0" by (simp add: load64_def)
  finally show ?thesis .
qed

text \<open>Every byte of a loaded word is the byte in memory.\<close>

lemma load64_suffix_byte:
  assumes "k \<le> i" "i < 8"
  shows "(ucast (drop_bit (8 * (i - k))
            (foldr (\<lambda>i w. push_bit 8 w OR ucast (b i)) [k..<8] (0 :: UInt64))) :: UInt8) = b i"
  using assms
proof (induction "8 - k" arbitrary: k)
  case 0
  then show ?case by simp
next
  case (Suc n)
  let ?rest = "foldr (\<lambda>i w. push_bit 8 w OR ucast (b i)) [Suc k..<8] (0 :: UInt64)"
  have split: "foldr (\<lambda>i w. push_bit 8 w OR ucast (b i)) [k..<8] (0 :: UInt64) = push_bit 8 ?rest OR ucast (b k)"
    using Suc.prems by (simp add: upt_conv_Cons)
  show ?case
  proof (cases "i = k")
    case True
    have "(ucast (push_bit 8 ?rest OR ucast (b k)) :: UInt8) = b k"
      by (rule bit_word_eqI) (auto simp: bit_simps)
    with True split show ?thesis by simp
  next
    case False
    with Suc.prems have i: "Suc k \<le> i" "i - k = Suc (i - Suc k)" by auto
    have "(ucast (drop_bit (8 * (i - k)) (push_bit 8 ?rest OR ucast (b k))) :: UInt8)
        = ucast (drop_bit (8 * (i - Suc k)) ?rest)"
    proof (rule bit_word_eqI)
      fix j assume j: "j < LENGTH(8)"
      have "8 * (i - k) + j = 8 + (8 * (i - Suc k) + j)" using i by simp
      moreover have "8 + (8 * (i - Suc k) + j) < 64" using j i Suc.prems by simp
      ultimately show "bit (ucast (drop_bit (8 * (i - k)) (push_bit 8 ?rest OR ucast (b k))) :: UInt8) j
          = bit (ucast (drop_bit (8 * (i - Suc k)) ?rest) :: UInt8) j"
        using j bit_imp_le_length [of "b k" "8 + 8 * (i - Suc k) + j"] by (auto simp: bit_simps)
    qed
    with Suc.hyps(1) [of "Suc k"] Suc.hyps(2) i(1) Suc.prems split show ?thesis by simp
  qed
qed

lemma load64_byte:
  assumes "y < 8"
  shows "(ucast (drop_bit (8 * unat y) (load64 m a)) :: UInt8) = m (a + y)"
proof -
  have "unat y < 8" using assms by (simp add: word_less_nat_alt)
  then show ?thesis
    using load64_suffix_byte [of 0 "unat y" "\<lambda>i. m (a + of_nat i)"] by (simp add: load64_def)
qed

section \<open>The processor\<close>

record machine =
  mem :: memory
  cr3 :: UInt64
  interruptFlag :: bool
  portWrites :: "(UInt16 \<times> UInt8) list"
  invalidated :: "UInt64 list"

section \<open>\<^verbatim>\<open>MemorySet\<close> and \<^verbatim>\<open>MemoryCopy\<close>\<close>

function MemorySet :: "memory \<Rightarrow> UInt64 \<Rightarrow> UInt8 \<Rightarrow> UInt64 \<Rightarrow> memory" where
  "MemorySet m destination v count =
     (if count = 0 then m else MemorySet (m(destination := v)) (destination + 1) v (count - 1))"
  by pat_completeness auto
termination
  by (relation "measure (\<lambda>(m, destination, v, count). unat count)")
     (auto simp: unat_minus_one unat_gt_0)

function MemoryCopyBytes :: "memory \<Rightarrow> UInt64 \<Rightarrow> UInt64 \<Rightarrow> UInt64 \<Rightarrow> memory" where
  "MemoryCopyBytes m destination source count =
     (if 0 < count
      then MemoryCopyBytes (m(destination := m source)) (destination + 1) (source + 1) (count - 1)
      else m)"
  by pat_completeness auto
termination
  by (relation "measure (\<lambda>(m, destination, source, count). unat count)")
     (auto simp: unat_minus_one unat_gt_0 word_gt_0)

function MemoryCopy :: "memory \<Rightarrow> UInt64 \<Rightarrow> UInt64 \<Rightarrow> UInt64 \<Rightarrow> memory" where
  "MemoryCopy m destination source count =
     (if 8 \<le> count
      then MemoryCopy (store64 m destination (load64 m source)) (destination + 8) (source + 8) (count - 8)
      else MemoryCopyBytes m destination source count)"
  by pat_completeness auto
termination
  by (relation "measure (\<lambda>(m, destination, source, count). unat count)")
     (auto simp: unat_sub word_le_nat_alt)

declare MemorySet.simps [simp del] MemoryCopyBytes.simps [simp del] MemoryCopy.simps [simp del]

lemma MemorySet_effect: "MemorySet m d v n = (\<lambda>x. if x - d < n then v else m x)"
proof (induction m d v n rule: MemorySet.induct)
  case (1 m d v n)
  show ?case
  proof (cases "n = 0")
    case True
    then show ?thesis by (subst MemorySet.simps) simp
  next
    case False
    have "x - d < n \<longleftrightarrow> x = d \<or> x - (d + 1) < n - 1" for x
    proof -
      have "y < n \<longleftrightarrow> y = 0 \<or> y - 1 < n - 1" for y :: UInt64
        using False by unat_arith
      from this [of "x - d"] show ?thesis by (simp add: diff_diff_eq)
    qed
    moreover have "MemorySet m d v n = MemorySet (m(d := v)) (d + 1) v (n - 1)"
      using False by (subst MemorySet.simps) simp
    ultimately show ?thesis
      using "1" [OF False] by auto
  qed
qed

text \<open>
  \<^verbatim>\<open>MemoryCopy\<close> is right for every pair of ranges but those whose destination starts strictly
  inside the source: it copies upwards, eight bytes at a time.
\<close>

lemma MemoryCopyBytes_effect:
  "\<not> (0 < d - s \<and> d - s < n) \<Longrightarrow>
   MemoryCopyBytes m d s n = (\<lambda>x. if x - d < n then m (s + (x - d)) else m x)"
proof (induction m d s n rule: MemoryCopyBytes.induct)
  case (1 m d s n)
  show ?case
  proof (cases "0 < n")
    case False
    then have "n = 0" by (simp add: word_gt_0)
    then show ?thesis by (subst MemoryCopyBytes.simps) simp
  next
    case True
    have step: "MemoryCopyBytes m d s n = MemoryCopyBytes (m(d := m s)) (d + 1) (s + 1) (n - 1)"
      using True by (subst MemoryCopyBytes.simps) simp
    have apart: "\<not> (0 < (d + 1) - (s + 1) \<and> (d + 1) - (s + 1) < n - 1)"
    proof -
      have "\<not> (0 < D \<and> D < n) \<Longrightarrow> \<not> (0 < D \<and> D < n - 1)" for D :: UInt64
        using True by unat_arith
      from this [OF "1.prems"] show ?thesis by simp
    qed
    have "(if x - (d + 1) < n - 1 then (m(d := m s)) ((s + 1) + (x - (d + 1))) else (m(d := m s)) x)
        = (if x - d < n then m (s + (x - d)) else m x)" for x
    proof -
      have in_range: "y < n \<longleftrightarrow> y = 0 \<or> y - 1 < n - 1" for y :: UInt64
        using True by unat_arith
      have miss: "y < n \<Longrightarrow> y \<noteq> 0 \<Longrightarrow> \<not> (0 < D \<and> D < n) \<Longrightarrow> D \<noteq> y" for y D :: UInt64
        by unat_arith
      have shift: "x - (d + 1) = (x - d) - 1" "(s + 1) + (x - (d + 1)) = s + (x - d)" by simp_all
      have far: "(m(d := m s)) (s + (x - d)) = m (s + (x - d))" if "x - d < n" "x - d \<noteq> 0"
      proof -
        have "d - s \<noteq> x - d" by (rule miss [OF that "1.prems"])
        then have "s + (x - d) \<noteq> d" by (auto simp: algebra_simps)
        then show ?thesis by simp
      qed
      have low: "\<not> (- 1 :: UInt64) < n - 1"
        by (simp add: not_less)
      show ?thesis
      proof (cases "x = d")
        case True
        with low show ?thesis using \<open>0 < n\<close> by simp
      next
        case False
        then have "x - d \<noteq> 0" by simp
        with in_range [of "x - d"] far False show ?thesis unfolding shift by auto
      qed
    qed
    then show ?thesis
      by (intro trans [OF step trans [OF "1.IH" [OF True apart]]] ext)
  qed
qed

lemma MemoryCopy_effect:
  "\<not> (0 < d - s \<and> d - s < n) \<Longrightarrow>
   MemoryCopy m d s n = (\<lambda>x. if x - d < n then m (s + (x - d)) else m x)"
proof (induction m d s n rule: MemoryCopy.induct)
  case (1 m d s n)
  show ?case
  proof (cases "8 \<le> n")
    case False
    then show ?thesis using MemoryCopyBytes_effect [OF "1.prems"] by (subst MemoryCopy.simps) simp
  next
    case True
    let ?m = "store64 m d (load64 m s)"
    have step: "MemoryCopy m d s n = MemoryCopy ?m (d + 8) (s + 8) (n - 8)"
      using True by (subst MemoryCopy.simps) simp
    have apart: "\<not> (0 < (d + 8) - (s + 8) \<and> (d + 8) - (s + 8) < n - 8)"
    proof -
      have "\<not> (0 < D \<and> D < n) \<Longrightarrow> \<not> (0 < D \<and> D < n - 8)" for D :: UInt64
        using True by unat_arith
      from this [OF "1.prems"] show ?thesis by simp
    qed
    have "(if x - (d + 8) < n - 8 then ?m ((s + 8) + (x - (d + 8))) else ?m x)
        = (if x - d < n then m (s + (x - d)) else m x)" for x
    proof -
      have in_range: "y < n \<longleftrightarrow> y < 8 \<or> y - 8 < n - 8" for y :: UInt64
        using True by unat_arith
      have low: "y < 8 \<Longrightarrow> y - 8 < n - 8 \<Longrightarrow> False" for y :: UInt64
        using True by unat_arith
      have miss: "y < n \<Longrightarrow> \<not> y < 8 \<Longrightarrow> \<not> (0 < D \<and> D < n) \<Longrightarrow> \<not> y - D < 8" for y D :: UInt64
        by unat_arith
      have shift: "x - (d + 8) = (x - d) - 8" "(s + 8) + (x - (d + 8)) = s + (x - d)" by simp_all
      have gap: "s + (x - d) - d = (x - d) - (d - s)" by simp
      have far: "?m (s + (x - d)) = m (s + (x - d))" if "x - d < n" "\<not> x - d < 8"
        by (rule store64_apart) (use miss [OF that "1.prems"] gap in metis)
      have near: "x - d < 8 \<Longrightarrow> ?m x = m (s + (x - d))"
        using load64_byte [of "x - d" m s] by (simp add: store64_def)
      show ?thesis
        using in_range [of "x - d"] low [of "x - d"] far near
        unfolding shift by (auto simp: store64_apart)
    qed
    then show ?thesis
      by (intro trans [OF step trans [OF "1.IH" [OF True apart]]] ext)
  qed
qed

end
