(* ===== verification/Spinlock.thy ===== *)
theory Spinlock
  imports Machine
begin

text \<open>
  \<^verbatim>\<open>kernel/src/OS/OSSpinlock.c\<close>. Three views: the operations on one processor, as the other
  components call them; the lock word shared by several processors, as a step relation over the
  exchanges and reads of \<open>OSSpinlockLock\<close>; and one processor with an interrupt handler that takes
  the same lock.
\<close>

section \<open>Operations\<close>

record OSSpinlock =
  lockValue :: UInt32

record OSSpinlockState =
  interruptsEnabled :: bool

lemma lockValue_update [simp]: "(l :: OSSpinlock)\<lparr>lockValue := v\<rparr> = \<lparr>lockValue = v\<rparr>"
  by (cases l) simp

text \<open>
  On one processor with nobody else to release it, spinning on a held lock never ends.
\<close>

definition OSSpinlockLock :: "OSSpinlock \<Rightarrow> fault + OSSpinlock" where
  "OSSpinlockLock lock = (if lockValue lock \<noteq> 0 then Inl Diverges else Inr (lock\<lparr>lockValue := 1\<rparr>))"

definition OSSpinlockUnlock :: "OSSpinlock \<Rightarrow> OSSpinlock" where
  "OSSpinlockUnlock lock = lock\<lparr>lockValue := 0\<rparr>"

text \<open>The interrupt flag comes in, and goes out with the lock and the saved state.\<close>

definition OSSpinlockLockIRQ ::
  "OSSpinlock \<Rightarrow> bool \<Rightarrow> fault + OSSpinlock \<times> bool \<times> OSSpinlockState" where
  "OSSpinlockLockIRQ lock flag =
     bindE (OSSpinlockLock lock) (\<lambda>lock'. Inr (lock', False, \<lparr>interruptsEnabled = flag\<rparr>))"

definition OSSpinlockUnlockIRQ ::
  "OSSpinlock \<Rightarrow> bool \<Rightarrow> OSSpinlockState \<Rightarrow> OSSpinlock \<times> bool" where
  "OSSpinlockUnlockIRQ lock flag state =
     (OSSpinlockUnlock lock, if interruptsEnabled state then True else flag)"

abbreviation lock_free :: "OSSpinlock \<Rightarrow> bool" where
  "lock_free lock \<equiv> lockValue lock = 0"

section \<open>Critical sections\<close>

text \<open>
  The shape of every locked operation of the kernel: \<^verbatim>\<open>OSSpinlockLockIRQ(&lock, &state)\<close>, the
  body, \<^verbatim>\<open>OSSpinlockUnlockIRQ(&lock, &state)\<close> before each return. \<open>get\<close> and \<open>put\<close> say which
  lock of the state it is.
\<close>

definition with_spinlock ::
  "('a machine_scheme \<Rightarrow> OSSpinlock) \<Rightarrow> (OSSpinlock \<Rightarrow> 'a machine_scheme \<Rightarrow> 'a machine_scheme) \<Rightarrow>
   ('a machine_scheme \<Rightarrow> fault + 'r \<times> 'a machine_scheme) \<Rightarrow>
   'a machine_scheme \<Rightarrow> fault + 'r \<times> 'a machine_scheme" where
  "with_spinlock get put body s =
     bindE (OSSpinlockLockIRQ (get s) (interruptFlag s)) (\<lambda>(lock, flag, state).
       bindE (body (put lock (s\<lparr>interruptFlag := flag\<rparr>))) (\<lambda>(r, s').
         let (lock', flag') = OSSpinlockUnlockIRQ (get s') (interruptFlag s') state
         in Inr (r, put lock' (s'\<lparr>interruptFlag := flag'\<rparr>))))"

text \<open>What a lock field of the kernel state provides, and what a critical section over it does.\<close>

locale lock_field =
  fixes get :: "'a machine_scheme \<Rightarrow> OSSpinlock"
    and put :: "OSSpinlock \<Rightarrow> 'a machine_scheme \<Rightarrow> 'a machine_scheme"
  assumes get_put: "get (put l s) = l"
    and flag_put: "interruptFlag (put l s) = interruptFlag s"
    and get_flag: "get (s\<lparr>interruptFlag := b\<rparr>) = get s"
begin

lemma section_eq:
  assumes "lock_free (get s)"
  shows "with_spinlock get put body s =
    bindE (body (put \<lparr>lockValue = 1\<rparr> (s\<lparr>interruptFlag := False\<rparr>))) (\<lambda>(r, s').
      Inr (r, put \<lparr>lockValue = 0\<rparr> (s'\<lparr>interruptFlag := (interruptFlag s \<or> interruptFlag s')\<rparr>)))"
proof -
  have "(if a then True else b) = (a \<or> b)" for a b by simp
  then show ?thesis
    using assms
    by (simp add: with_spinlock_def OSSpinlockLockIRQ_def OSSpinlockLock_def OSSpinlockUnlockIRQ_def
        OSSpinlockUnlock_def Let_def split_def)
qed

lemma section_deadlock: "\<not> lock_free (get s) \<Longrightarrow> with_spinlock get put body s = Inl Diverges"
  by (simp add: with_spinlock_def OSSpinlockLockIRQ_def OSSpinlockLock_def)

lemma section_Inr:
  "with_spinlock get put body s = Inr (r, t) \<longleftrightarrow>
     lock_free (get s) \<and>
     (\<exists>s'. body (put \<lparr>lockValue = 1\<rparr> (s\<lparr>interruptFlag := False\<rparr>)) = Inr (r, s') \<and>
       t = put \<lparr>lockValue = 0\<rparr> (s'\<lparr>interruptFlag := (interruptFlag s \<or> interruptFlag s')\<rparr>))"
  by (cases "lock_free (get s)") (auto simp: section_eq section_deadlock bindE_eq_Inr)

text \<open>A finished critical section leaves the lock free, and the interrupt flag as it was.\<close>

lemma section_restores:
  assumes "with_spinlock get put body s = Inr (r, t)"
    and "\<And>s0 r s'. body s0 = Inr (r, s') \<Longrightarrow> interruptFlag s' = interruptFlag s0"
  shows "lock_free (get t) \<and> interruptFlag t = interruptFlag s"
  using assms by (auto simp: section_Inr get_put flag_put)

end

section \<open>Several processors\<close>

text \<open>
  The program counter of a processor in \<open>OSSpinlockLock\<close>: about to do the atomic exchange, or in
  the inner loop that only reads the lock word.
\<close>

datatype lock_pc = Outside | Exchanging | Spinning | Holding

record lock_system =
  word :: OSSpinlock
  pcs :: "nat \<Rightarrow> lock_pc"

inductive lock_step :: "lock_system \<Rightarrow> lock_system \<Rightarrow> bool" where
  call_lock: "pcs s i = Outside \<Longrightarrow> lock_step s (s\<lparr>pcs := (pcs s)(i := Exchanging)\<rparr>)"
| exchange: "pcs s i = Exchanging \<Longrightarrow>
    lock_step s (s\<lparr>word := (word s)\<lparr>lockValue := 1\<rparr>,
      pcs := (pcs s)(i := (if lockValue (word s) \<noteq> 0 then Spinning else Holding))\<rparr>)"
| pause: "pcs s i = Spinning \<Longrightarrow> lockValue (word s) \<noteq> 0 \<Longrightarrow> lock_step s s"
| retry: "pcs s i = Spinning \<Longrightarrow> lockValue (word s) = 0 \<Longrightarrow>
    lock_step s (s\<lparr>pcs := (pcs s)(i := Exchanging)\<rparr>)"
| unlock: "pcs s i = Holding \<Longrightarrow>
    lock_step s (s\<lparr>word := OSSpinlockUnlock (word s), pcs := (pcs s)(i := Outside)\<rparr>)"

inductive lock_reachable :: "lock_system \<Rightarrow> bool" where
  initial: "lock_reachable \<lparr>word = \<lparr>lockValue = 0\<rparr>, pcs = (\<lambda>_. Outside)\<rparr>"
| step: "lock_reachable s \<Longrightarrow> lock_step s t \<Longrightarrow> lock_reachable t"

text \<open>The lock word is set exactly while some processor holds the lock, and then one does.\<close>

definition lock_inv :: "lock_system \<Rightarrow> bool" where
  "lock_inv s \<longleftrightarrow>
     (\<forall>i j. pcs s i = Holding \<longrightarrow> pcs s j = Holding \<longrightarrow> i = j) \<and>
     (lockValue (word s) \<noteq> 0 \<longleftrightarrow> (\<exists>i. pcs s i = Holding))"

lemma lock_step_inv: "lock_step s t \<Longrightarrow> lock_inv s \<Longrightarrow> lock_inv t"
proof (induction rule: lock_step.induct)
  case (unlock s i)
  then have "\<And>j. pcs s j = Holding \<Longrightarrow> j = i" by (auto simp: lock_inv_def)
  then show ?case by (auto simp: lock_inv_def OSSpinlockUnlock_def)
qed (force simp: lock_inv_def)+

lemma lock_reachable_inv: "lock_reachable s \<Longrightarrow> lock_inv s"
proof (induction rule: lock_reachable.induct)
  case (step s t)
  then show ?case by (blast intro: lock_step_inv)
qed (simp add: lock_inv_def)

text \<open>C17: The spinlock is mutually exclusive: however the exchanges, reads and releases of any number
  of processors interleave, at most one processor is past \<open>OSSpinlockLock\<close> at a time.\<close>

theorem spinlock_mutual_exclusion:
  assumes "lock_reachable s" "pcs s i = Holding" "pcs s j = Holding"
  shows "i = j"
  using lock_reachable_inv [OF assms(1)] assms(2,3) by (auto simp: lock_inv_def)

lemma spinlock_mutual_exclusion_witness:
  "\<exists>s. lock_reachable s \<and> (\<forall>j. pcs s j = Holding \<longrightarrow> 3 = j)"
proof -
  let ?s0 = "\<lparr>word = \<lparr>lockValue = 0\<rparr>, pcs = (\<lambda>_. Outside)\<rparr>"
  let ?s1 = "?s0\<lparr>pcs := (pcs ?s0)(3 := Exchanging)\<rparr>"
  let ?s2 = "?s1\<lparr>word := (word ?s1)\<lparr>lockValue := 1\<rparr>,
      pcs := (pcs ?s1)(3 := (if lockValue (word ?s1) \<noteq> 0 then Spinning else Holding))\<rparr>"
  have "lock_reachable ?s1" by (rule lock_reachable.step [OF initial call_lock]) simp
  then have s2: "lock_reachable ?s2" by (rule lock_reachable.step [OF _ exchange]) simp
  have "pcs ?s2 3 = Holding" by simp
  then have "\<forall>j. pcs ?s2 j = Holding \<longrightarrow> 3 = j" using spinlock_mutual_exclusion [OF s2] by blast
  with s2 show ?thesis by blast
qed

section \<open>One processor and its interrupt handler\<close>

text \<open>
  The thread takes the lock with \<open>OSSpinlockLockIRQ\<close>; a handler (the keyboard's, the timer's) runs
  when interrupts are enabled, takes the same lock with \<open>OSSpinlockLock\<close> and releases it before it
  returns. Outside its critical section the thread may also switch interrupts on and off.
\<close>

record irq_system =
  irqLock :: OSSpinlock
  irqFlag :: bool
  thread :: "OSSpinlockState option"

inductive irq_step :: "irq_system \<Rightarrow> irq_system \<Rightarrow> bool" where
  enter: "thread s = None \<Longrightarrow> OSSpinlockLockIRQ (irqLock s) (irqFlag s) = Inr (l, f, st) \<Longrightarrow>
    irq_step s (s\<lparr>irqLock := l, irqFlag := f, thread := Some st\<rparr>)"
| leave: "thread s = Some st \<Longrightarrow> OSSpinlockUnlockIRQ (irqLock s) (irqFlag s) st = (l, f) \<Longrightarrow>
    irq_step s (s\<lparr>irqLock := l, irqFlag := f, thread := None\<rparr>)"
| interrupt: "irqFlag s \<Longrightarrow> OSSpinlockLock (irqLock s) = Inr l \<Longrightarrow>
    irq_step s (s\<lparr>irqLock := OSSpinlockUnlock l\<rparr>)"
| sti_cli: "thread s = None \<Longrightarrow> irq_step s (s\<lparr>irqFlag := b\<rparr>)"

inductive irq_reachable :: "irq_system \<Rightarrow> bool" where
  initial: "irq_reachable \<lparr>irqLock = \<lparr>lockValue = 0\<rparr>, irqFlag = b, thread = None\<rparr>"
| step: "irq_reachable s \<Longrightarrow> irq_step s t \<Longrightarrow> irq_reachable t"

definition irq_inv :: "irq_system \<Rightarrow> bool" where
  "irq_inv s \<longleftrightarrow> (case thread s of None \<Rightarrow> lock_free (irqLock s) | Some _ \<Rightarrow> \<not> irqFlag s)"

lemma irq_step_inv: "irq_step s t \<Longrightarrow> irq_inv s \<Longrightarrow> irq_inv t"
  by (induction rule: irq_step.induct)
     (auto simp: irq_inv_def OSSpinlockLockIRQ_def OSSpinlockLock_def OSSpinlockUnlockIRQ_def
        OSSpinlockUnlock_def split: if_splits option.splits)

lemma irq_reachable_inv: "irq_reachable s \<Longrightarrow> irq_inv s"
proof (induction rule: irq_reachable.induct)
  case (step s t)
  then show ?case by (blast intro: irq_step_inv)
qed (simp add: irq_inv_def)

text \<open>Because the thread takes the lock with interrupts disabled, an interrupt handler that takes the
  same lock never finds it held: in every reachable state in which an interrupt can be delivered,
  \<open>OSSpinlockLock\<close> returns at once.\<close>

theorem irq_handler_never_spins:
  assumes "irq_reachable s" "irqFlag s"
  shows "OSSpinlockLock (irqLock s) \<noteq> Inl Diverges"
  using irq_reachable_inv [OF assms(1)] assms(2)
  by (auto simp: irq_inv_def OSSpinlockLock_def split: option.splits)

lemma irq_handler_never_spins_witness:
  "OSSpinlockLock (irqLock \<lparr>irqLock = \<lparr>lockValue = 0\<rparr>, irqFlag = True, thread = None\<rparr>) \<noteq> Inl Diverges"
  using irq_handler_never_spins [OF irq_reachable.initial [of True]] by simp

end
