(* ===== verification/PhysicalMemory.thy ===== *)
theory PhysicalMemory
  imports Spinlock
begin

text \<open>
  The physical memory manager, \<^verbatim>\<open>kernel/src/VM/PMM.c\<close> and \<^verbatim>\<open>kernel/inc/VM/PMM.h\<close>: one bit per
  4 KiB frame. The bitmap object is the list of its bytes; its address is kept beside it, since
  initialisation has to reserve the frames it occupies.
\<close>

unbundle bit_operations_syntax

section \<open>Data\<close>

abbreviation kVMPageSize :: UInt64 where
  "kVMPageSize \<equiv> 4096"

abbreviation kVMSafeSpaceStartAddress :: UInt64 where
  "kVMSafeSpaceStartAddress \<equiv> 0x100000"

abbreviation kVMBlocksPerByte :: UInt64 where
  "kVMBlocksPerByte \<equiv> 8"

definition BITMAP_BYTE_INDEX :: "UInt64 \<Rightarrow> UInt64" where
  "BITMAP_BYTE_INDEX address = (address div kVMPageSize) div kVMBlocksPerByte"

definition BITMAP_BIT_OFFSET :: "UInt64 \<Rightarrow> UInt64" where
  "BITMAP_BIT_OFFSET address = (address div kVMPageSize) mod kVMBlocksPerByte"

definition BITMAP_SET :: "UInt8 list \<Rightarrow> UInt64 \<Rightarrow> fault + UInt8 list" where
  "BITMAP_SET bitmap address =
     (let i = unat (BITMAP_BYTE_INDEX address)
      in bindE (array_get bitmap i) (\<lambda>byte.
           array_set bitmap i (byte OR push_bit (unat (BITMAP_BIT_OFFSET address)) 1)))"

definition BITMAP_UNSET :: "UInt8 list \<Rightarrow> UInt64 \<Rightarrow> fault + UInt8 list" where
  "BITMAP_UNSET bitmap address =
     (let i = unat (BITMAP_BYTE_INDEX address)
      in bindE (array_get bitmap i) (\<lambda>byte.
           array_set bitmap i (byte AND NOT (push_bit (unat (BITMAP_BIT_OFFSET address)) 1))))"

record OSMemoryDescriptor =
  descriptorType :: UInt32
  padding :: UInt32
  physicalStart :: UInt64
  virtualStart :: UInt64
  pageCount :: UInt64
  attributes :: UInt64

datatype OSMemoryType =
    kOSMemoryTypeReserved
  | kOSMemoryTypeLoaderCode
  | kOSMemoryTypeLoaderData
  | kOSMemoryTypeBootServicesCode
  | kOSMemoryTypeBootServicesData
  | kOSMemoryTypeRuntimeServicesCode
  | kOSMemoryTypeRuntimeServicesData
  | kOSMemoryTypeConventional
  | kOSMemoryTypeUnusable
  | kOSMemoryTypeACPIReclaim
  | kOSMemoryTypeACPINonVolatile
  | kOSMemoryTypeMappedIO
  | kOSMemoryTypeMappedIOPortSpace
  | kOSMemoryTypePalCode
  | kOSMemoryTypePersistent
  | kOSMemoryTypeMax

text \<open>The value the C enumeration gives each constant.\<close>

fun OSMemoryTypeValue :: "OSMemoryType \<Rightarrow> UInt32" where
  "OSMemoryTypeValue kOSMemoryTypeReserved = 0"
| "OSMemoryTypeValue kOSMemoryTypeLoaderCode = 1"
| "OSMemoryTypeValue kOSMemoryTypeLoaderData = 2"
| "OSMemoryTypeValue kOSMemoryTypeBootServicesCode = 3"
| "OSMemoryTypeValue kOSMemoryTypeBootServicesData = 4"
| "OSMemoryTypeValue kOSMemoryTypeRuntimeServicesCode = 5"
| "OSMemoryTypeValue kOSMemoryTypeRuntimeServicesData = 6"
| "OSMemoryTypeValue kOSMemoryTypeConventional = 7"
| "OSMemoryTypeValue kOSMemoryTypeUnusable = 8"
| "OSMemoryTypeValue kOSMemoryTypeACPIReclaim = 9"
| "OSMemoryTypeValue kOSMemoryTypeACPINonVolatile = 10"
| "OSMemoryTypeValue kOSMemoryTypeMappedIO = 11"
| "OSMemoryTypeValue kOSMemoryTypeMappedIOPortSpace = 12"
| "OSMemoryTypeValue kOSMemoryTypePalCode = 13"
| "OSMemoryTypeValue kOSMemoryTypePersistent = 14"
| "OSMemoryTypeValue kOSMemoryTypeMax = 15"

text \<open>The boot loader's memory map; \<open>map\<close> is read in strides of \<open>descriptorSize\<close> bytes.\<close>

record BIMemoryMap =
  memoryDescriptors :: "OSMemoryDescriptor list"
  mapSize :: UInt64
  descriptorSize :: UInt64
  mapKey :: UInt32
  descriptorVersion :: UInt32

record pmm = machine +
  gVMPhycalMemoryBitmapAddress :: UInt64
  gVMPhycalMemoryBitmap :: "UInt8 list"
  gVMPhycalMemoryBitmapSize :: UInt64
  gVMPhycalMemoryTotalMemorySize :: UInt64
  sVMPMMLock :: OSSpinlock

abbreviation with_pmm_lock where
  "with_pmm_lock \<equiv> with_spinlock sVMPMMLock (\<lambda>l s. s\<lparr>sVMPMMLock := l\<rparr>)"

interpretation pmm_lock: lock_field sVMPMMLock "\<lambda>l s. s\<lparr>sVMPMMLock := l\<rparr>"
  by unfold_locales simp_all

section \<open>Allocation\<close>

definition VMPhysicalMemoryGetTotalMemorySize :: "'a pmm_scheme \<Rightarrow> UInt64" where
  "VMPhysicalMemoryGetTotalMemorySize s = gVMPhycalMemoryTotalMemorySize s"

text \<open>The scan over the bytes of the bitmap, and over the bits of the first byte that is not full.\<close>

function sVMPhysicalMemoryScan :: "UInt8 list \<Rightarrow> UInt64 \<Rightarrow> UInt64 \<Rightarrow> fault + UInt64 option" where
  "sVMPhysicalMemoryScan bitmap bytes i =
     (if i < bytes
      then bindE (array_get bitmap (unat i)) (\<lambda>byte.
             if byte = 0xFF then sVMPhysicalMemoryScan bitmap bytes (i + 1)
             else case List.find (\<lambda>k. byte AND push_bit k 1 = 0) [0..<8] of
                    Some k \<Rightarrow> Inr (Some ((i * 8 + of_nat k) * kVMPageSize))
                  | None \<Rightarrow> sVMPhysicalMemoryScan bitmap bytes (i + 1))
      else Inr None)"
  by pat_completeness auto
termination
proof (relation "measure (\<lambda>(bitmap, bytes, i). unat bytes - unat i)")
  have smaller: "((bitmap, bytes, i + 1), bitmap, bytes, i) \<in> measure (\<lambda>(bitmap, bytes, i). unat bytes - unat i)"
    if "i < bytes" for bitmap :: "UInt8 list" and i bytes :: UInt64
    using unat_Suc_below [OF that] that by (simp add: word_less_nat_alt)
  show "((bitmap, bytes, i + 1), bitmap, bytes, i) \<in> measure (\<lambda>(bitmap, bytes, i). unat bytes - unat i)"
    if "i < bytes" for bitmap :: "UInt8 list" and i bytes :: UInt64
    by (rule smaller [OF that])
  show "((bitmap, bytes, i + 1), bitmap, bytes, i) \<in> measure (\<lambda>(bitmap, bytes, i). unat bytes - unat i)"
    if "i < bytes" for bitmap :: "UInt8 list" and i bytes :: UInt64
    by (rule smaller [OF that])
qed simp

declare sVMPhysicalMemoryScan.simps [simp del]

definition VMPhysicalMemoryAllocatePage :: "'a pmm_scheme \<Rightarrow> fault + UInt64 \<times> 'a pmm_scheme" where
  "VMPhysicalMemoryAllocatePage = with_pmm_lock (\<lambda>s.
     bindE (sVMPhysicalMemoryScan (gVMPhycalMemoryBitmap s) (gVMPhycalMemoryBitmapSize s) 0) (\<lambda>r.
       case r of
         None \<Rightarrow> Inr (0, s)
       | Some address \<Rightarrow> bindE (BITMAP_SET (gVMPhycalMemoryBitmap s) address) (\<lambda>bitmap.
           Inr (address, s\<lparr>gVMPhycalMemoryBitmap := bitmap\<rparr>))))"

definition VMPhysicalMemoryFreePage :: "UInt64 \<Rightarrow> 'a pmm_scheme \<Rightarrow> fault + unit \<times> 'a pmm_scheme" where
  "VMPhysicalMemoryFreePage address = with_pmm_lock (\<lambda>s.
     bindE (BITMAP_UNSET (gVMPhycalMemoryBitmap s) address) (\<lambda>bitmap.
       Inr ((), s\<lparr>gVMPhycalMemoryBitmap := bitmap\<rparr>)))"

section \<open>Initialisation\<close>

abbreviation KERNEL_VMA :: UInt64 where
  "KERNEL_VMA \<equiv> 0xFFFFFFFF80000000"

definition KERNEL_VIRT_TO_PHYS :: "UInt64 \<Rightarrow> UInt64" where
  "KERNEL_VIRT_TO_PHYS virt = virt - KERNEL_VMA"

text \<open>The descriptors the loops visit: \<^verbatim>\<open>mapSize / descriptorSize\<close> of them.\<close>

definition memory_map_descriptors :: "BIMemoryMap \<Rightarrow> fault + OSMemoryDescriptor list" where
  "memory_map_descriptors memoryMap =
     (if descriptorSize memoryMap = 0 then Inl DivideError
      else let descriptorCount = unat (mapSize memoryMap div descriptorSize memoryMap)
           in if descriptorCount \<le> length (memoryDescriptors memoryMap)
              then Inr (take descriptorCount (memoryDescriptors memoryMap)) else Inl OutOfBounds)"

abbreviation has_type :: "OSMemoryDescriptor \<Rightarrow> OSMemoryType \<Rightarrow> bool" where
  "has_type descriptor t \<equiv> descriptorType descriptor = OSMemoryTypeValue t"

fun sVMMaxPhysicalAddress :: "OSMemoryDescriptor list \<Rightarrow> UInt64 \<Rightarrow> UInt64" where
  "sVMMaxPhysicalAddress [] maxPhysicalAddress = maxPhysicalAddress"
| "sVMMaxPhysicalAddress (descriptor # ds) maxPhysicalAddress =
     (if has_type descriptor kOSMemoryTypeMappedIO \<or>
         has_type descriptor kOSMemoryTypeMappedIOPortSpace \<or>
         has_type descriptor kOSMemoryTypeUnusable \<or>
         has_type descriptor kOSMemoryTypeReserved \<or>
         has_type descriptor kOSMemoryTypePalCode
      then sVMMaxPhysicalAddress ds maxPhysicalAddress
      else let nominee = physicalStart descriptor + pageCount descriptor * kVMPageSize
           in sVMMaxPhysicalAddress ds
                (if nominee > maxPhysicalAddress then nominee else maxPhysicalAddress))"

definition sVMBitmapHost :: "OSMemoryDescriptor list \<Rightarrow> UInt64 \<Rightarrow> OSMemoryDescriptor option" where
  "sVMBitmapHost ds bitmapSize = List.find (\<lambda>descriptor.
     has_type descriptor kOSMemoryTypeConventional \<and>
     pageCount descriptor * kVMPageSize \<ge> bitmapSize \<and>
     physicalStart descriptor \<ge> kVMSafeSpaceStartAddress) ds"

abbreviation mark_range where
  "mark_range op start limit \<equiv> for_range start limit kVMPageSize (\<lambda>addr bitmap. op bitmap addr)"

fun sVMReleaseConventional :: "OSMemoryDescriptor list \<Rightarrow> UInt8 list \<Rightarrow> fault + UInt8 list" where
  "sVMReleaseConventional [] bitmap = Inr bitmap"
| "sVMReleaseConventional (descriptor # ds) bitmap =
     (if \<not> has_type descriptor kOSMemoryTypeConventional then sVMReleaseConventional ds bitmap
      else let startAddress = physicalStart descriptor;
               endAddress = startAddress + pageCount descriptor * kVMPageSize
           in bindE (mark_range BITMAP_UNSET startAddress endAddress bitmap) (sVMReleaseConventional ds))"

text \<open>\<open>_kernel_start\<close> and \<open>_kernel_end\<close> are the linker script's symbols.\<close>

definition VMPhysicalMemoryInitialize ::
  "UInt64 \<Rightarrow> UInt64 \<Rightarrow> BIMemoryMap \<Rightarrow> 'a pmm_scheme \<Rightarrow> fault + 'a pmm_scheme" where
  "VMPhysicalMemoryInitialize kernel_start kernel_end memoryMap s =
     bindE (memory_map_descriptors memoryMap) (\<lambda>ds.
       let maxPhysicalAddress = sVMMaxPhysicalAddress ds 0;
           totalPageCount = maxPhysicalAddress div kVMPageSize;
           bitmapSize = (totalPageCount + 7) div 8
       in case sVMBitmapHost ds bitmapSize of
            None \<Rightarrow> Inl (Panic ''PMM: Not enough RAM for memory bitmap!'')
          | Some host \<Rightarrow>
              let bitmapStart = physicalStart host;
                  bitmapEnd = bitmapStart + bitmapSize;
                  kernelStart = KERNEL_VIRT_TO_PHYS kernel_start;
                  kernelEnd = KERNEL_VIRT_TO_PHYS kernel_end
              in bindE (sVMReleaseConventional ds (replicate (unat bitmapSize) 0xFF)) (\<lambda>bitmap.
                 bindE (mark_range BITMAP_SET 0 kVMSafeSpaceStartAddress bitmap) (\<lambda>bitmap.
                 bindE (mark_range BITMAP_SET kernelStart kernelEnd bitmap) (\<lambda>bitmap.
                 bindE (mark_range BITMAP_SET bitmapStart bitmapEnd bitmap) (\<lambda>bitmap.
                   Inr (s\<lparr>gVMPhycalMemoryTotalMemorySize := maxPhysicalAddress,
                          gVMPhycalMemoryBitmapAddress := bitmapStart,
                          gVMPhycalMemoryBitmapSize := bitmapSize,
                          gVMPhycalMemoryBitmap := bitmap\<rparr>))))))"

section \<open>The bitmap as a set of free frames\<close>

definition page_of :: "UInt64 \<Rightarrow> nat" where
  "page_of address = unat address div 4096"

definition page_used :: "UInt8 list \<Rightarrow> nat \<Rightarrow> bool" where
  "page_used bitmap p \<longleftrightarrow> bit (bitmap ! (p div 8)) (p mod 8)"

lemma bitmap_index [simp]:
  "unat (BITMAP_BYTE_INDEX a) = page_of a div 8" "unat (BITMAP_BIT_OFFSET a) = page_of a mod 8"
  by (simp_all add: BITMAP_BYTE_INDEX_def BITMAP_BIT_OFFSET_def page_of_def unat_div unat_mod)

lemma byte_bound: "p div 8 < n \<longleftrightarrow> p < 8 * (n :: nat)"
  by auto

lemma BITMAP_SET_Inr [err_simps]:
  "BITMAP_SET bm a = Inr bm' \<longleftrightarrow> page_of a < 8 * length bm \<and>
     bm' = bm[page_of a div 8 := bm ! (page_of a div 8) OR push_bit (page_of a mod 8) 1]"
  by (auto simp: BITMAP_SET_def Let_def err_simps byte_bound)

lemma BITMAP_UNSET_Inr [err_simps]:
  "BITMAP_UNSET bm a = Inr bm' \<longleftrightarrow> page_of a < 8 * length bm \<and>
     bm' = bm[page_of a div 8 := bm ! (page_of a div 8) AND NOT (push_bit (page_of a mod 8) 1)]"
  by (auto simp: BITMAP_UNSET_def Let_def err_simps byte_bound)

lemma bit_position: "p div 8 = q div 8 \<Longrightarrow> p mod 8 = q mod 8 \<longleftrightarrow> p = (q :: nat)"
  by (metis div_mult_mod_eq)

lemma bit_shifted_one: "j < 8 \<Longrightarrow> i < 8 \<Longrightarrow> bit (2 ^ i :: UInt8) j \<longleftrightarrow> i = j"
  by (auto simp: bit_simps)

lemma BITMAP_SET_effect:
  assumes "page_of a < 8 * length bm"
  shows "\<exists>bm'. BITMAP_SET bm a = Inr bm' \<and> length bm' = length bm \<and>
    (\<forall>p < 8 * length bm. page_used bm' p \<longleftrightarrow> p = page_of a \<or> page_used bm p)"
proof -
  have "page_used (bm[page_of a div 8 := bm ! (page_of a div 8) OR push_bit (page_of a mod 8) 1]) p
      \<longleftrightarrow> p = page_of a \<or> page_used bm p" if "p < 8 * length bm" for p
    using that assms bit_position [of "page_of a" p]
    by (auto simp: page_used_def nth_list_update bit_or_iff bit_shifted_one byte_bound)
  then show ?thesis using assms by (simp add: BITMAP_SET_Inr)
qed

lemma BITMAP_UNSET_effect:
  assumes "page_of a < 8 * length bm"
  shows "\<exists>bm'. BITMAP_UNSET bm a = Inr bm' \<and> length bm' = length bm \<and>
    (\<forall>p < 8 * length bm. page_used bm' p \<longleftrightarrow> p \<noteq> page_of a \<and> page_used bm p)"
proof -
  have "page_used (bm[page_of a div 8 := bm ! (page_of a div 8) AND NOT (push_bit (page_of a mod 8) 1)]) p
      \<longleftrightarrow> p \<noteq> page_of a \<and> page_used bm p" if "p < 8 * length bm" for p
    using that assms bit_position [of "page_of a" p]
    by (auto simp: page_used_def nth_list_update bit_and_iff bit_not_iff bit_shifted_one byte_bound)
  then show ?thesis using assms by (simp add: BITMAP_UNSET_Inr)
qed

lemma clear_bit_search:
  "(case List.find (\<lambda>k. (b :: UInt8) AND push_bit k 1 = 0) [0..<8] of
      None \<Rightarrow> \<forall>k<8. bit b k
    | Some k \<Rightarrow> k < 8 \<and> \<not> bit b k \<and> (\<forall>j<k. bit b j))"
  by (auto split: option.splits simp: find_None_iff find_Some_iff bit_iff_and_push_bit_not_eq_0)


text \<open>The set of free frames is the abstract state of the manager.\<close>

definition bitmap_free :: "UInt8 list \<Rightarrow> nat set" where
  "bitmap_free bitmap = {p. p < 8 * length bitmap \<and> \<not> page_used bitmap p}"

definition frame_address :: "nat \<Rightarrow> UInt64" where
  "frame_address p = of_nat p * kVMPageSize"

lemma unat_frame_address: "p < 2 ^ 52 \<Longrightarrow> unat (frame_address p) = p * 4096"
  by (simp add: frame_address_def unat_word_ariths unat_of_nat)

lemma page_of_frame_address [simp]: "p < 2 ^ 52 \<Longrightarrow> page_of (frame_address p) = p"
  by (simp add: page_of_def unat_frame_address)

lemma byte_full: "(b :: UInt8) = 0xFF \<longleftrightarrow> (\<forall>k<8. bit b k)"
proof
  assume "\<forall>k<8. bit b k"
  then have "b = - 1" by (auto intro!: bit_word_eqI)
  then show "b = 0xFF" by simp
next
  assume "b = 0xFF"
  then have "b = - 1" by simp
  then show "\<forall>k<8. bit b k" by simp
qed

text \<open>The scan returns the least free frame from byte \<open>i\<close> on.\<close>

lemma scan_effect:
  assumes "length bm = unat bytes" "8 * unat bytes \<le> 2 ^ 40"
  shows "case sVMPhysicalMemoryScan bm bytes i of
      Inl e \<Rightarrow> False
    | Inr None \<Rightarrow> \<forall>p. 8 * unat i \<le> p \<longrightarrow> p \<notin> bitmap_free bm
    | Inr (Some a) \<Rightarrow> \<exists>p \<in> bitmap_free bm. a = frame_address p \<and> 8 * unat i \<le> p \<and>
        (\<forall>q \<in> bitmap_free bm. 8 * unat i \<le> q \<longrightarrow> p \<le> q)"
  using assms
proof (induction bm bytes i rule: sVMPhysicalMemoryScan.induct)
  case (1 bm bytes i)
  show ?case
  proof (cases "i < bytes")
    case False
    then have "sVMPhysicalMemoryScan bm bytes i = Inr None"
      by (subst sVMPhysicalMemoryScan.simps) simp
    with False "1.prems" show ?thesis
      by (auto simp: bitmap_free_def not_less word_le_nat_alt)
  next
    case True
    then have i: "unat i < length bm" "unat (i + 1) = Suc (unat i)"
      using "1.prems" by (auto simp: word_less_nat_alt unat_Suc_below)
    let ?b = "bm ! unat i"
    have used: "page_used bm (8 * unat i + k) \<longleftrightarrow> bit ?b k" if "k < 8" for k
      using that by (simp add: page_used_def)
    show ?thesis
    proof (cases "\<forall>k<8. bit ?b k")
      case full: True
      then have "?b = 0xFF" by (simp add: byte_full)
      moreover have "p \<notin> bitmap_free bm" if "8 * unat i \<le> p" "p < 8 * unat (i + 1)" for p
        using used [of "p - 8 * unat i"] full that i(2) by (auto simp: bitmap_free_def)
      then have "8 * unat i \<le> p \<longleftrightarrow> 8 * unat (i + 1) \<le> p" if "p \<in> bitmap_free bm" for p
        using that i(2) by (metis leD le_add2 le_trans mult_Suc_right not_le)
      ultimately show ?thesis
        using "1.IH"(1) [OF True _ _ "1.prems"] i True
        by (subst sVMPhysicalMemoryScan.simps)
           (auto simp: array_get_def split: sum.splits option.splits)
    next
      case False
      then have nf: "?b \<noteq> 0xFF" by (simp add: byte_full)
      from clear_bit_search [of ?b] False
      obtain k where k: "List.find (\<lambda>k. ?b AND push_bit k 1 = 0) [0..<8] = Some k" "k < 8"
        "\<not> bit ?b k" "\<forall>j<k. bit ?b j"
        by (auto split: option.splits)
      let ?p = "8 * unat i + k"
      have "(i * 8 + of_nat k) * kVMPageSize = frame_address ?p"
        by (simp add: frame_address_def algebra_simps)
      then have "sVMPhysicalMemoryScan bm bytes i = Inr (Some (frame_address ?p))"
        using True nf k(1) i(1) by (subst sVMPhysicalMemoryScan.simps) (simp add: array_get_def)
      moreover have "?p \<in> bitmap_free bm"
        using used [OF k(2)] k(2,3) i(1) by (simp add: bitmap_free_def)
      moreover have "?p \<le> q" if "q \<in> bitmap_free bm" "8 * unat i \<le> q" for q
      proof (rule ccontr)
        assume "\<not> ?p \<le> q"
        with that(2) have "q - 8 * unat i < k" by arith
        with that k(2,4) used [of "q - 8 * unat i"] show False by (simp add: bitmap_free_def)
      qed
      ultimately show ?thesis by auto
    qed
  qed
qed


definition free_frames :: "'a pmm_scheme \<Rightarrow> nat set" where
  "free_frames s = bitmap_free (gVMPhycalMemoryBitmap s)"

definition pmm_inv :: "'a pmm_scheme \<Rightarrow> bool" where
  "pmm_inv s \<longleftrightarrow> length (gVMPhycalMemoryBitmap s) = unat (gVMPhycalMemoryBitmapSize s) \<and>
     8 * unat (gVMPhycalMemoryBitmapSize s) \<le> 2 ^ 40 \<and> 0 \<notin> free_frames s \<and> lock_free (sVMPMMLock s)"

lemma free_frames_bound: "pmm_inv s \<Longrightarrow> p \<in> free_frames s \<Longrightarrow> p < 2 ^ 40"
  by (auto simp: pmm_inv_def free_frames_def bitmap_free_def)

lemma finite_free_frames [simp]: "finite (free_frames s)"
  by (simp add: free_frames_def bitmap_free_def)

text \<open>
  Allocation takes the least free frame, or returns null and changes nothing when there is none;
  nothing but the bitmap changes, lock and interrupt flag included.
\<close>

lemma AllocatePage_exhausted:
  assumes "pmm_inv s" "free_frames s = {}"
  shows "VMPhysicalMemoryAllocatePage s = Inr (0, s)"
proof -
  have "sVMPhysicalMemoryScan (gVMPhycalMemoryBitmap s) (gVMPhycalMemoryBitmapSize s) 0 = Inr None"
    using scan_effect [of "gVMPhycalMemoryBitmap s" "gVMPhycalMemoryBitmapSize s" 0] assms
    by (auto simp: pmm_inv_def free_frames_def split: sum.splits option.splits)
  with assms(1) show ?thesis
    by (cases "sVMPMMLock s") (auto simp: VMPhysicalMemoryAllocatePage_def pmm_lock.section_eq pmm_inv_def)
qed

lemma AllocatePage_takes_least:
  assumes inv: "pmm_inv s" and some: "free_frames s \<noteq> {}"
  shows "\<exists>bm. VMPhysicalMemoryAllocatePage s
      = Inr (frame_address (Min (free_frames s)), s\<lparr>gVMPhycalMemoryBitmap := bm\<rparr>)
    \<and> length bm = length (gVMPhycalMemoryBitmap s) \<and> bitmap_free bm = free_frames s - {Min (free_frames s)}"
proof -
  let ?bm = "gVMPhycalMemoryBitmap s"
  have "\<exists>p \<in> free_frames s. sVMPhysicalMemoryScan ?bm (gVMPhycalMemoryBitmapSize s) 0 = Inr (Some (frame_address p))
      \<and> (\<forall>q \<in> free_frames s. p \<le> q)"
    using scan_effect [of ?bm "gVMPhycalMemoryBitmapSize s" 0] inv some
    by (force simp: pmm_inv_def free_frames_def split: sum.splits option.splits)
  then obtain p where p: "p \<in> free_frames s" "\<forall>q \<in> free_frames s. p \<le> q"
    "sVMPhysicalMemoryScan ?bm (gVMPhycalMemoryBitmapSize s) 0 = Inr (Some (frame_address p))"
    by blast
  then have min: "Min (free_frames s) = p" by (auto intro!: Min_eqI)
  have page: "page_of (frame_address p) = p"
    using free_frames_bound [OF inv p(1)] by simp
  have "page_of (frame_address p) < 8 * length ?bm"
    using p(1) page by (simp add: free_frames_def bitmap_free_def)
  from BITMAP_SET_effect [OF this] obtain bm where bm: "BITMAP_SET ?bm (frame_address p) = Inr bm"
    "length bm = length ?bm" "\<forall>q < 8 * length ?bm. page_used bm q \<longleftrightarrow> q = p \<or> page_used ?bm q"
    unfolding page by blast
  have "VMPhysicalMemoryAllocatePage s = Inr (frame_address p, s\<lparr>gVMPhycalMemoryBitmap := bm\<rparr>)"
    using inv p(3) bm(1)
    by (cases "sVMPMMLock s") (simp add: VMPhysicalMemoryAllocatePage_def pmm_lock.section_eq pmm_inv_def)
  moreover have "bitmap_free bm = free_frames s - {p}"
    using bm(2,3) by (auto simp: bitmap_free_def free_frames_def)
  ultimately show ?thesis using min bm(2) by blast
qed

lemma FreePage_releases:
  assumes inv: "pmm_inv s" and a: "page_of address < 8 * length (gVMPhycalMemoryBitmap s)"
  shows "\<exists>bm. VMPhysicalMemoryFreePage address s = Inr ((), s\<lparr>gVMPhycalMemoryBitmap := bm\<rparr>)
    \<and> length bm = length (gVMPhycalMemoryBitmap s) \<and> bitmap_free bm = insert (page_of address) (free_frames s)"
proof -
  from BITMAP_UNSET_effect [OF a] obtain bm where bm: "BITMAP_UNSET (gVMPhycalMemoryBitmap s) address = Inr bm"
    "length bm = length (gVMPhycalMemoryBitmap s)"
    "\<forall>q < 8 * length (gVMPhycalMemoryBitmap s). page_used bm q \<longleftrightarrow> q \<noteq> page_of address \<and> page_used (gVMPhycalMemoryBitmap s) q"
    by blast
  then have "bitmap_free bm = insert (page_of address) (free_frames s)"
    using a by (auto simp: bitmap_free_def free_frames_def)
  moreover have "VMPhysicalMemoryFreePage address s = Inr ((), s\<lparr>gVMPhycalMemoryBitmap := bm\<rparr>)"
    using inv bm(1)
    by (cases "sVMPMMLock s") (simp add: VMPhysicalMemoryFreePage_def pmm_lock.section_eq pmm_inv_def)
  ultimately show ?thesis using bm(2) by blast
qed


section \<open>The allocator interface\<close>

text \<open>
  What the rest of the kernel relies on: an operation that hands out a frame nobody holds, or null.
\<close>

fun allocate_list :: "('s \<Rightarrow> fault + UInt64 \<times> 's) \<Rightarrow> nat \<Rightarrow> 's \<Rightarrow> fault + UInt64 list \<times> 's" where
  "allocate_list alloc 0 s = Inr ([], s)"
| "allocate_list alloc (Suc n) s =
     bindE (alloc s) (\<lambda>(a, s'). bindE (allocate_list alloc n s') (\<lambda>(as, t). Inr (a # as, t)))"

locale frame_allocator =
  fixes alloc :: "'s \<Rightarrow> fault + UInt64 \<times> 's"
    and avail :: "'s \<Rightarrow> nat set"
    and inv :: "'s \<Rightarrow> bool"
  assumes alloc_none: "inv s \<Longrightarrow> avail s = {} \<Longrightarrow> alloc s = Inr (0, s)"
    and alloc_some: "inv s \<Longrightarrow> avail s \<noteq> {} \<Longrightarrow>
      \<exists>p s'. p \<in> avail s \<and> alloc s = Inr (frame_address p, s') \<and> avail s' = avail s - {p} \<and> inv s'"
    and null_reserved: "inv s \<Longrightarrow> 0 \<notin> avail s"
    and avail_bound: "inv s \<Longrightarrow> p \<in> avail s \<Longrightarrow> p < 2 ^ 40"
    and avail_finite: "finite (avail s)"
begin

lemma alloc_null_iff:
  assumes "inv s" "alloc s = Inr (a, s')"
  shows "a = 0 \<longleftrightarrow> avail s = {}"
proof (cases "avail s = {}")
  case True
  with alloc_none [OF assms(1)] assms(2) show ?thesis by simp
next
  case False
  with alloc_some [OF assms(1)] assms(2) obtain p where p: "p \<in> avail s" "a = frame_address p" by auto
  with null_reserved [OF assms(1)] have "p \<noteq> 0" by metis
  moreover have "unat a = p * 4096"
    using p avail_bound [OF assms(1), of p] by (simp add: unat_frame_address)
  ultimately show ?thesis using False by (metis mult_is_0 unsigned_0 zero_neq_numeral)
qed

lemma alloc_fresh:
  assumes "inv s" "alloc s = Inr (a, s')"
  shows "inv s' \<and> (a \<noteq> 0 \<longrightarrow>
    (\<exists>p. p \<in> avail s \<and> p < 2 ^ 40 \<and> a = frame_address p \<and> avail s' = avail s - {p}))"
proof (cases "avail s = {}")
  case True
  with alloc_none [OF assms(1)] assms show ?thesis by simp
next
  case False
  with alloc_some [OF assms(1)] assms obtain p where
    "p \<in> avail s" "a = frame_address p" "avail s' = avail s - {p}" "inv s'" by auto
  with avail_bound [OF assms(1)] show ?thesis by blast
qed

lemma allocate_list_distinct:
  assumes "inv s" "n \<le> card (avail s)"
  shows "\<exists>ps t. allocate_list alloc n s = Inr (map frame_address ps, t) \<and> length ps = n \<and> distinct ps
    \<and> set ps \<subseteq> avail s \<and> avail t = avail s - set ps \<and> inv t"
  using assms
proof (induction n arbitrary: s)
  case 0
  then show ?case by (auto intro!: exI [of _ "[]"])
next
  case (Suc n)
  then have "avail s \<noteq> {}" by auto
  from alloc_some [OF Suc.prems(1) this] obtain p s' where p: "p \<in> avail s"
    "alloc s = Inr (frame_address p, s')" "avail s' = avail s - {p}" "inv s'"
    by blast
  have "n \<le> card (avail s')" using Suc.prems(2) p(1,3) avail_finite by simp
  from Suc.IH [OF p(4) this] obtain ps t where ps: "allocate_list alloc n s' = Inr (map frame_address ps, t)"
    "length ps = n" "distinct ps" "set ps \<subseteq> avail s'" "avail t = avail s' - set ps" "inv t"
    by blast
  then have "allocate_list alloc (Suc n) s = Inr (map frame_address (p # ps), t)" using p(2) by simp
  moreover have "distinct (p # ps)" "set (p # ps) \<subseteq> avail s" "avail t = avail s - set (p # ps)"
    using ps p by auto
  ultimately show ?case using ps(2,6) by (intro exI [of _ "p # ps"] exI [of _ t]) simp
qed

end

lemma free_frames_bitmap_update [simp]: "free_frames (s\<lparr>gVMPhycalMemoryBitmap := bm\<rparr>) = bitmap_free bm"
  by (simp add: free_frames_def)

interpretation pmm: frame_allocator VMPhysicalMemoryAllocatePage free_frames pmm_inv
proof
  fix s :: "'a pmm_scheme" and p
  assume inv: "pmm_inv s"
  show "free_frames s = {} \<Longrightarrow> VMPhysicalMemoryAllocatePage s = Inr (0, s)"
    by (rule AllocatePage_exhausted [OF inv])
  show "0 \<notin> free_frames s" using inv by (simp add: pmm_inv_def)
  show "p \<in> free_frames s \<Longrightarrow> p < 2 ^ 40" by (rule free_frames_bound [OF inv])
  assume some: "free_frames s \<noteq> {}"
  from AllocatePage_takes_least [OF inv this] obtain bm where bm:
    "VMPhysicalMemoryAllocatePage s = Inr (frame_address (Min (free_frames s)), s\<lparr>gVMPhycalMemoryBitmap := bm\<rparr>)"
    "length bm = length (gVMPhycalMemoryBitmap s)" "bitmap_free bm = free_frames s - {Min (free_frames s)}"
    by blast
  moreover from this inv have "pmm_inv (s\<lparr>gVMPhycalMemoryBitmap := bm\<rparr>)"
    by (simp add: pmm_inv_def)
  ultimately show "\<exists>p s'. p \<in> free_frames s \<and> VMPhysicalMemoryAllocatePage s = Inr (frame_address p, s')
      \<and> free_frames s' = free_frames s - {p} \<and> pmm_inv s'"
    using Min_in [OF finite_free_frames some]
    by (intro exI [of _ "Min (free_frames s)"] exI [of _ "s\<lparr>gVMPhycalMemoryBitmap := bm\<rparr>"]) simp
qed simp

section \<open>What initialisation leaves free\<close>

lemma mark_range_effect:
  fixes start limit :: UInt64
  assumes op: "\<And>b a. page_of a < 8 * length b \<Longrightarrow> \<exists>b'. op b a = Inr b' \<and> length b' = length b \<and>
      (\<forall>p < 8 * length b. page_used b' p \<longleftrightarrow> (if p = page_of a then v else page_used b p))"
    and start: "4096 dvd unat start"
    and limit: "unat limit \<le> 4096 * (8 * length bm)" and len: "8 * length bm \<le> 2 ^ 40"
  shows "\<exists>bm'. mark_range op start limit bm = Inr bm' \<and> length bm' = length bm \<and>
    (\<forall>p < 8 * length bm. page_used bm' p \<longleftrightarrow>
       (if unat start \<le> 4096 * p \<and> 4096 * p < unat limit then v else page_used bm p))"
proof -
  let ?I = "\<lambda>a b. length b = length bm \<and> 4096 dvd unat a \<and> (\<forall>p < 8 * length bm. page_used b p \<longleftrightarrow>
       (if unat start \<le> 4096 * p \<and> 4096 * p < unat a then v else page_used bm p))"
  have room: "unat limit + unat kVMPageSize \<le> 2 ^ 64" using limit len by simp
  have nat: "unat (a + kVMPageSize) = unat a + 4096" if "a < limit" for a
    using that room unat_add_lem [of a kVMPageSize] by (simp add: word_less_nat_alt)
  have step: "\<exists>b'. op b a = Inr b' \<and> ?I (a + kVMPageSize) b'"
    if "start \<le> a" "a < limit" "?I a b" for a b
  proof -
    from that(3) obtain k where k: "unat a = 4096 * k" by blast
    then have pa: "page_of a = k" by (simp add: page_of_def)
    have "k < 8 * length b" using that limit k by (simp add: word_less_nat_alt)
    from op [of a b] this obtain b' where b': "op b a = Inr b'" "length b' = length b"
      "\<forall>p < 8 * length b. page_used b' p \<longleftrightarrow> (if p = k then v else page_used b p)"
      unfolding pa by blast
    have "unat start \<le> 4096 * k" using that(1) k by (simp add: word_le_nat_alt)
    then have "?I (a + kVMPageSize) b'"
      using b' that k nat [OF that(2)] by auto
    with b'(1) show ?thesis by blast
  qed
  have init: "?I start bm" using start by auto
  have pos: "0 < kVMPageSize" by simp
  from for_range_total [where I = ?I and body = "\<lambda>a b. op b a", OF room pos init step]
  obtain bm' a where r: "mark_range op start limit bm = Inr bm'" "?I a bm'" "limit \<le> a"
    "a = start \<or> (\<exists>c. start \<le> c \<and> c < limit \<and> a = c + kVMPageSize)"
    by blast
  have "4096 * p < unat a \<longleftrightarrow> 4096 * p < unat limit" if "unat start \<le> 4096 * p" for p
    using r(4)
  proof
    assume "a = start"
    with r(3) that show ?thesis by (simp add: word_le_nat_alt)
  next
    assume "\<exists>c. start \<le> c \<and> c < limit \<and> a = c + kVMPageSize"
    then obtain c where c: "c < limit" "unat a = unat c + 4096" using nat by blast
    from r(2) c(2) obtain k where "unat a = 4096 * k" by blast
    moreover have "unat c < unat limit" "unat limit \<le> unat a"
      using c(1) r(3) by (simp_all add: word_less_nat_alt word_le_nat_alt)
    moreover have "4096 * p \<le> unat c" if "4096 * p < unat a"
    proof -
      have "p < k" using that \<open>unat a = 4096 * k\<close> by simp
      then have "4096 * Suc p \<le> 4096 * k" by (intro mult_le_mono2) simp
      with c(2) \<open>unat a = 4096 * k\<close> show ?thesis by simp
    qed
    ultimately show ?thesis by fastforce
  qed
  with r(1,2) show ?thesis by auto
qed

lemma BITMAP_UNSET_marks:
  "page_of a < 8 * length b \<Longrightarrow> \<exists>b'. BITMAP_UNSET b a = Inr b' \<and> length b' = length b \<and>
     (\<forall>p < 8 * length b. page_used b' p \<longleftrightarrow> (if p = page_of a then False else page_used b p))"
proof -
  have e: "(if c then False else x) = (\<not> c \<and> x)" for c x by simp
  show "page_of a < 8 * length b \<Longrightarrow> ?thesis"
    unfolding e by (rule BITMAP_UNSET_effect)
qed

lemma BITMAP_SET_marks:
  "page_of a < 8 * length b \<Longrightarrow> \<exists>b'. BITMAP_SET b a = Inr b' \<and> length b' = length b \<and>
     (\<forall>p < 8 * length b. page_used b' p \<longleftrightarrow> (if p = page_of a then True else page_used b p))"
proof -
  have e: "(if c then True else x) = (c \<or> x)" for c x by simp
  show "page_of a < 8 * length b \<Longrightarrow> ?thesis"
    unfolding e by (rule BITMAP_SET_effect)
qed

lemmas mark_range_UNSET = mark_range_effect [of BITMAP_UNSET False, OF BITMAP_UNSET_marks]
lemmas mark_range_SET = mark_range_effect [of BITMAP_SET True, OF BITMAP_SET_marks]

definition descriptor_covers :: "OSMemoryDescriptor \<Rightarrow> nat \<Rightarrow> bool" where
  "descriptor_covers d p \<longleftrightarrow> unat (physicalStart d) \<le> 4096 * p \<and>
     4096 * p < unat (physicalStart d) + 4096 * unat (pageCount d)"

text \<open>UEFI: descriptors are page aligned, and physical addresses have at most 52 bits.\<close>

definition descriptor_ok :: "OSMemoryDescriptor \<Rightarrow> bool" where
  "descriptor_ok d \<longleftrightarrow> 4096 dvd unat (physicalStart d) \<and>
     unat (physicalStart d) + 4096 * unat (pageCount d) \<le> 2 ^ 52"

abbreviation descriptor_end :: "OSMemoryDescriptor \<Rightarrow> UInt64" where
  "descriptor_end d \<equiv> physicalStart d + pageCount d * kVMPageSize"

lemma unat_page_bytes: "descriptor_ok d \<Longrightarrow> unat (pageCount d * kVMPageSize) = 4096 * unat (pageCount d)"
  by (subst unat_mult_lem [THEN iffD1]) (auto simp: descriptor_ok_def)

lemma unat_descriptor_end:
  assumes "descriptor_ok d"
  shows "unat (descriptor_end d) = unat (physicalStart d) + 4096 * unat (pageCount d)"
  using unat_page_bytes [OF assms] assms
  by (subst unat_add_lem [THEN iffD1]) (auto simp: descriptor_ok_def)

lemma max_physical_address:
  assumes "\<forall>d \<in> set ds. descriptor_ok d" "4096 dvd unat m" "unat m \<le> 2 ^ 52"
  shows "unat m \<le> unat (sVMMaxPhysicalAddress ds m) \<and> unat (sVMMaxPhysicalAddress ds m) \<le> 2 ^ 52
    \<and> 4096 dvd unat (sVMMaxPhysicalAddress ds m)
    \<and> (\<forall>d \<in> set ds. has_type d kOSMemoryTypeConventional \<longrightarrow>
         unat (descriptor_end d) \<le> unat (sVMMaxPhysicalAddress ds m))"
  using assms
proof (induction ds arbitrary: m)
  case Nil
  then show ?case by simp
next
  case (Cons d ds)
  define m' where "m' = (if descriptor_end d > m then descriptor_end d else m)"
  have "descriptor_ok d" using Cons.prems by simp
  then have m': "4096 dvd unat m'" "unat m' \<le> 2 ^ 52" "unat m \<le> unat m'" "unat (descriptor_end d) \<le> unat m'"
    using Cons.prems unat_descriptor_end [of d]
    by (auto simp: m'_def descriptor_ok_def word_less_nat_alt not_less simp del: OSMemoryTypeValue.simps)
  have ok: "\<forall>d \<in> set ds. descriptor_ok d" using Cons.prems by simp
  show ?case
    using Cons.IH [OF ok Cons.prems(2,3)] Cons.IH [OF ok m'(1,2)] m'(3,4)
    by (auto simp: Let_def m'_def [symmetric])
qed

lemma release_conventional:
  assumes "\<forall>d \<in> set ds. descriptor_ok d" "8 * length bm \<le> 2 ^ 40"
    "\<forall>d \<in> set ds. has_type d kOSMemoryTypeConventional \<longrightarrow> unat (descriptor_end d) \<le> 4096 * (8 * length bm)"
  shows "\<exists>bm'. sVMReleaseConventional ds bm = Inr bm' \<and> length bm' = length bm \<and>
    (\<forall>p < 8 * length bm. page_used bm' p \<longleftrightarrow> page_used bm p \<and>
      \<not> (\<exists>d \<in> set ds. has_type d kOSMemoryTypeConventional \<and> descriptor_covers d p))"
  using assms
proof (induction ds arbitrary: bm)
  case Nil
  then show ?case by simp
next
  case (Cons d ds)
  show ?case
  proof (cases "has_type d kOSMemoryTypeConventional")
    case False
    with Cons show ?thesis by simp
  next
    case True
    have "descriptor_ok d" using Cons.prems(1) by simp
    then have "4096 dvd unat (physicalStart d)" by (simp add: descriptor_ok_def)
    from mark_range_UNSET [OF _ this _ Cons.prems(2), of "descriptor_end d"] True Cons.prems(3)
    obtain b where b: "mark_range BITMAP_UNSET (physicalStart d) (descriptor_end d) bm = Inr b" "length b = length bm"
      "\<forall>p < 8 * length bm. page_used b p \<longleftrightarrow>
         (if unat (physicalStart d) \<le> 4096 * p \<and> 4096 * p < unat (descriptor_end d) then False else page_used bm p)"
        by auto
    from Cons.IH [of b] Cons.prems b(2) obtain bm' where "sVMReleaseConventional ds b = Inr bm'" "length bm' = length b"
      "\<forall>p < 8 * length b. page_used bm' p \<longleftrightarrow> page_used b p \<and>
        \<not> (\<exists>d \<in> set ds. has_type d kOSMemoryTypeConventional \<and> descriptor_covers d p)"
      by auto
    with b True show ?thesis
      using unat_descriptor_end [OF \<open>descriptor_ok d\<close>]
      by (auto simp: Let_def descriptor_covers_def)
  qed
qed


text \<open>
  The frames initialisation leaves free: conventional memory, but for the first megabyte, the kernel
  image and the bitmap itself.
\<close>

definition initially_free :: "OSMemoryDescriptor list \<Rightarrow> UInt64 \<Rightarrow> UInt64 \<Rightarrow> UInt64 \<Rightarrow> UInt64 \<Rightarrow> nat set" where
  "initially_free ds kernelStart kernelEnd bitmapStart bitmapSize =
     {p. (\<exists>d \<in> set ds. has_type d kOSMemoryTypeConventional \<and> descriptor_covers d p) \<and>
         256 \<le> p \<and>
         \<not> (unat kernelStart \<le> 4096 * p \<and> 4096 * p < unat kernelEnd) \<and>
         \<not> (unat bitmapStart \<le> 4096 * p \<and> 4096 * p < unat bitmapStart + unat bitmapSize)}"

lemma PMM_initialize_free:
  assumes ds: "memory_map_descriptors memoryMap = Inr ds" and ok: "\<forall>d \<in> set ds. descriptor_ok d"
    and host: "sVMBitmapHost ds ((sVMMaxPhysicalAddress ds 0 div kVMPageSize + 7) div 8) = Some host"
    and kernel: "4096 dvd unat (KERNEL_VIRT_TO_PHYS kernel_start)"
      "KERNEL_VIRT_TO_PHYS kernel_end \<le> sVMMaxPhysicalAddress ds 0"
    and lock: "lock_free (sVMPMMLock s)"
  shows "\<exists>t. VMPhysicalMemoryInitialize kernel_start kernel_end memoryMap s = Inr t \<and> pmm_inv t \<and>
    gVMPhycalMemoryTotalMemorySize t = sVMMaxPhysicalAddress ds 0 \<and>
    gVMPhycalMemoryBitmapAddress t = physicalStart host \<and>
    free_frames t = initially_free ds (KERNEL_VIRT_TO_PHYS kernel_start) (KERNEL_VIRT_TO_PHYS kernel_end)
      (physicalStart host) (gVMPhycalMemoryBitmapSize t)"
proof -
  let ?max = "sVMMaxPhysicalAddress ds 0"
  let ?size = "(?max div kVMPageSize + 7) div 8"
  let ?conv = "\<lambda>p. \<exists>d \<in> set ds. has_type d kOSMemoryTypeConventional \<and> descriptor_covers d p"
  from max_physical_address [OF ok, of 0] have max: "unat ?max \<le> 2 ^ 52" "4096 dvd unat ?max"
    "\<And>d. d \<in> set ds \<Longrightarrow> has_type d kOSMemoryTypeConventional \<Longrightarrow> unat (descriptor_end d) \<le> unat ?max"
    by auto
  from max(2) obtain pages where pages: "unat ?max = 4096 * pages" by blast
  then have size: "unat ?size = (pages + 7) div 8"
    using max(1) by (simp add: unat_div unat_word_ariths)
  have small: "8 * unat ?size \<le> 2 ^ 40"
    using pages max(1) unfolding size by simp
  have cover: "unat ?max \<le> 4096 * (8 * unat ?size)"
    unfolding size pages by simp
  let ?b0 = "replicate (unat ?size) (0xFF :: UInt8)"
  have b0: "page_used ?b0 p" if "p < 8 * unat ?size" for p
    using that byte_full [of "0xFF"] by (simp add: page_used_def byte_bound)
  from host have host_ds: "host \<in> set ds" "has_type host kOSMemoryTypeConventional"
    "?size \<le> pageCount host * kVMPageSize" "kVMSafeSpaceStartAddress \<le> physicalStart host"
    by (auto simp: sVMBitmapHost_def find_Some_iff)
  then have host_ok: "descriptor_ok host" using ok by blast
  have low: "unat kVMSafeSpaceStartAddress \<le> 4096 * (8 * unat ?size)"
    using host_ds(4) unat_descriptor_end [OF host_ok] max(3) [OF host_ds(1,2)] cover
    by (simp add: word_le_nat_alt)
  have bitmap_end: "unat (physicalStart host + ?size) = unat (physicalStart host) + unat ?size"
    "unat (physicalStart host + ?size) \<le> 4096 * (8 * unat ?size)"
  proof -
    have fits: "unat ?size \<le> 4096 * unat (pageCount host)"
      using host_ds(3) unat_page_bytes [OF host_ok] by (simp add: word_le_nat_alt)
    then show eq: "unat (physicalStart host + ?size) = unat (physicalStart host) + unat ?size"
      using host_ok by (subst unat_add_lem [THEN iffD1]) (auto simp: descriptor_ok_def)
    show "unat (physicalStart host + ?size) \<le> 4096 * (8 * unat ?size)"
      unfolding eq using fits max(3) [OF host_ds(1,2)] cover unat_descriptor_end [OF host_ok] by linarith
  qed
  have kernel_end: "unat (KERNEL_VIRT_TO_PHYS kernel_end) \<le> 4096 * (8 * unat ?size)"
    using kernel(2) cover by (simp add: word_le_nat_alt)
  have ends: "\<forall>d \<in> set ds. has_type d kOSMemoryTypeConventional \<longrightarrow>
      unat (descriptor_end d) \<le> 4096 * (8 * length ?b0)"
    unfolding length_replicate by (intro ballI impI order_trans [OF max(3) cover])
  have "8 * length ?b0 \<le> 2 ^ 40" using small by simp
  from release_conventional [OF ok this ends]
  obtain b1 where b1: "sVMReleaseConventional ds ?b0 = Inr b1" "length b1 = unat ?size"
    "\<forall>p < 8 * unat ?size. page_used b1 p \<longleftrightarrow> \<not> ?conv p"
    using b0 by (auto simp only: length_replicate)
  from mark_range_SET [of 0 kVMSafeSpaceStartAddress b1] low small b1(2)
  obtain b2 where b2: "mark_range BITMAP_SET 0 kVMSafeSpaceStartAddress b1 = Inr b2" "length b2 = unat ?size"
    "\<forall>p < 8 * unat ?size. page_used b2 p \<longleftrightarrow> (if 4096 * p < 0x100000 then True else page_used b1 p)"
    by auto
  from mark_range_SET [of "KERNEL_VIRT_TO_PHYS kernel_start" "KERNEL_VIRT_TO_PHYS kernel_end" b2]
    kernel(1) kernel_end small b2(2)
  obtain b3 where b3: "mark_range BITMAP_SET (KERNEL_VIRT_TO_PHYS kernel_start) (KERNEL_VIRT_TO_PHYS kernel_end) b2 = Inr b3"
    "length b3 = unat ?size"
    "\<forall>p < 8 * unat ?size. page_used b3 p \<longleftrightarrow> (if unat (KERNEL_VIRT_TO_PHYS kernel_start) \<le> 4096 * p \<and>
       4096 * p < unat (KERNEL_VIRT_TO_PHYS kernel_end) then True else page_used b2 p)"
    by auto
  have host_start: "4096 dvd unat (physicalStart host)" using host_ok by (simp add: descriptor_ok_def)
  from mark_range_SET [of "physicalStart host" "physicalStart host + ?size" b3] host_start bitmap_end small b3(2)
  obtain b4 where b4: "mark_range BITMAP_SET (physicalStart host) (physicalStart host + ?size) b3 = Inr b4"
    "length b4 = unat ?size"
    "\<forall>p < 8 * unat ?size. page_used b4 p \<longleftrightarrow> (if unat (physicalStart host) \<le> 4096 * p \<and>
       4096 * p < unat (physicalStart host) + unat ?size then True else page_used b3 p)"
    by auto
  let ?t = "s\<lparr>gVMPhycalMemoryTotalMemorySize := ?max, gVMPhycalMemoryBitmapAddress := physicalStart host,
    gVMPhycalMemoryBitmapSize := ?size, gVMPhycalMemoryBitmap := b4\<rparr>"
  have "VMPhysicalMemoryInitialize kernel_start kernel_end memoryMap s = Inr ?t"
    using ds host b1(1) b2(1) b3(1) b4(1) by (simp add: VMPhysicalMemoryInitialize_def Let_def)
  moreover have covered: "p < 8 * unat ?size" if "?conv p" for p
  proof -
    from that obtain d where d: "d \<in> set ds" "has_type d kOSMemoryTypeConventional" "descriptor_covers d p" by blast
    then have "4096 * p < unat (descriptor_end d)"
      using unat_descriptor_end [of d] ok by (auto simp: descriptor_covers_def)
    then have "4096 * p < 4096 * (8 * unat ?size)"
      using max(3) [OF d(1,2)] cover by linarith
    then show ?thesis by simp
  qed
  have "p \<in> free_frames ?t \<longleftrightarrow> p \<in> initially_free ds (KERNEL_VIRT_TO_PHYS kernel_start)
      (KERNEL_VIRT_TO_PHYS kernel_end) (physicalStart host) ?size" (is "_ \<longleftrightarrow> p \<in> ?free") for p
  proof (cases "p < 8 * unat ?size")
    case True
    have "4096 * p < 0x100000 \<longleftrightarrow> \<not> 256 \<le> p" by auto
    with b1(3) [rule_format, OF True] b2(3) [rule_format, OF True] b3(3) [rule_format, OF True]
      b4(3) [rule_format, OF True]
    have "page_used b4 p \<longleftrightarrow> p \<notin> ?free"
      unfolding initially_free_def mem_Collect_eq by argo
    with True b4(2) show ?thesis by (simp add: free_frames_def bitmap_free_def)
  next
    case False
    with covered [of p] have "p \<notin> ?free" unfolding initially_free_def mem_Collect_eq by argo
    with False b4(2) show ?thesis by (simp add: free_frames_def bitmap_free_def)
  qed
  then have "free_frames ?t = initially_free ds (KERNEL_VIRT_TO_PHYS kernel_start)
      (KERNEL_VIRT_TO_PHYS kernel_end) (physicalStart host) ?size" by blast
  moreover from this have "pmm_inv ?t"
    using b4(2) small lock by (simp add: pmm_inv_def) (simp add: initially_free_def)
  ultimately show ?thesis by (intro exI [of _ ?t]) simp
qed

section \<open>Properties\<close>

text \<open>C12: On an initialised manager the allocator never faults. With no frame left it returns null
  and changes nothing; otherwise it returns the address of the least free frame, which is not null
  and page aligned, takes exactly that frame off the free set, keeps the invariant, and leaves the
  interrupt flag and every other part of the state as it was.\<close>

theorem AllocatePage_correct:
  assumes "pmm_inv s"
  shows "\<exists>r t. VMPhysicalMemoryAllocatePage s = Inr (r, t) \<and> pmm_inv t \<and>
    (if free_frames s = {} then r = 0 \<and> t = s
     else r = frame_address (Min (free_frames s)) \<and> r \<noteq> 0 \<and> 4096 dvd unat r \<and>
       free_frames t = free_frames s - {Min (free_frames s)} \<and>
       t = s\<lparr>gVMPhycalMemoryBitmap := gVMPhycalMemoryBitmap t\<rparr>)"
proof (cases "free_frames s = {}")
  case True
  then show ?thesis using AllocatePage_exhausted [OF assms] assms by auto
next
  case False
  from AllocatePage_takes_least [OF assms False] obtain bm where bm:
    "VMPhysicalMemoryAllocatePage s = Inr (frame_address (Min (free_frames s)), s\<lparr>gVMPhycalMemoryBitmap := bm\<rparr>)"
    "length bm = length (gVMPhycalMemoryBitmap s)" "bitmap_free bm = free_frames s - {Min (free_frames s)}"
    by blast
  have "Min (free_frames s) < 2 ^ 40" using False by (intro free_frames_bound [OF assms]) simp
  then have "4096 dvd unat (frame_address (Min (free_frames s)))" by (simp add: unat_frame_address)
  moreover have "frame_address (Min (free_frames s)) \<noteq> 0"
    using pmm.alloc_null_iff [OF assms bm(1)] False by simp
  moreover have "pmm_inv (s\<lparr>gVMPhycalMemoryBitmap := bm\<rparr>)" using assms bm(2,3) by (simp add: pmm_inv_def)
  ultimately show ?thesis using bm False by simp
qed

text \<open>Frame 9 is the only free one; the lock is free.\<close>

definition small_pmm :: pmm where
  "small_pmm = \<lparr>mem = \<lambda>_. 0, cr3 = 0, interruptFlag = True, portWrites = [], invalidated = [],
     gVMPhycalMemoryBitmapAddress = 0, gVMPhycalMemoryBitmap = [0xFF, 0xFD], gVMPhycalMemoryBitmapSize = 2,
     gVMPhycalMemoryTotalMemorySize = 0x10000, sVMPMMLock = \<lparr>lockValue = 0\<rparr>\<rparr>"

lemma small_pmm_free: "free_frames small_pmm = {9}"
proof -
  have "p < 16 \<and> \<not> bit ([0xFF, 0xFD :: UInt8] ! (p div 8)) (p mod 8) \<longleftrightarrow> p = 9" for p
  proof (cases "p < 16")
    case True
    then have "p \<in> {0,1,2,3,4,5,6,7,8,9,10,11,12,13,14,15}" by (simp only: insert_iff empty_iff) arith
    then show ?thesis by (elim insertE emptyE) simp_all
  qed simp
  then show ?thesis by (auto simp: free_frames_def bitmap_free_def page_used_def small_pmm_def)
qed

lemma small_pmm_inv: "pmm_inv small_pmm"
  unfolding pmm_inv_def small_pmm_free by (simp add: small_pmm_def)

lemma AllocatePage_correct_witness:
  "\<exists>t. VMPhysicalMemoryAllocatePage small_pmm = Inr (0x9000, t) \<and> free_frames t = {}"
  using AllocatePage_correct [OF small_pmm_inv] unfolding small_pmm_free
  by (auto simp: frame_address_def)

text \<open>Freeing a frame just allocated gives the free set back, and the next allocation returns
  the same frame.\<close>

theorem allocate_free_roundtrip:
  assumes "pmm_inv s" "VMPhysicalMemoryAllocatePage s = Inr (r, t)" "r \<noteq> 0"
  shows "\<exists>u v. VMPhysicalMemoryFreePage r t = Inr ((), u) \<and> pmm_inv u \<and> free_frames u = free_frames s \<and>
    VMPhysicalMemoryAllocatePage u = Inr (r, v)"
proof -
  have some: "free_frames s \<noteq> {}" using pmm.alloc_null_iff assms by blast
  let ?p = "Min (free_frames s)"
  from AllocatePage_takes_least [OF assms(1) some] obtain bm where bm:
    "r = frame_address ?p" "t = s\<lparr>gVMPhycalMemoryBitmap := bm\<rparr>"
    "length bm = length (gVMPhycalMemoryBitmap s)" "bitmap_free bm = free_frames s - {?p}"
    using assms(2) by auto
  have p: "?p \<in> free_frames s" using some by simp
  have page: "page_of r = ?p" using free_frames_bound [OF assms(1) p] bm(1) by simp
  have t: "pmm_inv t" using assms(1) bm(2-4) by (simp add: pmm_inv_def)
  have "page_of r < 8 * length (gVMPhycalMemoryBitmap t)"
    using p page bm(2,3) by (simp add: free_frames_def bitmap_free_def)
  from FreePage_releases [OF t this] obtain bm' where bm':
    "VMPhysicalMemoryFreePage r t = Inr ((), t\<lparr>gVMPhycalMemoryBitmap := bm'\<rparr>)"
    "length bm' = length (gVMPhycalMemoryBitmap t)" "bitmap_free bm' = insert (page_of r) (free_frames t)"
    by blast
  let ?u = "t\<lparr>gVMPhycalMemoryBitmap := bm'\<rparr>"
  have free: "free_frames ?u = free_frames s" using bm'(3) bm(2,4) page p by auto
  have u: "pmm_inv ?u" using t bm'(2) assms(1) free by (simp add: pmm_inv_def)
  from AllocatePage_takes_least [OF u] some free bm(1) bm'(1) u show ?thesis by metis
qed

lemma allocate_free_roundtrip_witness:
  "\<exists>t u. VMPhysicalMemoryAllocatePage small_pmm = Inr (0x9000, t) \<and>
     VMPhysicalMemoryFreePage 0x9000 t = Inr ((), u) \<and> free_frames u = {9}"
proof -
  obtain bm where a: "VMPhysicalMemoryAllocatePage small_pmm = Inr (0x9000, small_pmm\<lparr>gVMPhycalMemoryBitmap := bm\<rparr>)"
    using AllocatePage_takes_least [OF small_pmm_inv] by (auto simp: small_pmm_free frame_address_def)
  from allocate_free_roundtrip [OF small_pmm_inv a] a show ?thesis by (auto simp: small_pmm_free)
qed

text \<open>C14: As many consecutive allocations as there are free frames all succeed, and return pairwise
  different frames.\<close>

theorem allocations_distinct:
  assumes "pmm_inv s" "n \<le> card (free_frames s)"
  shows "\<exists>ps t. allocate_list VMPhysicalMemoryAllocatePage n s = Inr (map frame_address ps, t) \<and>
    length ps = n \<and> distinct ps \<and> set ps \<subseteq> free_frames s \<and> free_frames t = free_frames s - set ps \<and> pmm_inv t"
  by (rule pmm.allocate_list_distinct [OF assms])

lemma allocations_distinct_witness:
  "\<exists>ps t. allocate_list VMPhysicalMemoryAllocatePage 1 small_pmm = Inr (map frame_address ps, t) \<and> set ps = {9}"
proof -
  have "1 \<le> card (free_frames small_pmm)" by (simp add: small_pmm_free)
  from allocations_distinct [OF small_pmm_inv this] obtain ps t where
    "allocate_list VMPhysicalMemoryAllocatePage 1 small_pmm = Inr (map frame_address ps, t)"
    "length ps = 1" "set ps \<subseteq> {9}"
    by (auto simp: small_pmm_free)
  then have "ps = [9]" by (cases ps) auto
  with \<open>allocate_list _ 1 small_pmm = _\<close> show ?thesis by (intro exI [of _ ps] exI [of _ t]) simp
qed

text \<open>C13: After initialisation from the boot loader's memory map the free frames are exactly the
  pages of conventional memory that lie above the first megabyte and in neither the kernel image nor
  the bitmap; the invariant of the allocator holds, so null is never handed out.\<close>

theorem PMM_initialize_correct:
  assumes "memory_map_descriptors memoryMap = Inr ds" "\<forall>d \<in> set ds. descriptor_ok d"
    and "sVMBitmapHost ds ((sVMMaxPhysicalAddress ds 0 div kVMPageSize + 7) div 8) = Some host"
    and "4096 dvd unat (KERNEL_VIRT_TO_PHYS kernel_start)"
      "KERNEL_VIRT_TO_PHYS kernel_end \<le> sVMMaxPhysicalAddress ds 0"
    and "lock_free (sVMPMMLock s)"
  shows "\<exists>t. VMPhysicalMemoryInitialize kernel_start kernel_end memoryMap s = Inr t \<and> pmm_inv t \<and>
    gVMPhycalMemoryTotalMemorySize t = sVMMaxPhysicalAddress ds 0 \<and>
    gVMPhycalMemoryBitmapAddress t = physicalStart host \<and>
    free_frames t = initially_free ds (KERNEL_VIRT_TO_PHYS kernel_start) (KERNEL_VIRT_TO_PHYS kernel_end)
      (physicalStart host) (gVMPhycalMemoryBitmapSize t)"
  using assms by (rule PMM_initialize_free)

text \<open>Three megabytes of conventional memory above the first, the kernel at two megabytes.\<close>

definition small_memory :: OSMemoryDescriptor where
  "small_memory = \<lparr>descriptorType = 7, padding = 0, physicalStart = 0x100000, virtualStart = 0,
     pageCount = 0x300, attributes = 0\<rparr>"

lemma PMM_initialize_correct_witness:
  "\<exists>t. VMPhysicalMemoryInitialize 0xFFFFFFFF80200000 0xFFFFFFFF80210000
      \<lparr>memoryDescriptors = [small_memory], mapSize = 48, descriptorSize = 48, mapKey = 1, descriptorVersion = 1\<rparr> small_pmm = Inr t \<and>
    pmm_inv t \<and> 0x101 \<in> free_frames t \<and> 0x100 \<notin> free_frames t \<and> 0x20F \<notin> free_frames t"
proof -
  let ?map = "\<lparr>memoryDescriptors = [small_memory], mapSize = 48, descriptorSize = 48, mapKey = 1, descriptorVersion = 1\<rparr>"
  have "\<exists>t. VMPhysicalMemoryInitialize 0xFFFFFFFF80200000 0xFFFFFFFF80210000 ?map small_pmm = Inr t \<and> pmm_inv t \<and>
    gVMPhycalMemoryTotalMemorySize t = sVMMaxPhysicalAddress [small_memory] 0 \<and>
    gVMPhycalMemoryBitmapAddress t = physicalStart small_memory \<and>
    free_frames t = initially_free [small_memory] (KERNEL_VIRT_TO_PHYS 0xFFFFFFFF80200000)
      (KERNEL_VIRT_TO_PHYS 0xFFFFFFFF80210000) (physicalStart small_memory) (gVMPhycalMemoryBitmapSize t)"
    by (rule PMM_initialize_correct)
      (simp_all add: memory_map_descriptors_def small_memory_def sVMBitmapHost_def descriptor_ok_def
        KERNEL_VIRT_TO_PHYS_def small_pmm_def)
  then obtain t where t: "VMPhysicalMemoryInitialize 0xFFFFFFFF80200000 0xFFFFFFFF80210000 ?map small_pmm = Inr t"
    "pmm_inv t" "free_frames t = initially_free [small_memory] (KERNEL_VIRT_TO_PHYS 0xFFFFFFFF80200000)
      (KERNEL_VIRT_TO_PHYS 0xFFFFFFFF80210000) (physicalStart small_memory) (gVMPhycalMemoryBitmapSize t)" by blast
  have "gVMPhycalMemoryBitmapSize t = 128"
    using t(1) by (auto simp: VMPhysicalMemoryInitialize_def memory_map_descriptors_def small_memory_def
        sVMBitmapHost_def err_simps Let_def)
  with t show ?thesis
    by (simp add: initially_free_def small_memory_def descriptor_covers_def KERNEL_VIRT_TO_PHYS_def)
qed

end
