(* ===== verification/VirtualMemory.thy ===== *)
theory VirtualMemory
  imports PhysicalMemory
begin

text \<open>
  The virtual memory manager, \<^verbatim>\<open>kernel/src/VM/VMM.c\<close> and \<^verbatim>\<open>kernel/inc/VM/VMM.h\<close>: four-level
  page tables kept in physical memory, built with frames of the physical memory manager. Against
  them stands the processor's own table walk (\<open>resolve\<close>, \<open>translate\<close>).
\<close>

unbundle bit_operations_syntax

section \<open>Page table entries and indices\<close>

abbreviation PTE_PRESENT :: UInt64 where
  "PTE_PRESENT \<equiv> 1"

abbreviation PTE_RW :: UInt64 where
  "PTE_RW \<equiv> 2"

abbreviation PTE_USER :: UInt64 where
  "PTE_USER \<equiv> 4"

definition PTE_ADDR_MASK :: UInt64 where
  "PTE_ADDR_MASK = 0x000FFFFFFFFFF000"

definition PTE_GET_ADDR :: "UInt64 \<Rightarrow> UInt64" where
  "PTE_GET_ADDR entry = entry AND PTE_ADDR_MASK"

definition VMM_PT_INDEX :: "UInt64 \<Rightarrow> UInt64" where
  "VMM_PT_INDEX virt = drop_bit 12 virt AND 0x1FF"

definition VMM_PD_INDEX :: "UInt64 \<Rightarrow> UInt64" where
  "VMM_PD_INDEX virt = drop_bit 21 virt AND 0x1FF"

definition VMM_PDPT_INDEX :: "UInt64 \<Rightarrow> UInt64" where
  "VMM_PDPT_INDEX virt = drop_bit 30 virt AND 0x1FF"

definition VMM_PML4_INDEX :: "UInt64 \<Rightarrow> UInt64" where
  "VMM_PML4_INDEX virt = drop_bit 39 virt AND 0x1FF"

abbreviation HHDM_OFFSET :: UInt64 where
  "HHDM_OFFSET \<equiv> 0xFFFF888000000000"

abbreviation FB_VIRT_BASE :: UInt64 where
  "FB_VIRT_BASE \<equiv> 0xFFFFFFFFFC000000"

definition PHYS_TO_HHDM :: "UInt64 \<Rightarrow> UInt64" where
  "PHYS_TO_HHDM phys = phys + HHDM_OFFSET"

definition HHDM_TO_PHYS :: "UInt64 \<Rightarrow> UInt64" where
  "HHDM_TO_PHYS virt = virt - HHDM_OFFSET"

abbreviation kVMUserStackTop :: UInt64 where
  "kVMUserStackTop \<equiv> 0x70000000"

abbreviation kVMUserStackSize :: UInt64 where
  "kVMUserStackSize \<equiv> 0x4000"

section \<open>State\<close>

record vmm = pmm +
  gVMKernelPML4 :: UInt64
  gVMKernelPML4Physical :: UInt64
  sVMVMMlock :: OSSpinlock
  isInitialized :: bool

abbreviation with_vmm_lock where
  "with_vmm_lock \<equiv> with_spinlock sVMVMMlock (\<lambda>l s. s\<lparr>sVMVMMlock := l\<rparr>)"

interpretation vmm_lock: lock_field sVMVMMlock "\<lambda>l s. s\<lparr>sVMVMMlock := l\<rparr>"
  by unfold_locales simp_all

text \<open>
  The kernel reaches page tables through virtual addresses: before \<open>VMVirtualMemoryInitialize\<close> the
  identity mapping of \<^verbatim>\<open>entry.asm\<close>, after it the higher-half direct map.
\<close>

definition sVMGetVirtualTable :: "'a vmm_scheme \<Rightarrow> UInt64 \<Rightarrow> UInt64" where
  "sVMGetVirtualTable s phys = (if isInitialized s then PHYS_TO_HHDM phys else phys)"

definition kernel_physical :: "'a vmm_scheme \<Rightarrow> UInt64 \<Rightarrow> UInt64" where
  "kernel_physical s virt = (if isInitialized s then HHDM_TO_PHYS virt else virt)"

definition table_read :: "'a vmm_scheme \<Rightarrow> UInt64 \<Rightarrow> UInt64 \<Rightarrow> UInt64" where
  "table_read s table i = load64 (mem s) (kernel_physical s (table + 8 * i))"

definition table_write :: "UInt64 \<Rightarrow> UInt64 \<Rightarrow> UInt64 \<Rightarrow> 'a vmm_scheme \<Rightarrow> 'a vmm_scheme" where
  "table_write table i v s = s\<lparr>mem := store64 (mem s) (kernel_physical s (table + 8 * i)) v\<rparr>"

definition kernel_clear_page :: "UInt64 \<Rightarrow> 'a vmm_scheme \<Rightarrow> 'a vmm_scheme" where
  "kernel_clear_page virt s = s\<lparr>mem := MemorySet (mem s) (kernel_physical s virt) 0 kVMPageSize\<rparr>"

definition invlpg :: "UInt64 \<Rightarrow> 'a machine_scheme \<Rightarrow> 'a machine_scheme" where
  "invlpg virt s = s\<lparr>invalidated := virt # invalidated s\<rparr>"

section \<open>Mapping and unmapping\<close>

text \<open>
  One level of \<open>sVMVirtualMemoryMapPageInternal\<close>, which writes this block three times: make sure
  entry \<open>i\<close> of \<open>table\<close> refers to a lower table, allocating and clearing one if it does not, and
  return the lower table's virtual address; \<open>None\<close> is the early \<^verbatim>\<open>return nullptr\<close>.
\<close>

definition sVMEnsureTable ::
  "UInt64 \<Rightarrow> UInt64 \<Rightarrow> UInt64 \<Rightarrow> 'a vmm_scheme \<Rightarrow> fault + UInt64 option \<times> 'a vmm_scheme" where
  "sVMEnsureTable table i flags s =
     (let table_flags = PTE_PRESENT OR PTE_RW OR (flags AND PTE_USER);
          lower = (\<lambda>t. sVMGetVirtualTable t (PTE_GET_ADDR (table_read t table i)))
      in if table_read s table i AND PTE_PRESENT = 0
         then bindE (VMPhysicalMemoryAllocatePage s) (\<lambda>(addr, s1).
                if addr = 0 then Inr (None, s1)
                else let s2 = kernel_clear_page (sVMGetVirtualTable s1 addr) s1;
                         s3 = table_write table i (addr OR table_flags) s2
                     in Inr (Some (lower s3), s3))
         else let s1 = table_write table i (table_read s table i OR (flags AND PTE_USER)) s
              in Inr (Some (lower s1), s1))"

definition sVMVirtualMemoryMapPageInternal ::
  "UInt64 \<Rightarrow> UInt64 \<Rightarrow> UInt64 \<Rightarrow> UInt64 \<Rightarrow> 'a vmm_scheme \<Rightarrow> fault + UInt64 \<times> 'a vmm_scheme" where
  "sVMVirtualMemoryMapPageInternal pml4 phys virt flags s =
     (let pml4_virt = (if isInitialized s then PHYS_TO_HHDM pml4 else pml4)
      in bindE (sVMEnsureTable pml4_virt (VMM_PML4_INDEX virt) flags s) (\<lambda>(r, s).
         case r of None \<Rightarrow> Inr (0, s) | Some pdpt_virt \<Rightarrow>
         bindE (sVMEnsureTable pdpt_virt (VMM_PDPT_INDEX virt) flags s) (\<lambda>(r, s).
         case r of None \<Rightarrow> Inr (0, s) | Some pd_virt \<Rightarrow>
         bindE (sVMEnsureTable pd_virt (VMM_PD_INDEX virt) flags s) (\<lambda>(r, s).
         case r of None \<Rightarrow> Inr (0, s) | Some pt_virt \<Rightarrow>
         Inr (virt, invlpg virt (table_write pt_virt (VMM_PT_INDEX virt) (phys OR flags) s))))))"

definition sVMVirtualMemoryUnmapPageInternal ::
  "UInt64 \<Rightarrow> UInt64 \<Rightarrow> 'a vmm_scheme \<Rightarrow> fault + unit \<times> 'a vmm_scheme" where
  "sVMVirtualMemoryUnmapPageInternal pml4 virt s =
     (let pml4_virt = (if isInitialized s then PHYS_TO_HHDM pml4 else pml4);
          pml4e = table_read s pml4_virt (VMM_PML4_INDEX virt)
      in if pml4e AND PTE_PRESENT = 0 then Inr ((), s)
         else let pdpt_virt = sVMGetVirtualTable s (PTE_GET_ADDR pml4e);
                  pdpte = table_read s pdpt_virt (VMM_PDPT_INDEX virt)
         in if pdpte AND PTE_PRESENT = 0 then Inr ((), s)
         else let pd_virt = sVMGetVirtualTable s (PTE_GET_ADDR pdpte);
                  pde = table_read s pd_virt (VMM_PD_INDEX virt)
         in if pde AND PTE_PRESENT = 0 then Inr ((), s)
         else let pt_virt = sVMGetVirtualTable s (PTE_GET_ADDR pde)
         in Inr ((), invlpg virt (table_write pt_virt (VMM_PT_INDEX virt) 0 s)))"

definition VMVirtualMemoryMapPage ::
  "UInt64 \<Rightarrow> UInt64 \<Rightarrow> UInt64 \<Rightarrow> UInt64 \<Rightarrow> 'a vmm_scheme \<Rightarrow> fault + UInt64 \<times> 'a vmm_scheme" where
  "VMVirtualMemoryMapPage pml4 phys virt flags =
     with_vmm_lock (sVMVirtualMemoryMapPageInternal pml4 phys virt flags)"

definition VMVirtualMemoryUnmapPage ::
  "UInt64 \<Rightarrow> UInt64 \<Rightarrow> 'a vmm_scheme \<Rightarrow> fault + unit \<times> 'a vmm_scheme" where
  "VMVirtualMemoryUnmapPage pml4 virt = with_vmm_lock (sVMVirtualMemoryUnmapPageInternal pml4 virt)"

definition VMLoadCR3 :: "UInt64 \<Rightarrow> 'a machine_scheme \<Rightarrow> 'a machine_scheme" where
  "VMLoadCR3 pml4_addr s = s\<lparr>cr3 := pml4_addr\<rparr>"

definition VMGetCurrentCR3 :: "'a machine_scheme \<Rightarrow> UInt64" where
  "VMGetCurrentCR3 s = cr3 s"

section \<open>Address spaces\<close>

record BIFramebuffer =
  framebufferBase :: UInt64
  baseSize :: UInt64
  framebufferWidth :: UInt64
  framebufferHeight :: UInt64
  framebufferPitch :: UInt64

text \<open>
  \<open>kernel_start\<close>, \<open>kernel_end\<close> and \<open>stack_guard\<close> are linker symbols. The result of the mapping calls
  is ignored, as in the code. The boot information's frame buffer is returned updated.
\<close>

definition map_each ::
  "(UInt64 \<Rightarrow> UInt64) \<Rightarrow> (UInt64 \<Rightarrow> UInt64) \<Rightarrow> UInt64 \<Rightarrow> 'a vmm_scheme \<Rightarrow> fault + 'a vmm_scheme" where
  "map_each phys virt i s =
     bindE (VMVirtualMemoryMapPage (gVMKernelPML4 s) (phys i) (virt i) (PTE_PRESENT OR PTE_RW) s)
       (\<lambda>(_, s'). Inr s')"

definition VMVirtualMemoryInitialize ::
  "UInt64 \<Rightarrow> UInt64 \<Rightarrow> UInt64 \<Rightarrow> BIFramebuffer \<Rightarrow> 'a vmm_scheme \<Rightarrow> fault + BIFramebuffer \<times> 'a vmm_scheme" where
  "VMVirtualMemoryInitialize kernel_start kernel_end stack_guard fb s =
     bindE (VMPhysicalMemoryAllocatePage s) (\<lambda>(phys, s).
       let s = s\<lparr>gVMKernelPML4Physical := phys, gVMKernelPML4 := phys,
                 mem := MemorySet (mem s) phys 0 kVMPageSize\<rparr>;
           fb_start = framebufferBase fb;
           fb_end = fb_start + baseSize fb;
           fb_size = fb_end - fb_start;
           max_mem = VMPhysicalMemoryGetTotalMemorySize s
       in bindE (for_range 0 max_mem kVMPageSize (map_each (\<lambda>i. i) PHYS_TO_HHDM) s) (\<lambda>s.
          bindE (for_range kernel_start kernel_end kVMPageSize (map_each KERNEL_VIRT_TO_PHYS (\<lambda>i. i)) s) (\<lambda>s.
          bindE (for_range 0 fb_size kVMPageSize (map_each (\<lambda>i. fb_start + i) (\<lambda>i. FB_VIRT_BASE + i)) s) (\<lambda>s.
          bindE (VMVirtualMemoryUnmapPage (gVMKernelPML4 s) stack_guard s) (\<lambda>(_, s).
            Inr (fb\<lparr>framebufferBase := FB_VIRT_BASE\<rparr>,
                 (VMLoadCR3 (gVMKernelPML4Physical s)
                    (s\<lparr>gVMPhycalMemoryBitmapAddress := PHYS_TO_HHDM (gVMPhycalMemoryBitmapAddress s)\<rparr>))
                  \<lparr>isInitialized := True\<rparr>))))))"

fun copy_kernel_half :: "UInt64 \<Rightarrow> UInt64 \<Rightarrow> nat list \<Rightarrow> 'a vmm_scheme \<Rightarrow> 'a vmm_scheme" where
  "copy_kernel_half virt kernel_pml4_virt [] s = s"
| "copy_kernel_half virt kernel_pml4_virt (i # is) s =
     copy_kernel_half virt kernel_pml4_virt is
       (table_write virt (of_nat i) (table_read s kernel_pml4_virt (of_nat i)) s)"

definition VMVirtualMemoryCreateAddressSpace :: "'a vmm_scheme \<Rightarrow> fault + UInt64 \<times> 'a vmm_scheme" where
  "VMVirtualMemoryCreateAddressSpace = with_vmm_lock (\<lambda>s.
     bindE (VMPhysicalMemoryAllocatePage s) (\<lambda>(phys, s).
       if phys = 0 then Inr (0, s)
       else let virt = PHYS_TO_HHDM phys;
                s = kernel_clear_page virt s;
                kernel_pml4_virt = sVMGetVirtualTable s (gVMKernelPML4 s)
            in Inr (phys, copy_kernel_half virt kernel_pml4_virt [256..<512] s)))"

definition VMVirtualMemorySetupUserStack :: "UInt64 \<Rightarrow> 'a vmm_scheme \<Rightarrow> fault + 'a vmm_scheme" where
  "VMVirtualMemorySetupUserStack pml4_phys =
     for_range (kVMUserStackTop - kVMUserStackSize) kVMUserStackTop 4096 (\<lambda>addr s.
       bindE (VMPhysicalMemoryAllocatePage s) (\<lambda>(phys, s).
         if phys = 0 then Inl (Panic ''OOM in user stack setup'')
         else let s = kernel_clear_page (PHYS_TO_HHDM phys) s
              in bindE (VMVirtualMemoryMapPage pml4_phys phys addr (PTE_PRESENT OR PTE_RW OR PTE_USER) s)
                   (\<lambda>(_, s). Inr s)))"

section \<open>The processor's table walk\<close>

definition table_entry :: "memory \<Rightarrow> UInt64 \<Rightarrow> UInt64 \<Rightarrow> UInt64" where
  "table_entry m f i = load64 m (f + 8 * i)"

abbreviation present :: "UInt64 \<Rightarrow> bool" where
  "present e \<equiv> e AND PTE_PRESENT \<noteq> 0"

fun resolve :: "memory \<Rightarrow> UInt64 \<Rightarrow> UInt64 list \<Rightarrow> UInt64 option" where
  "resolve m f [] = Some f"
| "resolve m f (i # is) =
     (if present (table_entry m f i) then resolve m (PTE_GET_ADDR (table_entry m f i)) is else None)"

definition table_path :: "UInt64 \<Rightarrow> UInt64 list" where
  "table_path virt = [VMM_PML4_INDEX virt, VMM_PDPT_INDEX virt, VMM_PD_INDEX virt]"

text \<open>The last-level entry the processor finds for an address, or none (a page fault).\<close>

definition translate :: "memory \<Rightarrow> UInt64 \<Rightarrow> UInt64 \<Rightarrow> UInt64 option" where
  "translate m root virt =
     (case resolve m root (table_path virt) of
        None \<Rightarrow> None
      | Some t \<Rightarrow> let e = table_entry m t (VMM_PT_INDEX virt) in if present e then Some e else None)"

lemma resolve_append:
  "resolve m f (p @ q) = (case resolve m f p of None \<Rightarrow> None | Some g \<Rightarrow> resolve m g q)"
  by (induction p arbitrary: f) simp_all

lemma resolve_snoc:
  "resolve m f (p @ [i]) = (case resolve m f p of None \<Rightarrow> None
     | Some g \<Rightarrow> if present (table_entry m g i) then Some (PTE_GET_ADDR (table_entry m g i)) else None)"
  by (simp add: resolve_append split: option.split)

section \<open>Frames and entries in memory\<close>

definition frame_aligned :: "UInt64 \<Rightarrow> bool" where
  "frame_aligned f \<longleftrightarrow> 4096 dvd unat f"

lemma near_multiple:
  fixes x y :: UInt64 and n :: nat
  assumes near: "unat (x - y) < n" and y: "n dvd unat y" and n: "n dvd 2 ^ 64"
  shows "unat x div n = unat y div n"
proof -
  obtain k where k: "unat y = n * k" using y by blast
  obtain l where l: "(2::nat) ^ 64 = n * l" using n by blast
  have "unat y < 2 ^ 64" using unsigned_less [of y] by simp
  then have "k < l" unfolding k l using near by simp
  then have "n * Suc k \<le> n * l" by (intro mult_le_mono2) simp
  then have "unat y + unat (x - y) < 2 ^ 64" unfolding k l using near by simp
  then have "unat x = unat y + unat (x - y)"
    using unat_add_lem [of y "x - y"] by simp
  then show ?thesis using near k by simp
qed

lemma near_frame: "frame_aligned f \<Longrightarrow> x - f < 4096 \<Longrightarrow> unat x div 4096 = unat f div 4096"
  by (rule near_multiple) (simp_all add: frame_aligned_def word_less_nat_alt)

lemma frame_eqI: "frame_aligned f \<Longrightarrow> frame_aligned g \<Longrightarrow> unat f div 4096 = unat g div 4096 \<Longrightarrow> f = g"
  by (metis dvd_mult_div_cancel frame_aligned_def word_unat_eq_iff)

lemma unat_entry_address:
  assumes "frame_aligned f" "i < 512"
  shows "unat (f + 8 * i) = unat f + 8 * unat i"
proof -
  have i: "unat i < 512" using assms(2) by (simp add: word_less_nat_alt)
  then have i8: "unat (8 * i) = 8 * unat i" by (simp add: unat_word_ariths)
  obtain k where k: "unat f = 4096 * k" using assms(1) by (auto simp: frame_aligned_def)
  have "unat f < 4096 * 2 ^ 52" using unsigned_less [of f] by simp
  then have "Suc k \<le> 2 ^ 52" unfolding k by simp
  then have "4096 * Suc k \<le> 4096 * 2 ^ 52" by (rule mult_le_mono2)
  then have "unat f + unat (8 * i) < 2 ^ 64" unfolding k i8 using i by simp
  then show ?thesis unfolding i8 [symmetric] using unat_add_lem [of f "8 * i"] by simp
qed

text \<open>The byte range of an entry lies in its frame, and different entries do not meet.\<close>

lemma entry_byte:
  assumes "frame_aligned f" "i < 512" "x - (f + 8 * i) < 8"
  shows "unat x div 8 = unat f div 8 + unat i"
proof -
  have a: "unat (f + 8 * i) = unat f + 8 * unat i" by (rule unat_entry_address [OF assms(1,2)])
  have "8 dvd unat f" using assms(1) by (auto simp: frame_aligned_def elim: dvd_trans [rotated])
  then have "8 dvd unat (f + 8 * i)" by (simp add: a)
  with assms(3) have "unat x div 8 = unat (f + 8 * i) div 8"
    by (intro near_multiple) (simp_all add: word_less_nat_alt)
  with a \<open>8 dvd unat f\<close> show ?thesis by auto
qed

lemma entry_byte_frame:
  assumes "frame_aligned f" "i < 512" "x - (f + 8 * i) < 8"
  shows "unat x div 4096 = unat f div 4096"
proof -
  obtain k where k: "unat f = 4096 * k" using assms(1) by (auto simp: frame_aligned_def)
  have i: "unat i < 512" using assms(2) by (simp add: word_less_nat_alt)
  have "unat x div 4096 = unat x div 8 div 512" by (simp add: div_mult2_eq [symmetric])
  also have "\<dots> = (512 * k + unat i) div 512" using entry_byte [OF assms] k by simp
  also have "\<dots> = k" using i by simp
  finally show ?thesis using k by simp
qed

lemma entries_apart:
  assumes "frame_aligned f" "frame_aligned g" "i < 512" "j < 512"
    "x - (f + 8 * i) < 8" "x - (g + 8 * j) < 8"
  shows "f = g \<and> i = j"
proof -
  have "f = g"
    using entry_byte_frame [OF assms(1,3,5)] entry_byte_frame [OF assms(2,4,6)] assms(1,2)
    by (auto intro: frame_eqI)
  moreover have "unat i = unat j"
    using entry_byte [OF assms(1,3,5)] entry_byte [OF assms(2,4,6)] \<open>f = g\<close> by simp
  ultimately show ?thesis by (simp add: word_unat_eq_iff)
qed

lemma table_entry_store:
  assumes "frame_aligned f" "frame_aligned g" "i < 512" "j < 512"
  shows "table_entry (store64 m (f + 8 * i) v) g j = (if g = f \<and> j = i then v else table_entry m g j)"
proof (cases "g = f \<and> j = i")
  case True
  then show ?thesis by (simp add: table_entry_def)
next
  case False
  have "store64 m (f + 8 * i) v (g + 8 * j + of_nat k) = m (g + 8 * j + of_nat k)" if "k < 8" for k
  proof (rule store64_apart, rule notI)
    have "(g + 8 * j + of_nat k) - (g + 8 * j) < 8"
      using that by (simp add: word_less_nat_alt unat_of_nat)
    moreover assume "g + 8 * j + of_nat k - (f + 8 * i) < 8"
    ultimately show False using entries_apart [OF assms] False by blast
  qed
  then have "load64 (store64 m (f + 8 * i) v) (g + 8 * j) = load64 m (g + 8 * j)"
    by (rule load64_cong)
  with False show ?thesis by (auto simp: table_entry_def)
qed

lemma table_entry_clear:
  assumes "frame_aligned f" "frame_aligned g" "j < 512"
  shows "table_entry (MemorySet m f 0 4096) g j = (if g = f then 0 else table_entry m g j)"
proof -
  have in_frame: "unat (g + 8 * j + of_nat k) div 4096 = unat g div 4096" if "k < 8" for k
    using that by (intro entry_byte_frame [OF assms(2,3)]) (simp add: word_less_nat_alt unat_of_nat)
  show ?thesis
  proof (cases "g = f")
    case False
    have "load64 (MemorySet m f 0 4096) (g + 8 * j) = load64 m (g + 8 * j)"
    proof (rule load64_cong)
      fix k :: nat assume "k < 8"
      with in_frame have "\<not> g + 8 * j + of_nat k - f < 4096"
        using near_frame [OF assms(1)] frame_eqI [OF assms(2,1)] False by metis
      then show "MemorySet m f 0 4096 (g + 8 * j + of_nat k) = m (g + 8 * j + of_nat k)"
        by (simp add: MemorySet_effect)
    qed
    with False show ?thesis by (simp add: table_entry_def)
  next
    case True
    have "load64 (MemorySet m f 0 4096) (f + 8 * j) = 0"
    proof (rule load64_zero)
      fix k :: nat assume k: "k < 8"
      have "f + 8 * j + of_nat k - f = 8 * j + of_nat k" by simp
      moreover have "unat (8 * j + of_nat k) < 4096"
        using assms(3) k by (simp add: word_less_nat_alt unat_word_ariths unat_of_nat)
      ultimately show "MemorySet m f 0 4096 (f + 8 * j + of_nat k) = 0"
        by (simp add: MemorySet_effect word_less_nat_alt)
    qed
    with True show ?thesis by (simp add: table_entry_def)
  qed
qed

section \<open>Well-formed table trees\<close>

lemma PTE_ADDR_MASK_bits: "bit PTE_ADDR_MASK j \<longleftrightarrow> 12 \<le> j \<and> j < 52"
proof -
  have "PTE_ADDR_MASK = push_bit 12 (mask 40)" by (simp add: PTE_ADDR_MASK_def mask_eq_exp_minus_1)
  then have "bit PTE_ADDR_MASK j \<longleftrightarrow> bit (push_bit 12 (mask 40) :: UInt64) j" by (simp only:)
  also have "\<dots> \<longleftrightarrow> 12 \<le> j \<and> j < 52" by (auto simp: bit_simps)
  finally show ?thesis .
qed

lemma frame_aligned_bits: "frame_aligned f \<longleftrightarrow> take_bit 12 f = 0"
proof -
  have "unat (take_bit 12 f) = unat f mod 4096"
    by (simp add: take_bit_eq_mod unat_mod)
  then show ?thesis by (metis dvd_eq_mod_eq_0 frame_aligned_def unat_eq_zero)
qed

lemma frame_aligned_PTE_GET_ADDR [simp]: "frame_aligned (PTE_GET_ADDR e)"
  unfolding frame_aligned_bits PTE_GET_ADDR_def
  by (rule bit_word_eqI) (auto simp: bit_simps PTE_ADDR_MASK_bits)

lemma frame_address_push: "frame_address n = push_bit 12 (of_nat n)"
  by (simp add: frame_address_def push_bit_eq_mult)

lemma frame_aligned_frame_address [simp]: "frame_aligned (frame_address n)"
  unfolding frame_aligned_bits frame_address_push by (rule bit_word_eqI) (auto simp: bit_simps)

text \<open>An entry made of a frame and flags below bit 12 gives the frame back.\<close>

lemma PTE_GET_ADDR_frame:
  assumes n: "n < 2 ^ 40" and w: "\<And>j. 12 \<le> j \<Longrightarrow> j < 52 \<Longrightarrow> \<not> bit w j"
  shows "PTE_GET_ADDR (frame_address n OR w) = frame_address n"
proof (rule bit_word_eqI)
  fix j assume j: "j < LENGTH(64)"
  have "k < 40" if "bit n k" for k
    using n that by (metis bit_take_bit_iff take_bit_nat_eq_self_iff)
  then have "12 \<le> j \<Longrightarrow> bit n (j - 12) \<Longrightarrow> j < 52"
    using less_diff_conv2 [of 12 j 40] by auto
  then show "bit (PTE_GET_ADDR (frame_address n OR w)) j = bit (frame_address n) j"
    using j w by (auto simp: PTE_GET_ADDR_def frame_address_push bit_simps PTE_ADDR_MASK_bits)
qed

lemma PTE_GET_ADDR_OR: "(\<And>j. 12 \<le> j \<Longrightarrow> j < 52 \<Longrightarrow> \<not> bit w j) \<Longrightarrow> PTE_GET_ADDR (e OR w) = PTE_GET_ADDR e"
  unfolding PTE_GET_ADDR_def by (rule bit_word_eqI) (auto simp: bit_simps PTE_ADDR_MASK_bits)

lemma user_flag_bits: "bit (flags AND PTE_USER) j \<Longrightarrow> j = 2"
proof -
  have "bit PTE_USER j \<longleftrightarrow> bit (push_bit 2 1 :: UInt64) j" for j by simp
  also have "\<dots> j \<longleftrightarrow> j = 2" for j by (simp only: bit_push_bit_iff bit_1_iff) auto
  finally have "bit PTE_USER j \<longleftrightarrow> j = 2" for j .
  then show "bit (flags AND PTE_USER) j \<Longrightarrow> ?thesis" by (auto simp: bit_and_iff)
qed


definition valid_path :: "UInt64 list \<Rightarrow> bool" where
  "valid_path p \<longleftrightarrow> length p \<le> 3 \<and> (\<forall>i \<in> set p. i < 512)"

lemma valid_path_snoc: "valid_path (p @ [i]) \<longleftrightarrow> valid_path p \<and> length p \<le> 2 \<and> i < 512"
  by (auto simp: valid_path_def)

lemma index_bound: "VMM_PT_INDEX v < 512" "VMM_PD_INDEX v < 512" "VMM_PDPT_INDEX v < 512" "VMM_PML4_INDEX v < 512"
proof -
  have "x AND 0x1FF < 512" for x :: UInt64
    by (rule le_less_trans [OF word_and_le1]) simp
  then show "VMM_PT_INDEX v < 512" "VMM_PD_INDEX v < 512" "VMM_PDPT_INDEX v < 512" "VMM_PML4_INDEX v < 512"
    by (simp_all add: VMM_PT_INDEX_def VMM_PD_INDEX_def VMM_PDPT_INDEX_def VMM_PML4_INDEX_def)
qed

lemma valid_table_path: "valid_path (table_path v)"
  by (simp add: valid_path_def table_path_def index_bound)

text \<open>
  A table tree over a set \<open>U\<close> of frames in use: the frames of its tables lie in \<open>U\<close>, and no frame is
  reached by two different paths. Without the latter, a write meant for one table would show in
  another.
\<close>

definition tables_ok :: "memory \<Rightarrow> UInt64 \<Rightarrow> UInt64 set \<Rightarrow> bool" where
  "tables_ok m root U \<longleftrightarrow> frame_aligned root \<and>
     (\<forall>p f. valid_path p \<longrightarrow> resolve m root p = Some f \<longrightarrow> f \<in> U) \<and>
     (\<forall>p q f. valid_path p \<longrightarrow> valid_path q \<longrightarrow> resolve m root p = Some f \<longrightarrow>
        resolve m root q = Some f \<longrightarrow> p = q)"

lemma resolve_aligned: "frame_aligned f \<Longrightarrow> resolve m f p = Some g \<Longrightarrow> frame_aligned g"
proof (induction p arbitrary: f)
  case (Cons i p)
  then have "resolve m (PTE_GET_ADDR (table_entry m f i)) p = Some g" by (simp split: if_splits)
  with Cons.IH frame_aligned_PTE_GET_ADDR show ?case by blast
qed simp

lemma tables_okD:
  assumes "tables_ok m root U" "valid_path p" "resolve m root p = Some f"
  shows "frame_aligned f" "f \<in> U"
    "valid_path q \<Longrightarrow> resolve m root q = Some f \<Longrightarrow> p = q"
  using assms resolve_aligned [of root m p f] by (auto simp: tables_ok_def)

text \<open>
  A store into one table changes what the walk finds only below the stored entry. The rule covers
  the three stores of the mapping code: a new table, a changed flag, and a last-level entry.
\<close>

lemma resolve_store:
  assumes ok: "tables_ok m root U" and q: "valid_path q" "resolve m root q = Some t" "i < 512"
    and keep: "present (table_entry m t i) \<and> present e \<and> PTE_GET_ADDR e = PTE_GET_ADDR (table_entry m t i)
      \<or> length q = 3"
    and p: "valid_path p"
  shows "resolve (store64 m (t + 8 * i) e) root p = resolve m root p"
  using p
proof (induction p rule: rev_induct)
  case Nil
  then show ?case by simp
next
  case (snoc j p)
  then have p: "valid_path p" "length p \<le> 2" "j < 512" by (simp_all add: valid_path_snoc)
  note IH = snoc.IH [OF p(1)]
  show ?case
  proof (cases "resolve m root p")
    case None
    with IH show ?thesis by (simp add: resolve_snoc)
  next
    case (Some g)
    have "table_entry (store64 m (t + 8 * i) e) g j = (if g = t \<and> j = i then e else table_entry m g j)"
      using tables_okD(1) [OF ok q(1,2)] tables_okD(1) [OF ok p(1) Some] q(3) p(3)
      by (simp add: table_entry_store)
    moreover have "length q \<noteq> 3" if "g = t"
      using tables_okD(3) [OF ok p(1) Some q(1)] q(2) that p(2) by auto
    ultimately show ?thesis using IH Some keep by (auto simp: resolve_snoc)
  qed
qed

lemma resolve_new_table:
  assumes ok: "tables_ok m root U" and q: "valid_path (q @ [i])" "resolve m root q = Some t"
    and absent: "\<not> present (table_entry m t i)"
    and n: "frame_aligned n" "n \<notin> U" and e: "present e" "PTE_GET_ADDR e = n"
    and p: "valid_path p"
  shows "resolve (store64 (MemorySet m n 0 4096) (t + 8 * i) e) root p
    = (if p = q @ [i] then Some n else resolve m root p)"
  using p
proof (induction p rule: rev_induct)
  case Nil
  then show ?case by simp
next
  case (snoc j p)
  let ?m = "store64 (MemorySet m n 0 4096) (t + 8 * i) e"
  have p: "valid_path p" "length p \<le> 2" "j < 512" using snoc.prems by (simp_all add: valid_path_snoc)
  have q': "valid_path q" "i < 512" using q(1) by (simp_all add: valid_path_snoc)
  note IH = snoc.IH [OF p(1)]
  have t: "frame_aligned t" "t \<in> U" using tables_okD [OF ok q'(1) q(2)] by auto
  have entry: "table_entry ?m g j = (if g = t \<and> j = i then e else if g = n then 0 else table_entry m g j)"
    if "frame_aligned g" for g
    using that t(1) n(1) q'(2) p(3) by (simp add: table_entry_store table_entry_clear)
  show ?case
  proof (cases "p = q @ [i]")
    case True
    then have "resolve m root (p @ [j]) = None"
      using absent q(2) by (simp add: resolve_append)
    moreover have "resolve ?m root p = Some n" using IH True by simp
    then have "resolve ?m root (p @ [j]) = None"
      using entry [OF n(1)] t(2) n(2) by (auto simp only: resolve_snoc) auto
    ultimately show ?thesis using True by simp
  next
    case False
    show ?thesis
    proof (cases "resolve m root p")
      case None
      with False IH q(2) show ?thesis by (auto simp: resolve_snoc)
    next
      case (Some g)
      have g: "frame_aligned g" "g \<in> U" using tables_okD [OF ok p(1) Some] by auto
      then have "g \<noteq> n" using n(2) by auto
      moreover have "g = t \<longleftrightarrow> p = q"
        using tables_okD(3) [OF ok p(1) Some q'(1)] q(2) Some by auto
      ultimately show ?thesis
        using IH Some False entry [OF g(1)] e by (auto simp: resolve_snoc)
    qed
  qed
qed

lemma resolve_new_table_ok:
  assumes ok: "tables_ok m root U" and q: "valid_path (q @ [i])" "resolve m root q = Some t"
    and absent: "\<not> present (table_entry m t i)"
    and n: "frame_aligned n" "n \<notin> U" and e: "present e" "PTE_GET_ADDR e = n"
  shows "tables_ok (store64 (MemorySet m n 0 4096) (t + 8 * i) e) root (insert n U)"
proof -
  note R = resolve_new_table [OF assms]
  have "p = p'" if "valid_path p" "valid_path p'"
    "(if p = q @ [i] then Some n else resolve m root p) = Some f"
    "(if p' = q @ [i] then Some n else resolve m root p') = Some f" for p p' f
    using that tables_okD [OF ok] n(2) by (auto split: if_splits)
  moreover have "f \<in> insert n U" if "valid_path p" "(if p = q @ [i] then Some n else resolve m root p) = Some f" for p f
    using that tables_okD [OF ok] by (auto split: if_splits)
  ultimately show ?thesis
    using ok unfolding tables_ok_def by (auto simp: R)
qed

section \<open>Effect of the stores on the translation\<close>

definition same_page :: "UInt64 \<Rightarrow> UInt64 \<Rightarrow> bool" where
  "same_page v w \<longleftrightarrow> table_path v = table_path w \<and> VMM_PT_INDEX v = VMM_PT_INDEX w"

lemma length_table_path [simp]: "length (table_path v) = 3"
  by (simp add: table_path_def)

lemma tables_ok_store:
  assumes ok: "tables_ok m root U" and "valid_path q" "resolve m root q = Some t" "i < 512"
    "present (table_entry m t i) \<and> present e \<and> PTE_GET_ADDR e = PTE_GET_ADDR (table_entry m t i)
      \<or> length q = 3"
  shows "tables_ok (store64 m (t + 8 * i) e) root U"
  using ok resolve_store [OF assms] unfolding tables_ok_def by auto

lemma translate_store:
  assumes ok: "tables_ok m root U" and q: "valid_path q" "resolve m root q = Some t" "i < 512"
    and keep: "present (table_entry m t i) \<and> present e \<and> PTE_GET_ADDR e = PTE_GET_ADDR (table_entry m t i)
      \<or> length q = 3"
  shows "translate (store64 m (t + 8 * i) e) root v =
    (if q = table_path v \<and> i = VMM_PT_INDEX v then if present e then Some e else None
     else translate m root v)"
proof (cases "resolve m root (table_path v)")
  case None
  then show ?thesis
    using resolve_store [OF assms valid_table_path] q(2) by (auto simp: translate_def)
next
  case (Some g)
  have "g = t \<longleftrightarrow> q = table_path v"
    using tables_okD(3) [OF ok valid_table_path Some q(1)] q(2) Some by auto
  then have "table_entry (store64 m (t + 8 * i) e) g (VMM_PT_INDEX v)
      = (if q = table_path v \<and> i = VMM_PT_INDEX v then e else table_entry m g (VMM_PT_INDEX v))"
    using tables_okD(1) [OF ok q(1,2)] tables_okD(1) [OF ok valid_table_path Some] q(3)
    by (auto simp: table_entry_store index_bound)
  then show ?thesis
    using Some resolve_store [OF assms valid_table_path] q(2) by (auto simp: translate_def Let_def)
qed

lemma translate_new_table:
  assumes ok: "tables_ok m root U" and q: "valid_path (q @ [i])" "resolve m root q = Some t"
    and absent: "\<not> present (table_entry m t i)"
    and n: "frame_aligned n" "n \<notin> U" and e: "present e" "PTE_GET_ADDR e = n"
  shows "translate (store64 (MemorySet m n 0 4096) (t + 8 * i) e) root v = translate m root v"
proof -
  let ?m = "store64 (MemorySet m n 0 4096) (t + 8 * i) e"
  have q': "valid_path q" "length q \<le> 2" "i < 512" using q(1) by (simp_all add: valid_path_snoc)
  have t: "frame_aligned t" "t \<in> U" using tables_okD [OF ok q'(1) q(2)] by auto
  have entry: "table_entry ?m g j = (if g = t \<and> j = i then e else if g = n then 0 else table_entry m g j)"
    if "frame_aligned g" "j < 512" for g j
    using that t(1) n(1) q'(3) by (simp add: table_entry_store table_entry_clear)
  have R: "resolve ?m root (table_path v) = (if table_path v = q @ [i] then Some n else resolve m root (table_path v))"
    by (rule resolve_new_table [OF assms valid_table_path])
  show ?thesis
  proof (cases "table_path v = q @ [i]")
    case True
    then have "resolve m root (table_path v) = None" using absent q(2) by (simp add: resolve_snoc)
    moreover have "table_entry ?m n (VMM_PT_INDEX v) = 0"
      using entry [OF n(1) index_bound(1)] t(2) n(2) by auto
    ultimately show ?thesis using R True by (simp add: translate_def)
  next
    case False
    show ?thesis
    proof (cases "resolve m root (table_path v)")
      case None
      with R False show ?thesis by (simp add: translate_def)
    next
      case (Some g)
      have g: "frame_aligned g" "g \<in> U" using tables_okD [OF ok valid_table_path Some] by auto
      have "g \<noteq> t" using tables_okD(3) [OF ok valid_table_path Some q'(1)] q(2) q'(2) length_table_path [of v] by force
      then have "table_entry ?m g (VMM_PT_INDEX v) = table_entry m g (VMM_PT_INDEX v)"
        using entry [OF g(1) index_bound(1)] g(2) n(2) by auto
      with R False Some show ?thesis by (simp add: translate_def)
    qed
  qed
qed

section \<open>The mapping operations\<close>

definition used_frames :: "'a pmm_scheme \<Rightarrow> UInt64 set" where
  "used_frames s = {f. frame_aligned f \<and> page_of f \<notin> free_frames s}"

definition address_space_ok :: "'a vmm_scheme \<Rightarrow> UInt64 \<Rightarrow> bool" where
  "address_space_ok s root \<longleftrightarrow> pmm_inv s \<and> tables_ok (mem s) root (used_frames s)"

lemma kernel_physical_table [simp]:
  "kernel_physical s (sVMGetVirtualTable s t + x) = t + x"
  "kernel_physical s (sVMGetVirtualTable s t) = t"
  by (simp_all add: kernel_physical_def sVMGetVirtualTable_def HHDM_TO_PHYS_def PHYS_TO_HHDM_def)

lemma table_read_entry [simp]: "table_read s (sVMGetVirtualTable s t) i = table_entry (mem s) t i"
  by (simp add: table_read_def table_entry_def)

lemma table_write_store [simp]:
  "table_write (sVMGetVirtualTable s t) i v s = s\<lparr>mem := store64 (mem s) (t + 8 * i) v\<rparr>"
  by (simp add: table_write_def)

lemma kernel_clear_frame [simp]:
  "kernel_clear_page (sVMGetVirtualTable s t) s = s\<lparr>mem := MemorySet (mem s) t 0 4096\<rparr>"
  by (simp add: kernel_clear_page_def)

lemma sVMGetVirtualTable_update [simp]:
  "sVMGetVirtualTable (s\<lparr>mem := m\<rparr>) = sVMGetVirtualTable s"
  "sVMGetVirtualTable (s\<lparr>gVMPhycalMemoryBitmap := b\<rparr>) = sVMGetVirtualTable s"
  "sVMGetVirtualTable (invlpg v s) = sVMGetVirtualTable s"
  by (simp_all add: sVMGetVirtualTable_def invlpg_def fun_eq_iff)

lemma table_read_update [simp]:
  "table_read (s\<lparr>mem := m\<rparr>) (sVMGetVirtualTable s t) i = table_entry m t i"
  "table_read (s\<lparr>gVMPhycalMemoryBitmap := b, mem := m\<rparr>) (sVMGetVirtualTable s t) i = table_entry m t i"
  "table_read (s\<lparr>gVMPhycalMemoryBitmap := b\<rparr>) (sVMGetVirtualTable s t) i = table_entry (mem s) t i"
  using table_read_entry [of "s\<lparr>mem := m\<rparr>" t i] table_read_entry [of "s\<lparr>gVMPhycalMemoryBitmap := b\<rparr>" t i]
    table_read_entry [of "s\<lparr>gVMPhycalMemoryBitmap := b, mem := m\<rparr>" t i]
  by simp_all

lemma table_write_update [simp]:
  "table_write (sVMGetVirtualTable s t) i v (s\<lparr>gVMPhycalMemoryBitmap := b, mem := m\<rparr>)
     = s\<lparr>gVMPhycalMemoryBitmap := b, mem := store64 m (t + 8 * i) v\<rparr>"
  using table_write_store [of "s\<lparr>gVMPhycalMemoryBitmap := b, mem := m\<rparr>" t i v] by simp

lemma kernel_clear_update [simp]:
  "kernel_clear_page (sVMGetVirtualTable s t) (s\<lparr>gVMPhycalMemoryBitmap := b\<rparr>)
     = s\<lparr>gVMPhycalMemoryBitmap := b, mem := MemorySet (mem s) t 0 4096\<rparr>"
  using kernel_clear_frame [of "s\<lparr>gVMPhycalMemoryBitmap := b\<rparr>" t] by simp

lemma pmm_inv_mem [simp]: "pmm_inv (s\<lparr>mem := m\<rparr>) = pmm_inv s"
  by (simp add: pmm_inv_def free_frames_def)

lemma free_frames_mem [simp]: "free_frames (s\<lparr>mem := m\<rparr>) = free_frames s"
  by (simp add: free_frames_def)

lemma used_frames_mem [simp]: "used_frames (s\<lparr>mem := m\<rparr>) = used_frames s"
  by (simp add: used_frames_def)

text \<open>
  What one level of the mapping code establishes. Either every frame is taken and nothing changes,
  or the walk finds a table below entry \<open>i\<close> and every translation is as before.
\<close>

definition extends_tables :: "UInt64 \<Rightarrow> 'a vmm_scheme \<Rightarrow> 'a vmm_scheme \<Rightarrow> bool" where
  "extends_tables root s t \<longleftrightarrow> address_space_ok t root \<and>
     (\<exists>b m. t = s\<lparr>gVMPhycalMemoryBitmap := b, mem := m\<rparr>) \<and>
     free_frames t \<subseteq> free_frames s \<and>
     (\<forall>v. translate (mem t) root v = translate (mem s) root v) \<and>
     (\<forall>p f. valid_path p \<longrightarrow> resolve (mem s) root p = Some f \<longrightarrow> resolve (mem t) root p = Some f) \<and>
     (\<forall>p f. valid_path p \<longrightarrow> resolve (mem t) root p = Some f \<longrightarrow>
        resolve (mem s) root p = Some f \<or> page_of f \<in> free_frames s)"

lemma present_OR: "present e \<Longrightarrow> present (e OR w)"
  by (simp add: bit.conj_disj_distrib2 or_eq_0_iff)

lemma table_flag_bits:
  assumes "12 \<le> j" shows "\<not> bit (PTE_PRESENT OR PTE_RW OR (flags AND PTE_USER)) j"
proof -
  have "\<not> bit (push_bit 1 1 :: UInt64) j" using assms by (simp only: bit_push_bit_iff bit_1_iff) auto
  then have "\<not> bit PTE_RW j" by simp
  then show ?thesis using assms user_flag_bits [of flags j] by (auto simp: bit_or_iff bit_1_iff)
qed

lemma extends_keep_table:
  assumes ok: "address_space_ok s root"
    and q: "valid_path (q @ [i])" "resolve (mem s) root q = Some t" "present (table_entry (mem s) t i)"
  shows "let e = table_entry (mem s) t i OR (flags AND PTE_USER);
             s' = s\<lparr>mem := store64 (mem s) (t + 8 * i) e\<rparr>
         in resolve (mem s') root (q @ [i]) = Some (PTE_GET_ADDR e) \<and> extends_tables root s s'"
proof -
  have pmm: "pmm_inv s" and tab: "tables_ok (mem s) root (used_frames s)"
    using ok by (auto simp: address_space_ok_def)
  have q': "valid_path q" "i < 512" "length q \<le> 2" using q(1) by (simp_all add: valid_path_snoc)
  let ?old = "table_entry (mem s) t i"
  let ?e = "?old OR (flags AND PTE_USER)"
  let ?s = "s\<lparr>mem := store64 (mem s) (t + 8 * i) ?e\<rparr>"
  have addr: "PTE_GET_ADDR ?e = PTE_GET_ADDR ?old"
    by (rule PTE_GET_ADDR_OR) (use user_flag_bits in fastforce)
  then have keep: "present ?old \<and> present ?e \<and> PTE_GET_ADDR ?e = PTE_GET_ADDR ?old \<or> length q = 3"
    using q(3) present_OR by blast
  note store = tab q'(1) q(2) q'(2) keep
  have "translate (mem ?s) root v = translate (mem s) root v" for v
    using translate_store [OF store] q'(3) length_table_path [of v] by auto
  moreover have "?s = s\<lparr>gVMPhycalMemoryBitmap := gVMPhycalMemoryBitmap s, mem := mem ?s\<rparr>" by simp
  ultimately have "extends_tables root s ?s"
    using tables_ok_store [OF store] resolve_store [OF store] pmm
    unfolding extends_tables_def address_space_ok_def by fastforce
  moreover have "resolve (mem ?s) root (q @ [i]) = Some (PTE_GET_ADDR ?e)"
    using resolve_store [OF store q(1)] q(2,3) addr by (simp add: resolve_snoc)
  ultimately show ?thesis by (simp add: Let_def)
qed

lemma used_frames_insert:
  assumes "bitmap_free bm = free_frames s - {p}" "p < 2 ^ 40"
  shows "used_frames (s\<lparr>gVMPhycalMemoryBitmap := bm\<rparr>) = insert (frame_address p) (used_frames s)"
proof -
  have "frame_aligned f \<and> page_of f = p \<longleftrightarrow> f = frame_address p" for f
    using assms(2) by (auto intro!: frame_eqI simp: page_of_def unat_frame_address)
  then show ?thesis using assms(1) by (auto simp: used_frames_def free_frames_def)
qed

lemma extends_new_table:
  assumes ok: "address_space_ok s root"
    and q: "valid_path (q @ [i])" "resolve (mem s) root q = Some t" "\<not> present (table_entry (mem s) t i)"
    and p: "p \<in> free_frames s" and bm: "length bm = length (gVMPhycalMemoryBitmap s)" "bitmap_free bm = free_frames s - {p}"
  shows "let e = frame_address p OR (PTE_PRESENT OR PTE_RW OR (flags AND PTE_USER));
             s' = s\<lparr>gVMPhycalMemoryBitmap := bm, mem := store64 (MemorySet (mem s) (frame_address p) 0 4096) (t + 8 * i) e\<rparr>
         in PTE_GET_ADDR e = frame_address p \<and> resolve (mem s') root (q @ [i]) = Some (frame_address p)
            \<and> extends_tables root s s'"
proof -
  have pmm: "pmm_inv s" and tab: "tables_ok (mem s) root (used_frames s)"
    using ok by (auto simp: address_space_ok_def)
  have p40: "p < 2 ^ 40" by (rule free_frames_bound [OF pmm p])
  let ?n = "frame_address p"
  let ?e = "?n OR (PTE_PRESENT OR PTE_RW OR (flags AND PTE_USER))"
  let ?m = "store64 (MemorySet (mem s) ?n 0 4096) (t + 8 * i) ?e"
  let ?s = "s\<lparr>gVMPhycalMemoryBitmap := bm, mem := ?m\<rparr>"
  have fresh: "?n \<notin> used_frames s" using p p40 by (simp add: used_frames_def)
  have pe: "present ?e" using present_OR [of PTE_PRESENT] by (simp add: ac_simps)
  have addr: "PTE_GET_ADDR ?e = ?n"
    by (rule PTE_GET_ADDR_frame [OF p40 table_flag_bits])
  note new = tab q frame_aligned_frame_address fresh pe addr
  have "used_frames ?s = insert ?n (used_frames s)"
    using used_frames_insert [OF bm(2) p40] by (simp add: used_frames_def free_frames_def)
  then have "tables_ok ?m root (used_frames ?s)" using resolve_new_table_ok [OF new] by simp
  moreover have "pmm_inv ?s" using pmm bm by (auto simp: pmm_inv_def free_frames_def)
  moreover have "resolve ?m root p' = Some f" if "valid_path p'" "resolve (mem s) root p' = Some f" for p' f
  proof -
    have "resolve (mem s) root (q @ [i]) = None" using q(2,3) by (simp add: resolve_snoc)
    then show ?thesis using resolve_new_table [OF new that(1)] that(2) by auto
  qed
  moreover have "resolve (mem s) root p' = Some f \<or> page_of f \<in> free_frames s"
    if "valid_path p'" "resolve ?m root p' = Some f" for p' f
    using resolve_new_table [OF new that(1)] that(2) p p40 by (auto split: if_splits)
  moreover have "free_frames ?s \<subseteq> free_frames s" using bm(2) by (auto simp: free_frames_def)
  ultimately have "extends_tables root s ?s"
    using translate_new_table [OF new] unfolding extends_tables_def address_space_ok_def by auto
  then show ?thesis using addr resolve_new_table [OF new q(1)] by (simp add: Let_def)
qed

lemma address_space_root: "address_space_ok s root \<Longrightarrow> valid_path p \<Longrightarrow> resolve (mem s) root p = Some t \<Longrightarrow> frame_aligned t"
  by (auto simp: address_space_ok_def dest: tables_okD(1))

lemma EnsureTable_effect:
  assumes ok: "address_space_ok s root"
    and q: "valid_path (q @ [i])" "resolve (mem s) root q = Some t"
  shows "sVMEnsureTable (sVMGetVirtualTable s t) i flags s = Inr (None, s) \<and> free_frames s = {} \<or>
    (\<exists>s' n. sVMEnsureTable (sVMGetVirtualTable s t) i flags s = Inr (Some (sVMGetVirtualTable s' n), s')
       \<and> resolve (mem s') root (q @ [i]) = Some n \<and> extends_tables root s s')"
proof (cases "present (table_entry (mem s) t i)")
  case True
  have t: "frame_aligned t" "i < 512" using q address_space_root [OF ok] by (auto simp: valid_path_snoc)
  from extends_keep_table [OF ok q True, of flags] True show ?thesis
    by (auto simp: sVMEnsureTable_def Let_def table_entry_store [OF t(1) t(1) t(2) t(2)])
next
  case False
  have pmm: "pmm_inv s" using ok by (simp add: address_space_ok_def)
  show ?thesis
  proof (cases "free_frames s = {}")
    case True
    then show ?thesis using AllocatePage_exhausted [OF pmm] False by (simp add: sVMEnsureTable_def Let_def)
  next
    case some: False
    let ?p = "Min (free_frames s)"
    have p: "?p \<in> free_frames s" using some by simp
    from AllocatePage_takes_least [OF pmm some] obtain bm where
      alloc: "VMPhysicalMemoryAllocatePage s = Inr (frame_address ?p, s\<lparr>gVMPhycalMemoryBitmap := bm\<rparr>)"
      and bm: "length bm = length (gVMPhycalMemoryBitmap s)" "bitmap_free bm = free_frames s - {?p}"
      by blast
    have "frame_address ?p \<noteq> 0"
      using pmm.alloc_null_iff [OF pmm alloc] some by simp
    moreover have t: "frame_aligned t" "i < 512" using q address_space_root [OF ok] by (auto simp: valid_path_snoc)
    ultimately show ?thesis
      using alloc False extends_new_table [OF ok q False p bm, of flags]
      by (auto simp: sVMEnsureTable_def Let_def table_entry_store [OF t(1) t(1) t(2) t(2)])
  qed
qed

lemma extends_tables_trans:
  "extends_tables root s t \<Longrightarrow> extends_tables root t u \<Longrightarrow> extends_tables root s u"
  unfolding extends_tables_def by (elim conjE exE) (intro conjI; force)

lemma extends_tables_refl: "address_space_ok s root \<Longrightarrow> extends_tables root s s"
  unfolding extends_tables_def
  by (intro conjI exI [of _ "gVMPhycalMemoryBitmap s"] exI [of _ "mem s"]) simp_all

lemma extends_tablesD:
  assumes "extends_tables root s t"
  shows "address_space_ok t root" "free_frames t \<subseteq> free_frames s" "translate (mem t) root v = translate (mem s) root v"
    "valid_path p \<Longrightarrow> resolve (mem s) root p = Some f \<Longrightarrow> resolve (mem t) root p = Some f"
    "isInitialized t = isInitialized s" "invalidated t = invalidated s" "gVMKernelPML4 t = gVMKernelPML4 s"
    "valid_path p \<Longrightarrow> resolve (mem t) root p = Some f \<Longrightarrow> resolve (mem s) root p = Some f \<or> page_of f \<in> free_frames s"
  using assms unfolding extends_tables_def by auto

lemma pml4_virt_table: "(if isInitialized s then PHYS_TO_HHDM pml4 else pml4) = sVMGetVirtualTable s pml4"
  by (simp add: sVMGetVirtualTable_def)

text \<open>The three levels walked one after the other, or memory ran out on the way.\<close>

lemma walk_effect:
  assumes ok: "address_space_ok s root" and phys: "present (phys OR flags)"
  shows "(\<exists>t. sVMVirtualMemoryMapPageInternal root phys virt flags s = Inr (0, t) \<and>
            extends_tables root s t \<and> free_frames t = {}) \<or>
    (\<exists>t pt. sVMVirtualMemoryMapPageInternal root phys virt flags s = Inr (virt,
            invlpg virt (t\<lparr>mem := store64 (mem t) (pt + 8 * VMM_PT_INDEX virt) (phys OR flags)\<rparr>)) \<and>
          extends_tables root s t \<and> resolve (mem t) root (table_path virt) = Some pt)"
  (is "?oom \<or> ?done")
proof -
  let ?i = "VMM_PML4_INDEX virt" and ?j = "VMM_PDPT_INDEX virt" and ?k = "VMM_PD_INDEX virt"
  note def = sVMVirtualMemoryMapPageInternal_def pml4_virt_table Let_def
  have v: "valid_path ([] @ [?i])" "valid_path ([?i] @ [?j])" "valid_path ([?i, ?j] @ [?k])"
    by (simp_all add: valid_path_def index_bound)
  from EnsureTable_effect [OF ok v(1), of root flags] consider
    "sVMEnsureTable (sVMGetVirtualTable s root) ?i flags s = Inr (None, s)" "free_frames s = {}"
  | s1 n1 where "sVMEnsureTable (sVMGetVirtualTable s root) ?i flags s = Inr (Some (sVMGetVirtualTable s1 n1), s1)"
      "resolve (mem s1) root [?i] = Some n1" "extends_tables root s s1" by auto
  then show ?thesis
  proof cases
    case 1
    then have ?oom using extends_tables_refl [OF ok] by (simp add: def)
    then show ?thesis ..
  next
    case 2
    note 1 = this and ok1 = extends_tablesD(1) [OF 2(3)]
    from EnsureTable_effect [OF ok1 v(2) 1(2), of flags] consider
      "sVMEnsureTable (sVMGetVirtualTable s1 n1) ?j flags s1 = Inr (None, s1)" "free_frames s1 = {}"
    | s2 n2 where "sVMEnsureTable (sVMGetVirtualTable s1 n1) ?j flags s1 = Inr (Some (sVMGetVirtualTable s2 n2), s2)"
        "resolve (mem s2) root [?i, ?j] = Some n2" "extends_tables root s1 s2" by auto
    then show ?thesis
    proof cases
      case 1
      then have ?oom using \<open>extends_tables root s s1\<close> 2 by (simp add: def)
      then show ?thesis ..
    next
      case 2
      note 2 = this and ok2 = extends_tablesD(1) [OF 2(3)]
      have ext: "extends_tables root s s2" using extends_tables_trans 1(3) 2(3) by blast
      from EnsureTable_effect [OF ok2 v(3) 2(2), of flags] consider
        "sVMEnsureTable (sVMGetVirtualTable s2 n2) ?k flags s2 = Inr (None, s2)" "free_frames s2 = {}"
      | s3 n3 where "sVMEnsureTable (sVMGetVirtualTable s2 n2) ?k flags s2 = Inr (Some (sVMGetVirtualTable s3 n3), s3)"
          "resolve (mem s3) root [?i, ?j, ?k] = Some n3" "extends_tables root s2 s3" by auto
      then show ?thesis
      proof cases
        case 1
        then have ?oom using ext \<open>sVMEnsureTable (sVMGetVirtualTable s root) ?i flags s = _\<close> 2 by (simp add: def)
        then show ?thesis ..
      next
        case 2
        then have ?done
          using extends_tables_trans [OF ext 2(3)]
            \<open>sVMEnsureTable (sVMGetVirtualTable s root) ?i flags s = _\<close>
            \<open>sVMEnsureTable (sVMGetVirtualTable s1 n1) ?j flags s1 = _\<close>
          by (intro exI [of _ s3] exI [of _ n3]) (simp add: def table_path_def)
        then show ?thesis ..
      qed
    qed
  qed
qed

lemma same_page_iff: "same_page v w \<longleftrightarrow> table_path w = table_path v \<and> VMM_PT_INDEX w = VMM_PT_INDEX v"
  by (auto simp: same_page_def)

definition vmm_ready :: "'a vmm_scheme \<Rightarrow> UInt64 \<Rightarrow> bool" where
  "vmm_ready s root \<longleftrightarrow> address_space_ok s root \<and> lock_free (sVMVMMlock s)"

text \<open>The state outside memory, bitmap and TLB is untouched by the mapping code.\<close>

definition vmm_frame :: "'a vmm_scheme \<Rightarrow> 'a vmm_scheme \<Rightarrow> bool" where
  "vmm_frame s t \<longleftrightarrow> (\<exists>b m i. t = s\<lparr>gVMPhycalMemoryBitmap := b, mem := m, invalidated := i\<rparr>)"

lemma address_space_ok_simps [simp]:
  "address_space_ok (s\<lparr>sVMVMMlock := l\<rparr>) root = address_space_ok s root"
  "address_space_ok (s\<lparr>interruptFlag := f\<rparr>) root = address_space_ok s root"
  "address_space_ok (s\<lparr>invalidated := i\<rparr>) root = address_space_ok s root"
  by (simp_all add: address_space_ok_def pmm_inv_def used_frames_def free_frames_def)

lemma free_frames_simps [simp]:
  "free_frames (s\<lparr>sVMVMMlock := l\<rparr>) = free_frames s"
  "free_frames (s\<lparr>interruptFlag := f\<rparr>) = free_frames s"
  "free_frames (s\<lparr>invalidated := i\<rparr>) = free_frames s"
  by (simp_all add: free_frames_def)

abbreviation locked :: "'a vmm_scheme \<Rightarrow> 'a vmm_scheme" where
  "locked s \<equiv> s\<lparr>interruptFlag := False, sVMVMMlock := \<lparr>lockValue = 1\<rparr>\<rparr>"

lemma vmm_section:
  assumes "lock_free (sVMVMMlock s)"
    and "body (locked s) = Inr (r, (locked s)\<lparr>gVMPhycalMemoryBitmap := b, mem := m, invalidated := i\<rparr>)"
  shows "with_vmm_lock body s = Inr (r, s\<lparr>gVMPhycalMemoryBitmap := b, mem := m, invalidated := i\<rparr>)"
proof -
  have lock: "sVMVMMlock s = \<lparr>lockValue = 0\<rparr>" using assms(1) by (cases "sVMVMMlock s") simp
  have "(locked s)\<lparr>gVMPhycalMemoryBitmap := b, mem := m, invalidated := i, interruptFlag := interruptFlag s, sVMVMMlock := \<lparr>lockValue = 0\<rparr>\<rparr>
     = s\<lparr>gVMPhycalMemoryBitmap := b, mem := m, invalidated := i\<rparr>"
    by (rule vmm.equality) (simp_all add: lock)
  then show ?thesis using assms by (simp add: vmm_lock.section_eq)
qed

lemma MapPage_effect:
  fixes s :: "'a vmm_scheme"
  assumes ready: "vmm_ready s root" and phys: "present (phys OR flags)"
  shows "\<exists>r t. VMVirtualMemoryMapPage root phys virt flags s = Inr (r, t) \<and> vmm_ready t root \<and> vmm_frame s t \<and>
    free_frames t \<subseteq> free_frames s \<and>
    (r = 0 \<and> free_frames t = {} \<and> (\<forall>v. translate (mem t) root v = translate (mem s) root v) \<or>
     r = virt \<and> (\<forall>v. translate (mem t) root v =
       (if same_page v virt then Some (phys OR flags) else translate (mem s) root v)))"
proof -
  have ok: "address_space_ok (locked s) root" and lock: "lock_free (sVMVMMlock s)"
    using ready by (simp_all add: vmm_ready_def)
  note sec = vmm_section [of s "sVMVirtualMemoryMapPageInternal root phys virt flags", OF lock,
      folded VMVirtualMemoryMapPage_def]
  from walk_effect [OF ok phys, of virt] show ?thesis
  proof (elim disjE exE conjE)
    fix t :: "'a vmm_scheme"
    assume run: "sVMVirtualMemoryMapPageInternal root phys virt flags (locked s) = Inr (0, t)"
      and ext: "extends_tables root (locked s) t" and oom: "free_frames t = {}"
    from ext obtain b m where t: "t = (locked s)\<lparr>gVMPhycalMemoryBitmap := b, mem := m, invalidated := invalidated s\<rparr>"
      by (auto simp: extends_tables_def)
    let ?t = "s\<lparr>gVMPhycalMemoryBitmap := b, mem := m, invalidated := invalidated s\<rparr>"
    have "VMVirtualMemoryMapPage root phys virt flags s = Inr (0, ?t)"
      using sec [OF run [unfolded t]] .
    moreover have "vmm_ready ?t root" "free_frames ?t = {}"
      using extends_tablesD(1) [OF ext] oom lock
      by (simp_all add: t vmm_ready_def address_space_ok_def pmm_inv_def used_frames_def free_frames_def)
    moreover have "translate (mem ?t) root v = translate (mem s) root v" for v
      using extends_tablesD(3) [OF ext, of v] by (simp add: t)
    moreover have "vmm_frame s ?t" unfolding vmm_frame_def by blast
    ultimately show ?thesis by blast
  next
    fix t :: "'a vmm_scheme" and pt
    let ?e = "phys OR flags"
    let ?m = "store64 (mem t) (pt + 8 * VMM_PT_INDEX virt) ?e"
    assume run: "sVMVirtualMemoryMapPageInternal root phys virt flags (locked s)
        = Inr (virt, invlpg virt (t\<lparr>mem := ?m\<rparr>))"
      and ext: "extends_tables root (locked s) t" and pt: "resolve (mem t) root (table_path virt) = Some pt"
    from ext obtain b m where t: "t = (locked s)\<lparr>gVMPhycalMemoryBitmap := b, mem := m, invalidated := invalidated s\<rparr>"
      by (auto simp: extends_tables_def)
    let ?t = "s\<lparr>gVMPhycalMemoryBitmap := b, mem := ?m, invalidated := virt # invalidated s\<rparr>"
    have tab: "tables_ok (mem t) root (used_frames t)"
      using extends_tablesD(1) [OF ext] by (simp add: address_space_ok_def)
    note store = tab valid_table_path pt index_bound(1) [of virt] disjI2 [OF length_table_path]
    have "VMVirtualMemoryMapPage root phys virt flags s = Inr (virt, ?t)"
      using sec run by (simp add: t invlpg_def)
    moreover have "vmm_ready ?t root" "free_frames ?t \<subseteq> free_frames s"
      using extends_tablesD(1,2) [OF ext] tables_ok_store [OF store, of ?e] lock
      by (simp_all add: t vmm_ready_def address_space_ok_def pmm_inv_def used_frames_def free_frames_def)
    moreover have "translate (mem ?t) root v = (if same_page v virt then Some ?e else translate (mem s) root v)" for v
      using translate_store [OF store, of ?e v] extends_tablesD(3) [OF ext, of v] phys
      by (simp add: same_page_iff t)
    moreover have "vmm_frame s ?t" unfolding vmm_frame_def by blast
    ultimately show ?thesis by blast
  qed
qed

text \<open>The tables a mapping adds are frames that were free.\<close>

lemma MapPage_tables:
  fixes s :: "'a vmm_scheme"
  assumes ready: "vmm_ready s root" and phys: "present (phys OR flags)"
    and run: "VMVirtualMemoryMapPage root phys virt flags s = Inr (r, u)"
    and p: "valid_path p" "resolve (mem u) root p = Some f"
  shows "resolve (mem s) root p = Some f \<or> page_of f \<in> free_frames s"
proof -
  have ok: "address_space_ok (locked s) root" and lock: "lock_free (sVMVMMlock s)"
    using ready by (simp_all add: vmm_ready_def)
  have mem_u: "mem u = mem t" if "sVMVirtualMemoryMapPageInternal root phys virt flags (locked s) = Inr (x, t)" for x t
    using run that lock by (simp add: VMVirtualMemoryMapPage_def vmm_lock.section_eq) auto
  from walk_effect [OF ok phys, of virt] show ?thesis
  proof (elim disjE exE conjE)
    fix t :: "'a vmm_scheme"
    assume "sVMVirtualMemoryMapPageInternal root phys virt flags (locked s) = Inr (0, t)" "extends_tables root (locked s) t"
    then show ?thesis using extends_tablesD(8) p mem_u by fastforce
  next
    fix t :: "'a vmm_scheme" and pt
    let ?m = "store64 (mem t) (pt + 8 * VMM_PT_INDEX virt) (phys OR flags)"
    assume walk: "sVMVirtualMemoryMapPageInternal root phys virt flags (locked s) = Inr (virt, invlpg virt (t\<lparr>mem := ?m\<rparr>))"
      and ext: "extends_tables root (locked s) t" and pt: "resolve (mem t) root (table_path virt) = Some pt"
    have tab: "tables_ok (mem t) root (used_frames t)"
      using extends_tablesD(1) [OF ext] by (simp add: address_space_ok_def)
    have "mem u = ?m" using mem_u [OF walk] by (simp add: invlpg_def)
    then have "resolve (mem t) root p = Some f"
      using resolve_store [OF tab valid_table_path pt index_bound(1) [of virt] disjI2 [OF length_table_path] p(1)] p(2) by simp
    then show ?thesis using extends_tablesD(8) [OF ext p(1)] by simp
  qed
qed

text \<open>Unmapping removes the page and nothing else; an address with no table under it is left alone.\<close>

lemma unmap_walk:
  "sVMVirtualMemoryUnmapPageInternal root virt s = Inr ((), case resolve (mem s) root (table_path virt) of
     None \<Rightarrow> s
   | Some pt \<Rightarrow> invlpg virt (s\<lparr>mem := store64 (mem s) (pt + 8 * VMM_PT_INDEX virt) 0\<rparr>))"
  by (simp add: sVMVirtualMemoryUnmapPageInternal_def pml4_virt_table Let_def table_path_def)

lemma UnmapPage_effect:
  assumes ready: "vmm_ready s root"
  shows "\<exists>t. VMVirtualMemoryUnmapPage root virt s = Inr ((), t) \<and> vmm_ready t root \<and> vmm_frame s t \<and>
    free_frames t = free_frames s \<and>
    (\<forall>v. translate (mem t) root v = (if same_page v virt then None else translate (mem s) root v))"
proof -
  have lock: "lock_free (sVMVMMlock s)" and tab: "tables_ok (mem s) root (used_frames s)"
    using ready by (simp_all add: vmm_ready_def address_space_ok_def)
  note sec = vmm_section [of s "sVMVirtualMemoryUnmapPageInternal root virt", OF lock,
      folded VMVirtualMemoryUnmapPage_def]
  show ?thesis
  proof (cases "resolve (mem s) root (table_path virt)")
    case None
    have "sVMVirtualMemoryUnmapPageInternal root virt (locked s)
        = Inr ((), (locked s)\<lparr>gVMPhycalMemoryBitmap := gVMPhycalMemoryBitmap s, mem := mem s, invalidated := invalidated s\<rparr>)"
      using None by (simp add: unmap_walk)
    from sec [OF this] have "VMVirtualMemoryUnmapPage root virt s = Inr ((), s)" by simp
    moreover have "translate (mem s) root v = None" if "same_page v virt" for v
      using that None by (simp add: translate_def same_page_def)
    moreover have "vmm_frame s s"
      unfolding vmm_frame_def
      by (intro exI [of _ "gVMPhycalMemoryBitmap s"] exI [of _ "mem s"] exI [of _ "invalidated s"]) simp
    ultimately show ?thesis using ready by auto
  next
    case (Some pt)
    let ?m = "store64 (mem s) (pt + 8 * VMM_PT_INDEX virt) 0"
    let ?t = "s\<lparr>gVMPhycalMemoryBitmap := gVMPhycalMemoryBitmap s, mem := ?m, invalidated := virt # invalidated s\<rparr>"
    note store = tab valid_table_path Some index_bound(1) [of virt] disjI2 [OF length_table_path]
    have "sVMVirtualMemoryUnmapPageInternal root virt (locked s)
        = Inr ((), (locked s)\<lparr>gVMPhycalMemoryBitmap := gVMPhycalMemoryBitmap s, mem := ?m, invalidated := virt # invalidated s\<rparr>)"
      using Some by (simp add: unmap_walk invlpg_def)
    from sec [OF this] have "VMVirtualMemoryUnmapPage root virt s = Inr ((), ?t)" .
    moreover have "vmm_ready ?t root" "free_frames ?t = free_frames s"
      using ready tables_ok_store [OF store, of 0]
      by (simp_all add: vmm_ready_def address_space_ok_def pmm_inv_def used_frames_def free_frames_def)
    moreover have "translate (mem ?t) root v = (if same_page v virt then None else translate (mem s) root v)" for v
      using translate_store [OF store, of 0 v] by (simp add: same_page_iff)
    moreover have "vmm_frame s ?t" unfolding vmm_frame_def by blast
    ultimately show ?thesis by blast
  qed
qed

section \<open>Creating an address space\<close>

text \<open>Writing to a frame outside the tree changes no walk in it.\<close>

lemma walk_outside:
  assumes ok: "tables_ok m root U" and n: "n \<notin> U"
    and same: "\<And>g j. frame_aligned g \<Longrightarrow> g \<noteq> n \<Longrightarrow> j < 512 \<Longrightarrow> table_entry m' g j = table_entry m g j"
  shows "valid_path p \<Longrightarrow> resolve m' root p = resolve m root p" "translate m' root v = translate m root v"
proof -
  show R: "resolve m' root p = resolve m root p" if "valid_path p" for p
    using that
  proof (induction p rule: rev_induct)
    case (snoc j p)
    then have p: "valid_path p" "j < 512" by (simp_all add: valid_path_snoc)
    show ?case
    proof (cases "resolve m root p")
      case (Some g)
      then have "table_entry m' g j = table_entry m g j"
        using same [of g j] tables_okD [OF ok p(1) Some] n p(2) by auto
      with Some snoc.IH [OF p(1)] show ?thesis by (simp add: resolve_snoc)
    qed (use snoc.IH [OF p(1)] in \<open>simp add: resolve_snoc\<close>)
  qed simp
  show "translate m' root v = translate m root v"
  proof (cases "resolve m root (table_path v)")
    case (Some g)
    then have "table_entry m' g (VMM_PT_INDEX v) = table_entry m g (VMM_PT_INDEX v)"
      using same [of g] tables_okD [OF ok valid_table_path Some] n index_bound(1) [of v] by auto
    with Some R [OF valid_table_path, of v] show ?thesis by (simp add: translate_def)
  qed (use R [OF valid_table_path, of v] in \<open>simp add: translate_def\<close>)
qed

lemma tables_ok_outside:
  assumes ok: "tables_ok m root U" and n: "n \<notin> U"
    and same: "\<And>g j. frame_aligned g \<Longrightarrow> g \<noteq> n \<Longrightarrow> j < 512 \<Longrightarrow> table_entry m' g j = table_entry m g j"
    and W: "U \<subseteq> W"
  shows "tables_ok m' root W"
  using ok walk_outside(1) [OF assms(1-3)] W unfolding tables_ok_def by (simp add: subset_iff)

lemma copy_kernel_half_effect:
  assumes "frame_aligned n" "frame_aligned k" "n \<noteq> k" "set is \<subseteq> {..<512}"
  shows "\<exists>m'. copy_kernel_half (sVMGetVirtualTable s n) (sVMGetVirtualTable s k) is s = s\<lparr>mem := m'\<rparr> \<and>
    (\<forall>g j. frame_aligned g \<longrightarrow> j < 512 \<longrightarrow> table_entry m' g j =
       (if g = n \<and> unat j \<in> set is then table_entry (mem s) k j else table_entry (mem s) g j))"
  using assms(4)
proof (induction "is" arbitrary: s)
  case Nil
  show ?case by (rule exI [of _ "mem s"]) simp
next
  case (Cons i "is")
  let ?i = "of_nat i :: UInt64"
  let ?s = "s\<lparr>mem := store64 (mem s) (n + 8 * ?i) (table_entry (mem s) k ?i)\<rparr>"
  have i: "unat ?i = i" "?i < 512" using Cons.prems by (simp_all add: unat_of_nat word_less_nat_alt)
  have "set is \<subseteq> {..<512}" using Cons.prems by simp
  from Cons.IH [OF this, of ?s] obtain m' where
    m': "copy_kernel_half (sVMGetVirtualTable s n) (sVMGetVirtualTable s k) is ?s = s\<lparr>mem := m'\<rparr>"
      "\<forall>g j. frame_aligned g \<longrightarrow> j < 512 \<longrightarrow> table_entry m' g j =
       (if g = n \<and> unat j \<in> set is then table_entry (mem ?s) k j else table_entry (mem ?s) g j)" by auto
  have "table_entry m' g j =
       (if g = n \<and> unat j \<in> set (i # is) then table_entry (mem s) k j else table_entry (mem s) g j)"
    if "frame_aligned g" "j < 512" for g j
    using m'(2) that i assms(1-3)
    by (auto simp: table_entry_store)
  with m'(1) show ?case by (auto simp: table_write_def)
qed

lemma new_root:
  assumes ok: "tables_ok m k U" and n: "frame_aligned n" "n \<notin> U"
    and entry: "\<And>g j. frame_aligned g \<Longrightarrow> j < 512 \<Longrightarrow> table_entry m' g j =
      (if g = n then if 256 \<le> unat j then table_entry m k j else 0 else table_entry m g j)"
  shows "tables_ok m' n (insert n U)"
    "translate m' n v = (if 256 \<le> unat (VMM_PML4_INDEX v) then translate m k v else None)"
proof -
  have k: "frame_aligned k" using ok by (simp add: tables_ok_def)
  have "k \<in> U" using tables_okD(2) [OF ok, of "[]" k] by (simp add: valid_path_def)
  then have "k \<noteq> n" using n by auto
  have same: "frame_aligned g \<Longrightarrow> g \<noteq> n \<Longrightarrow> j < 512 \<Longrightarrow> table_entry m' g j = table_entry m g j" for g j
    using entry by simp
  note out = walk_outside [OF ok n(2) same]
  have R: "resolve m' n (i # p) = (if 256 \<le> unat i then resolve m k (i # p) else None)"
    if "valid_path (i # p)" for i p
    using out(1) [OF _ _ _ that] that entry [OF n(1), of i] entry [OF k, of i] \<open>k \<noteq> n\<close>
    by (auto simp: valid_path_def)
  show "translate m' n v = (if 256 \<le> unat (VMM_PML4_INDEX v) then translate m k v else None)"
  proof (cases "256 \<le> unat (VMM_PML4_INDEX v)")
    case True
    then have "translate m' n v = translate m' k v"
      using R [of "VMM_PML4_INDEX v"] out(1) [of "table_path v"] valid_table_path [of v]
      by (simp add: translate_def table_path_def)
    with True out(2) show ?thesis by simp
  next
    case False
    then show ?thesis using R [of "VMM_PML4_INDEX v"] valid_table_path [of v] by (simp add: translate_def table_path_def)
  qed
  have inU: "f \<in> U" if "valid_path (i # p)" "resolve m' n (i # p) = Some f" for i p f
    using that R [OF that(1)] tables_okD(2) [OF ok that(1)] by (simp split: if_splits)
  have inj: "p = q" if "valid_path p" "valid_path q" "resolve m' n p = Some f" "resolve m' n q = Some f" for p q f
    using that inU n(2) R tables_okD(3) [OF ok, of p f q]
    by (cases p; cases q) (auto split: if_splits)
  have mem: "f \<in> insert n U" if "valid_path p" "resolve m' n p = Some f" for p f
    using that inU by (cases p) auto
  show "tables_ok m' n (insert n U)"
    unfolding tables_ok_def using n(1) mem inj by blast
qed

lemma vmm_frame_refl: "vmm_frame s s"
  unfolding vmm_frame_def
  by (intro exI [of _ "gVMPhycalMemoryBitmap s"] exI [of _ "mem s"] exI [of _ "invalidated s"]) simp

lemma vmm_frame_trans: "vmm_frame s t \<Longrightarrow> vmm_frame t u \<Longrightarrow> vmm_frame s u"
  unfolding vmm_frame_def by (elim exE) (simp, blast)

lemma CreateAddressSpace_effect:
  fixes s :: "'a vmm_scheme"
  assumes ready: "vmm_ready s (gVMKernelPML4 s)" and init: "isInitialized s"
  shows "\<exists>r t. VMVirtualMemoryCreateAddressSpace s = Inr (r, t) \<and> vmm_frame s t \<and>
    (if free_frames s = {} then r = 0 \<and> t = s
     else r \<noteq> 0 \<and> free_frames t \<subset> free_frames s \<and> vmm_ready t (gVMKernelPML4 s) \<and> vmm_ready t r \<and>
      (\<forall>v. translate (mem t) (gVMKernelPML4 s) v = translate (mem s) (gVMKernelPML4 s) v \<and>
        translate (mem t) r v =
          (if 256 \<le> unat (VMM_PML4_INDEX v) then translate (mem s) (gVMKernelPML4 s) v else None)))"
proof -
  let ?k = "gVMKernelPML4 s"
  have pmm: "pmm_inv (locked s)" "pmm_inv s" and lock: "lock_free (sVMVMMlock s)" and tab: "tables_ok (mem s) ?k (used_frames s)"
    using ready by (simp_all add: vmm_ready_def address_space_ok_def pmm_inv_def)
  let ?body = "\<lambda>s. bindE (VMPhysicalMemoryAllocatePage s) (\<lambda>(phys, s).
       if phys = 0 then Inr (0, s)
       else let virt = PHYS_TO_HHDM phys;
                s = kernel_clear_page virt s;
                kernel_pml4_virt = sVMGetVirtualTable s (gVMKernelPML4 s)
            in Inr (phys, copy_kernel_half virt kernel_pml4_virt [256..<512] s))"
  note sec = vmm_section [of s ?body, OF lock, folded VMVirtualMemoryCreateAddressSpace_def]
  show ?thesis
  proof (cases "free_frames s = {}")
    case True
    then have "free_frames (locked s) = {}" by simp
    from AllocatePage_exhausted [OF pmm(1) this]
    have "?body (locked s) = Inr (0, (locked s)\<lparr>gVMPhycalMemoryBitmap := gVMPhycalMemoryBitmap s, mem := mem s,
        invalidated := invalidated s\<rparr>)" by simp
    from sec [OF this] True show ?thesis by (simp add: vmm_frame_refl)
  next
    case False
    then have some: "free_frames (locked s) \<noteq> {}" by simp
    let ?p = "Min (free_frames s)"
    let ?n = "frame_address ?p"
    from AllocatePage_takes_least [OF pmm(1) some] obtain bm where
      alloc: "VMPhysicalMemoryAllocatePage (locked s) = Inr (?n, (locked s)\<lparr>gVMPhycalMemoryBitmap := bm\<rparr>)"
      and bm: "length bm = length (gVMPhycalMemoryBitmap s)" "bitmap_free bm = free_frames s - {?p}"
      by auto
    have p: "?p \<in> free_frames s" using False by simp
    have p40: "?p < 2 ^ 40" by (rule free_frames_bound [OF pmm(2) p])
    have fresh: "?n \<notin> used_frames s" using p p40 by (simp add: used_frames_def)
    have nz: "?n \<noteq> 0" using pmm.alloc_null_iff [OF pmm(1) alloc] some by simp
    have kf: "frame_aligned ?k" using tab by (simp add: tables_ok_def)
    have "?k \<noteq> ?n"
      using tables_okD(2) [OF tab, of "[]" ?k] fresh by (auto simp: valid_path_def)
    let ?u = "(locked s)\<lparr>gVMPhycalMemoryBitmap := bm, mem := MemorySet (mem s) ?n 0 4096\<rparr>"
    have "set [256..<512] \<subseteq> {..<512}" by auto
    from copy_kernel_half_effect [OF frame_aligned_frame_address kf not_sym [OF \<open>?k \<noteq> ?n\<close>] this, of ?u]
    obtain m where m: "copy_kernel_half (sVMGetVirtualTable ?u ?n) (sVMGetVirtualTable ?u ?k) [256..<512] ?u = ?u\<lparr>mem := m\<rparr>"
      "\<forall>g j. frame_aligned g \<longrightarrow> j < 512 \<longrightarrow> table_entry m g j =
         (if g = ?n \<and> unat j \<in> set [256..<512] then table_entry (mem ?u) ?k j else table_entry (mem ?u) g j)"
      by blast
    note m2 = m(2) [unfolded set_upt atLeastLessThan_iff]
    have entry: "table_entry m g j =
      (if g = ?n then if 256 \<le> unat j then table_entry (mem s) ?k j else 0 else table_entry (mem s) g j)"
      if "frame_aligned g" "j < 512" for g j
      using m2 that kf \<open>?k \<noteq> ?n\<close> by (simp add: table_entry_clear word_less_nat_alt)
    let ?t = "s\<lparr>gVMPhycalMemoryBitmap := bm, mem := m, invalidated := invalidated s\<rparr>"
    obtain hs where hs: "[256..<512] = hs" by blast
    have "PHYS_TO_HHDM ?n = sVMGetVirtualTable ((locked s)\<lparr>gVMPhycalMemoryBitmap := bm\<rparr>) ?n"
      by (simp add: sVMGetVirtualTable_def init)
    then have "?body (locked s) = Inr (?n, (locked s)\<lparr>gVMPhycalMemoryBitmap := bm, mem := m, invalidated := invalidated s\<rparr>)"
      using alloc nz m(1) unfolding hs by (simp add: Let_def)
    note run = sec [OF this]
    have used: "used_frames ?t = insert ?n (used_frames s)"
      using used_frames_insert [OF bm(2) p40] by (simp add: used_frames_def free_frames_def)
    have inv: "pmm_inv ?t" and free: "free_frames ?t = free_frames s - {?p}"
      using pmm(2) bm by (auto simp: pmm_inv_def free_frames_def)
    have same: "frame_aligned g \<Longrightarrow> g \<noteq> ?n \<Longrightarrow> j < 512 \<Longrightarrow> table_entry m g j = table_entry (mem s) g j" for g j
      using entry by simp
    have "tables_ok m ?k (used_frames ?t)"
      using tables_ok_outside [OF tab fresh same] used by auto
    moreover have "tables_ok m ?n (used_frames ?t)"
      unfolding used by (rule new_root(1) [OF tab frame_aligned_frame_address fresh entry])
    ultimately have "vmm_ready ?t ?k" "vmm_ready ?t ?n"
      using inv lock by (simp_all add: vmm_ready_def address_space_ok_def)
    moreover have "vmm_frame s ?t" unfolding vmm_frame_def by blast
    moreover have "translate m ?n v = (if 256 \<le> unat (VMM_PML4_INDEX v) then translate (mem s) ?k v else None)" for v
      by (rule new_root(2) [OF tab frame_aligned_frame_address fresh entry])
    moreover have "translate m ?k v = translate (mem s) ?k v" for v
      by (rule walk_outside(2) [OF tab fresh same])
    moreover have "free_frames ?t \<subset> free_frames s" using p unfolding free by blast
    ultimately show ?thesis using run nz False
      by (intro exI [of _ ?n] exI [of _ ?t]) auto
  qed
qed

section \<open>The user stack\<close>

text \<open>
  What one iteration establishes about a page of the stack: it is writable user memory. Frames only
  ever leave the free set, so a free frame at the end means that no mapping failed on the way.
\<close>

abbreviation stack_flags :: UInt64 where
  "stack_flags \<equiv> PTE_PRESENT OR PTE_RW OR PTE_USER"

definition user_page :: "memory \<Rightarrow> UInt64 \<Rightarrow> UInt64 \<Rightarrow> bool" where
  "user_page m root v \<longleftrightarrow> (\<exists>p. p < 2 ^ 40 \<and> translate m root v = Some (frame_address p OR stack_flags))"

lemma present_stack: "present (x OR stack_flags)"
  using present_OR [of 7 x] by (simp add: or.commute)

lemma kernel_clear_user_frame:
  fixes s :: "'a vmm_scheme"
  assumes ready: "vmm_ready s root" and p: "p \<in> free_frames s"
    and bm: "length bm = length (gVMPhycalMemoryBitmap s)" "bitmap_free bm = free_frames s - {p}"
  shows "let t = s\<lparr>gVMPhycalMemoryBitmap := bm, mem := MemorySet (mem s) (frame_address p) 0 4096\<rparr>
    in vmm_ready t root \<and> (\<forall>v. translate (mem t) root v = translate (mem s) root v)"
proof -
  have tab: "tables_ok (mem s) root (used_frames s)" and pmm: "pmm_inv s"
    using ready by (simp_all add: vmm_ready_def address_space_ok_def)
  have p40: "p < 2 ^ 40" by (rule free_frames_bound [OF pmm p])
  let ?t = "s\<lparr>gVMPhycalMemoryBitmap := bm, mem := MemorySet (mem s) (frame_address p) 0 4096\<rparr>"
  have fresh: "frame_address p \<notin> used_frames s" using p p40 by (simp add: used_frames_def)
  have same: "frame_aligned g \<Longrightarrow> g \<noteq> frame_address p \<Longrightarrow> j < 512 \<Longrightarrow>
      table_entry (mem ?t) g j = table_entry (mem s) g j" for g j
    by (simp add: table_entry_clear)
  have used: "used_frames ?t = insert (frame_address p) (used_frames s)"
    using used_frames_insert [OF bm(2) p40] by (simp add: used_frames_def free_frames_def)
  have "tables_ok (mem ?t) root (used_frames ?t)"
    using tables_ok_outside [OF tab fresh same, of "used_frames ?t"] used by auto
  moreover have "pmm_inv ?t" using pmm bm by (auto simp: pmm_inv_def free_frames_def)
  ultimately have "vmm_ready ?t root" using ready by (simp add: vmm_ready_def address_space_ok_def)
  then show ?thesis using walk_outside(2) [OF tab fresh same] by (simp add: Let_def)
qed

text \<open>One page of the stack: the body of the loop.\<close>

lemma stack_page_effect:
  fixes s :: "'a vmm_scheme"
  assumes ready: "vmm_ready s root" and init: "isInitialized s" and some: "free_frames s \<noteq> {}"
  shows "\<exists>t. bindE (VMPhysicalMemoryAllocatePage s) (\<lambda>(phys, s).
         if phys = 0 then Inl (Panic ''OOM in user stack setup'')
         else let s = kernel_clear_page (PHYS_TO_HHDM phys) s
              in bindE (VMVirtualMemoryMapPage root phys addr stack_flags s) (\<lambda>(_, s). Inr s)) = Inr t \<and>
    vmm_ready t root \<and> vmm_frame s t \<and> free_frames t \<subset> free_frames s \<and>
    (free_frames t \<noteq> {} \<longrightarrow> (\<exists>p < 2 ^ 40. \<forall>v. translate (mem t) root v =
       (if same_page v addr then Some (frame_address p OR stack_flags) else translate (mem s) root v)))"
proof -
  have pmm: "pmm_inv s" using ready by (simp add: vmm_ready_def address_space_ok_def)
  let ?p = "Min (free_frames s)"
  have p: "?p \<in> free_frames s" using some by simp
  have p40: "?p < 2 ^ 40" by (rule free_frames_bound [OF pmm p])
  from AllocatePage_takes_least [OF pmm some] obtain bm where
    alloc: "VMPhysicalMemoryAllocatePage s = Inr (frame_address ?p, s\<lparr>gVMPhycalMemoryBitmap := bm\<rparr>)"
    and bm: "length bm = length (gVMPhycalMemoryBitmap s)" "bitmap_free bm = free_frames s - {?p}"
    by blast
  have nz: "frame_address ?p \<noteq> 0" using pmm.alloc_null_iff [OF pmm alloc] some by simp
  let ?u = "s\<lparr>gVMPhycalMemoryBitmap := bm, mem := MemorySet (mem s) (frame_address ?p) 0 4096\<rparr>"
  have u: "vmm_ready ?u root" "\<And>v. translate (mem ?u) root v = translate (mem s) root v"
    using kernel_clear_user_frame [OF ready p bm] by (simp_all add: Let_def)
  have fu: "free_frames ?u = free_frames s - {?p}" using bm(2) by (simp add: free_frames_def)
  have clear: "kernel_clear_page (PHYS_TO_HHDM (frame_address ?p)) (s\<lparr>gVMPhycalMemoryBitmap := bm\<rparr>) = ?u"
    using kernel_clear_update [of s "frame_address ?p" bm] by (simp add: sVMGetVirtualTable_def init)
  have "present (frame_address ?p OR stack_flags)" by (rule present_stack)
  from MapPage_effect [OF u(1) this, of addr] obtain r t where
    map: "VMVirtualMemoryMapPage root (frame_address ?p) addr stack_flags ?u = Inr (r, t)"
    and t: "vmm_ready t root" "vmm_frame ?u t" "free_frames t \<subseteq> free_frames ?u"
    and tr: "r = 0 \<and> free_frames t = {} \<and> (\<forall>v. translate (mem t) root v = translate (mem ?u) root v) \<or>
     r = addr \<and> (\<forall>v. translate (mem t) root v =
       (if same_page v addr then Some (frame_address ?p OR stack_flags) else translate (mem ?u) root v))"
    by blast
  have "vmm_frame s ?u" unfolding vmm_frame_def by (intro exI [of _ bm] exI [of _ "mem ?u"] exI [of _ "invalidated s"]) simp
  then have frame: "vmm_frame s t" using t(2) by (rule vmm_frame_trans)
  have fewer: "free_frames t \<subset> free_frames s" using t(3) fu p by blast
  have "\<forall>v. translate (mem t) root v =
       (if same_page v addr then Some (frame_address ?p OR stack_flags) else translate (mem s) root v)"
    if "free_frames t \<noteq> {}"
    using that tr u(2) by presburger
  then have "free_frames t \<noteq> {} \<longrightarrow> (\<exists>p < 2 ^ 40. \<forall>v. translate (mem t) root v =
       (if same_page v addr then Some (frame_address p OR stack_flags) else translate (mem s) root v))"
    using p40 by blast
  then show ?thesis using alloc nz clear map t(1) frame fewer by (intro exI [of _ t]) simp
qed

lemma same_page_offset:
  assumes "frame_aligned a" "v - a < 4096"
  shows "same_page v a"
proof -
  have "unat v div 4096 = unat a div 4096" by (rule near_frame [OF assms])
  then have "unat (drop_bit 12 v) = unat (drop_bit 12 a)" by (simp add: unat_drop_bit_eq drop_bit_eq_div unat_div)
  then have d: "drop_bit 12 v = drop_bit 12 a" by (simp add: word_unat_eq_iff)
  have e: "drop_bit (n + 12) v = drop_bit (n + 12) a" for n
    unfolding drop_bit_drop_bit [symmetric] d by (rule refl)
  have "drop_bit 21 v = drop_bit 21 a" "drop_bit 30 v = drop_bit 30 a" "drop_bit 39 v = drop_bit 39 a"
    using e [of 9] e [of 18] e [of 27] by (simp_all only: numeral_plus_numeral semiring_norm)
  with d show ?thesis
    by (simp only: same_page_def table_path_def VMM_PT_INDEX_def VMM_PD_INDEX_def VMM_PDPT_INDEX_def
        VMM_PML4_INDEX_def simp_thms)
qed

abbreviation stack_start :: UInt64 where
  "stack_start \<equiv> kVMUserStackTop - kVMUserStackSize"

text \<open>The addresses from \<open>start\<close> up to \<open>a\<close> are user memory, and all other pages are as before.\<close>

definition region_mapped :: "UInt64 \<Rightarrow> 'a vmm_scheme \<Rightarrow> UInt64 \<Rightarrow> UInt64 \<Rightarrow> 'a vmm_scheme \<Rightarrow> bool" where
  "region_mapped start s root a t \<longleftrightarrow>
     (\<forall>v. start \<le> v \<longrightarrow> v < a \<longrightarrow> user_page (mem t) root v) \<and>
     (\<forall>v. (\<forall>b. start \<le> b \<longrightarrow> b < a \<longrightarrow> \<not> same_page v b) \<longrightarrow>
        translate (mem t) root v = translate (mem s) root v)"

abbreviation stack_mapped :: "'a vmm_scheme \<Rightarrow> UInt64 \<Rightarrow> UInt64 \<Rightarrow> 'a vmm_scheme \<Rightarrow> bool" where
  "stack_mapped \<equiv> region_mapped stack_start"

lemma region_mapped_step:
  assumes before: "region_mapped start s root a t" and p: "p < 2 ^ 40"
    and a: "frame_aligned a" "start \<le> a" "unat a + 4096 < 2 ^ 64"
    and tr: "\<And>v. translate (mem u) root v =
       (if same_page v a then Some (frame_address p OR stack_flags) else translate (mem t) root v)"
  shows "region_mapped start s root (a + 4096) u"
proof -
  have up: "x < a + 4096 \<longleftrightarrow> x < a \<or> x - a < 4096 \<and> a \<le> x" for x :: UInt64
    using a(3) by (simp add: word_less_nat_alt word_le_nat_alt unat_sub_if' unat_word_ariths) auto
  have "user_page (mem u) root v" if "start \<le> v" "v < a + 4096" for v
  proof (cases "same_page v a")
    case True
    then show ?thesis using tr p by (auto simp: user_page_def)
  next
    case False
    then have "v < a" using that(2) same_page_offset [OF a(1)] up by blast
    then have "user_page (mem t) root v" using before that(1) unfolding region_mapped_def by blast
    with False show ?thesis by (simp add: user_page_def tr)
  qed
  moreover have "translate (mem u) root v = translate (mem s) root v"
    if "\<forall>b. start \<le> b \<longrightarrow> b < a + 4096 \<longrightarrow> \<not> same_page v b" for v
  proof -
    have "\<not> same_page v a" using that a(2) up [of a] by auto
    moreover have "\<forall>b. start \<le> b \<longrightarrow> b < a \<longrightarrow> \<not> same_page v b" using that up by blast
    ultimately show ?thesis using before unfolding region_mapped_def by (simp add: tr)
  qed
  ultimately show ?thesis by (simp add: region_mapped_def)
qed

lemma SetupUserStack_effect:
  fixes s :: "'a vmm_scheme"
  assumes ready: "vmm_ready s root" and init: "isInitialized s"
  shows "case VMVirtualMemorySetupUserStack root s of
      Inl e \<Rightarrow> e = Panic ''OOM in user stack setup''
    | Inr t \<Rightarrow> vmm_ready t root \<and> vmm_frame s t \<and> free_frames t \<subseteq> free_frames s \<and>
        (free_frames t \<noteq> {} \<longrightarrow> stack_mapped s root kVMUserStackTop t)"
proof -
  define I where "I = (\<lambda>a t. frame_aligned a \<and> a \<le> kVMUserStackTop \<and> vmm_ready t root \<and> vmm_frame s t \<and>
    free_frames t \<subseteq> free_frames s \<and> (free_frames t \<noteq> {} \<longrightarrow> stack_mapped s root a t))"
  let ?body = "\<lambda>addr s. bindE (VMPhysicalMemoryAllocatePage s) (\<lambda>(phys, s).
         if phys = 0 then Inl (Panic ''OOM in user stack setup'')
         else let s = kernel_clear_page (PHYS_TO_HHDM phys) s
              in bindE (VMVirtualMemoryMapPage root phys addr stack_flags s) (\<lambda>(_, s). Inr s))"
  have start: "I stack_start s"
    using ready by (simp add: I_def frame_aligned_def vmm_frame_refl region_mapped_def word_less_nat_alt word_le_nat_alt)
  have body: "case ?body a t of Inl e \<Rightarrow> e = Panic ''OOM in user stack setup'' | Inr u \<Rightarrow> I (a + 4096) u"
    if a: "stack_start \<le> a" "a < kVMUserStackTop" and I: "I a t" for a and t :: "'a vmm_scheme"
  proof (cases "free_frames t = {}")
    case True
    then have "VMPhysicalMemoryAllocatePage t = Inr (0, t)"
      using I AllocatePage_exhausted by (auto simp: I_def vmm_ready_def address_space_ok_def)
    then show ?thesis by simp
  next
    case False
    have t: "vmm_ready t root" "isInitialized t" "vmm_frame s t" "frame_aligned a" "free_frames t \<subseteq> free_frames s"
      "stack_mapped s root a t"
      using I init False by (auto simp: I_def vmm_frame_def)
    from stack_page_effect [OF t(1,2) False, of a] obtain u where u: "?body a t = Inr u"
      "vmm_ready u root" "vmm_frame t u" "free_frames u \<subset> free_frames t"
      "free_frames u \<noteq> {} \<longrightarrow> (\<exists>p < 2 ^ 40. \<forall>v. translate (mem u) root v =
       (if same_page v a then Some (frame_address p OR stack_flags) else translate (mem t) root v))"
      by blast
    have next_page: "frame_aligned (a + 4096)" "a + 4096 \<le> kVMUserStackTop"
    proof -
      obtain k where k: "unat a = 4096 * k" using t(4) by (auto simp: frame_aligned_def)
      have "k < 0x70000" using a(2) k by (simp add: word_less_nat_alt)
      moreover from this have "unat (a + 4096) = 4096 * Suc k" by (simp add: unat_word_ariths k)
      ultimately show "frame_aligned (a + 4096)" "a + 4096 \<le> kVMUserStackTop"
        by (auto simp: frame_aligned_def word_le_nat_alt)
    qed
    have room: "unat a + 4096 < 2 ^ 64" using a(2) by (simp add: word_less_nat_alt)
    have "free_frames u \<noteq> {} \<longrightarrow> stack_mapped s root (a + 4096) u"
      using region_mapped_step [OF t(6) _ t(4) a(1) room, where u = u] u(5) by blast
    then have "I (a + 4096) u"
      unfolding I_def using next_page u(2,4) t(5) vmm_frame_trans [OF t(3) u(3)] by blast
    then show ?thesis using u(1) by simp
  qed
  have "case for_range stack_start kVMUserStackTop 4096 ?body s of
      Inl e \<Rightarrow> e = Panic ''OOM in user stack setup'' | Inr t \<Rightarrow> \<exists>a. I a t \<and> kVMUserStackTop \<le> a"
    by (rule for_range_rule [OF _ _ start body]) simp_all
  then show ?thesis
    unfolding VMVirtualMemorySetupUserStack_def I_def
    by (auto split: sum.splits dest: order.antisym)
qed

section \<open>Properties\<close>

text \<open>C3: Mapping a page in a well-formed address space either returns the virtual address, and then
  the processor translates exactly the addresses of that page to the new entry and every other
  address as before; or returns null because no frame is left, and then every translation is as
  before. It never faults, and the tables stay well formed.\<close>

theorem MapPage_correct:
  assumes "vmm_ready s root" "present (phys OR flags)"
  shows "\<exists>r t. VMVirtualMemoryMapPage root phys virt flags s = Inr (r, t) \<and> vmm_ready t root \<and> vmm_frame s t \<and>
    free_frames t \<subseteq> free_frames s \<and>
    (r = 0 \<and> free_frames t = {} \<and> (\<forall>v. translate (mem t) root v = translate (mem s) root v) \<or>
     r = virt \<and> (\<forall>v. translate (mem t) root v =
       (if same_page v virt then Some (phys OR flags) else translate (mem s) root v)))"
  by (rule MapPage_effect [OF assms])

text \<open>Sixteen frames, of which the first eight are taken; an empty kernel page table in frame 1.\<close>

definition small_vmm :: vmm where
  "small_vmm = \<lparr>mem = \<lambda>_. 0, cr3 = 0x1000, interruptFlag = True, portWrites = [], invalidated = [],
     gVMPhycalMemoryBitmapAddress = 0, gVMPhycalMemoryBitmap = [0xFF, 0], gVMPhycalMemoryBitmapSize = 2,
     gVMPhycalMemoryTotalMemorySize = 0x10000, sVMPMMLock = \<lparr>lockValue = 0\<rparr>,
     gVMKernelPML4 = 0x1000, gVMKernelPML4Physical = 0x1000, sVMVMMlock = \<lparr>lockValue = 0\<rparr>, isInitialized = True\<rparr>"

lemma small_vmm_free: "free_frames small_vmm = {8..<16}"
proof -
  have bits: "p < 16 \<and> \<not> bit ([0xFF, 0 :: UInt8] ! (p div 8)) (p mod 8) \<longleftrightarrow> p \<in> {8..<16}" for p
  proof (cases "p < 16")
    case True
    then have "p \<in> {0,1,2,3,4,5,6,7,8,9,10,11,12,13,14,15}" by (simp only: insert_iff empty_iff) arith
    then show ?thesis by (elim insertE emptyE) simp_all
  qed simp
  have "free_frames small_vmm = {p. p < 16 \<and> \<not> bit ([0xFF, 0 :: UInt8] ! (p div 8)) (p mod 8)}"
    by (simp add: free_frames_def bitmap_free_def page_used_def small_vmm_def)
  also have "\<dots> = {8..<16}" unfolding bits by (rule Collect_mem_eq)
  finally show ?thesis .
qed

lemma small_vmm_ready: "vmm_ready small_vmm 0x1000"
proof -
  have none: "resolve (\<lambda>_. 0) f (i # p) = None" for f i p
  proof -
    have "table_entry (\<lambda>_. 0) f i = 0" unfolding table_entry_def by (rule load64_zero) (rule refl)
    then show ?thesis by simp
  qed
  have R: "resolve (mem small_vmm) 0x1000 p = Some f \<longleftrightarrow> p = [] \<and> f = 0x1000" for p f
    using none by (cases p) (auto simp: small_vmm_def)
  have "(0x1000 :: UInt64) \<in> used_frames small_vmm"
    by (simp add: used_frames_def small_vmm_free frame_aligned_def page_of_def)
  then have "tables_ok (mem small_vmm) 0x1000 (used_frames small_vmm)"
    unfolding tables_ok_def R by (auto simp: frame_aligned_def)
  moreover have "pmm_inv small_vmm" unfolding pmm_inv_def small_vmm_free by (simp add: small_vmm_def)
  ultimately show ?thesis by (simp add: vmm_ready_def address_space_ok_def small_vmm_def)
qed

lemma MapPage_correct_witness:
  "\<exists>r t. VMVirtualMemoryMapPage 0x1000 0x8000 0x400000 3 small_vmm = Inr (r, t) \<and>
     (r = 0 \<or> translate (mem t) 0x1000 0x400000 = Some 0x8003)"
  using MapPage_correct [OF small_vmm_ready, where phys = "0x8000" and flags = 3 and virt = "0x400000"] by (auto simp: same_page_def)

text \<open>Unmapping a page leaves its addresses without a translation and every other translation as
  it was, takes and frees no frame, and keeps the tables well formed.\<close>

theorem UnmapPage_correct:
  assumes "vmm_ready s root"
  shows "\<exists>t. VMVirtualMemoryUnmapPage root virt s = Inr ((), t) \<and> vmm_ready t root \<and> vmm_frame s t \<and>
    free_frames t = free_frames s \<and>
    (\<forall>v. translate (mem t) root v = (if same_page v virt then None else translate (mem s) root v))"
  by (rule UnmapPage_effect [OF assms])

lemma UnmapPage_correct_witness:
  "\<exists>t. VMVirtualMemoryUnmapPage 0x1000 0x400000 small_vmm = Inr ((), t) \<and> translate (mem t) 0x1000 0x400000 = None"
  using UnmapPage_correct [OF small_vmm_ready, where virt = "0x400000"] by (auto simp: same_page_def)

text \<open>C11: A new address space shares the kernel's translations in the upper half and has none in the
  lower half, so a program starts with no memory of its own or of another program; the kernel's own
  translations are unchanged, and both trees are well formed. Without a free frame the result is
  null and nothing changes.\<close>

theorem CreateAddressSpace_correct:
  assumes "vmm_ready s (gVMKernelPML4 s)" "isInitialized s"
  shows "\<exists>r t. VMVirtualMemoryCreateAddressSpace s = Inr (r, t) \<and> vmm_frame s t \<and>
    (if free_frames s = {} then r = 0 \<and> t = s
     else r \<noteq> 0 \<and> free_frames t \<subset> free_frames s \<and> vmm_ready t (gVMKernelPML4 s) \<and> vmm_ready t r \<and>
      (\<forall>v. translate (mem t) (gVMKernelPML4 s) v = translate (mem s) (gVMKernelPML4 s) v \<and>
        translate (mem t) r v =
          (if 256 \<le> unat (VMM_PML4_INDEX v) then translate (mem s) (gVMKernelPML4 s) v else None)))"
  by (rule CreateAddressSpace_effect [OF assms])

lemma CreateAddressSpace_correct_witness:
  "\<exists>r t. VMVirtualMemoryCreateAddressSpace small_vmm = Inr (r, t) \<and> r \<noteq> 0 \<and> translate (mem t) r 0x400000 = None"
proof -
  have "vmm_ready small_vmm (gVMKernelPML4 small_vmm)" "isInitialized small_vmm" "free_frames small_vmm \<noteq> {}"
    using small_vmm_ready by (simp_all add: small_vmm_free) (simp_all add: small_vmm_def)
  with CreateAddressSpace_correct [of small_vmm] show ?thesis
    by (auto simp: VMM_PML4_INDEX_def)
qed



end
