(* ===== verification/BlockList.thy ===== *)
theory BlockList
  imports VirtualMemory
begin

text \<open>
  What the two block allocators of the system, \<^verbatim>\<open>kernel/src/VM/Heap.c\<close> and
  \<^verbatim>\<open>userspace/libterm/src/Memory.c\<close>, have in common: the header record (both declare the same
  five fields), the abstract list of blocks with first-fit allocation, splitting and coalescing, and
  the predicate that says a doubly linked list of headers represents such a list.
\<close>

unbundle bit_operations_syntax

section \<open>Headers\<close>

record VMHeapBlockHeader =
  blockMagic :: UInt64
  nextBlock :: UInt64
  previousBlock :: UInt64
  blockSize :: UInt64
  isFree :: bool

abbreviation sizeof_VMHeapBlockHeader :: UInt64 where
  "sizeof_VMHeapBlockHeader \<equiv> 40"

type_synonym block_store = "UInt64 \<Rightarrow> VMHeapBlockHeader"

section \<open>Abstract block lists\<close>

datatype block = Block (addr: UInt64) (len: UInt64) (free: bool)

abbreviation block_end :: "block \<Rightarrow> nat" where
  "block_end b \<equiv> unat (addr b) + 40 + unat (len b)"

fun ordered :: "nat \<Rightarrow> block list \<Rightarrow> nat \<Rightarrow> bool" where
  "ordered lo [] hi = (lo \<le> hi)"
| "ordered lo (b # bs) hi = (0 < unat (addr b) \<and> lo \<le> unat (addr b) \<and> ordered (block_end b) bs hi)"

fun coalesced :: "block list \<Rightarrow> bool" where
  "coalesced (b # c # bs) = (\<not> (free b \<and> free c) \<and> coalesced (c # bs))"
| "coalesced _ = True"

definition take_block :: "UInt64 \<Rightarrow> block \<Rightarrow> block list" where
  "take_block k b =
     (if len b > k + 40 + 16
      then [Block (addr b) k False, Block (addr b + 40 + k) (len b - k - 40) True]
      else [Block (addr b) (len b) False])"

fun alloc_blocks :: "UInt64 \<Rightarrow> block list \<Rightarrow> (UInt64 \<times> block list) option" where
  "alloc_blocks k [] = None"
| "alloc_blocks k (b # bs) =
     (if free b \<and> k \<le> len b then Some (addr b, take_block k b @ bs)
      else map_option (apsnd ((#) b)) (alloc_blocks k bs))"

fun join_next :: "block \<Rightarrow> block list \<Rightarrow> block list" where
  "join_next b [] = [b]"
| "join_next b (c # bs) =
     (if free c then Block (addr b) (len b + (40 + len c)) (free b) # bs else b # c # bs)"

fun free_blocks :: "UInt64 \<Rightarrow> block list \<Rightarrow> block list" where
  "free_blocks a [] = []"
| "free_blocks a (b # bs) =
     (if addr b = a then join_next (Block (addr b) (len b) True) bs
      else if bs \<noteq> [] \<and> addr (hd bs) = a \<and> free b then join_next b (free_blocks a bs)
      else b # free_blocks a bs)"

definition live :: "block list \<Rightarrow> (UInt64 \<times> UInt64) set" where
  "live bs = {(a, n). Block a n False \<in> set bs}"

lemma live_simps [simp]:
  "live [] = {}"
  "live (b # bs) = (if free b then live bs else insert (addr b, len b) (live bs))"
  "live (xs @ ys) = live xs \<union> live ys"
  by (auto simp: live_def) (metis block.exhaust_sel)+

section \<open>Order\<close>

lemma ordered_bounds: "ordered lo bs hi \<Longrightarrow> lo \<le> hi"
  by (induction lo bs hi rule: ordered.induct) auto

lemma ordered_mem: "ordered lo bs hi \<Longrightarrow> b \<in> set bs \<Longrightarrow> 0 < unat (addr b) \<and> lo \<le> unat (addr b) \<and> block_end b \<le> hi"
proof (induction lo bs hi rule: ordered.induct)
  case (2 lo c bs hi)
  then show ?case using ordered_bounds [of "block_end c" bs hi] by auto
qed simp

lemma ordered_append:
  "ordered lo (xs @ ys) hi \<longleftrightarrow> (\<exists>mid. ordered lo xs mid \<and> ordered mid ys hi \<and> mid \<le> hi)"
proof (induction xs arbitrary: lo)
  case Nil
  show ?case
  proof
    assume "ordered lo ([] @ ys) hi"
    then show "\<exists>mid. ordered lo [] mid \<and> ordered mid ys hi \<and> mid \<le> hi"
      using ordered_bounds by (intro exI [of _ lo]) auto
  next
    assume "\<exists>mid. ordered lo [] mid \<and> ordered mid ys hi \<and> mid \<le> hi"
    then show "ordered lo ([] @ ys) hi" by (cases ys) auto
  qed
qed auto

lemma ordered_distinct: "ordered lo bs hi \<Longrightarrow> distinct (map addr bs)"
  by (induction lo bs hi rule: ordered.induct) (auto dest!: ordered_mem)

text \<open>Different live blocks have disjoint payloads.\<close>

lemma ordered_disjoint:
  "ordered lo bs hi \<Longrightarrow> b \<in> set bs \<Longrightarrow> c \<in> set bs \<Longrightarrow> addr b \<noteq> addr c \<Longrightarrow>
   block_end b \<le> unat (addr c) \<or> block_end c \<le> unat (addr b)"
proof (induction lo bs hi rule: ordered.induct)
  case (2 lo d bs hi)
  then show ?case using ordered_mem [of "block_end d" bs hi] by auto
qed simp

lemma ordered_weaken: "ordered lo bs hi \<Longrightarrow> lo' \<le> lo \<Longrightarrow> ordered lo' bs hi"
  by (cases bs) auto

lemma take_block_ordered:
  assumes "ordered lo (b # bs) hi" "hi \<le> 2 ^ 64" "k \<le> len b" "4096 \<le> lo"
  shows "ordered lo (take_block k b @ bs) hi"
proof (cases "len b > k + 40 + 16")
  case True
  have hi: "unat (addr b) + 40 + unat (len b) \<le> hi" using assms(1) by (auto dest: ordered_bounds)
  have k: "unat k \<le> unat (len b)" using assms(3) by (simp add: word_le_nat_alt)
  then have "unat (k + 40 + 16) = unat k + 56" using hi assms(1,2,4) by (simp add: unat_word_ariths)
  then have room: "unat k + 56 < unat (len b)" using True by (simp add: word_less_nat_alt)
  have "unat (addr b + 40 + k) = unat (addr b) + 40 + unat k" using hi assms(2) room by (simp add: unat_word_ariths)
  moreover have "unat (len b - k - 40) = unat (len b) - unat k - 40"
    using room by (simp add: unat_sub word_le_nat_alt)
  ultimately show ?thesis using assms(1) room True by (simp add: take_block_def ac_simps)
qed (use assms in \<open>simp add: take_block_def\<close>)

lemma join_next_ordered:
  assumes "ordered lo (b # bs) hi" "hi \<le> 2 ^ 64"
  shows "ordered lo (join_next b bs) hi"
proof (cases bs)
  case (Cons c cs)
  then have "unat (addr b) + 40 + unat (len b) + 40 + unat (len c) \<le> hi"
    using assms(1) by (auto dest: ordered_bounds)
  then have "unat (len b + (40 + len c)) = unat (len b) + 40 + unat (len c)"
    using assms(2) Cons assms(1) by (simp add: unat_word_ariths)
  then show ?thesis using assms(1) Cons by (auto intro: ordered_weaken)
qed (use assms in simp)

lemma first_join_next [simp]: "addr (hd (join_next b bs)) = addr b" "join_next b bs \<noteq> []"
  by (cases bs; simp)+

lemma alloc_blocks_effect:
  assumes "ordered lo bs hi" "hi \<le> 2 ^ 64" "4096 \<le> lo" "alloc_blocks k bs = Some (a, bs')"
  shows "ordered lo bs' hi \<and> (\<exists>n. k \<le> n \<and> live bs' = insert (a, n) (live bs) \<and> a \<notin> fst ` live bs)"
  using assms
proof (induction bs arbitrary: lo bs')
  case (Cons b bs)
  show ?case
  proof (cases "free b \<and> k \<le> len b")
    case True
    then have *: "bs' = take_block k b @ bs" "a = addr b" using Cons.prems(4) by auto
    have "addr b \<notin> addr ` set bs" using ordered_distinct [OF Cons.prems(1)] by simp
    then have "a \<notin> fst ` live bs" using *(2) by (auto simp: live_def image_iff)
    then show ?thesis
      using take_block_ordered [OF Cons.prems(1,2) _ Cons.prems(3)] True * by (auto simp: take_block_def)
  next
    case False
    then obtain bs'' where rest: "alloc_blocks k bs = Some (a, bs'')" "bs' = b # bs''"
      using Cons.prems(4) by auto
    from Cons.IH [OF _ Cons.prems(2) _ rest(1), of "block_end b"] Cons.prems(1,3) obtain n where
      n: "ordered (block_end b) bs'' hi" "k \<le> n" "live bs'' = insert (a, n) (live bs)" "a \<notin> fst ` live bs"
      by auto
    have "a \<in> addr ` set bs''" using n(3) by (force simp: live_def)
    then have "a \<noteq> addr b" using ordered_mem [OF n(1)] by fastforce
    then show ?thesis using n rest(2) Cons.prems(1) by (intro conjI exI [of _ n]) auto
  qed
qed simp

lemma alloc_blocks_none: "alloc_blocks k bs = None \<longleftrightarrow> (\<forall>b \<in> set bs. free b \<longrightarrow> len b < k)"
  by (induction bs) (auto simp: not_le)

lemma free_blocks_ordered:
  "ordered lo bs hi \<Longrightarrow> hi \<le> 2 ^ 64 \<Longrightarrow> ordered lo (free_blocks a bs) hi"
proof (induction bs arbitrary: lo)
  case (Cons b bs)
  have "ordered lo (Block (addr b) (len b) True # bs) hi" "ordered lo (b # free_blocks a bs) hi"
    using Cons by auto
  from this [THEN join_next_ordered, OF Cons.prems(2)] this(2) show ?case by (cases "addr b = a") simp_all
qed simp


section \<open>Freeing\<close>

lemma free_blocks_absent [simp]: "a \<notin> addr ` set bs \<Longrightarrow> free_blocks a bs = bs"
proof (induction bs)
  case (Cons b bs)
  then show ?case by (cases bs) auto
qed simp

lemma live_join_next [simp]:
  "free b \<Longrightarrow> live (join_next b bs) = live bs"
  by (cases bs) auto

lemma live_absent: "a \<notin> addr ` set bs \<Longrightarrow> {p \<in> live bs. fst p \<noteq> a} = live bs"
  by (auto simp: live_def image_iff)

lemma free_blocks_live:
  "distinct (map addr bs) \<Longrightarrow> live (free_blocks a bs) = {p \<in> live bs. fst p \<noteq> a}"
proof (induction bs)
  case (Cons b bs)
  show ?case
  proof (cases "addr b = a")
    case True
    then have "a \<notin> addr ` set bs" using Cons.prems by auto
    note absent = live_absent [OF this]
    have "{p \<in> live (b # bs). fst p \<noteq> a} = {p \<in> live bs. fst p \<noteq> a}" using True by auto
    then show ?thesis unfolding absent using True by simp
  next
    case False
    have "{p \<in> insert (addr b, len b) (live bs). fst p \<noteq> a} = insert (addr b, len b) {p \<in> live bs. fst p \<noteq> a}"
      using False by auto
    then show ?thesis using False Cons by simp
  qed
qed simp

lemma coalesced_tl: "coalesced (b # bs) \<Longrightarrow> coalesced bs"
  by (cases bs) auto

lemma coalesced_join:
  "coalesced bs \<Longrightarrow> coalesced (join_next b bs)"
  by (induction bs rule: coalesced.induct) auto

lemma alloc_free_blocks:
  assumes "ordered lo bs hi" "coalesced bs" "alloc_blocks k bs = Some (a, bs')"
  shows "free_blocks a bs' = bs"
  using assms
proof (induction bs arbitrary: lo bs')
  case (Cons b bs)
  show ?case
  proof (cases "free b \<and> k \<le> len b")
    case True
    then have *: "bs' = take_block k b @ bs" "a = addr b" using Cons.prems(3) by auto
    have "join_next (Block (addr b) (len b) True) bs = b # bs"
      using Cons.prems(2) True by (cases bs; cases b) auto
    moreover have "k + (40 + (len b - k - 40)) = len b" by simp
    ultimately show ?thesis using * True by (cases b) (auto simp: take_block_def)
  next
    case False
    then obtain bs'' where rest: "alloc_blocks k bs = Some (a, bs'')" "bs' = b # bs''"
      using Cons.prems(3) by auto
    have IH: "free_blocks a bs'' = bs"
      using Cons.IH [OF _ coalesced_tl [OF Cons.prems(2)] rest(1)] Cons.prems(1) by auto
    have "a \<in> addr ` set bs"
      using rest(1) by (induction bs arbitrary: bs'') (auto split: if_splits)
    moreover have "addr b \<notin> addr ` set bs" using ordered_distinct [OF Cons.prems(1)] by simp
    ultimately have "a \<noteq> addr b" by blast
    moreover have "join_next b bs = b # bs" if "free b"
      using that Cons.prems(2) by (cases bs) auto
    ultimately show ?thesis using rest(2) IH by auto
  qed
qed simp

lemma coalesced_Cons: "coalesced (b # bs) \<longleftrightarrow> coalesced bs \<and> (bs \<noteq> [] \<longrightarrow> \<not> (free b \<and> free (hd bs)))"
  by (cases bs) auto

lemma alloc_blocks_coalesced:
  "coalesced bs \<Longrightarrow> alloc_blocks k bs = Some (a, bs') \<Longrightarrow>
   coalesced bs' \<and> bs' \<noteq> [] \<and> (free (hd bs') \<longrightarrow> free (hd bs))"
proof (induction bs arbitrary: bs')
  case (Cons b bs)
  then show ?case
    by (auto simp: coalesced_Cons take_block_def hd_append split: if_splits)
qed simp

lemma free_join_next: "free (hd (join_next b bs)) = free b"
  by (cases bs) auto

lemma free_blocks_coalesced: "coalesced bs \<Longrightarrow> coalesced (free_blocks a bs)"
proof (induction bs)
  case (Cons b bs)
  have hd: "bs \<noteq> [] \<Longrightarrow> addr (hd bs) \<noteq> a \<Longrightarrow> free (hd (free_blocks a bs)) = free (hd bs) \<and> free_blocks a bs \<noteq> []"
    by (cases bs; cases "tl bs") (auto simp: free_join_next)
  show ?case
  proof (cases "addr b = a \<or> bs \<noteq> [] \<and> addr (hd bs) = a \<and> free b")
    case True
    then show ?thesis using Cons coalesced_tl [OF Cons.prems] by (auto intro: coalesced_join)
  next
    case False
    then show ?thesis
      using Cons coalesced_tl [OF Cons.prems] hd by (cases "bs = []") (auto simp: coalesced_Cons)
  qed
qed simp

section \<open>Representation\<close>

definition first_addr :: "block list \<Rightarrow> UInt64 \<Rightarrow> UInt64" where
  "first_addr bs n = (if bs = [] then n else addr (hd bs))"

definition last_addr :: "UInt64 \<Rightarrow> block list \<Rightarrow> UInt64" where
  "last_addr p bs = (if bs = [] then p else addr (last bs))"

lemma addr_ends [simp]:
  "first_addr [] n = n" "first_addr (b # bs) n = addr b" "last_addr p [] = p" "last_addr p (xs @ [b]) = addr b"
  "last_addr p (b # bs) = last_addr (addr b) bs"
  by (simp_all add: first_addr_def last_addr_def)

lemma first_addr_append [simp]: "first_addr (xs @ ys) n = first_addr xs (first_addr ys n)"
  by (simp add: first_addr_def)

lemma last_addr_append [simp]: "last_addr p (xs @ ys) = last_addr (last_addr p xs) ys"
  by (simp add: last_addr_def)

fun heap_seg :: "UInt64 \<Rightarrow> block_store \<Rightarrow> UInt64 \<Rightarrow> block list \<Rightarrow> UInt64 \<Rightarrow> bool" where
  "heap_seg M st p [] n = True"
| "heap_seg M st p (b # bs) n =
     (st (addr b) = \<lparr>blockMagic = M, nextBlock = first_addr bs n, previousBlock = p,
                     blockSize = len b, isFree = free b\<rparr> \<and> heap_seg M st (addr b) bs n)"

lemma heap_seg_append [simp]:
  "heap_seg M st p (xs @ ys) n \<longleftrightarrow> heap_seg M st p xs (first_addr ys n) \<and> heap_seg M st (last_addr p xs) ys n"
  by (induction xs arbitrary: p) auto

lemma heap_seg_cong:
  "(\<And>x. x \<in> addr ` set bs \<Longrightarrow> st x = st' x) \<Longrightarrow> heap_seg M st p bs n = heap_seg M st' p bs n"
  by (induction bs arbitrary: p) auto

lemma heap_seg_other [simp]: "x \<notin> addr ` set bs \<Longrightarrow> heap_seg M (st(x := h)) p bs n = heap_seg M st p bs n"
  by (rule heap_seg_cong) auto

definition heap_rep :: "UInt64 \<Rightarrow> block_store \<Rightarrow> UInt64 \<Rightarrow> block list \<Rightarrow> bool" where
  "heap_rep M st head bs \<longleftrightarrow> head = first_addr bs 0 \<and> heap_seg M st 0 bs 0"

end
