(* ===== verification/KernelHeap.thy ===== *)
theory KernelHeap
  imports BlockList
begin

text \<open>
  The kernel heap, \<^verbatim>\<open>kernel/src/VM/Heap.c\<close>: headers are kept in a store indexed by their virtual
  address, payload bytes in a memory of their own (a header is only ever written by the allocator).
  Each operation is shown to do to the headers what the abstract list operation does.
\<close>

unbundle bit_operations_syntax

section \<open>The operations on headers\<close>

definition sVMHeapCombineForward :: "UInt64 \<Rightarrow> block_store \<Rightarrow> block_store" where
  "sVMHeapCombineForward current st =
     (if nextBlock (st current) = 0 \<or> \<not> isFree (st (nextBlock (st current))) then st
      else let st = st(current := (st current)\<lparr>blockSize := blockSize (st current) +
                        (sizeof_VMHeapBlockHeader + blockSize (st (nextBlock (st current))))\<rparr>);
               st = st(current := (st current)\<lparr>nextBlock := nextBlock (st (nextBlock (st current)))\<rparr>)
           in if nextBlock (st current) \<noteq> 0
              then st(nextBlock (st current) := (st (nextBlock (st current)))\<lparr>previousBlock := current\<rparr>)
              else st)"

text \<open>The body of the allocation loop for the block it settles on.\<close>

definition sVMHeapTakeBlock :: "UInt64 \<Rightarrow> UInt64 \<Rightarrow> UInt64 \<Rightarrow> block_store \<Rightarrow> block_store" where
  "sVMHeapTakeBlock magic alignedSize current st =
     (let st = (if blockSize (st current) > alignedSize + sizeof_VMHeapBlockHeader + 16
                then let new_block = current + sizeof_VMHeapBlockHeader + alignedSize;
                         st = st(new_block := \<lparr>blockMagic = magic, nextBlock = nextBlock (st current),
                                previousBlock = current,
                                blockSize = blockSize (st current) - alignedSize - sizeof_VMHeapBlockHeader,
                                isFree = True\<rparr>);
                         st = (if nextBlock (st current) \<noteq> 0
                               then st(nextBlock (st current) :=
                                      (st (nextBlock (st current)))\<lparr>previousBlock := new_block\<rparr>)
                               else st);
                         st = st(current := (st current)\<lparr>nextBlock := new_block\<rparr>)
                     in st(current := (st current)\<lparr>blockSize := alignedSize\<rparr>)
                else st)
      in st(current := (st current)\<lparr>isFree := False\<rparr>))"

partial_function (option) sVMHeapFirstFit :: "block_store \<Rightarrow> UInt64 \<Rightarrow> UInt64 \<Rightarrow> UInt64 option" where
  "sVMHeapFirstFit st alignedSize current =
     (if current = 0 then Some 0
      else if isFree (st current) \<and> blockSize (st current) \<ge> alignedSize then Some current
      else sVMHeapFirstFit st alignedSize (nextBlock (st current)))"

section \<open>The operations refine the abstract list\<close>

lemma first_fit_refines:
  assumes "heap_seg M st p bs 0" "0 \<notin> addr ` set bs"
  shows "sVMHeapFirstFit st k (first_addr bs 0) =
    Some (case alloc_blocks k bs of None \<Rightarrow> 0 | Some (a, _) \<Rightarrow> a)"
  using assms
proof (induction bs arbitrary: p)
  case Nil
  show ?case by (subst sVMHeapFirstFit.simps) simp
next
  case (Cons b bs)
  show ?case
    by (subst sVMHeapFirstFit.simps) (use Cons in \<open>auto split: option.splits\<close>)
qed

lemma alloc_blocks_split:
  "alloc_blocks k bs = Some (a, bs') \<longleftrightarrow> (\<exists>xs b ys. bs = xs @ b # ys \<and> bs' = xs @ take_block k b @ ys \<and> a = addr b
     \<and> free b \<and> k \<le> len b \<and> (\<forall>c \<in> set xs. free c \<longrightarrow> len c < k))"
proof (induction bs arbitrary: bs')
  case (Cons b bs)
  show ?case
  proof (cases "free b \<and> k \<le> len b")
    case True
    then show ?thesis by (auto simp: Cons_eq_append_conv not_le intro!: exI [of _ "[]"])
  next
    case False
    then show ?thesis
      using Cons.IH by (auto simp: Cons_eq_append_conv not_le) (metis append_Cons list.set_intros set_ConsD not_le)+
  qed
qed simp

lemma take_refines:
  assumes rep: "heap_seg M st p (xs @ b # ys) 0" and ord: "ordered lo (xs @ b # ys) hi" "ordered lo (xs @ take_block k b @ ys) hi"
    and b: "free b" "k \<le> len b"
  shows "heap_seg M (sVMHeapTakeBlock M k (addr b) st) p (xs @ take_block k b @ ys) 0"
proof -
  note d = ordered_distinct [OF ord(1)] ordered_distinct [OF ord(2)]
  have nz: "0 \<notin> addr ` set (xs @ b # ys)" using ordered_mem [OF ord(1)] by force
  show ?thesis
  proof (cases ys)
    case Nil
    with rep d nz b show ?thesis
      by (auto simp: sVMHeapTakeBlock_def take_block_def Let_def)
  next
    case (Cons c cs)
    with rep d nz b show ?thesis
      by (auto simp: sVMHeapTakeBlock_def take_block_def Let_def)
  qed
qed

lemma combine_refines:
  assumes rep: "heap_seg M st p (xs @ b # ys) 0" and d: "distinct (map addr (xs @ b # ys))"
    and nz: "0 \<notin> addr ` set (xs @ b # ys)"
  shows "heap_seg M (sVMHeapCombineForward (addr b) st) p (xs @ join_next b ys) 0"
proof (cases ys)
  case Nil
  with rep show ?thesis by (simp add: sVMHeapCombineForward_def)
next
  case (Cons c cs)
  show ?thesis
  proof (cases cs)
    case Nil
    with Cons rep d nz show ?thesis by (auto simp: sVMHeapCombineForward_def Let_def)
  next
    case (Cons e es)
    with \<open>ys = c # cs\<close> rep d nz show ?thesis by (auto simp: sVMHeapCombineForward_def Let_def)
  qed
qed

definition sVMHeapRelease :: "UInt64 \<Rightarrow> block_store \<Rightarrow> block_store" where
  "sVMHeapRelease current st =
     (let st = st(current := (st current)\<lparr>isFree := True\<rparr>);
          st = (if nextBlock (st current) \<noteq> 0 \<and> isFree (st (nextBlock (st current)))
                then sVMHeapCombineForward current st else st)
      in if previousBlock (st current) \<noteq> 0 \<and> isFree (st (previousBlock (st current)))
         then sVMHeapCombineForward (previousBlock (st current)) st else st)"

lemma free_blocks_split:
  assumes "distinct (map addr (xs @ b # ys))"
  shows "free_blocks (addr b) (xs @ b # ys) =
    (let zs = join_next (Block (addr b) (len b) True) ys
     in if xs \<noteq> [] \<and> free (last xs) then butlast xs @ join_next (last xs) zs else xs @ zs)"
  using assms
proof (induction xs)
  case Nil
  show ?case by simp
next
  case (Cons x xs)
  then show ?case by (cases xs) (auto simp: Let_def)
qed

lemma release_refines:
  assumes rep: "heap_seg M st 0 (xs @ b # ys) 0" and d: "distinct (map addr (xs @ b # ys))"
    and nz: "0 \<notin> addr ` set (xs @ b # ys)"
  shows "heap_seg M (sVMHeapRelease (addr b) st) 0 (free_blocks (addr b) (xs @ b # ys)) 0"
proof -
  let ?b = "Block (addr b) (len b) True"
  let ?st1 = "st(addr b := (st (addr b))\<lparr>isFree := True\<rparr>)"
  define st2 where "st2 = (if nextBlock (?st1 (addr b)) \<noteq> 0 \<and> isFree (?st1 (nextBlock (?st1 (addr b))))
    then sVMHeapCombineForward (addr b) ?st1 else ?st1)"
  let ?zs = "join_next ?b ys"
  have rep1: "heap_seg M ?st1 0 (xs @ ?b # ys) 0" using rep d by auto
  have "st2 = sVMHeapCombineForward (addr b) ?st1"
    by (simp add: st2_def sVMHeapCombineForward_def)
  with combine_refines [OF rep1] d nz have rep2: "heap_seg M st2 0 (xs @ ?zs) 0" by simp
  have prev: "previousBlock (st2 (addr b)) = last_addr 0 xs"
    using rep2 by (cases ys) (auto split: if_splits)
  have R: "sVMHeapRelease (addr b) st = (if last_addr 0 xs \<noteq> 0 \<and> isFree (st2 (last_addr 0 xs))
      then sVMHeapCombineForward (last_addr 0 xs) st2 else st2)"
    by (simp only: sVMHeapRelease_def Let_def st2_def [symmetric] prev)
  show ?thesis
  proof (cases xs rule: rev_cases)
    case Nil
    with rep2 R free_blocks_split [OF d] show ?thesis by (simp add: Let_def)
  next
    case (snoc ws x)
    have "isFree (st2 (addr x)) = free x" "addr x \<noteq> 0" using rep2 snoc nz by auto
    moreover have "distinct (map addr (ws @ x # ?zs))" "0 \<notin> addr ` set (ws @ x # ?zs)"
      using d nz snoc by (cases ys; auto)+
    then have "heap_seg M (sVMHeapCombineForward (addr x) st2) 0 (ws @ join_next x ?zs) 0"
      using combine_refines [of M st2 0 ws x ?zs] rep2 snoc by simp
    ultimately show ?thesis using rep2 R free_blocks_split [OF d] snoc by (simp add: Let_def)
  qed
qed

section \<open>State\<close>

abbreviation kVMKernelHeapStart :: UInt64 where
  "kVMKernelHeapStart \<equiv> 0xFFFFFFFFC0000000"

abbreviation kVMHeapSizePages :: UInt64 where
  "kVMHeapSizePages \<equiv> 1024"

abbreviation kVMHeapBlockHeaderMagic :: UInt64 where
  "kVMHeapBlockHeaderMagic \<equiv> 0x1CE"

record heap = vmm +
  heapHeaders :: block_store
  heapBytes :: memory
  sVMHeapListHead :: UInt64
  sVMHeapLock :: OSSpinlock

abbreviation with_heap_lock where
  "with_heap_lock \<equiv> with_spinlock sVMHeapLock (\<lambda>l s. s\<lparr>sVMHeapLock := l\<rparr>)"

interpretation heap_lock: lock_field sVMHeapLock "\<lambda>l s. s\<lparr>sVMHeapLock := l\<rparr>"
  by unfold_locales simp_all

section \<open>Operations\<close>

definition VMHeapInitialize :: "'a heap_scheme \<Rightarrow> fault + 'a heap_scheme" where
  "VMHeapInitialize s =
     bindE (for_range 0 kVMHeapSizePages 1 (\<lambda>i s.
              bindE (VMPhysicalMemoryAllocatePage s) (\<lambda>(physical, s).
                if physical = 0 then Inl (Panic ''OOM during heap init'')
                else bindE (VMVirtualMemoryMapPage (gVMKernelPML4 s) physical
                              (kVMKernelHeapStart + i * kVMPageSize) (PTE_PRESENT OR PTE_RW) s)
                       (\<lambda>(_, s). Inr s))) s)
       (\<lambda>s. Inr (s\<lparr>sVMHeapListHead := kVMKernelHeapStart,
                   heapHeaders := (heapHeaders s)(kVMKernelHeapStart :=
                     \<lparr>blockMagic = kVMHeapBlockHeaderMagic, nextBlock = 0, previousBlock = 0,
                      blockSize = kVMHeapSizePages * kVMPageSize - sizeof_VMHeapBlockHeader,
                      isFree = True\<rparr>)\<rparr>))"

definition sVMHeapAllocateInternal :: "UInt64 \<Rightarrow> 'a heap_scheme \<Rightarrow> fault + UInt64 \<times> 'a heap_scheme" where
  "sVMHeapAllocateInternal sz s =
     (if sz = 0 then Inr (0, s)
      else let alignedSize = (sz + 15) AND NOT 15
           in case sVMHeapFirstFit (heapHeaders s) alignedSize (sVMHeapListHead s) of
                None \<Rightarrow> Inl Diverges
              | Some current \<Rightarrow>
                  if current = 0 then Inr (0, s)
                  else Inr (current + sizeof_VMHeapBlockHeader,
                            s\<lparr>heapHeaders := sVMHeapTakeBlock kVMHeapBlockHeaderMagic alignedSize current (heapHeaders s)\<rparr>))"

definition sVMHeapFreeInternal :: "UInt64 \<Rightarrow> 'a heap_scheme \<Rightarrow> 'a heap_scheme" where
  "sVMHeapFreeInternal pointer s =
     (if pointer = 0 then s
      else let current = pointer - sizeof_VMHeapBlockHeader
           in if blockMagic (heapHeaders s current) \<noteq> kVMHeapBlockHeaderMagic then s
              else s\<lparr>heapHeaders := sVMHeapRelease current (heapHeaders s)\<rparr>)"

definition VMHeapAllocate :: "UInt64 \<Rightarrow> 'a heap_scheme \<Rightarrow> fault + UInt64 \<times> 'a heap_scheme" where
  "VMHeapAllocate sz = with_heap_lock (sVMHeapAllocateInternal sz)"

definition VMHeapFree :: "UInt64 \<Rightarrow> 'a heap_scheme \<Rightarrow> fault + unit \<times> 'a heap_scheme" where
  "VMHeapFree pointer = with_heap_lock (\<lambda>s. Inr ((), sVMHeapFreeInternal pointer s))"

text \<open>The locked part of \<open>VMHeapResize\<close>; each early return releases the lock first.\<close>

definition sVMHeapResizeLocked :: "UInt64 \<Rightarrow> UInt64 \<Rightarrow> 'a heap_scheme \<Rightarrow> fault + UInt64 \<times> 'a heap_scheme" where
  "sVMHeapResizeLocked pointer newSize s =
     (let current = pointer - sizeof_VMHeapBlockHeader;
          h = heapHeaders s current
      in if blockSize h \<ge> newSize then Inr (pointer, s)
         else if nextBlock h \<noteq> 0 \<and> isFree (heapHeaders s (nextBlock h)) \<and>
                 blockSize h + sizeof_VMHeapBlockHeader + blockSize (heapHeaders s (nextBlock h)) \<ge> newSize
         then Inr (pointer, s\<lparr>heapHeaders := sVMHeapCombineForward current (heapHeaders s)\<rparr>)
         else bindE (sVMHeapAllocateInternal newSize s) (\<lambda>(newPointer, s).
                if newPointer = 0 then Inr (newPointer, s)
                else let s = s\<lparr>heapBytes := MemoryCopy (heapBytes s) newPointer pointer
                                 (blockSize (heapHeaders s current))\<rparr>
                     in Inr (newPointer, sVMHeapFreeInternal pointer s)))"

definition VMHeapResize :: "UInt64 \<Rightarrow> UInt64 \<Rightarrow> 'a heap_scheme \<Rightarrow> fault + UInt64 \<times> 'a heap_scheme" where
  "VMHeapResize pointer newSize s =
     (if pointer = 0 then VMHeapAllocate newSize s
      else if newSize = 0 then bindE (VMHeapFree pointer s) (\<lambda>(_, s). Inr (0, s))
      else with_heap_lock (sVMHeapResizeLocked pointer newSize) s)"

section \<open>The heap invariant\<close>

abbreviation heap_start :: nat where "heap_start \<equiv> 0xFFFFFFFFC0000000"

abbreviation heap_end :: nat where "heap_end \<equiv> 0xFFFFFFFFC0400000"

definition heap_blocks :: "'a heap_scheme \<Rightarrow> block list \<Rightarrow> bool" where
  "heap_blocks s bs \<longleftrightarrow> heap_rep kVMHeapBlockHeaderMagic (heapHeaders s) (sVMHeapListHead s) bs \<and>
     ordered heap_start bs heap_end \<and> coalesced bs"

definition heap_inv :: "'a heap_scheme \<Rightarrow> block list \<Rightarrow> bool" where
  "heap_inv s bs \<longleftrightarrow> heap_blocks s bs \<and> lock_free (sVMHeapLock s)"

lemma heap_no_null: "ordered lo bs hi \<Longrightarrow> 0 \<notin> addr ` set bs"
  using ordered_mem by force

abbreviation align16 :: "UInt64 \<Rightarrow> UInt64" where
  "align16 sz \<equiv> (sz + 15) AND NOT 15"

lemma align16_ge:
  assumes "sz \<le> - 16" shows "sz \<le> align16 sz"
proof -
  have "unat sz \<le> unat (- 16 :: UInt64)" using assms by (simp add: word_le_nat_alt)
  then have x: "unat (sz + 15) = unat sz + 15" by (simp add: unat_word_ariths)
  have lt: "(sz + 15) AND 15 < 16" by (rule le_less_trans [OF word_and_le1]) simp
  have parts: "(p AND NOT q) AND (p AND q) = 0" "(p AND NOT q) OR (p AND q) = p" for p q :: UInt64
    by (rule bit_word_eqI; auto simp: bit_simps)+
  have "(p AND NOT q) + (p AND q) = p" for p q :: UInt64
    using word_plus_and_or [of "p AND NOT q" "p AND q"] unfolding parts by simp
  then have "align16 sz + ((sz + 15) AND 15) = sz + 15" by blast
  then have "align16 sz = (sz + 15) - ((sz + 15) AND 15)" by (metis add_diff_cancel_right')
  then have "unat (align16 sz) = unat (sz + 15) - unat ((sz + 15) AND 15)"
    by (simp add: unat_sub word_and_le2)
  with lt x show ?thesis by (simp add: word_le_nat_alt word_less_nat_alt)
qed

lemma AllocateInternal_effect:
  assumes inv: "heap_blocks s bs" and sz: "sz \<noteq> 0"
  shows "case alloc_blocks (align16 sz) bs of
      None \<Rightarrow> sVMHeapAllocateInternal sz s = Inr (0, s)
    | Some (a, bs') \<Rightarrow> \<exists>st. sVMHeapAllocateInternal sz s = Inr (a + 40, s\<lparr>heapHeaders := st\<rparr>) \<and>
        heap_blocks (s\<lparr>heapHeaders := st\<rparr>) bs' \<and> a \<noteq> 0"
proof -
  let ?k = "align16 sz" and ?st = "heapHeaders s"
  have rep: "heap_seg kVMHeapBlockHeaderMagic ?st 0 bs 0" and head: "sVMHeapListHead s = first_addr bs 0"
    and ord: "ordered heap_start bs heap_end" and co: "coalesced bs"
    using inv by (simp_all add: heap_blocks_def heap_rep_def)
  note nz = heap_no_null [OF ord]
  have fit: "sVMHeapFirstFit ?st ?k (sVMHeapListHead s) = Some (case alloc_blocks ?k bs of None \<Rightarrow> 0 | Some (a, _) \<Rightarrow> a)"
    unfolding head by (rule first_fit_refines [OF rep nz])
  show ?thesis
  proof (cases "alloc_blocks ?k bs")
    case None
    with fit sz show ?thesis by (simp add: sVMHeapAllocateInternal_def Let_def)
  next
    case (Some r)
    obtain a bs' where r: "r = (a, bs')" by (cases r)
    from Some r obtain xs b ys where split: "bs = xs @ b # ys" "bs' = xs @ take_block ?k b @ ys" "a = addr b"
      "free b" "?k \<le> len b" by (auto simp: alloc_blocks_split)
    have ord': "ordered heap_start bs' heap_end" using alloc_blocks_effect [OF ord _ _ Some [unfolded r]] by simp
    have "heap_seg kVMHeapBlockHeaderMagic (sVMHeapTakeBlock kVMHeapBlockHeaderMagic ?k a ?st) 0 bs' 0"
      using take_refines [OF rep [unfolded split(1)] ord [unfolded split(1)] ord' [unfolded split(2)] split(4,5)] split(2,3)
      by simp
    moreover have "coalesced bs'" using alloc_blocks_coalesced [OF co Some [unfolded r]] by simp
    moreover have "first_addr bs' 0 = first_addr bs 0"
      by (simp add: split take_block_def)
    moreover have "a \<noteq> 0" using nz split by auto
    ultimately show ?thesis
      using Some r fit sz ord' head
      by (simp add: sVMHeapAllocateInternal_def Let_def heap_blocks_def heap_rep_def)
        (rule exI [of _ "sVMHeapTakeBlock kVMHeapBlockHeaderMagic ?k a ?st"], simp)
  qed
qed

lemma FreeInternal_effect:
  assumes inv: "heap_blocks s bs" and b: "a \<in> addr ` set bs"
  shows "\<exists>st. sVMHeapFreeInternal (a + 40) s = s\<lparr>heapHeaders := st\<rparr> \<and>
    heap_blocks (s\<lparr>heapHeaders := st\<rparr>) (free_blocks a bs)"
proof -
  let ?st = "heapHeaders s"
  have rep: "heap_seg kVMHeapBlockHeaderMagic ?st 0 bs 0" and head: "sVMHeapListHead s = first_addr bs 0"
    and ord: "ordered heap_start bs heap_end" and co: "coalesced bs"
    using inv by (simp_all add: heap_blocks_def heap_rep_def)
  obtain b where b: "b \<in> set bs" "addr b = a" using b by auto
  then obtain xs ys where bs: "bs = xs @ b # ys" by (auto simp: in_set_conv_decomp)
  note d = ordered_distinct [OF ord] heap_no_null [OF ord]
  have "heap_seg kVMHeapBlockHeaderMagic (sVMHeapRelease a ?st) 0 (free_blocks a bs) 0"
    using release_refines [OF rep [unfolded bs]] d b(2) unfolding bs by simp
  moreover have "ordered heap_start (free_blocks a bs) heap_end" by (rule free_blocks_ordered [OF ord]) simp
  moreover have "coalesced (free_blocks a bs)" by (rule free_blocks_coalesced [OF co])
  moreover have "first_addr (free_blocks a bs) 0 = first_addr bs 0"
    by (cases bs) (auto simp: first_addr_def)
  moreover have "blockMagic (?st a) = kVMHeapBlockHeaderMagic" using rep bs b(2) by simp
  moreover have "a + 40 \<noteq> 0"
  proof -
    have "unat a + 40 < 2 ^ 64" using ordered_mem [OF ord b(1)] b(2) by simp
    then have "unat (a + 40) \<noteq> 0" by (simp add: unat_word_ariths)
    then show ?thesis by auto
  qed
  ultimately show ?thesis using head
    by (simp add: sVMHeapFreeInternal_def Let_def heap_blocks_def heap_rep_def)
      (rule exI [of _ "sVMHeapRelease a ?st"], simp)
qed

section \<open>The heap's operations\<close>

lemma heap_section:
  fixes s :: "'a heap_scheme"
  assumes "lock_free (sVMHeapLock s)"
    and "body (s\<lparr>interruptFlag := False, sVMHeapLock := \<lparr>lockValue = 1\<rparr>\<rparr>)
      = Inr (r, (s\<lparr>interruptFlag := False, sVMHeapLock := \<lparr>lockValue = 1\<rparr>\<rparr>)\<lparr>heapHeaders := st, heapBytes := m\<rparr>)"
  shows "with_heap_lock body s = Inr (r, s\<lparr>heapHeaders := st, heapBytes := m\<rparr>)"
proof -
  have lock: "sVMHeapLock s = \<lparr>lockValue = 0\<rparr>" using assms(1) by (cases "sVMHeapLock s") simp
  have "s\<lparr>interruptFlag := False, sVMHeapLock := \<lparr>lockValue = 1\<rparr>, heapHeaders := st, heapBytes := m,
      interruptFlag := interruptFlag s, sVMHeapLock := \<lparr>lockValue = 0\<rparr>\<rparr>
     = s\<lparr>heapHeaders := st, heapBytes := m\<rparr>"
    by (rule heap.equality) (simp_all add: lock)
  then show ?thesis using assms by (simp add: heap_lock.section_eq)
qed

lemma heap_blocks_simps [simp]:
  "heap_blocks (s\<lparr>interruptFlag := f\<rparr>) bs = heap_blocks s bs"
  "heap_blocks (s\<lparr>sVMHeapLock := l\<rparr>) bs = heap_blocks s bs"
  "heap_blocks (s\<lparr>heapBytes := m\<rparr>) bs = heap_blocks s bs"
  by (simp_all add: heap_blocks_def)

lemma Allocate_effect:
  fixes s :: "'a heap_scheme"
  assumes inv: "heap_inv s bs" and sz: "sz \<noteq> 0"
  shows "case alloc_blocks (align16 sz) bs of
      None \<Rightarrow> VMHeapAllocate sz s = Inr (0, s)
    | Some (a, bs') \<Rightarrow> \<exists>st. VMHeapAllocate sz s = Inr (a + 40, s\<lparr>heapHeaders := st\<rparr>) \<and>
        heap_inv (s\<lparr>heapHeaders := st\<rparr>) bs' \<and> a \<noteq> 0"
proof -
  let ?s = "s\<lparr>interruptFlag := False, sVMHeapLock := \<lparr>lockValue = 1\<rparr>\<rparr>"
  have lock: "lock_free (sVMHeapLock s)" and ok: "heap_blocks ?s bs" using inv by (simp_all add: heap_inv_def)
  note sec = heap_section [of s "sVMHeapAllocateInternal sz", OF lock, folded VMHeapAllocate_def, where m = "heapBytes s"]
  note eff = AllocateInternal_effect [OF ok sz]
  show ?thesis
  proof (cases "alloc_blocks (align16 sz) bs")
    case None
    then have "sVMHeapAllocateInternal sz ?s = Inr (0, ?s\<lparr>heapHeaders := heapHeaders s, heapBytes := heapBytes s\<rparr>)"
      using eff by simp
    from sec [OF this] None show ?thesis by simp
  next
    case (Some p)
    obtain a bs' where p: "p = (a, bs')" by (cases p)
    from eff Some p obtain st where
      st: "sVMHeapAllocateInternal sz ?s = Inr (a + 40, ?s\<lparr>heapHeaders := st, heapBytes := heapBytes s\<rparr>)"
        "heap_blocks (?s\<lparr>heapHeaders := st\<rparr>) bs'" "a \<noteq> 0" by auto
    have "heap_inv (s\<lparr>heapHeaders := st\<rparr>) bs'" using st(2) lock by (simp add: heap_inv_def heap_blocks_def)
    with sec [OF st(1)] Some p st(3) show ?thesis by auto
  qed
qed

lemma Free_effect:
  fixes s :: "'a heap_scheme"
  assumes inv: "heap_inv s bs" and a: "a \<in> addr ` set bs"
  shows "\<exists>st. VMHeapFree (a + 40) s = Inr ((), s\<lparr>heapHeaders := st\<rparr>) \<and>
    heap_inv (s\<lparr>heapHeaders := st\<rparr>) (free_blocks a bs)"
proof -
  let ?s = "s\<lparr>interruptFlag := False, sVMHeapLock := \<lparr>lockValue = 1\<rparr>\<rparr>"
  have lock: "lock_free (sVMHeapLock s)" and ok: "heap_blocks ?s bs" using inv by (simp_all add: heap_inv_def)
  note sec = heap_section [of s "\<lambda>s. Inr ((), sVMHeapFreeInternal (a + 40) s)", OF lock, folded VMHeapFree_def,
      where m = "heapBytes s"]
  from FreeInternal_effect [OF ok a] obtain st where
    st: "sVMHeapFreeInternal (a + 40) ?s = ?s\<lparr>heapHeaders := st\<rparr>" "heap_blocks (?s\<lparr>heapHeaders := st\<rparr>) (free_blocks a bs)"
    by blast
  have "heap_inv (s\<lparr>heapHeaders := st\<rparr>) (free_blocks a bs)" using st(2) lock by (simp add: heap_inv_def heap_blocks_def)
  moreover have "VMHeapFree (a + 40) s = Inr ((), s\<lparr>heapHeaders := st\<rparr>)"
    using sec [of "()" st] st(1) by simp
  ultimately show ?thesis by blast
qed

text \<open>What resizing does to a live block, for every way the code can take.\<close>

lemma live_bounds:
  assumes "ordered heap_start bs heap_end" "(a, n) \<in> live bs"
  shows "a \<in> addr ` set bs" "unat (a + 40) = unat a + 40" "a + 40 \<noteq> 0" "unat a + 40 + unat n \<le> heap_end"
proof -
  have b: "Block a n False \<in> set bs" using assms(2) by (simp add: live_def)
  show "a \<in> addr ` set bs" using b by (metis block.sel(1) image_eqI)
  show le: "unat a + 40 + unat n \<le> heap_end" using ordered_mem [OF assms(1) b] by simp
  then show u: "unat (a + 40) = unat a + 40" by (simp add: unat_word_ariths)
  then have "unat (a + 40) \<noteq> 0" by simp
  then show "a + 40 \<noteq> 0" by auto
qed

lemma live_header:
  assumes "heap_seg M st p bs 0" "bs = xs @ Block a n False # ys"
  shows "blockSize (st a) = n" "nextBlock (st a) = first_addr ys 0"
  using assms by auto

lemma combine_live:
  assumes "distinct (map addr (xs @ Block a n False # c # ys))" "free c"
  shows "live (xs @ join_next (Block a n False) (c # ys))
    = insert (a, n + 40 + len c) (live (xs @ Block a n False # c # ys) - {(a, n)})"
proof -
  have "(a, n) \<notin> live xs" "(a, n) \<notin> live ys" using assms(1) by (force simp: live_def)+
  then show ?thesis using assms(2) by (auto simp: add.assoc)
qed

lemma ordered_join_mid:
  assumes "ordered lo (xs @ b # ys) hi" "hi \<le> 2 ^ 64"
  shows "ordered lo (xs @ join_next b ys) hi"
  using assms join_next_ordered [of _ b ys hi] unfolding ordered_append by blast

lemma coalesced_append:
  "coalesced (xs @ ys) \<longleftrightarrow> coalesced xs \<and> coalesced ys \<and> (xs \<noteq> [] \<and> ys \<noteq> [] \<longrightarrow> \<not> (free (last xs) \<and> free (hd ys)))"
  by (induction xs) (auto simp: coalesced_Cons hd_append)

lemma coalesced_join_mid:
  assumes "coalesced (xs @ b # ys)"
  shows "coalesced (xs @ join_next b ys)"
  using assms coalesced_join [of ys b] by (auto simp: coalesced_append free_join_next coalesced_Cons)

lemma copy_apart:
  fixes d s n :: UInt64
  assumes "unat s + unat n \<le> unat d \<or> unat d + unat n \<le> unat s" "unat s + unat n \<le> 2 ^ 64"
  shows "\<not> (0 < d - s \<and> d - s < n)"
proof (cases "unat s \<le> unat d")
  case True
  then have "unat (d - s) = unat d - unat s" by (simp add: unat_sub word_le_nat_alt)
  with assms True show ?thesis by (auto simp: word_less_nat_alt)
next
  case False
  then have "unat (d - s) = 2 ^ 64 + unat d - unat s" by (simp add: unat_sub_if')
  with assms False show ?thesis by (auto simp: word_less_nat_alt)
qed

lemma live_unique:
  assumes d: "distinct (map addr bs)" and a: "(a, n) \<in> live bs"
  shows "{p \<in> live bs. fst p \<noteq> a} = live bs - {(a, n)}"
proof -
  have "p \<in> live bs \<and> fst p \<noteq> a \<longleftrightarrow> p \<in> live bs \<and> p \<noteq> (a, n)" for p
  proof (cases p)
    case (Pair c k)
    have "k = n" if "c = a" "(c, k) \<in> live bs"
    proof -
      have "Block a k False \<in> set bs" "Block a n False \<in> set bs" using that a by (simp_all add: live_def)
      then have "Block a k False = Block a n False"
        using d unfolding distinct_map inj_on_def by (metis block.sel(1))
      then show ?thesis by simp
    qed
    with Pair show ?thesis by auto
  qed
  then show ?thesis by blast
qed

lemma ResizeLocked_effect:
  fixes s :: "'a heap_scheme"
  assumes blocks: "heap_blocks s bs" and bs: "bs = xs @ Block a n False # ys" and sz: "sz \<noteq> 0" "sz \<le> - 16"
  shows "\<exists>r st m bs'. sVMHeapResizeLocked (a + 40) sz s = Inr (r, s\<lparr>heapHeaders := st, heapBytes := m\<rparr>) \<and>
    heap_blocks (s\<lparr>heapHeaders := st\<rparr>) bs' \<and>
    (if sz \<le> n then r = a + 40 \<and> bs' = bs \<and> st = heapHeaders s \<and> m = heapBytes s
     else if ys \<noteq> [] \<and> free (hd ys) \<and> sz \<le> n + 40 + len (hd ys)
     then r = a + 40 \<and> bs' = xs @ Block a (n + (40 + len (hd ys))) False # tl ys \<and> m = heapBytes s
     else case alloc_blocks (align16 sz) bs of
       None \<Rightarrow> r = 0 \<and> bs' = bs \<and> st = heapHeaders s \<and> m = heapBytes s
     | Some (b, new) \<Rightarrow> r = b + 40 \<and> r \<noteq> 0 \<and> bs' = free_blocks a new \<and>
         m = (\<lambda>x. if x - r < n then heapBytes s (a + 40 + (x - r)) else heapBytes s x))"
proof -
  let ?st = "heapHeaders s" and ?M = kVMHeapBlockHeaderMagic
  have a: "(a, n) \<in> live bs" by (simp add: bs)
  have rep: "heap_seg ?M ?st 0 bs 0" and head: "sVMHeapListHead s = first_addr bs 0"
    and ord: "ordered heap_start bs heap_end" and co: "coalesced bs"
    using blocks by (simp_all add: heap_blocks_def heap_rep_def)
  note d = ordered_distinct [OF ord] and nz = heap_no_null [OF ord] and bounds = live_bounds [OF ord a]
  note h = live_header [OF rep bs]
  let ?grows = "ys \<noteq> [] \<and> free (hd ys) \<and> sz \<le> n + 40 + len (hd ys)"
  have grows: "first_addr ys 0 \<noteq> 0 \<and> isFree (?st (first_addr ys 0)) \<and> sz \<le> n + 40 + blockSize (?st (first_addr ys 0)) \<longleftrightarrow> ?grows"
    using rep nz bs by (cases ys) auto
  consider (fits) "sz \<le> n" | (joins) "\<not> sz \<le> n" ?grows | (moves) "\<not> sz \<le> n" "\<not> ?grows" by blast
  then show ?thesis
  proof cases
    case fits
    then have "sVMHeapResizeLocked (a + 40) sz s = Inr (a + 40, s\<lparr>heapHeaders := ?st, heapBytes := heapBytes s\<rparr>)"
      using h by (simp add: sVMHeapResizeLocked_def Let_def)
    then show ?thesis using blocks fits
      by (intro exI [of _ "a + 40"] exI [of _ ?st] exI [of _ "heapBytes s"] exI [of _ bs]) simp
  next
    case joins
    let ?st' = "sVMHeapCombineForward a ?st" and ?bs = "xs @ join_next (Block a n False) ys"
    obtain c cs where ys: "ys = c # cs" "free c" using joins(2) by (cases ys) auto
    have "sVMHeapResizeLocked (a + 40) sz s = Inr (a + 40, s\<lparr>heapHeaders := ?st', heapBytes := heapBytes s\<rparr>)"
      using h joins(1) grows joins(2) by (simp add: sVMHeapResizeLocked_def Let_def)
    moreover have "heap_blocks (s\<lparr>heapHeaders := ?st'\<rparr>) ?bs"
      using combine_refines [OF rep [unfolded bs]] d nz head ordered_join_mid [OF ord [unfolded bs]]
        coalesced_join_mid [OF co [unfolded bs]]
      by (simp add: heap_blocks_def heap_rep_def bs first_addr_def hd_append)
    moreover have "?bs = xs @ Block a (n + (40 + len (hd ys))) False # tl ys" using ys by simp
    ultimately show ?thesis using joins
      by (intro exI [of _ "a + 40"] exI [of _ ?st'] exI [of _ "heapBytes s"] exI [of _ ?bs]) simp
  next
    case moves
    note alloc = AllocateInternal_effect [OF blocks sz(1)]
    show ?thesis
    proof (cases "alloc_blocks (align16 sz) bs")
      case None
      then have "sVMHeapResizeLocked (a + 40) sz s = Inr (0, s\<lparr>heapHeaders := ?st, heapBytes := heapBytes s\<rparr>)"
        using alloc h moves(1) moves(2) [folded grows] by (auto simp: sVMHeapResizeLocked_def Let_def)
      then show ?thesis using blocks None moves
        by (intro exI [of _ 0] exI [of _ ?st] exI [of _ "heapBytes s"] exI [of _ bs]) auto
    next
      case (Some p)
      obtain a' bs' where p: "p = (a', bs')" by (cases p)
      from alloc Some p obtain st where
        st: "sVMHeapAllocateInternal sz s = Inr (a' + 40, s\<lparr>heapHeaders := st\<rparr>)"
          "heap_blocks (s\<lparr>heapHeaders := st\<rparr>) bs'" by auto
      have ord': "ordered heap_start bs' heap_end" and rep': "heap_seg ?M st 0 bs' 0"
        using st(2) by (simp_all add: heap_blocks_def heap_rep_def)
      obtain n' where n': "align16 sz \<le> n'" "live bs' = insert (a', n') (live bs)" "a' \<notin> fst ` live bs"
        using alloc_blocks_effect [OF ord _ _ Some [unfolded p]] by auto
      have live: "(a, n) \<in> live bs'" "(a', n') \<in> live bs'" and ne: "a' \<noteq> a"
        using n' a by (auto simp: image_iff)
      note bounds' = live_bounds [OF ord' live(1)] and new = live_bounds [OF ord' live(2)]
      obtain xs' ys' where bs': "bs' = xs' @ Block a n False # ys'"
        using live(1) by (auto simp: live_def in_set_conv_decomp)
      have size_a: "blockSize (st a) = n" by (rule live_header(1) [OF rep' bs'])
      let ?m = "MemoryCopy (heapBytes s) (a' + 40) (a + 40) n"
      have "sz \<le> n'" using align16_ge [OF sz(2)] n'(1) by simp
      then have "n \<le> n'" using moves(1) by simp
      then have nn: "unat n \<le> unat n'" by (simp add: word_le_nat_alt)
      have "Block a n False \<in> set bs'" "Block a' n' False \<in> set bs'" using live by (simp_all add: live_def)
      from ordered_disjoint [OF ord' this] ne have
        "unat a + 40 + unat n \<le> unat a' \<or> unat a' + 40 + unat n' \<le> unat a" by auto
      then have "\<not> (0 < (a' + 40) - (a + 40) \<and> (a' + 40) - (a + 40) < n)"
        using bounds'(2,4) new(2) nn by (intro copy_apart) auto
      then have m: "?m = (\<lambda>x. if x - (a' + 40) < n then heapBytes s (a + 40 + (x - (a' + 40))) else heapBytes s x)"
        by (rule MemoryCopy_effect)
      let ?s = "s\<lparr>heapHeaders := st, heapBytes := ?m\<rparr>"
      have "heap_blocks ?s bs'" using st(2) by (simp add: heap_blocks_def)
      from FreeInternal_effect [OF this bounds'(1)] obtain st2 where
        st2: "sVMHeapFreeInternal (a + 40) ?s = ?s\<lparr>heapHeaders := st2\<rparr>"
          "heap_blocks (?s\<lparr>heapHeaders := st2\<rparr>) (free_blocks a bs')" by blast
      have "sVMHeapResizeLocked (a + 40) sz s = Inr (a' + 40, s\<lparr>heapHeaders := st2, heapBytes := ?m\<rparr>)"
        using st(1) h moves(1) moves(2) [folded grows] new(3) size_a st2(1)
        by (auto simp: sVMHeapResizeLocked_def Let_def)
      moreover have "heap_blocks (s\<lparr>heapHeaders := st2\<rparr>) (free_blocks a bs')"
        using st2(2) by (simp add: heap_blocks_def)
      ultimately show ?thesis using m new(3) moves Some p
        by (intro exI [of _ "a' + 40"] exI [of _ st2] exI [of _ ?m] exI [of _ "free_blocks a bs'"]) auto
    qed
  qed
qed

section \<open>The allocator interface\<close>

text \<open>
  What the clients of an allocator rely on, stated for the kernel's heap and the user library's
  alike: \<open>blocks s bs\<close> says that the state holds the block list \<open>bs\<close>, \<open>request s sz\<close> that a size
  may be asked for. A request is always answered, with null or with a new block.
\<close>

locale block_allocator =
  fixes alloc :: "UInt64 \<Rightarrow> 's \<Rightarrow> fault + UInt64 \<times> 's"
    and release :: "UInt64 \<Rightarrow> 's \<Rightarrow> fault + unit \<times> 's"
    and blocks :: "'s \<Rightarrow> block list \<Rightarrow> bool"
    and request :: "'s \<Rightarrow> UInt64 \<Rightarrow> bool"
    and lo hi :: nat
  assumes blocks_ordered: "blocks s bs \<Longrightarrow> ordered lo bs hi" and hi: "hi \<le> 2 ^ 64"
    and alloc_returns: "blocks s bs \<Longrightarrow> request s sz \<Longrightarrow> \<exists>r t. alloc sz s = Inr (r, t)"
    and alloc_law: "blocks s bs \<Longrightarrow> request s sz \<Longrightarrow> alloc sz s = Inr (r, t) \<Longrightarrow>
      \<exists>bs'. blocks t bs' \<and> (if r = 0 then live bs' = live bs
        else \<exists>n. sz \<le> n \<and> r - 40 \<notin> fst ` live bs \<and> live bs' = insert (r - 40, n) (live bs))"
    and release_law: "blocks s bs \<Longrightarrow> (a, n) \<in> live bs \<Longrightarrow>
      \<exists>t bs'. release (a + 40) s = Inr ((), t) \<and> blocks t bs' \<and> live bs' = live bs - {(a, n)}"
begin

text \<open>The payloads of two live blocks do not meet.\<close>

lemma payloads_disjoint:
  assumes "blocks s bs" "(a, n) \<in> live bs" "(b, m) \<in> live bs" "a \<noteq> b"
  shows "unat a + 40 + unat n \<le> unat b \<or> unat b + 40 + unat m \<le> unat a"
proof -
  have "Block a n False \<in> set bs" "Block b m False \<in> set bs" using assms(2,3) by (simp_all add: live_def)
  from ordered_disjoint [OF blocks_ordered [OF assms(1)] this] assms(4) show ?thesis by simp
qed

text \<open>A new block meets no older one, and the older ones stay.\<close>

lemma alloc_disjoint:
  assumes "blocks s bs" "request s sz" "alloc sz s = Inr (r, t)" "r \<noteq> 0"
  shows "\<exists>bs' n. blocks t bs' \<and> sz \<le> n \<and> (r - 40, n) \<in> live bs' \<and> live bs \<subseteq> live bs' \<and>
    (\<forall>(b, m) \<in> live bs. unat (r - 40) + 40 + unat n \<le> unat b \<or> unat b + 40 + unat m \<le> unat (r - 40))"
proof -
  from alloc_law [OF assms(1-3)] assms(4) obtain bs' n where
    *: "blocks t bs'" "sz \<le> n" "r - 40 \<notin> fst ` live bs" "live bs' = insert (r - 40, n) (live bs)"
    by auto
  have "unat (r - 40) + 40 + unat n \<le> unat b \<or> unat b + 40 + unat m \<le> unat (r - 40)"
    if "(b, m) \<in> live bs" for b m
  proof (rule payloads_disjoint [OF *(1)])
    show "r - 40 \<noteq> b" using *(3) that by force
  qed (use *(4) that in auto)
  with * show ?thesis by blast
qed

text \<open>Allocating and releasing at once leaves the live blocks as they were.\<close>

lemma alloc_release:
  assumes "blocks s bs" "request s sz" "alloc sz s = Inr (r, t)" "r \<noteq> 0"
  shows "\<exists>u bs'. release r t = Inr ((), u) \<and> blocks u bs' \<and> live bs' = live bs"
proof -
  from alloc_law [OF assms(1-3)] assms(4) obtain bs' n where
    *: "blocks t bs'" "r - 40 \<notin> fst ` live bs" "live bs' = insert (r - 40, n) (live bs)"
    by auto
  from release_law [OF *(1), of "r - 40" n] *(3) obtain u bs'' where
    "release (r - 40 + 40) t = Inr ((), u)" "blocks u bs''" "live bs'' = live bs' - {(r - 40, n)}"
    by auto
  moreover have "insert (r - 40, n) (live bs) - {(r - 40, n)} = live bs" using *(2) by force
  ultimately show ?thesis using *(3) by auto
qed

end

lemma alloc_blocks_new:
  assumes "ordered lo bs hi" "hi \<le> 2 ^ 64" "4096 \<le> lo" "alloc_blocks (align16 sz) bs = Some (a, bs')" "sz \<le> - 16"
  shows "\<exists>n. sz \<le> n \<and> a \<notin> fst ` live bs \<and> live bs' = insert (a, n) (live bs)"
  using alloc_blocks_effect [OF assms(1-4)] align16_ge [OF assms(5)] by (meson order_trans)

lemma live_release:
  assumes "ordered lo bs hi" "(a, n) \<in> live bs"
  shows "a \<in> addr ` set bs" "live (free_blocks a bs) = live bs - {(a, n)}"
proof -
  have b: "Block a n False \<in> set bs" using assms(2) by (simp add: live_def)
  then show "a \<in> addr ` set bs" by (metis block.sel(1) image_eqI)
  show "live (free_blocks a bs) = live bs - {(a, n)}"
    unfolding free_blocks_live [OF ordered_distinct [OF assms(1)]]
    by (rule live_unique [OF ordered_distinct [OF assms(1)] assms(2)])
qed

interpretation kernel_heap: block_allocator VMHeapAllocate VMHeapFree heap_inv
  "\<lambda>s sz. sz \<noteq> 0 \<and> sz \<le> - 16" heap_start heap_end
proof
  fix s :: "'a heap_scheme" and bs
  assume inv: "heap_inv s bs"
  show ord: "ordered heap_start bs heap_end" using inv by (simp add: heap_inv_def heap_blocks_def)
  show "\<exists>r t. VMHeapAllocate sz s = Inr (r, t)" if "sz \<noteq> 0 \<and> sz \<le> - 16" for sz
    using Allocate_effect [OF inv conjunct1 [OF that]] by (auto split: option.splits)
  show "\<exists>bs'. heap_inv t bs' \<and> (if r = 0 then live bs' = live bs
        else \<exists>n. sz \<le> n \<and> r - 40 \<notin> fst ` live bs \<and> live bs' = insert (r - 40, n) (live bs))"
    if request: "sz \<noteq> 0 \<and> sz \<le> - 16" and "VMHeapAllocate sz s = Inr (r, t)" for sz r t
  proof (cases "alloc_blocks (align16 sz) bs")
    case None
    with Allocate_effect [OF inv conjunct1 [OF request]] that(2) inv show ?thesis by auto
  next
    case (Some p)
    obtain a bs' where p: "p = (a, bs')" by (cases p)
    from Allocate_effect [OF inv conjunct1 [OF request]] Some p that(2) have r: "r = a + 40" "heap_inv t bs'" by auto
    from Some p have new: "\<exists>n. sz \<le> n \<and> a \<notin> fst ` live bs \<and> live bs' = insert (a, n) (live bs)"
      by (intro alloc_blocks_new [OF ord]) (use request in simp_all)
    then obtain n where n: "sz \<le> n" "a \<notin> fst ` live bs" "live bs' = insert (a, n) (live bs)" by blast
    have "ordered heap_start bs' heap_end" using r(2) by (simp add: heap_inv_def heap_blocks_def)
    then have "a + 40 \<noteq> 0" by (rule live_bounds(3) [where n = n]) (simp add: n(3))
    with r n show ?thesis by auto
  qed
  show "\<exists>t bs'. VMHeapFree (a + 40) s = Inr ((), t) \<and> heap_inv t bs' \<and> live bs' = live bs - {(a, n)}"
    if "(a, n) \<in> live bs" for a n
    using Free_effect [OF inv live_release(1) [OF ord that]] live_release(2) [OF ord that] by blast
qed simp

text \<open>The heap after an allocation and its release is the very same list of blocks.\<close>

lemma Allocate_Free:
  fixes s :: "'a heap_scheme"
  assumes inv: "heap_inv s bs" and sz: "sz \<noteq> 0" and run: "VMHeapAllocate sz s = Inr (r, t)" "r \<noteq> 0"
  shows "\<exists>u. VMHeapFree r t = Inr ((), u) \<and> heap_inv u bs"
proof (cases "alloc_blocks (align16 sz) bs")
  case None
  with Allocate_effect [OF inv sz] run show ?thesis by auto
next
  case (Some p)
  obtain a bs' where p: "p = (a, bs')" by (cases p)
  have ord: "ordered heap_start bs heap_end" "coalesced bs" using inv by (simp_all add: heap_inv_def heap_blocks_def)
  from Allocate_effect [OF inv sz] Some p run have r: "r = a + 40" "heap_inv t bs'" by auto
  have "a \<in> addr ` set bs'" using Some p by (auto simp: alloc_blocks_split take_block_def)
  from Free_effect [OF r(2) this] alloc_free_blocks [OF ord Some [unfolded p]] r(1) show ?thesis by auto
qed

section \<open>Initialisation\<close>

lemma tables_ok_mono: "tables_ok m root U \<Longrightarrow> U \<subseteq> W \<Longrightarrow> tables_ok m root W"
  unfolding tables_ok_def by blast

lemma vmm_frameD:
  "vmm_frame s t \<Longrightarrow> gVMKernelPML4 t = gVMKernelPML4 s \<and> isInitialized t = isInitialized s"
  by (auto simp: vmm_frame_def)

lemma heap_frameD:
  "vmm_frame s t \<Longrightarrow> heapHeaders t = heapHeaders s \<and> sVMHeapLock t = sVMHeapLock s"
  by (auto simp: vmm_frame_def)

lemma alloc_ready:
  fixes s :: "'a vmm_scheme"
  assumes ready: "vmm_ready s root" and some: "free_frames s \<noteq> {}"
  shows "\<exists>p bm. p < 2 ^ 40 \<and> frame_address p \<noteq> 0 \<and>
    VMPhysicalMemoryAllocatePage s = Inr (frame_address p, s\<lparr>gVMPhycalMemoryBitmap := bm\<rparr>) \<and>
    vmm_ready (s\<lparr>gVMPhycalMemoryBitmap := bm\<rparr>) root \<and> free_frames (s\<lparr>gVMPhycalMemoryBitmap := bm\<rparr>) \<subset> free_frames s"
proof -
  have tab: "tables_ok (mem s) root (used_frames s)" and pmm: "pmm_inv s"
    using ready by (simp_all add: vmm_ready_def address_space_ok_def)
  let ?p = "Min (free_frames s)"
  have p: "?p \<in> free_frames s" using some by simp
  note p40 = free_frames_bound [OF pmm p]
  from AllocatePage_takes_least [OF pmm some] obtain bm where
    alloc: "VMPhysicalMemoryAllocatePage s = Inr (frame_address ?p, s\<lparr>gVMPhycalMemoryBitmap := bm\<rparr>)"
    and bm: "length bm = length (gVMPhycalMemoryBitmap s)" "bitmap_free bm = free_frames s - {?p}"
    by blast
  have nz: "frame_address ?p \<noteq> 0" using pmm.alloc_null_iff [OF pmm alloc] some by simp
  let ?t = "s\<lparr>gVMPhycalMemoryBitmap := bm\<rparr>"
  have "tables_ok (mem s) root (used_frames ?t)"
    unfolding used_frames_insert [OF bm(2) p40] by (rule tables_ok_mono [OF tab]) blast
  moreover have "pmm_inv ?t" using pmm bm by (simp add: pmm_inv_def)
  ultimately have "vmm_ready ?t root" using ready by (simp add: vmm_ready_def address_space_ok_def)
  moreover have "free_frames ?t \<subset> free_frames s" using bm(2) p by auto
  ultimately show ?thesis using alloc nz p40 by (intro exI [of _ ?p] exI [of _ bm]) simp
qed

abbreviation heap_page :: "UInt64 \<Rightarrow> 'a heap_scheme \<Rightarrow> fault + 'a heap_scheme" where
  "heap_page i s \<equiv> bindE (VMPhysicalMemoryAllocatePage s) (\<lambda>(physical, s).
     if physical = 0 then Inl (Panic ''OOM during heap init'')
     else bindE (VMVirtualMemoryMapPage (gVMKernelPML4 s) physical
                   (kVMKernelHeapStart + i * kVMPageSize) (PTE_PRESENT OR PTE_RW) s) (\<lambda>(_, s). Inr s))"

definition heap_mapped :: "'a heap_scheme \<Rightarrow> UInt64 \<Rightarrow> bool" where
  "heap_mapped s i \<longleftrightarrow> (\<forall>j < i. \<exists>p < 2 ^ 40. translate (mem s) (gVMKernelPML4 s) (kVMKernelHeapStart + j * kVMPageSize)
     = Some (frame_address p OR 3))"

lemma heap_page_effect:
  fixes s :: "'a heap_scheme"
  assumes ready: "vmm_ready s (gVMKernelPML4 s)" and i: "i < 1024"
    and mapped: "free_frames s \<noteq> {} \<longrightarrow> heap_mapped s i"
  shows "case heap_page i s of
      Inl e \<Rightarrow> e = Panic ''OOM during heap init''
    | Inr t \<Rightarrow> vmm_frame s t \<and> vmm_ready t (gVMKernelPML4 s) \<and> free_frames t \<subseteq> free_frames s \<and>
        (free_frames t \<noteq> {} \<longrightarrow> heap_mapped t (i + 1))"
proof (cases "free_frames s = {}")
  case True
  have "pmm_inv s" using ready by (simp add: vmm_ready_def address_space_ok_def)
  with True show ?thesis by (simp add: AllocatePage_exhausted)
next
  case False
  let ?root = "gVMKernelPML4 s" and ?v = "\<lambda>j. kVMKernelHeapStart + j * kVMPageSize"
  from alloc_ready [OF ready False] obtain p bm where p: "p < 2 ^ 40" "frame_address p \<noteq> 0"
    and alloc: "VMPhysicalMemoryAllocatePage s = Inr (frame_address p, s\<lparr>gVMPhycalMemoryBitmap := bm\<rparr>)"
    and u: "vmm_ready (s\<lparr>gVMPhycalMemoryBitmap := bm\<rparr>) ?root"
      "free_frames (s\<lparr>gVMPhycalMemoryBitmap := bm\<rparr>) \<subset> free_frames s" by blast
  let ?u = "s\<lparr>gVMPhycalMemoryBitmap := bm\<rparr>"
  have "present (frame_address p OR 3)" using present_OR [of 3 "frame_address p"] by (simp add: or.commute)
  from MapPage_effect [OF u(1) this, of "?v i"] obtain r t where
    map: "VMVirtualMemoryMapPage ?root (frame_address p) (?v i) 3 ?u = Inr (r, t)"
    and t: "vmm_ready t ?root" "vmm_frame ?u t" "free_frames t \<subseteq> free_frames ?u"
    and tr: "r = 0 \<and> free_frames t = {} \<and> (\<forall>v. translate (mem t) ?root v = translate (mem ?u) ?root v) \<or>
     r = ?v i \<and> (\<forall>v. translate (mem t) ?root v =
       (if same_page v (?v i) then Some (frame_address p OR 3) else translate (mem ?u) ?root v))"
    by blast
  have "vmm_frame s ?u"
    unfolding vmm_frame_def by (intro exI [of _ bm] exI [of _ "mem s"] exI [of _ "invalidated s"]) simp
  then have frame: "vmm_frame s t" using t(2) by (rule vmm_frame_trans)
  have fewer: "free_frames t \<subseteq> free_frames s" using t(3) u(2) by blast
  have "heap_mapped t (i + 1)" if "free_frames t \<noteq> {}"
  proof -
    have tr': "translate (mem t) ?root v =
       (if same_page v (?v i) then Some (frame_address p OR 3) else translate (mem s) ?root v)" for v
      using that tr by auto
    have before: "heap_mapped s i" using mapped False by blast
    have "\<exists>p < 2 ^ 40. translate (mem t) ?root (?v j) = Some (frame_address p OR 3)" if j: "j < i + 1" for j
    proof (cases "same_page (?v j) (?v i)")
      case True
      then show ?thesis using tr' p(1) by auto
    next
      case False
      then have "j \<noteq> i" by (auto simp: same_page_def)
      moreover have "unat (i + 1) = Suc (unat i)" using i by (rule unat_Suc_below)
      ultimately have "j < i" using j by (simp add: word_less_nat_alt word_unat_eq_iff)
      then show ?thesis using before False unfolding heap_mapped_def tr' by simp
    qed
    then show ?thesis using vmm_frameD [OF frame] by (simp add: heap_mapped_def)
  qed
  then show ?thesis using alloc p(2) map frame t(1) fewer by simp
qed

abbreviation initial_block :: block where
  "initial_block \<equiv> Block kVMKernelHeapStart (kVMHeapSizePages * kVMPageSize - 40) True"

lemma HeapInitialize_effect:
  fixes s :: "'a heap_scheme"
  assumes ready: "vmm_ready s (gVMKernelPML4 s)" and lock: "lock_free (sVMHeapLock s)"
  shows "case VMHeapInitialize s of
      Inl e \<Rightarrow> e = Panic ''OOM during heap init''
    | Inr t \<Rightarrow> heap_inv t [initial_block] \<and> vmm_ready t (gVMKernelPML4 t) \<and>
        (free_frames t \<noteq> {} \<longrightarrow> heap_mapped t kVMHeapSizePages)"
proof -
  define I where "I = (\<lambda>i t. i \<le> 1024 \<and> vmm_frame s t \<and> vmm_ready t (gVMKernelPML4 t) \<and>
    (free_frames t \<noteq> {} \<longrightarrow> heap_mapped t i))"
  have start: "I 0 s" using ready by (simp add: I_def vmm_frame_refl heap_mapped_def)
  have body: "case heap_page i t of Inl e \<Rightarrow> e = Panic ''OOM during heap init'' | Inr u \<Rightarrow> I (i + 1) u"
    if i: "i < 1024" and I: "I i t" for i and t :: "'a heap_scheme"
  proof -
    have t: "vmm_ready t (gVMKernelPML4 t)" "free_frames t \<noteq> {} \<longrightarrow> heap_mapped t i" "vmm_frame s t"
      using I by (simp_all add: I_def)
    have "i + 1 \<le> 1024" using i by (simp add: inc_le)
    then show ?thesis
      using heap_page_effect [OF t(1) i t(2)] vmm_frame_trans [OF t(3)] vmm_frameD [of t]
      by (cases "heap_page i t") (auto simp: I_def)
  qed
  have "case for_range 0 1024 1 heap_page s of
      Inl e \<Rightarrow> e = Panic ''OOM during heap init'' | Inr t \<Rightarrow> \<exists>i. I i t \<and> 1024 \<le> i"
    by (rule for_range_rule [where I = I, OF _ _ start body]) simp_all
  then consider "for_range 0 1024 1 heap_page s = Inl (Panic ''OOM during heap init'')"
    | t where "for_range 0 1024 1 heap_page s = Inr t" "I 1024 t"
    by (auto split: sum.splits dest: order.antisym simp: I_def)
  then show ?thesis
  proof cases
    case 1
    then show ?thesis by (simp add: VMHeapInitialize_def)
  next
    case (2 t)
    let ?h = "\<lparr>blockMagic = kVMHeapBlockHeaderMagic, nextBlock = 0, previousBlock = 0,
      blockSize = kVMHeapSizePages * kVMPageSize - sizeof_VMHeapBlockHeader, isFree = True\<rparr>"
    let ?t = "t\<lparr>sVMHeapListHead := kVMKernelHeapStart, heapHeaders := (heapHeaders t)(kVMKernelHeapStart := ?h)\<rparr>"
    have t: "vmm_frame s t" "vmm_ready t (gVMKernelPML4 t)" "free_frames t \<noteq> {} \<longrightarrow> heap_mapped t 1024"
      using 2(2) by (simp_all add: I_def)
    have "VMHeapInitialize s = Inr ?t" using 2(1) by (simp add: VMHeapInitialize_def)
    moreover have "heap_inv ?t [initial_block]"
      using heap_frameD [OF t(1)] lock by (simp add: heap_inv_def heap_blocks_def heap_rep_def)
    moreover have "vmm_ready ?t (gVMKernelPML4 ?t)" "free_frames ?t = free_frames t"
      using t(2) by (simp_all add: vmm_ready_def address_space_ok_def pmm_inv_def used_frames_def free_frames_def)
    moreover have "heap_mapped ?t 1024 = heap_mapped t 1024" by (simp add: heap_mapped_def)
    ultimately show ?thesis using t(3) by simp
  qed
qed

section \<open>Properties\<close>

text \<open>A resized block replaces the old one among the live blocks.\<close>

lemma Resize_live:
  assumes ord: "ordered heap_start bs heap_end" and bs: "bs = xs @ Block a n False # ys" and sz: "sz \<le> - 16"
    and what: "if sz \<le> n then r = a + 40 \<and> bs' = bs
     else if ys \<noteq> [] \<and> free (hd ys) \<and> sz \<le> n + 40 + len (hd ys)
     then r = a + 40 \<and> bs' = xs @ Block a (n + (40 + len (hd ys))) False # tl ys
     else case alloc_blocks (align16 sz) bs of
       None \<Rightarrow> r = 0 \<and> bs' = bs
     | Some (b, new) \<Rightarrow> r = b + 40 \<and> r \<noteq> 0 \<and> bs' = free_blocks a new"
  shows "if r = 0 then bs' = bs else r - 40 \<notin> fst ` (live bs - {(a, n)}) \<and>
    (\<exists>k. sz \<le> k \<and> n \<le> k \<and> live bs' = insert (r - 40, k) (live bs - {(a, n)}))"
proof -
  have a: "(a, n) \<in> live bs" by (simp add: bs)
  note d = ordered_distinct [OF ord]
  have self: "insert (a, n) (live bs - {(a, n)}) = live bs" using a by auto
  have alone: "a \<notin> fst ` (live bs - {(a, n)})" unfolding live_unique [OF d a, symmetric] by force
  let ?grows = "ys \<noteq> [] \<and> free (hd ys) \<and> sz \<le> n + 40 + len (hd ys)"
  consider (fits) "sz \<le> n" | (joins) "\<not> sz \<le> n" ?grows | (none) "\<not> sz \<le> n" "\<not> ?grows" "alloc_blocks (align16 sz) bs = None"
    | (moves) b new where "\<not> sz \<le> n" "\<not> ?grows" "alloc_blocks (align16 sz) bs = Some (b, new)" by fastforce
  then show ?thesis
  proof cases
    case fits
    then show ?thesis using what self alone by (auto intro!: exI [of _ n])
  next
    case joins
    then obtain c cs where ys: "ys = c # cs" "free c" by (cases ys) auto
    have "live (xs @ join_next (Block a n False) (c # cs)) = insert (a, n + 40 + len c) (live bs - {(a, n)})"
      using combine_live [of xs a n c cs] d ys bs by simp
    moreover have "n \<le> sz" "r = a + 40" using joins what by auto
    ultimately show ?thesis using joins what ys alone live_bounds(3) [OF ord a]
      by (auto intro!: exI [of _ "n + 40 + len c"] simp: add.assoc)
  next
    case none
    with what show ?thesis by simp
  next
    case (moves b new)
    then have r: "r = b + 40" "r \<noteq> 0" "bs' = free_blocks a new" using what by auto
    obtain k where k: "sz \<le> k" "b \<notin> fst ` live bs" "live new = insert (b, k) (live bs)"
      using alloc_blocks_new [OF ord _ _ moves(3) sz] by auto
    have ord': "ordered heap_start new heap_end" using alloc_blocks_effect [OF ord _ _ moves(3)] by simp
    have "live bs' = live new - {(a, n)}" unfolding r(3) by (rule live_release(2) [OF ord']) (use a k(3) in simp)
    moreover have "b \<noteq> a" using k(2) a by force
    ultimately have "live bs' = insert (r - 40, k) (live bs - {(a, n)})" using k(3) r(1) by auto
    moreover have "r - 40 \<notin> fst ` (live bs - {(a, n)})" using k(2) r(1) by force
    ultimately show ?thesis using r(2) k(1) moves(1) by (auto intro!: exI [of _ k])
  qed
qed

lemma Resize_others:
  assumes ord: "ordered heap_start bs heap_end" and inv: "heap_inv t bs'" and a: "(a, n) \<in> live bs"
    and m: "m = heapBytes s \<or> m = (\<lambda>x. if x - r < n then heapBytes s (a + 40 + (x - r)) else heapBytes s x)"
    and live: "\<exists>k. n \<le> k \<and> live bs' = insert (r - 40, k) (live bs - {(a, n)})" "r - 40 \<notin> fst ` (live bs - {(a, n)})"
    and b: "(b, j) \<in> live bs - {(a, n)}" and i: "i < j"
  shows "m (b + 40 + i) = heapBytes s (b + 40 + i)"
proof -
  from live obtain k where k: "n \<le> k" "live bs' = insert (r - 40, k) (live bs - {(a, n)})" by blast
  have ord': "ordered heap_start bs' heap_end" using inv by (simp add: heap_inv_def heap_blocks_def)
  have mem: "(r - 40, k) \<in> live bs'" "(b, j) \<in> live bs'" using k(2) b by auto
  note r = live_bounds [OF ord' mem(1)] and b' = live_bounds [OF ord' mem(2)]
  have ne: "b \<noteq> r - 40" using live(2) b by force
  from kernel_heap.payloads_disjoint [OF inv mem(2,1) ne] have
    apart: "unat b + 40 + unat j \<le> unat (r - 40) \<or> unat (r - 40) + 40 + unat k \<le> unat b" .
  have "unat i < unat j" "unat n \<le> unat k" using i k(1) by (simp_all add: word_less_nat_alt word_le_nat_alt)
  moreover from this have x: "unat (b + 40 + i) = unat b + 40 + unat i"
    using b'(4) by (simp add: unat_word_ariths)
  moreover have "unat r = unat (r - 40) + 40" using r(2) by simp
  ultimately have "\<not> (b + 40 + i) - r < n"
    using apart r(4) by (simp only: word_less_nat_alt unat_sub_if') auto
  then show ?thesis using m by auto
qed

text \<open>C1: On a well-formed heap an allocation takes the first free block that is large enough for the
  request rounded up to sixteen bytes: the block is handed out whole, or cut to the rounded size with
  the rest left as a free block behind it when the rest has room for a header and more than sixteen
  bytes; every other block stays. The answer is the address after the block's header, the payload is
  at least as large as requested and meets no live one. It is null, with nothing changed, exactly when
  no free block is large enough.\<close>

theorem VMHeapAllocate_correct:
  assumes "heap_inv s bs" "sz \<noteq> 0" "sz \<le> - 16"
  shows "\<exists>r t. VMHeapAllocate sz s = Inr (r, t) \<and>
    (if \<forall>b \<in> set bs. free b \<longrightarrow> len b < align16 sz then r = 0 \<and> t = s
     else \<exists>xs a n ys k. bs = xs @ Block a n True # ys \<and> align16 sz \<le> n \<and> (\<forall>b \<in> set xs. free b \<longrightarrow> len b < align16 sz) \<and>
       r = a + 40 \<and> r \<noteq> 0 \<and> t = s\<lparr>heapHeaders := heapHeaders t\<rparr> \<and> sz \<le> k \<and>
       k = (if align16 sz + 56 < n then align16 sz else n) \<and>
       heap_inv t (xs @ Block a k False # (if k < n then [Block (a + 40 + k) (n - k - 40) True] else []) @ ys) \<and>
       (\<forall>(b, m) \<in> live bs. unat a + 40 + unat k \<le> unat b \<or> unat b + 40 + unat m \<le> unat a))"
proof (cases "alloc_blocks (align16 sz) bs")
  case None
  with Allocate_effect [OF assms(1,2)] alloc_blocks_none [of "align16 sz" bs] show ?thesis by simp
next
  case (Some p)
  obtain a bs' where p: "p = (a, bs')" by (cases p)
  have ge: "sz \<le> align16 sz" by (rule align16_ge [OF assms(3)])
  from Allocate_effect [OF assms(1,2)] Some p obtain st where
    run: "VMHeapAllocate sz s = Inr (a + 40, s\<lparr>heapHeaders := st\<rparr>)" "heap_inv (s\<lparr>heapHeaders := st\<rparr>) bs'" by auto
  from Some p obtain xs b ys where "bs = xs @ b # ys" "bs' = xs @ take_block (align16 sz) b @ ys" "a = addr b"
    "free b" and n: "align16 sz \<le> len b" and first: "\<forall>c \<in> set xs. free c \<longrightarrow> len c < align16 sz" by (auto simp: alloc_blocks_split)
  then obtain n where bs: "bs = xs @ Block a n True # ys" "bs' = xs @ take_block (align16 sz) (Block a n True) @ ys"
    and n: "align16 sz \<le> n" by (cases b) auto
  define k where "k = (if align16 sz + 56 < n then align16 sz else n)"
  have ord0: "ordered heap_start bs heap_end" using assms(1) by (simp add: heap_inv_def heap_blocks_def)
  from ordered_mem [OF ord0, of "Block a n True"] bs(1) have "unat n \<le> 0x400000" by simp
  then have less: "align16 sz < n" if "align16 sz + 56 < n"
    using n that by (simp add: word_le_nat_alt word_less_nat_alt unat_word_ariths)
  have bs': "bs' = xs @ Block a k False # (if k < n then [Block (a + 40 + k) (n - k - 40) True] else []) @ ys"
    using n less by (auto simp: bs(2) take_block_def add.assoc k_def)
  have ord: "ordered heap_start bs' heap_end" using run(2) by (simp add: heap_inv_def heap_blocks_def)
  have k: "sz \<le> k" using ge n by (auto simp: k_def)
  have nz: "a + 40 \<noteq> 0" by (rule live_bounds(3) [OF ord, where n = k]) (simp add: bs')
  have apart: "unat a + 40 + unat k \<le> unat b \<or> unat b + 40 + unat m \<le> unat a" if b: "(b, m) \<in> live bs" for b m
  proof (rule kernel_heap.payloads_disjoint [OF run(2)])
    show "a \<noteq> b" using alloc_blocks_new [OF ord0 _ _ Some [unfolded p] assms(3)] b by force
  qed (use b in \<open>auto simp: bs' bs(1)\<close>)
  have some: "\<not> (\<forall>b \<in> set bs. free b \<longrightarrow> len b < align16 sz)" using n bs(1) by auto
  show ?thesis
    unfolding if_not_P [OF some]
  proof (rule exI [of _ "a + 40"], rule exI [of _ "s\<lparr>heapHeaders := st\<rparr>"], intro conjI run(1),
      rule exI [of _ xs], rule exI [of _ a], rule exI [of _ n], rule exI [of _ ys], rule exI [of _ k], intro conjI)
    show "heap_inv (s\<lparr>heapHeaders := st\<rparr>)
       (xs @ Block a k False # (if k < n then [Block (a + 40 + k) (n - k - 40) True] else []) @ ys)"
      using run(2) unfolding bs' .
    show "\<forall>(b, m) \<in> live bs. unat a + 40 + unat k \<le> unat b \<or> unat b + 40 + unat m \<le> unat a" using apart by blast
  qed (use bs(1) n first nz k in \<open>simp_all add: k_def\<close>)
qed

text \<open>A heap with the initial block only.\<close>

definition small_heap :: heap where
  "small_heap = \<lparr>mem = \<lambda>_. 0, cr3 = 0x1000, interruptFlag = True, portWrites = [], invalidated = [],
     gVMPhycalMemoryBitmapAddress = 0, gVMPhycalMemoryBitmap = [0xFF, 0], gVMPhycalMemoryBitmapSize = 2,
     gVMPhycalMemoryTotalMemorySize = 0x10000, sVMPMMLock = \<lparr>lockValue = 0\<rparr>,
     gVMKernelPML4 = 0x1000, gVMKernelPML4Physical = 0x1000, sVMVMMlock = \<lparr>lockValue = 0\<rparr>, isInitialized = True,
     heapHeaders = (\<lambda>_. \<lparr>blockMagic = kVMHeapBlockHeaderMagic, nextBlock = 0, previousBlock = 0,
       blockSize = 0x3FFFD8, isFree = True\<rparr>),
     heapBytes = (\<lambda>_. 0), sVMHeapListHead = kVMKernelHeapStart, sVMHeapLock = \<lparr>lockValue = 0\<rparr>\<rparr>"

lemma small_heap_inv: "heap_inv small_heap [initial_block]"
  by (simp add: heap_inv_def heap_blocks_def heap_rep_def small_heap_def)

lemma VMHeapAllocate_correct_witness:
  "\<exists>t. VMHeapAllocate 100 small_heap = Inr (0xFFFFFFFFC0000028, t) \<and>
     heap_inv t [Block kVMKernelHeapStart 112 False, Block 0xFFFFFFFFC0000098 0x3FFF40 True]"
  using VMHeapAllocate_correct [OF small_heap_inv, of 100] by (auto simp: Cons_eq_append_conv)

text \<open>C15: Freeing what was just allocated gives back exactly the list of blocks there was before: the
  remainder that allocation split off is merged again, and nothing is lost to fragmentation.\<close>

theorem heap_allocate_free_roundtrip:
  assumes "heap_inv s bs" "sz \<noteq> 0" "VMHeapAllocate sz s = Inr (r, t)" "r \<noteq> 0"
  shows "\<exists>u. VMHeapFree r t = Inr ((), u) \<and> heap_inv u bs"
  by (rule Allocate_Free [OF assms])

lemma heap_allocate_free_roundtrip_witness:
  "\<exists>r t u. VMHeapAllocate 100 small_heap = Inr (r, t) \<and> VMHeapFree r t = Inr ((), u) \<and> heap_inv u [initial_block]"
proof -
  have "alloc_blocks (align16 100) [initial_block] \<noteq> None" unfolding alloc_blocks_none by simp
  then obtain a bs' where "alloc_blocks (align16 100) [initial_block] = Some (a, bs')" by auto
  with Allocate_effect [OF small_heap_inv, of 100] obtain st where
    run: "VMHeapAllocate 100 small_heap = Inr (a + 40, small_heap\<lparr>heapHeaders := st\<rparr>)"
      "heap_inv (small_heap\<lparr>heapHeaders := st\<rparr>) bs'" by auto
  have "a = kVMKernelHeapStart" using \<open>alloc_blocks _ _ = _\<close> by (simp split: if_splits)
  then have "a + 40 \<noteq> 0" by simp
  from heap_allocate_free_roundtrip [OF small_heap_inv _ run(1) this] run(1) show ?thesis by auto
qed

text \<open>C16: Resizing a live block. A block that is large enough stays and nothing changes. Otherwise, if
  the block after it is free and both together are large enough, the block grows over it in place and
  no byte changes. Otherwise a new block is taken as by an allocation, the old contents are copied to
  it, no other byte of the heap changes, and the old block is freed; the result is null, with nothing
  changed, exactly when there is no block to take. In every other case the result is a live block at least
  as large as requested in place of the old one, its first bytes are the old contents, and the contents of
  the other live blocks are what they were.\<close>

theorem VMHeapResize_correct:
  fixes s :: "'a heap_scheme"
  assumes "heap_inv s bs" "bs = xs @ Block a n False # ys" "sz \<noteq> 0" "sz \<le> - 16"
  shows "\<exists>r t bs'. VMHeapResize (a + 40) sz s = Inr (r, t) \<and> heap_inv t bs' \<and>
    t = s\<lparr>heapHeaders := heapHeaders t, heapBytes := heapBytes t\<rparr> \<and>
    (if sz \<le> n then r = a + 40 \<and> bs' = bs \<and> t = s
     else if ys \<noteq> [] \<and> free (hd ys) \<and> sz \<le> n + 40 + len (hd ys)
     then r = a + 40 \<and> bs' = xs @ Block a (n + (40 + len (hd ys))) False # tl ys \<and> heapBytes t = heapBytes s
     else case alloc_blocks (align16 sz) bs of
       None \<Rightarrow> r = 0 \<and> bs' = bs \<and> t = s
     | Some (b, new) \<Rightarrow> r = b + 40 \<and> r \<noteq> 0 \<and> bs' = free_blocks a new \<and>
         heapBytes t = (\<lambda>x. if x - r < n then heapBytes s (a + 40 + (x - r)) else heapBytes s x)) \<and>
    (r \<noteq> 0 \<longrightarrow> (\<exists>k. sz \<le> k \<and> n \<le> k \<and> live bs' = insert (r - 40, k) (live bs - {(a, n)})) \<and>
       (\<forall>i < n. heapBytes t (r + i) = heapBytes s (a + 40 + i)) \<and>
       (\<forall>(b, m) \<in> live bs - {(a, n)}. \<forall>i < m. heapBytes t (b + 40 + i) = heapBytes s (b + 40 + i)))"
proof -
  let ?s = "s\<lparr>interruptFlag := False, sVMHeapLock := \<lparr>lockValue = 1\<rparr>\<rparr>"
  have lock: "lock_free (sVMHeapLock s)" and ok: "heap_blocks ?s bs" and ord: "ordered heap_start bs heap_end"
    using assms(1) by (simp_all add: heap_inv_def) (simp add: heap_blocks_def)
  have a: "(a, n) \<in> live bs" by (simp add: assms(2))
  have "VMHeapResize (a + 40) sz s = with_heap_lock (sVMHeapResizeLocked (a + 40) sz) s"
    using live_bounds(3) [OF ord a] assms(3) by (simp add: VMHeapResize_def)
  note sec = heap_section [of s "sVMHeapResizeLocked (a + 40) sz", OF lock, folded this]
  have fields: "heapHeaders ?s = heapHeaders s" "heapBytes ?s = heapBytes s" by simp_all
  from ResizeLocked_effect [OF ok assms(2-4), unfolded fields] obtain r st m bs' where
    run: "sVMHeapResizeLocked (a + 40) sz ?s = Inr (r, ?s\<lparr>heapHeaders := st, heapBytes := m\<rparr>)"
    and inv: "heap_blocks (?s\<lparr>heapHeaders := st\<rparr>) bs'"
    and what: "if sz \<le> n then r = a + 40 \<and> bs' = bs \<and> st = heapHeaders s \<and> m = heapBytes s
     else if ys \<noteq> [] \<and> free (hd ys) \<and> sz \<le> n + 40 + len (hd ys)
     then r = a + 40 \<and> bs' = xs @ Block a (n + (40 + len (hd ys))) False # tl ys \<and> m = heapBytes s
     else case alloc_blocks (align16 sz) bs of
       None \<Rightarrow> r = 0 \<and> bs' = bs \<and> st = heapHeaders s \<and> m = heapBytes s
     | Some (b, new) \<Rightarrow> r = b + 40 \<and> r \<noteq> 0 \<and> bs' = free_blocks a new \<and>
         m = (\<lambda>x. if x - r < n then heapBytes s (a + 40 + (x - r)) else heapBytes s x)"
    by blast
  let ?t = "s\<lparr>heapHeaders := st, heapBytes := m\<rparr>"
  have inv': "heap_inv ?t bs'" using inv lock by (simp add: heap_inv_def heap_blocks_def)
  have live: "if r = 0 then bs' = bs else r - 40 \<notin> fst ` (live bs - {(a, n)}) \<and>
      (\<exists>k. sz \<le> k \<and> n \<le> k \<and> live bs' = insert (r - 40, k) (live bs - {(a, n)}))"
    by (rule Resize_live [OF ord assms(2,4)]) (use what in \<open>auto split: option.splits if_splits\<close>)
  have bytes: "m = heapBytes s \<and> (r \<noteq> 0 \<longrightarrow> r = a + 40) \<or>
      m = (\<lambda>x. if x - r < n then heapBytes s (a + 40 + (x - r)) else heapBytes s x)"
    using what by (auto split: option.splits if_splits)
  have contents: "m (r + i) = heapBytes s (a + 40 + i)" if r: "r \<noteq> 0" and i: "i < n" for i
    using bytes r i by auto
  have others: "m (b + 40 + i) = heapBytes s (b + 40 + i)"
    if r: "r \<noteq> 0" and b: "(b, k) \<in> live bs - {(a, n)}" and i: "i < k" for b k i
  proof (rule Resize_others [OF ord inv' a _ _ _ b i])
    show "m = heapBytes s \<or> m = (\<lambda>x. if x - r < n then heapBytes s (a + 40 + (x - r)) else heapBytes s x)"
      using bytes by blast
  qed (use live r in auto)
  show ?thesis
  proof (intro exI [of _ r] exI [of _ ?t] exI [of _ bs'] conjI)
    show "VMHeapResize (a + 40) sz s = Inr (r, ?t)" by (rule sec [OF run])
    show "if sz \<le> n then r = a + 40 \<and> bs' = bs \<and> ?t = s
     else if ys \<noteq> [] \<and> free (hd ys) \<and> sz \<le> n + 40 + len (hd ys)
     then r = a + 40 \<and> bs' = xs @ Block a (n + (40 + len (hd ys))) False # tl ys \<and> heapBytes ?t = heapBytes s
     else case alloc_blocks (align16 sz) bs of
       None \<Rightarrow> r = 0 \<and> bs' = bs \<and> ?t = s
     | Some (b, new) \<Rightarrow> r = b + 40 \<and> r \<noteq> 0 \<and> bs' = free_blocks a new \<and>
         heapBytes ?t = (\<lambda>x. if x - r < n then heapBytes s (a + 40 + (x - r)) else heapBytes s x)"
      using what by (auto split: option.splits)
    show "r \<noteq> 0 \<longrightarrow> (\<exists>k. sz \<le> k \<and> n \<le> k \<and> live bs' = insert (r - 40, k) (live bs - {(a, n)})) \<and>
       (\<forall>i < n. heapBytes ?t (r + i) = heapBytes s (a + 40 + i)) \<and>
       (\<forall>(b, m) \<in> live bs - {(a, n)}. \<forall>i < m. heapBytes ?t (b + 40 + i) = heapBytes s (b + 40 + i))"
      using live contents others by auto
  qed (use inv' in simp_all)
qed

text \<open>A heap with two live blocks, of 64 and 32 bytes, in front of the free rest.\<close>

definition two_block_heap :: heap where
  "two_block_heap = small_heap\<lparr>heapHeaders :=
     (\<lambda>_. \<lparr>blockMagic = kVMHeapBlockHeaderMagic, nextBlock = 0xFFFFFFFFC0000068, previousBlock = 0, blockSize = 64, isFree = False\<rparr>)
       (0xFFFFFFFFC0000068 := \<lparr>blockMagic = kVMHeapBlockHeaderMagic, nextBlock = 0xFFFFFFFFC00000B0,
          previousBlock = kVMKernelHeapStart, blockSize = 32, isFree = False\<rparr>,
        0xFFFFFFFFC00000B0 := \<lparr>blockMagic = kVMHeapBlockHeaderMagic, nextBlock = 0,
          previousBlock = 0xFFFFFFFFC0000068, blockSize = 0x3FFF28, isFree = True\<rparr>),
     heapBytes := (\<lambda>x. ucast x)\<rparr>"

text \<open>The same heap with the first block live.\<close>

lemma VMHeapResize_correct_witness:
  "\<exists>t. VMHeapResize 0xFFFFFFFFC0000028 200 two_block_heap = Inr (0xFFFFFFFFC00000D8, t) \<and>
     heap_inv t [Block kVMKernelHeapStart 64 True, Block 0xFFFFFFFFC0000068 32 False,
       Block 0xFFFFFFFFC00000B0 208 False, Block 0xFFFFFFFFC00001A8 0x3FFE30 True] \<and>
     heapBytes t 0xFFFFFFFFC00000D8 = 0x28 \<and> heapBytes t 0xFFFFFFFFC0000090 = 0x90"
proof -
  let ?bs = "[Block kVMKernelHeapStart 64 False, Block 0xFFFFFFFFC0000068 32 False, Block 0xFFFFFFFFC00000B0 0x3FFF28 True]"
  have "heap_inv two_block_heap ?bs"
    by (simp add: heap_inv_def heap_blocks_def heap_rep_def two_block_heap_def small_heap_def)
  from VMHeapResize_correct [OF this, of "[]" kVMKernelHeapStart 64 "tl ?bs" 200] show ?thesis
    by (auto simp: take_block_def two_block_heap_def)
qed

text \<open>The rounding of the request is not checked: a request within fifteen bytes of the end of the
  64-bit range wraps to a size of zero, and the heap hands out a block of no bytes for it instead of
  null.\<close>

theorem VMHeapAllocate_wraps:
  assumes "heap_inv s (b # bs)" "free b" "len b > 56" "sz > - 16"
  shows "\<exists>t bs'. VMHeapAllocate sz s = Inr (addr b + 40, t) \<and> heap_inv t bs' \<and> (addr b, 0) \<in> live bs'"
proof -
  have "unat (- 16 :: UInt64) < unat sz" using assms(4) by (simp add: word_less_nat_alt)
  then have "unat sz + 15 \<ge> 2 ^ 64" by simp
  then have "(unat sz + 15) mod 2 ^ 64 = (unat sz + 15 - 2 ^ 64) mod 2 ^ 64" by (rule le_mod_geq)
  moreover have small: "unat sz + 15 - 2 ^ 64 < 16" using unsigned_less [of sz, where ?'a = nat] by simp
  ultimately have "unat (sz + 15) < 16" by (simp add: unat_word_ariths)
  then have "sz + 15 < 16" by (simp add: word_less_nat_alt)
  then have "sz + 15 = take_bit 4 (sz + 15)" by (simp add: take_bit_eq_mod mod_word_less)
  moreover have "take_bit 4 x AND NOT 15 = 0" for x :: UInt64
  proof -
    have m: "(15 :: UInt64) = mask 4" by (simp add: mask_eq_exp_minus_1)
    show ?thesis unfolding m by (rule bit_word_eqI) (auto simp: bit_simps)
  qed
  ultimately have zero: "align16 sz = 0" by metis
  have "sz \<noteq> 0" using assms(4) by (metis word_not_simps(1))
  from Allocate_effect [OF assms(1) this] zero assms(2) obtain st where
    "VMHeapAllocate sz s = Inr (addr b + 40, s\<lparr>heapHeaders := st\<rparr>)"
    "heap_inv (s\<lparr>heapHeaders := st\<rparr>) (take_block 0 b @ bs)" by auto
  moreover have "(addr b, 0) \<in> live (take_block 0 b @ bs)" using assms(3) by (simp add: take_block_def)
  ultimately show ?thesis by blast
qed

lemma VMHeapAllocate_wraps_witness:
  "\<exists>t bs'. VMHeapAllocate 0xFFFFFFFFFFFFFFF8 small_heap = Inr (0xFFFFFFFFC0000028, t) \<and>
     (kVMKernelHeapStart, 0) \<in> live bs' \<and> heap_inv t bs'"
  using VMHeapAllocate_wraps [OF small_heap_inv, of "0xFFFFFFFFFFFFFFF8"] by auto

text \<open>Initialising the heap either panics for lack of memory or leaves one free block that spans
  the four megabytes less its header, with the heap's pages mapped writable in the kernel's tables
  when a frame is left over.\<close>

theorem VMHeapInitialize_correct:
  assumes "vmm_ready s (gVMKernelPML4 s)" "lock_free (sVMHeapLock s)"
  shows "case VMHeapInitialize s of
      Inl e \<Rightarrow> e = Panic ''OOM during heap init''
    | Inr t \<Rightarrow> heap_inv t [initial_block] \<and> vmm_ready t (gVMKernelPML4 t) \<and>
        (free_frames t \<noteq> {} \<longrightarrow> heap_mapped t kVMHeapSizePages)"
  by (rule HeapInitialize_effect [OF assms])

lemma VMHeapInitialize_correct_witness:
  "case VMHeapInitialize small_heap of Inl e \<Rightarrow> e = Panic ''OOM during heap init'' | Inr t \<Rightarrow> heap_inv t [initial_block]"
proof -
  have "free_frames small_heap = free_frames small_vmm" "mem small_heap = mem small_vmm"
    by (simp_all add: free_frames_def small_heap_def small_vmm_def)
  then have "vmm_ready small_heap (gVMKernelPML4 small_heap)"
    using small_vmm_ready
    by (simp add: vmm_ready_def address_space_ok_def pmm_inv_def used_frames_def)
      (simp add: small_heap_def small_vmm_def)
  moreover have "lock_free (sVMHeapLock small_heap)" by (simp add: small_heap_def)
  ultimately show ?thesis using VMHeapInitialize_correct [of small_heap] by (simp split: sum.splits)
qed

end
