(* ===== verification/Strings.thy ===== *)
theory Strings
  imports Prelude
begin

text \<open>
  The string routines of the kernel, \<^verbatim>\<open>kernel/src/lib/String.c\<close>. A \<^verbatim>\<open>char*\<close> is the list of bytes from
  where it points to the end of its object, so that an increment is a tail and a read past the
  object is a fault.
\<close>

unbundle bit_operations_syntax

section \<open>C strings\<close>

text \<open>The object starts with the bytes \<open>s\<close> and their terminator.\<close>

definition c_string :: "UInt8 list \<Rightarrow> UInt8 list \<Rightarrow> bool" where
  "c_string buf s \<longleftrightarrow> 0 \<notin> set s \<and> (\<exists>rest. buf = s @ 0 # rest)"

lemma c_string_Nil [simp]: "c_string buf [] \<longleftrightarrow> (\<exists>rest. buf = 0 # rest)"
  by (simp add: c_string_def)

lemma c_string_Cons [simp]: "c_string buf (c # s) \<longleftrightarrow> c \<noteq> 0 \<and> (\<exists>rest. buf = c # rest \<and> c_string rest s)"
  by (auto simp: c_string_def)

lemma c_string_buffer [simp]: "0 \<notin> set s \<Longrightarrow> c_string (s @ 0 # rest) s"
  by (auto simp: c_string_def)

lemma c_string_unique: "c_string buf s \<Longrightarrow> c_string buf t \<Longrightarrow> s = t"
proof (induction s arbitrary: buf t)
  case Nil
  then show ?case by (cases t) auto
next
  case (Cons c s)
  then show ?case by (cases t) auto
qed

text \<open>The bytes of a string literal.\<close>

definition bytes :: "string \<Rightarrow> UInt8 list" where
  "bytes s = map of_char s"

definition literal :: "string \<Rightarrow> UInt8 list" where
  "literal s = bytes s @ [0]"

section \<open>Routines\<close>

fun StringCompare :: "UInt8 list \<Rightarrow> UInt8 list \<Rightarrow> fault + Int32" where
  "StringCompare (a # as) (b # bs) =
     (if a \<noteq> 0 \<and> a = b then StringCompare as bs else Inr (ucast a - ucast b))"
| "StringCompare _ _ = Inl OutOfBounds"

function StringCompareWithLimit :: "UInt8 list \<Rightarrow> UInt8 list \<Rightarrow> UInt64 \<Rightarrow> fault + Int32" where
  "StringCompareWithLimit first second limit =
     (if limit > 0
      then case (first, second) of
             (a # as, b # bs) \<Rightarrow>
               if a \<noteq> b then Inr (ucast a - ucast b)
               else if a = 0 then Inr 0
               else StringCompareWithLimit as bs (limit - 1)
           | _ \<Rightarrow> Inl OutOfBounds
      else Inr 0)"
  by pat_completeness auto
termination
  by (relation "measure (\<lambda>(first, second, limit). length first)") auto

declare StringCompareWithLimit.simps [simp del]

text \<open>The destination comes back as it is after the copy; the result pointer is the destination.\<close>

fun StringCopy :: "UInt8 list \<Rightarrow> UInt8 list \<Rightarrow> fault + UInt8 list" where
  "StringCopy destination [] = Inl OutOfBounds"
| "StringCopy [] (c # cs) = Inl OutOfBounds"
| "StringCopy (d # ds) (c # cs) =
     (if c \<noteq> 0 then bindE (StringCopy ds cs) (\<lambda>r. Inr (c # r)) else Inr (0 # ds))"

fun sStringFill :: "UInt8 list \<Rightarrow> nat \<Rightarrow> fault + UInt8 list" where
  "sStringFill destination 0 = Inr destination"
| "sStringFill [] (Suc n) = Inl OutOfBounds"
| "sStringFill (d # ds) (Suc n) = bindE (sStringFill ds n) (\<lambda>r. Inr (0 # r))"

function StringCopyWithLimit :: "UInt8 list \<Rightarrow> UInt8 list \<Rightarrow> UInt64 \<Rightarrow> fault + UInt8 list" where
  "StringCopyWithLimit destination source limit =
     (case source of
        [] \<Rightarrow> Inl OutOfBounds
      | c # cs \<Rightarrow>
          if c \<noteq> 0 \<and> limit > 0
          then (case destination of
                  [] \<Rightarrow> Inl OutOfBounds
                | d # ds \<Rightarrow> bindE (StringCopyWithLimit ds cs (limit - 1)) (\<lambda>r. Inr (c # r)))
          else sStringFill destination (unat limit))"
  by pat_completeness auto
termination
  by (relation "measure (\<lambda>(destination, source, limit). length source)") auto

declare StringCopyWithLimit.simps [simp del]

fun StringGetLength :: "UInt8 list \<Rightarrow> fault + UInt64" where
  "StringGetLength [] = Inl OutOfBounds"
| "StringGetLength (c # cs) = (if c \<noteq> 0 then bindE (StringGetLength cs) (\<lambda>n. Inr (n + 1)) else Inr 0)"

text \<open>Pointers into the string are offsets from its start; \<open>None\<close> is the null pointer.\<close>

fun sStringFindLast :: "UInt8 list \<Rightarrow> UInt8 \<Rightarrow> UInt64 \<Rightarrow> UInt64 option \<Rightarrow> fault + UInt64 option" where
  "sStringFindLast [] separator i lastSeparator = Inl OutOfBounds"
| "sStringFindLast (c # cs) separator i lastSeparator =
     (let found = (if c = separator then Some i else lastSeparator)
      in if c \<noteq> 0 then sStringFindLast cs separator (i + 1) found else Inr found)"

definition StringFindLastOccurrenceOfCharacter :: "UInt8 list \<Rightarrow> UInt8 \<Rightarrow> fault + UInt64 option" where
  "StringFindLastOccurrenceOfCharacter string separator = sStringFindLast string separator 0 None"

section \<open>What they compute\<close>

text \<open>The order the comparison decides: lexicographic on unsigned bytes.\<close>

fun byte_less :: "UInt8 list \<Rightarrow> UInt8 list \<Rightarrow> bool" where
  "byte_less [] [] = False"
| "byte_less [] (b # bs) = True"
| "byte_less (a # as) [] = False"
| "byte_less (a # as) (b # bs) = (a < b \<or> a = b \<and> byte_less as bs)"

lemma byte_difference:
  fixes a b :: UInt8
  defines "d \<equiv> ucast a - ucast b :: Int32"
  shows "d = 0 \<longleftrightarrow> a = b" "d <s 0 \<longleftrightarrow> a < b"
proof -
  have u: "unat (ucast x :: Int32) = unat x" "unat x < 256" for x :: UInt8
    using unsigned_less [of x, where ?'a = nat] by (simp_all add: unsigned_ucast_eq take_bit_nat_eq_self)
  show "d = 0 \<longleftrightarrow> a = b"
    using u by (metis d_def eq_iff_diff_eq_0 word_unat_eq_iff)
  have "sint d = int (unat a) - int (unat b)"
  proof -
    have s: "sint (ucast x :: Int32) = int (unat x)" for x :: UInt8
    proof -
      have "int (unat x) < int 256" using u(2) [of x] by (simp only: of_nat_less_iff)
      then have "int (unat x) < 2 ^ 31" by (rule less_le_trans) simp
      then have "signed_take_bit 31 (int (unat x)) = int (unat x)"
        by (intro signed_take_bit_int_eq_self) (rule order_trans [of _ 0], simp_all)
      moreover have "uint (ucast x :: Int32) = int (unat x)" by (simp only: uint_nat u(1))
      moreover have "sint (ucast x :: Int32) = signed_take_bit 31 (uint (ucast x :: Int32))"
        using sint_uint [of "ucast x :: Int32"] by simp
      ultimately show ?thesis by (simp only:)
    qed
    have "- (2 ^ 31) \<le> int m - int n \<and> int m - int n < 2 ^ 31" if "m < 256" "n < 256" for m n :: nat
      using that by simp
    from this [OF u(2) u(2)]
    have "- (2 ^ 31) \<le> int (unat a) - int (unat b)" "int (unat a) - int (unat b) < 2 ^ 31" by blast+
    then show ?thesis unfolding d_def
      by (simp add: sint_word_ariths s signed_take_bit_int_eq_self)
  qed
  then show "d <s 0 \<longleftrightarrow> a < b" by (simp add: word_sless_alt word_less_def)
qed

lemma StringCompare_effect:
  "c_string as s \<Longrightarrow> c_string bs t \<Longrightarrow>
   \<exists>d. StringCompare as bs = Inr d \<and> (d = 0 \<longleftrightarrow> s = t) \<and> (d <s 0 \<longleftrightarrow> byte_less s t)"
proof (induction s arbitrary: as bs t)
  case Nil
  then show ?case using byte_difference [of 0] by (cases t) (auto simp: word_gt_0)
next
  case (Cons a s)
  then obtain as' where as: "as = a # as'" "c_string as' s" "a \<noteq> 0" by auto
  show ?case
  proof (cases t)
    case Nil
    with as Cons.prems show ?thesis using byte_difference [of a 0] by auto
  next
    case (Cons b t')
    then obtain bs' where bs: "bs = b # bs'" "c_string bs' t'" "b \<noteq> 0" using Cons.prems by auto
    show ?thesis
    proof (cases "a = b")
      case True
      with Cons.IH [OF as(2) bs(2)] as bs \<open>t = b # t'\<close> show ?thesis by simp
    next
      case False
      with as bs \<open>t = b # t'\<close> show ?thesis using byte_difference [of a b] by simp
    qed
  qed
qed

lemma StringCompare_eq:
  "c_string as s \<Longrightarrow> c_string bs t \<Longrightarrow> StringCompare as bs = Inr 0 \<longleftrightarrow> s = t"
  using StringCompare_effect by (metis sum.inject(2))

lemma byte_same: "(ucast a :: Int32) = ucast b \<longleftrightarrow> a = b" for a b :: UInt8
  using byte_difference(1) [of a b] by simp

lemma StringCompareWithLimit_effect:
  "c_string as s \<Longrightarrow> c_string bs t \<Longrightarrow>
   \<exists>d. StringCompareWithLimit as bs n = Inr d \<and> (d = 0 \<longleftrightarrow> take (unat n) s = take (unat n) t) \<and>
     (d <s 0 \<longleftrightarrow> byte_less (take (unat n) s) (take (unat n) t))"
proof (induction s arbitrary: as bs t n)
  case Nil
  show ?case
  proof (cases "n = 0")
    case False
    then have n: "unat n = Suc (unat (n - 1))" by (simp add: unat_minus_one unat_gt_0)
    from Nil False show ?thesis using byte_difference [of 0] unfolding n
      by (subst StringCompareWithLimit.simps) (cases t; auto simp: word_gt_0)
  qed (simp add: StringCompareWithLimit.simps)
next
  case (Cons a s)
  then obtain as' where as: "as = a # as'" "c_string as' s" "a \<noteq> 0" by auto
  show ?case
  proof (cases "n = 0")
    case False
    then have n: "unat n = Suc (unat (n - 1))" by (simp add: unat_minus_one unat_gt_0)
    show ?thesis
    proof (cases t)
      case Nil
      with as Cons.prems False show ?thesis using byte_difference [of a 0] unfolding n
        by (subst StringCompareWithLimit.simps) (auto simp: word_gt_0)
    next
      case (Cons b t')
      then obtain bs' where bs: "bs = b # bs'" "c_string bs' t'" "b \<noteq> 0" using Cons.prems by auto
      show ?thesis
      proof (cases "a = b")
        case True
        with Cons.IH [OF as(2) bs(2), of "n - 1"] as bs \<open>t = b # t'\<close> False show ?thesis
          unfolding n by (subst StringCompareWithLimit.simps) (auto simp: word_gt_0)
      next
        case False
        with as bs \<open>t = b # t'\<close> \<open>n \<noteq> 0\<close> show ?thesis using byte_difference [of a b]
          unfolding n by (subst StringCompareWithLimit.simps) (simp add: word_gt_0)
      qed
    qed
  qed (simp add: StringCompareWithLimit.simps)
qed

lemma StringCopy_effect:
  "c_string src s \<Longrightarrow> length s < length dst \<Longrightarrow>
   StringCopy dst src = Inr (s @ 0 # drop (Suc (length s)) dst)"
proof (induction s arbitrary: src dst)
  case Nil
  then show ?case by (cases dst) auto
next
  case (Cons c s)
  then show ?case by (cases dst) auto
qed

lemma StringCopy_overflow: "c_string src s \<Longrightarrow> length dst \<le> length s \<Longrightarrow> StringCopy dst src = Inl OutOfBounds"
proof (induction s arbitrary: src dst)
  case Nil
  then show ?case by auto
next
  case (Cons c s)
  then show ?case by (cases dst) auto
qed

lemma sStringFill_effect: "n \<le> length dst \<Longrightarrow> sStringFill dst n = Inr (replicate n 0 @ drop n dst)"
  by (induction dst n rule: sStringFill.induct) auto

lemma StringCopyWithLimit_effect:
  "c_string src s \<Longrightarrow> unat limit \<le> length dst \<Longrightarrow>
   StringCopyWithLimit dst src limit =
     Inr (take (unat limit) s @ replicate (unat limit - length s) 0 @ drop (unat limit) dst)"
proof (induction s arbitrary: src dst limit)
  case Nil
  then show ?case by (subst StringCopyWithLimit.simps) (auto simp: sStringFill_effect)
next
  case (Cons c s)
  show ?case
  proof (cases "limit > 0")
    case False
    then have "limit = 0" by (simp add: word_gt_0)
    with Cons.prems show ?thesis by (subst StringCopyWithLimit.simps) auto
  next
    case True
    then have "limit \<noteq> 0" by (simp add: word_gt_0)
    then have "unat (limit - 1) = unat limit - 1" "unat limit \<noteq> 0"
      by (simp_all add: unat_minus_one unat_eq_zero)
    then obtain n where n: "unat limit = Suc n" "unat (limit - 1) = n" by (cases "unat limit") auto
    then obtain d ds where d: "dst = d # ds" "n \<le> length ds" using Cons.prems(2) by (cases dst) auto
    obtain src' where src: "src = c # src'" "c_string src' s" "c \<noteq> 0" using Cons.prems(1) by auto
    have "StringCopyWithLimit dst src limit = bindE (StringCopyWithLimit ds src' (limit - 1)) (\<lambda>r. Inr (c # r))"
      by (subst StringCopyWithLimit.simps) (simp only: src(1,3) d(1) True list.case not_False_eq_True simp_thms if_True)
    moreover have "unat (limit - 1) \<le> length ds" unfolding n(2) by (rule d(2))
    ultimately show ?thesis
      unfolding Cons.IH [OF src(2) \<open>unat (limit - 1) \<le> length ds\<close>] n by (simp add: d(1))
  qed
qed

lemma StringGetLength_effect: "c_string buf s \<Longrightarrow> StringGetLength buf = Inr (of_nat (length s))"
  by (induction s arbitrary: buf) (auto simp: add.commute)

text \<open>The offset found is the last one, or there is none.\<close>

lemma sStringFindLast_effect:
  "c_string buf s \<Longrightarrow> sep \<noteq> 0 \<Longrightarrow> \<exists>r. sStringFindLast buf sep i found = Inr r \<and>
     (if sep \<in> set s then \<exists>k < length s. r = Some (i + of_nat k) \<and> s ! k = sep \<and> (\<forall>j < length s. k < j \<longrightarrow> s ! j \<noteq> sep)
      else r = found)"
proof (induction s arbitrary: buf i found)
  case Nil
  then show ?case by auto
next
  case (Cons c s)
  then obtain buf' where buf: "buf = c # buf'" "c_string buf' s" "c \<noteq> 0" by auto
  from Cons.IH [OF buf(2) Cons.prems(2), of "i + 1" "if c = sep then Some i else found"] obtain r where
    r: "sStringFindLast buf' sep (i + 1) (if c = sep then Some i else found) = Inr r"
      "if sep \<in> set s then \<exists>k < length s. r = Some (i + 1 + of_nat k) \<and> s ! k = sep \<and> (\<forall>j < length s. k < j \<longrightarrow> s ! j \<noteq> sep)
       else r = (if c = sep then Some i else found)"
    by blast
  have run: "sStringFindLast buf sep i found = Inr r" using buf r(1) by (simp add: Let_def)
  show ?case
  proof (cases "sep \<in> set s")
    case True
    with r(2) obtain k where k: "k < length s" "r = Some (i + 1 + of_nat k)" "s ! k = sep"
      "\<forall>j < length s. k < j \<longrightarrow> s ! j \<noteq> sep" by auto
    have "r = Some (i + of_nat (Suc k))" using k(2) by (simp add: ac_simps)
    moreover have "\<forall>j < length (c # s). Suc k < j \<longrightarrow> (c # s) ! j \<noteq> sep"
      using k(4) by (auto simp: nth_Cons split: nat.splits)
    ultimately show ?thesis using run True k(1,3) by (intro exI [of _ r]) (auto intro!: exI [of _ "Suc k"])
  next
    case False
    then have "\<forall>j < length (c # s). 0 < j \<longrightarrow> (c # s) ! j \<noteq> sep"
      by (auto simp: nth_Cons in_set_conv_nth split: nat.splits)
    with run r(2) False show ?thesis by (intro exI [of _ r]) (auto intro!: exI [of _ "0::nat"])
  qed
qed

section \<open>Properties\<close>

text \<open>C27: Comparing two terminated strings returns zero exactly when they are equal and a negative
  number exactly when the first precedes the second in the lexicographic order of unsigned bytes; the
  limited comparison decides the same order on the first \<open>limit\<close> bytes of both.\<close>

theorem StringCompare_correct:
  assumes "c_string as s" "c_string bs t"
  shows "(\<exists>d. StringCompare as bs = Inr d \<and> (d = 0 \<longleftrightarrow> s = t) \<and> (d <s 0 \<longleftrightarrow> byte_less s t)) \<and>
    (\<exists>d. StringCompareWithLimit as bs limit = Inr d \<and> (d = 0 \<longleftrightarrow> take (unat limit) s = take (unat limit) t) \<and>
       (d <s 0 \<longleftrightarrow> byte_less (take (unat limit) s) (take (unat limit) t)))"
  using StringCompare_effect [OF assms] StringCompareWithLimit_effect [OF assms] by blast

lemma StringCompare_correct_witness:
  "(\<exists>d. StringCompare [0x61, 0x62, 0] [0x61, 0xC3, 0, 7] = Inr d \<and> d <s 0) \<and>
   (\<exists>d. StringCompareWithLimit [0x61, 0x62, 0] [0x61, 0xC3, 0, 7] 2 = Inr d \<and> d <s 0) \<and>
   StringCompareWithLimit [0x61, 0x62, 0] [0x61, 0xC3, 0, 7] 1 = Inr 0"
  using StringCompare_correct [of "[0x61, 0x62, 0]" "[0x61, 0x62]" "[0x61, 0xC3, 0, 7]" "[0x61, 0xC3]" 2]
    StringCompare_correct [of "[0x61, 0x62, 0]" "[0x61, 0x62]" "[0x61, 0xC3, 0, 7]" "[0x61, 0xC3]" 1] by auto

text \<open>Copying a terminated string writes it with its terminator and leaves the rest of the
  destination alone when it fits, and runs out of the destination exactly when it does not; the
  bounded copy of at most \<open>limit\<close> bytes truncates or pads with zeros and never leaves those bytes.\<close>

theorem StringCopy_correct:
  assumes "c_string src s"
  shows "(StringCopy dst src = (if length s < length dst then Inr (s @ 0 # drop (Suc (length s)) dst)
           else Inl OutOfBounds)) \<and>
    (unat limit \<le> length dst \<longrightarrow> StringCopyWithLimit dst src limit =
       Inr (take (unat limit) s @ replicate (unat limit - length s) 0 @ drop (unat limit) dst))"
  using StringCopy_effect [OF assms] StringCopy_overflow [OF assms] StringCopyWithLimit_effect [OF assms]
  by (simp add: not_less)

lemma StringCopy_correct_witness:
  "StringCopy [1, 2] [7, 8, 0] = Inl OutOfBounds \<and> StringCopyWithLimit [1, 2, 3] [7, 0] 2 = Inr [7, 0, 3]"
  using StringCopy_correct [of "[7, 8, 0]" "[7, 8]" "[1, 2]" 0] StringCopy_correct [of "[7, 0]" "[7]" "[1, 2, 3]" 2]
  by simp

end
