(* ===== verification/Devices.thy ===== *)
theory Devices
  imports KernelHeap Strings
begin

text \<open>
  The devices of \<^verbatim>\<open>kernel/src/IO\<close> below the console: port access (\<^verbatim>\<open>IO.h\<close>), the serial port
  (\<^verbatim>\<open>IOSerial.c\<close>), the interval timer's set-up (\<^verbatim>\<open>IOTimer.c\<close>) and the keyboard with its ring
  buffer (\<^verbatim>\<open>IOKeyboard.c\<close>). The ring is shown to be a queue between the interrupt handler and the
  reader.
\<close>

unbundle bit_operations_syntax

section \<open>State\<close>

abbreviation kIOKeyboardBufferSize :: nat where
  "kIOKeyboardBufferSize \<equiv> 256"

record IOKeyboardController =
  keyboardLock :: OSSpinlock
  keyboardBuffer :: "UInt8 list"
  keyboardHead :: UInt16
  keyboardTail :: UInt16

text \<open>
  \<open>portInput port n\<close> is what the hardware answers to the \<open>n\<close>-th read of a port; \<open>portReads\<close> counts
  the reads done. Nothing is assumed about it except where a property says so.
\<close>

record devices = heap +
  portInput :: "UInt16 \<Rightarrow> nat \<Rightarrow> UInt8"
  portReads :: "UInt16 \<Rightarrow> nat"
  sIOTimerTicks :: UInt64
  sIOKeyboardIsShiftPressed :: bool
  gIOKeyboardController :: IOKeyboardController

section \<open>Ports\<close>

definition IOPortWrite8 :: "UInt16 \<Rightarrow> UInt8 \<Rightarrow> 'a machine_scheme \<Rightarrow> 'a machine_scheme" where
  "IOPortWrite8 port val s = s\<lparr>portWrites := portWrites s @ [(port, val)]\<rparr>"

definition IOPortRead8 :: "UInt16 \<Rightarrow> 'a devices_scheme \<Rightarrow> UInt8 \<times> 'a devices_scheme" where
  "IOPortRead8 port s =
     (portInput s port (portReads s port), s\<lparr>portReads := (portReads s)(port := portReads s port + 1)\<rparr>)"

definition IOSynchronizeBus :: "'a machine_scheme \<Rightarrow> 'a machine_scheme" where
  "IOSynchronizeBus s = IOPortWrite8 0x80 0 s"

definition IOPortWrite8WithWait :: "UInt16 \<Rightarrow> UInt8 \<Rightarrow> 'a machine_scheme \<Rightarrow> 'a machine_scheme" where
  "IOPortWrite8WithWait port val s = IOSynchronizeBus (IOPortWrite8 port val s)"

section \<open>Serial port\<close>

abbreviation kIOCom1Port :: UInt16 where
  "kIOCom1Port \<equiv> 0x3F8"

definition IOSerialInit :: "'a machine_scheme \<Rightarrow> 'a machine_scheme" where
  "IOSerialInit s =
     (let s = IOPortWrite8 (kIOCom1Port + 1) 0x00 s;
          s = IOPortWrite8 (kIOCom1Port + 3) 0x80 s;
          s = IOPortWrite8 (kIOCom1Port + 0) 0x03 s;
          s = IOPortWrite8 (kIOCom1Port + 1) 0x00 s;
          s = IOPortWrite8 (kIOCom1Port + 3) 0x03 s;
          s = IOPortWrite8 (kIOCom1Port + 2) 0xC7 s
      in IOPortWrite8 (kIOCom1Port + 4) 0x0B s)"

definition IOCheckIsTransmitEmpty :: "'a devices_scheme \<Rightarrow> UInt8 \<times> 'a devices_scheme" where
  "IOCheckIsTransmitEmpty s = (let (status, s) = IOPortRead8 (kIOCom1Port + 5) s in (status AND 0x20, s))"

text \<open>A loop that may never end is an option; \<open>None\<close> is the loop that does not return.\<close>

definition returns :: "(fault + 'a) option \<Rightarrow> fault + 'a" where
  "returns r = (case r of None \<Rightarrow> Inl Diverges | Some x \<Rightarrow> x)"

lemma returns_simps [simp]: "returns None = Inl Diverges" "returns (Some x) = x"
  by (simp_all add: returns_def)

partial_function (option) sIOSerialWaitTransmit :: "'a devices_scheme \<Rightarrow> 'a devices_scheme option" where
  "sIOSerialWaitTransmit s =
     (case IOCheckIsTransmitEmpty s of (status, s) \<Rightarrow> if status = 0 then sIOSerialWaitTransmit s else Some s)"

definition IOSerialWriteChar :: "UInt8 \<Rightarrow> 'a devices_scheme \<Rightarrow> fault + 'a devices_scheme" where
  "IOSerialWriteChar character s =
     (case sIOSerialWaitTransmit s of None \<Rightarrow> Inl Diverges
      | Some s \<Rightarrow> Inr (IOPortWrite8 kIOCom1Port character s))"

fun IOSerialWrite :: "UInt8 list \<Rightarrow> 'a devices_scheme \<Rightarrow> fault + 'a devices_scheme" where
  "IOSerialWrite [] s = Inl OutOfBounds"
| "IOSerialWrite (c # string) s =
     (if c \<noteq> 0 then bindE (IOSerialWriteChar c s) (IOSerialWrite string) else Inr s)"

section \<open>Timer\<close>

abbreviation kIOTimerPitBaseClock :: UInt32 where
  "kIOTimerPitBaseClock \<equiv> 1193180"

definition IOTimerInitialize :: "UInt32 \<Rightarrow> 'a devices_scheme \<Rightarrow> fault + 'a devices_scheme" where
  "IOTimerInitialize frequency s =
     (if frequency = 0 then Inl DivideError
      else let divisor = kIOTimerPitBaseClock div frequency;
               s = IOPortWrite8 0x43 0x36 s;
               s = IOPortWrite8 0x40 (ucast (divisor AND 0xFF)) s;
               s = IOPortWrite8 0x40 (ucast (drop_bit 8 divisor AND 0xFF)) s;
               (mask, s) = IOPortRead8 0x21 s;
               mask = mask AND NOT 1
           in Inr (IOPortWrite8 0x21 mask s))"

definition IOTimerGetTicks :: "'a devices_scheme \<Rightarrow> UInt64" where
  "IOTimerGetTicks s = sIOTimerTicks s"

section \<open>Keyboard\<close>

definition sIOKeyboardMap :: "UInt8 list" where
  "sIOKeyboardMap =
     [0, 27] @ bytes ''1234567890-='' @ [8, 9] @ bytes ''qwertyuiop[]'' @ [10, 0] @
     bytes ''asdfghjkl;'' @ [0x27, 0x60, 0, 0x5C] @ bytes ''zxcvbnm,./'' @ [0] @ bytes ''*'' @ [0] @
     bytes '' '' @ replicate 16 0 @ bytes ''-'' @ replicate 3 0 @ bytes ''+'' @ replicate 49 0"

definition sIOKeyboardMapShifted :: "UInt8 list" where
  "sIOKeyboardMapShifted =
     [0, 27] @ bytes ''!@#$%^&*()_+'' @ [8, 9] @ bytes ''QWERTYUIOP{}'' @ [10, 0] @
     bytes ''ASDFGHJKL:'' @ [0x22, 0x7E, 0, 0x7C] @ bytes ''ZXCVBNM<>?'' @ [0] @ bytes ''*'' @ [0] @
     bytes '' '' @ replicate 16 0 @ bytes ''-'' @ replicate 3 0 @ bytes ''+'' @ replicate 49 0"

lemma length_maps: "length sIOKeyboardMap = 128" "length sIOKeyboardMapShifted = 128"
  by (simp_all add: sIOKeyboardMap_def sIOKeyboardMapShifted_def bytes_def)

definition IOKeyboardInterruptsHandler :: "'a devices_scheme \<Rightarrow> fault + 'a devices_scheme" where
  "IOKeyboardInterruptsHandler s =
     bindE (OSSpinlockLock (keyboardLock (gIOKeyboardController s))) (\<lambda>lock.
       let k = (gIOKeyboardController s)\<lparr>keyboardLock := lock\<rparr>;
           nextHead = (keyboardHead k + 1) mod of_nat kIOKeyboardBufferSize;
           (scancode, s) = IOPortRead8 0x60 s;
           shift = sIOKeyboardIsShiftPressed s
       in bindE
            (if scancode < 0x80
             then bindE (array_get (if shift then sIOKeyboardMapShifted else sIOKeyboardMap) (unat scancode)) (\<lambda>ascii.
                    if ascii \<noteq> 0 \<and> nextHead \<noteq> keyboardTail k
                    then bindE (array_set (keyboardBuffer k) (unat (keyboardHead k)) ascii) (\<lambda>buffer.
                           Inr (shift, k\<lparr>keyboardBuffer := buffer, keyboardHead := nextHead\<rparr>))
                    else Inr (if scancode = 0x2A then True else shift, k))
             else Inr (if scancode = 0xAA then False else shift, k))
            (\<lambda>(shift, k). Inr (s\<lparr>sIOKeyboardIsShiftPressed := shift,
               gIOKeyboardController := k\<lparr>keyboardLock := OSSpinlockUnlock (keyboardLock k)\<rparr>\<rparr>)))"

abbreviation with_keyboard_lock where
  "with_keyboard_lock \<equiv> with_spinlock (\<lambda>s. keyboardLock (gIOKeyboardController s))
     (\<lambda>l s. s\<lparr>gIOKeyboardController := (gIOKeyboardController s)\<lparr>keyboardLock := l\<rparr>\<rparr>)"

interpretation keyboard_lock: lock_field "\<lambda>s. keyboardLock (gIOKeyboardController s)"
  "\<lambda>l s. s\<lparr>gIOKeyboardController := (gIOKeyboardController s)\<lparr>keyboardLock := l\<rparr>\<rparr>"
  by unfold_locales simp_all

text \<open>One turn of the loop: the oldest character, or none.\<close>

definition sIOKeyboardTake :: "'a devices_scheme \<Rightarrow> fault + UInt8 option \<times> 'a devices_scheme" where
  "sIOKeyboardTake = with_keyboard_lock (\<lambda>s.
     let k = gIOKeyboardController s
     in if keyboardHead k \<noteq> keyboardTail k
        then bindE (array_get (keyboardBuffer k) (unat (keyboardTail k))) (\<lambda>ascii.
               Inr (Some ascii, s\<lparr>gIOKeyboardController :=
                 k\<lparr>keyboardTail := (keyboardTail k + 1) mod of_nat kIOKeyboardBufferSize\<rparr>\<rparr>))
        else Inr (None, s))"

text \<open>
  \<open>yield\<close> is \<^verbatim>\<open>OSSchedulerYield(1)\<close> together with all that runs until this task is scheduled
  again, interrupts included; \<^verbatim>\<open>sti\<close> precedes it.
\<close>

partial_function (option) sIOKeyboardWait ::
  "('a devices_scheme \<Rightarrow> fault + 'a devices_scheme) \<Rightarrow> 'a devices_scheme \<Rightarrow>
   (fault + UInt8 \<times> 'a devices_scheme) option" where
  "sIOKeyboardWait yield s =
     (case sIOKeyboardTake s of
        Inl e \<Rightarrow> Some (Inl e)
      | Inr (Some ascii, s) \<Rightarrow> Some (Inr (ascii, s))
      | Inr (None, s) \<Rightarrow>
          (case yield (s\<lparr>interruptFlag := True\<rparr>) of
             Inl e \<Rightarrow> Some (Inl e)
           | Inr s \<Rightarrow> sIOKeyboardWait yield s))"

definition IOKeyboardGetCharacter ::
  "('a devices_scheme \<Rightarrow> fault + 'a devices_scheme) \<Rightarrow> 'a devices_scheme \<Rightarrow> fault + UInt8 \<times> 'a devices_scheme" where
  "IOKeyboardGetCharacter yield s = returns (sIOKeyboardWait yield s)"

section \<open>The ring as a queue\<close>

definition keyboard_queue :: "IOKeyboardController \<Rightarrow> UInt8 list" where
  "keyboard_queue k = map (\<lambda>i. keyboardBuffer k ! ((unat (keyboardTail k) + i) mod 256))
     [0..<(unat (keyboardHead k) + 256 - unat (keyboardTail k)) mod 256]"

definition keyboard_ok :: "IOKeyboardController \<Rightarrow> bool" where
  "keyboard_ok k \<longleftrightarrow> length (keyboardBuffer k) = 256 \<and> unat (keyboardHead k) < 256 \<and> unat (keyboardTail k) < 256"

abbreviation ring_length :: "nat \<Rightarrow> nat \<Rightarrow> nat" where
  "ring_length h t \<equiv> (h + 256 - t) mod 256"

lemma next_index: "unat (x :: UInt16) < 256 \<Longrightarrow> unat ((x + 1) mod 256) = (unat x + 1) mod 256"
  by (simp add: unat_mod unat_word_ariths)

lemma ring_full: "h < 256 \<Longrightarrow> t < 256 \<Longrightarrow> (h + 1) mod 256 = t \<longleftrightarrow> ring_length h t = 255"
  by (cases "h < t") (auto simp: mod_if)

lemma ring_push: "h < 256 \<Longrightarrow> t < 256 \<Longrightarrow> (h + 1) mod 256 \<noteq> t \<Longrightarrow>
    ring_length ((h + 1) mod 256) t = Suc (ring_length h t) \<and> (t + ring_length h t) mod 256 = h"
  by (cases "h < t"; cases "h = 255") (auto simp: mod_if)

lemma ring_pop: "h < 256 \<Longrightarrow> t < 256 \<Longrightarrow> h \<noteq> t \<Longrightarrow>
    ring_length h t = Suc (ring_length h ((t + 1) mod 256))"
  by (cases "h < t"; cases "t = 255") (auto simp: mod_if)

lemma ring_apart:
  assumes "h < 256" "t < 256" "i < ring_length h t"
  shows "(t + i) mod 256 \<noteq> h"
proof
  assume h: "(t + i) mod 256 = h"
  have i: "i < 256" using assms(3) by (meson less_trans mod_less_divisor zero_less_numeral)
  have "ring_length h t = i"
  proof (cases "t + i < 256")
    case True
    then show ?thesis using h i by auto
  next
    case False
    then have "(t + i) mod 256 = t + i - 256" using assms(2) i by (simp add: le_mod_geq)
    then show ?thesis using h i False by auto
  qed
  with assms(3) show False by simp
qed

lemma length_keyboard_queue: "keyboard_ok k \<Longrightarrow> length (keyboard_queue k) < 256"
  by (simp add: keyboard_queue_def)

lemma keyboard_full:
  "keyboard_ok k \<Longrightarrow> (keyboardHead k + 1) mod 256 = keyboardTail k \<longleftrightarrow> length (keyboard_queue k) = 255"
  using ring_full [of "unat (keyboardHead k)" "unat (keyboardTail k)"] next_index [of "keyboardHead k"]
  by (auto simp: keyboard_ok_def keyboard_queue_def word_unat_eq_iff)

lemma keyboard_push:
  fixes c :: UInt8
  assumes "keyboard_ok k" "(keyboardHead k + 1) mod 256 \<noteq> keyboardTail k"
  defines "k' \<equiv> k\<lparr>keyboardBuffer := (keyboardBuffer k)[unat (keyboardHead k) := c],
    keyboardHead := (keyboardHead k + 1) mod 256\<rparr>"
  shows "keyboard_ok k' \<and> keyboard_queue k' = keyboard_queue k @ [c]"
proof -
  let ?h = "unat (keyboardHead k)" and ?t = "unat (keyboardTail k)"
  have b: "?h < 256" "?t < 256" "length (keyboardBuffer k) = 256" using assms(1) by (simp_all add: keyboard_ok_def)
  have "(?h + 1) mod 256 \<noteq> ?t" using assms(2) next_index [OF b(1)] by (metis word_unat_eq_iff)
  note push = ring_push [OF b(1,2) this]
  have "keyboardBuffer k' ! ((?t + i) mod 256) = keyboardBuffer k ! ((?t + i) mod 256)" if "i < ring_length ?h ?t" for i
  proof -
    have "(?t + i) mod 256 \<noteq> ?h" by (rule ring_apart [OF b(1,2) that])
    then show ?thesis by (simp add: k'_def)
  qed
  moreover have "keyboardBuffer k' ! ((?t + ring_length ?h ?t) mod 256) = c"
    using push b by (simp add: k'_def)
  ultimately have "keyboard_queue k' = keyboard_queue k @ [c]"
    using push next_index [OF b(1)] by (simp add: keyboard_queue_def k'_def)
  then show ?thesis using b next_index [OF b(1)] by (simp add: keyboard_ok_def k'_def)
qed

lemma keyboard_pop:
  assumes "keyboard_ok k" "keyboardHead k \<noteq> keyboardTail k"
  defines "k' \<equiv> k\<lparr>keyboardTail := (keyboardTail k + 1) mod 256\<rparr>"
  shows "keyboard_ok k' \<and> keyboard_queue k = keyboardBuffer k ! unat (keyboardTail k) # keyboard_queue k'"
proof -
  let ?h = "unat (keyboardHead k)" and ?t = "unat (keyboardTail k)"
  have b: "?h < 256" "?t < 256" "?h \<noteq> ?t" using assms(1,2) by (simp_all add: keyboard_ok_def word_unat_eq_iff)
  note pop = ring_pop [OF b]
  have "map f [0..<Suc n] = f 0 # map (f \<circ> Suc) [0..<n]" for f :: "nat \<Rightarrow> UInt8" and n
    by (simp add: map_upt_Suc del: upt_Suc)
  from this [of "\<lambda>i. keyboardBuffer k ! ((?t + i) mod 256)"]
  have "keyboard_queue k = keyboardBuffer k ! ?t #
      map (\<lambda>i. keyboardBuffer k ! ((?t + Suc i) mod 256)) [0..<ring_length ?h ((?t + 1) mod 256)]"
    unfolding keyboard_queue_def pop using b(2) by (simp add: comp_def)
  moreover have "(?t + Suc i) mod 256 = ((?t + 1) mod 256 + i) mod 256" for i by (simp add: mod_simps)
  ultimately have "keyboard_queue k = keyboardBuffer k ! ?t # keyboard_queue k'"
    using next_index [OF b(2)] by (simp add: keyboard_queue_def k'_def)
  then show ?thesis using assms(1) next_index [OF b(2)] by (simp add: keyboard_ok_def k'_def)
qed

lemma keyboard_empty: "keyboard_ok k \<Longrightarrow> keyboard_queue k = [] \<longleftrightarrow> keyboardHead k = keyboardTail k"
  by (cases "keyboardHead k = keyboardTail k") (use keyboard_pop [of k] in \<open>simp_all add: keyboard_queue_def\<close>)

section \<open>The handler and the reader as producer and consumer\<close>

text \<open>The character the scan code waiting at the port stands for, if it stands for one.\<close>

definition typed_character :: "'a devices_scheme \<Rightarrow> UInt8 option" where
  "typed_character s =
     (let scancode = portInput s 0x60 (portReads s 0x60);
          ascii = (if sIOKeyboardIsShiftPressed s then sIOKeyboardMapShifted else sIOKeyboardMap) ! unat scancode
      in if scancode < 0x80 \<and> ascii \<noteq> 0 then Some ascii else None)"

definition keyboard_inv :: "'a devices_scheme \<Rightarrow> bool" where
  "keyboard_inv s \<longleftrightarrow> keyboard_ok (gIOKeyboardController s) \<and> lock_free (keyboardLock (gIOKeyboardController s))"

definition keyboard_content :: "'a devices_scheme \<Rightarrow> UInt8 list" where
  "keyboard_content s = keyboard_queue (gIOKeyboardController s)"

lemma keyboard_queue_lock [simp]:
  "keyboard_queue (k\<lparr>keyboardLock := l\<rparr>) = keyboard_queue k" "keyboard_ok (k\<lparr>keyboardLock := l\<rparr>) = keyboard_ok k"
  by (simp_all add: keyboard_queue_def keyboard_ok_def)

lemma Interrupts_effect:
  assumes inv: "keyboard_inv s"
  shows "\<exists>t. IOKeyboardInterruptsHandler s = Inr t \<and> keyboard_inv t \<and>
    keyboard_content t = (case typed_character s of None \<Rightarrow> keyboard_content s
      | Some c \<Rightarrow> if length (keyboard_content s) < 255 then keyboard_content s @ [c] else keyboard_content s)"
proof -
  define k where "k = (gIOKeyboardController s)\<lparr>keyboardLock := \<lparr>lockValue = 1\<rparr>\<rparr>"
  let ?sc = "portInput s 0x60 (portReads s 0x60)"
  let ?map = "if sIOKeyboardIsShiftPressed s then sIOKeyboardMapShifted else sIOKeyboardMap"
  have ok: "keyboard_ok k" and lock: "OSSpinlockLock (keyboardLock (gIOKeyboardController s)) = Inr \<lparr>lockValue = 1\<rparr>"
    and queue: "keyboard_content s = keyboard_queue k"
    using inv by (simp_all add: keyboard_inv_def k_def OSSpinlockLock_def keyboard_content_def)
  have len: "length (keyboardBuffer k) = 256" "unat (keyboardHead k) < 256" using ok by (simp_all add: keyboard_ok_def)
  have full: "length (keyboard_content s) < 255 \<longleftrightarrow> (keyboardHead k + 1) mod 256 \<noteq> keyboardTail k"
    using keyboard_full [OF ok] length_keyboard_queue [OF ok] queue by auto
  have map: "array_get ?map (unat ?sc) = Inr (?map ! unat ?sc)" if "?sc < 0x80"
    using that by (simp add: array_get_def length_maps word_less_nat_alt)
  have sh: "sIOKeyboardIsShiftPressed (s\<lparr>portReads := f\<rparr>) = sIOKeyboardIsShiftPressed s" for f by simp
  let ?done = "\<lambda>shift k. s\<lparr>portReads := (portReads s)(0x60 := portReads s 0x60 + 1), sIOKeyboardIsShiftPressed := shift,
      gIOKeyboardController := k\<lparr>keyboardLock := \<lparr>lockValue = 0\<rparr>\<rparr>\<rparr>"
  show ?thesis
  proof (cases "\<exists>c. typed_character s = Some c \<and> length (keyboard_content s) < 255")
    case True
    then obtain c where c: "typed_character s = Some c" "?sc < 0x80" "?map ! unat ?sc = c" "c \<noteq> 0"
      and room: "length (keyboard_content s) < 255"
      by (auto simp: typed_character_def Let_def split: if_splits)
    let ?k = "k\<lparr>keyboardBuffer := (keyboardBuffer k)[unat (keyboardHead k) := c],
        keyboardHead := (keyboardHead k + 1) mod 256\<rparr>"
    have push: "keyboard_ok ?k \<and> keyboard_queue ?k = keyboard_queue k @ [c]"
      using keyboard_push [OF ok] full room by simp
    have "IOKeyboardInterruptsHandler s = Inr (?done (sIOKeyboardIsShiftPressed s) ?k)"
      unfolding IOKeyboardInterruptsHandler_def lock bindE_Inr Let_def k_def [symmetric] IOPortRead8_def prod.case
      using map [OF c(2)] c full room len by (simp add: array_set_def OSSpinlockUnlock_def)
    moreover have "keyboard_inv (?done b ?k) \<and> keyboard_content (?done b ?k) = keyboard_content s @ [c]" for b
      using push queue by (simp add: keyboard_inv_def keyboard_content_def)
    ultimately show ?thesis
      by (intro exI [of _ "?done (sIOKeyboardIsShiftPressed s) ?k"]) (simp only: c(1) room option.case if_True simp_thms)
  next
    case False
    have "\<exists>b. IOKeyboardInterruptsHandler s = Inr (?done b k)"
    proof (cases "?sc < 0x80")
      case True
      have nt: "(?map ! unat ?sc \<noteq> 0 \<and> (keyboardHead k + 1) mod of_nat kIOKeyboardBufferSize \<noteq> keyboardTail k) = False"
        using False True full by (auto simp: typed_character_def Let_def split: if_splits)
      show ?thesis
        unfolding IOKeyboardInterruptsHandler_def lock bindE_Inr Let_def k_def [symmetric] IOPortRead8_def prod.case sh
          map [OF True] nt eqTrueI [OF True] if_True if_False OSSpinlockUnlock_def
        by (intro exI [of _ "if ?sc = 0x2A then True else sIOKeyboardIsShiftPressed s"]) (simp add: k_def)
    next
      case False
      show ?thesis
        unfolding IOKeyboardInterruptsHandler_def lock bindE_Inr Let_def k_def [symmetric] IOPortRead8_def prod.case sh
          if_not_P [OF False] OSSpinlockUnlock_def
        by (intro exI [of _ "if ?sc = 0xAA then False else sIOKeyboardIsShiftPressed s"]) (simp add: k_def)
    qed
    then obtain b where "IOKeyboardInterruptsHandler s = Inr (?done b k)" by blast
    moreover have "keyboard_inv (?done b k) \<and> keyboard_content (?done b k) = keyboard_content s"
      using ok queue by (simp add: keyboard_inv_def keyboard_content_def)
    moreover have "(case typed_character s of None \<Rightarrow> keyboard_content s
      | Some c \<Rightarrow> if length (keyboard_content s) < 255 then keyboard_content s @ [c] else keyboard_content s) = keyboard_content s"
      using False by (auto split: option.splits)
    ultimately show ?thesis by (intro exI [of _ "?done b k"]) (simp only: simp_thms)
  qed
qed

lemma Take_effect:
  assumes inv: "keyboard_inv s"
  shows "\<exists>t. sIOKeyboardTake s = Inr (case keyboard_content s of [] \<Rightarrow> None | c # _ \<Rightarrow> Some c, t) \<and> keyboard_inv t \<and>
    keyboard_content t = tl (keyboard_content s)"
proof -
  let ?k = "gIOKeyboardController s"
  have ok: "keyboard_ok ?k" and lock: "lock_free (keyboardLock ?k)" using inv by (simp_all add: keyboard_inv_def)
  have tail: "unat (keyboardTail ?k) < length (keyboardBuffer ?k)" using ok by (simp add: keyboard_ok_def)
  show ?thesis
  proof (cases "keyboardHead ?k = keyboardTail ?k")
    case True
    then have "keyboard_content s = []" using keyboard_empty [OF ok] by (simp add: keyboard_content_def)
    moreover have "\<exists>t. sIOKeyboardTake s = Inr (None, t) \<and> keyboard_inv t \<and> keyboard_content t = keyboard_content s"
      using True ok by (auto simp: sIOKeyboardTake_def keyboard_lock.section_eq lock keyboard_inv_def keyboard_content_def)
    ultimately show ?thesis by auto
  next
    case False
    from keyboard_pop [OF ok False] have pop:
      "keyboard_ok (?k\<lparr>keyboardTail := (keyboardTail ?k + 1) mod 256\<rparr>)"
      "keyboard_content s = keyboardBuffer ?k ! unat (keyboardTail ?k)
        # keyboard_queue (?k\<lparr>keyboardTail := (keyboardTail ?k + 1) mod 256\<rparr>)"
      by (simp_all add: keyboard_content_def)
    then show ?thesis
      using False tail
      by (auto simp: sIOKeyboardTake_def keyboard_lock.section_eq lock keyboard_inv_def keyboard_content_def array_get_def
          keyboard_queue_def keyboard_ok_def)
  qed
qed

text \<open>The interface between a handler that produces characters and the code that consumes them.\<close>

locale character_source =
  fixes interrupt :: "'s \<Rightarrow> fault + 's"
    and take_character :: "'s \<Rightarrow> fault + 'c option \<times> 's"
    and content :: "'s \<Rightarrow> 'c list"
    and typed :: "'s \<Rightarrow> 'c option"
    and inv :: "'s \<Rightarrow> bool"
    and capacity :: nat
  assumes interrupt_law: "inv s \<Longrightarrow> \<exists>t. interrupt s = Inr t \<and> inv t \<and>
      content t = (case typed s of None \<Rightarrow> content s
        | Some c \<Rightarrow> if length (content s) < capacity then content s @ [c] else content s)"
    and take_law: "inv s \<Longrightarrow> \<exists>t. take_character s = Inr (case content s of [] \<Rightarrow> None | c # _ \<Rightarrow> Some c, t) \<and>
      inv t \<and> content t = tl (content s)"

fun interrupts :: "('s \<Rightarrow> fault + 's) \<Rightarrow> ('s \<Rightarrow> 'c option) \<Rightarrow> nat \<Rightarrow> 's \<Rightarrow> fault + 'c list \<times> 's" where
  "interrupts interrupt typed 0 s = Inr ([], s)"
| "interrupts interrupt typed (Suc n) s =
     bindE (interrupt s) (\<lambda>t. bindE (interrupts interrupt typed n t) (\<lambda>(cs, u).
       Inr ((case typed s of None \<Rightarrow> [] | Some c \<Rightarrow> [c]) @ cs, u)))"

fun take_all :: "('s \<Rightarrow> fault + 'c option \<times> 's) \<Rightarrow> nat \<Rightarrow> 's \<Rightarrow> fault + 'c list \<times> 's" where
  "take_all take_character 0 s = Inr ([], s)"
| "take_all take_character (Suc n) s =
     bindE (take_character s) (\<lambda>(c, t). case c of None \<Rightarrow> Inr ([], t)
       | Some c \<Rightarrow> bindE (take_all take_character n t) (\<lambda>(cs, u). Inr (c # cs, u)))"

context character_source begin

lemma interrupts_content:
  assumes "inv s" "length (content s) + n \<le> capacity"
  shows "\<exists>cs t. interrupts interrupt typed n s = Inr (cs, t) \<and> inv t \<and> content t = content s @ cs \<and> length cs \<le> n"
  using assms
proof (induction n arbitrary: s)
  case (Suc n)
  from interrupt_law [OF Suc.prems(1)] obtain t where t: "interrupt s = Inr t" "inv t"
    "content t = (case typed s of None \<Rightarrow> content s
        | Some c \<Rightarrow> if length (content s) < capacity then content s @ [c] else content s)" by blast
  let ?now = "case typed s of None \<Rightarrow> [] | Some c \<Rightarrow> [c]"
  have now: "content t = content s @ ?now" "length ?now \<le> 1"
    using t(3) Suc.prems(2) by (auto split: option.splits)
  then have "length (content t) + n \<le> capacity" using Suc.prems(2) by simp
  from Suc.IH [OF t(2) this] obtain cs u where
    "interrupts interrupt typed n t = Inr (cs, u)" "inv u" "content u = content t @ cs" "length cs \<le> n" by blast
  with t(1) now show ?case by (intro exI [of _ "?now @ cs"] exI [of _ u]) simp
qed simp

lemma take_all_content:
  assumes "inv s"
  shows "\<exists>t. take_all take_character n s = Inr (take n (content s), t) \<and> inv t \<and> content t = drop n (content s)"
  using assms
proof (induction n arbitrary: s)
  case (Suc n)
  from take_law [OF Suc.prems] obtain t where t:
    "take_character s = Inr (case content s of [] \<Rightarrow> None | c # _ \<Rightarrow> Some c, t)" "inv t" "content t = tl (content s)" by blast
  from Suc.IH [OF t(2)] t show ?case by (cases "content s") auto
qed simp

text \<open>What was typed is read, in the order in which it was typed, as long as the buffer has room.\<close>

lemma typed_is_read:
  assumes "inv s" "length (content s) + n \<le> capacity"
  shows "\<exists>cs t u. interrupts interrupt typed n s = Inr (cs, t) \<and>
    take_all take_character (length (content s) + length cs) t = Inr (content s @ cs, u) \<and> content u = []"
proof -
  from interrupts_content [OF assms] obtain cs t where
    t: "interrupts interrupt typed n s = Inr (cs, t)" "inv t" "content t = content s @ cs" by blast
  with take_all_content [OF t(2), of "length (content s) + length cs"] show ?thesis by auto
qed

end

interpretation keyboard: character_source IOKeyboardInterruptsHandler sIOKeyboardTake keyboard_content
  typed_character keyboard_inv 255
  by unfold_locales (rule Interrupts_effect, assumption, rule Take_effect, assumption)

section \<open>Properties\<close>

text \<open>C28: Between the keyboard's interrupt handler and the reader nothing is lost, repeated or
  reordered: after \<open>n\<close> interrupts that fit into the buffer, reading returns what was waiting before
  and then the characters typed, in order, and leaves the buffer empty.\<close>

theorem keyboard_fifo:
  assumes "keyboard_inv s" "length (keyboard_content s) + n \<le> 255"
  shows "\<exists>cs t u. interrupts IOKeyboardInterruptsHandler typed_character n s = Inr (cs, t) \<and>
    take_all sIOKeyboardTake (length (keyboard_content s) + length cs) t = Inr (keyboard_content s @ cs, u) \<and>
    keyboard_content u = []"
  by (rule keyboard.typed_is_read [OF assms])

text \<open>Shift, the key of the letter h, shift released, the key of the letter i.\<close>

definition small_devices :: devices where
  "small_devices = \<lparr>mem = \<lambda>_. 0, cr3 = 0x1000, interruptFlag = True, portWrites = [], invalidated = [],
     gVMPhycalMemoryBitmapAddress = 0, gVMPhycalMemoryBitmap = [0xFF, 0], gVMPhycalMemoryBitmapSize = 2,
     gVMPhycalMemoryTotalMemorySize = 0x10000, sVMPMMLock = \<lparr>lockValue = 0\<rparr>,
     gVMKernelPML4 = 0x1000, gVMKernelPML4Physical = 0x1000, sVMVMMlock = \<lparr>lockValue = 0\<rparr>, isInitialized = True,
     heapHeaders = (\<lambda>_. \<lparr>blockMagic = kVMHeapBlockHeaderMagic, nextBlock = 0, previousBlock = 0,
       blockSize = 0x3FFFD8, isFree = True\<rparr>),
     heapBytes = (\<lambda>_. 0), sVMHeapListHead = kVMKernelHeapStart, sVMHeapLock = \<lparr>lockValue = 0\<rparr>,
     portInput = (\<lambda>port n. if port = 0x60 then [0x2A, 0x23, 0xAA, 0x17] ! (n mod 4) else 0xFF),
     portReads = (\<lambda>_. 0), sIOTimerTicks = 0, sIOKeyboardIsShiftPressed = False,
     gIOKeyboardController = \<lparr>keyboardLock = \<lparr>lockValue = 0\<rparr>, keyboardBuffer = replicate 256 0,
       keyboardHead = 0, keyboardTail = 0\<rparr>\<rparr>"

lemma keyboard_fifo_witness:
  "\<exists>cs t u. interrupts IOKeyboardInterruptsHandler typed_character 4 small_devices = Inr (cs, t) \<and>
    take_all sIOKeyboardTake (length cs) t = Inr (cs, u)"
proof -
  have "keyboard_inv small_devices" "keyboard_content small_devices = []"
    by (simp_all add: keyboard_inv_def keyboard_ok_def keyboard_content_def keyboard_queue_def small_devices_def)
  with keyboard_fifo [of small_devices 4] show ?thesis by fastforce
qed

end
