(* ===== verification/Graphics.thy ===== *)
theory Graphics
  imports Prelude
begin

text \<open>
  Drawing into the frame buffer, \<^verbatim>\<open>kernel/src/IO/IOGraphics.c\<close>. The frame buffer is an array of
  pixels; an index outside it is a fault. Coordinates are 32-bit words as in the code.
\<close>

unbundle bit_operations_syntax

section \<open>Data\<close>

type_synonym IOGraphicsColor = UInt32

record IOGraphicsPoint =
  pointX :: UInt32
  pointY :: UInt32

record IOGraphicsSize =
  sizeWidth :: UInt32
  sizeHeight :: UInt32

record IOGraphicsContext =
  framebuffer :: "UInt32 list option"
  dimensions :: IOGraphicsSize
  pixelsPerScanLine :: UInt32

record IOGraphicsImage =
  imageBuffer :: "IOGraphicsColor list"
  imageSize :: IOGraphicsSize

record IOGraphicsFont =
  fontSize :: IOGraphicsSize
  fontBaseAddress :: "UInt8 list"

abbreviation kIOGraphicsTransparencyKey :: UInt32 where
  "kIOGraphicsTransparencyKey \<equiv> 0xFF00FF"

section \<open>Loops\<close>

text \<open>\<^verbatim>\<open>for (UInt32 i = 0; i < limit; i++)\<close>, which cannot wrap.\<close>

fun for_each :: "nat list \<Rightarrow> (UInt32 \<Rightarrow> 's \<Rightarrow> fault + 's) \<Rightarrow> 's \<Rightarrow> fault + 's" where
  "for_each [] body s = Inr s"
| "for_each (i # is) body s = bindE (body (of_nat i) s) (for_each is body)"

abbreviation for_below :: "UInt32 \<Rightarrow> (UInt32 \<Rightarrow> 's \<Rightarrow> fault + 's) \<Rightarrow> 's \<Rightarrow> fault + 's" where
  "for_below limit \<equiv> for_each [0..<unat limit]"

lemma for_below_invariant:
  assumes "I 0 s" and step: "\<And>i s. i < unat (limit :: UInt32) \<Longrightarrow> I i s \<Longrightarrow> \<exists>s'. body (of_nat i) s = Inr s' \<and> I (Suc i) s'"
  shows "\<exists>s'. for_below limit body s = Inr s' \<and> I (unat limit) s'"
proof -
  have "\<exists>s'. for_each [i..<unat limit] body s = Inr s' \<and> I (unat limit) s'" if "i \<le> unat limit" "I i s" for i s
    using that
  proof (induction "unat limit - i" arbitrary: i s)
    case (Suc n)
    then have i: "i < unat limit" by simp
    from step [OF i Suc.prems(2)] obtain s' where s': "body (of_nat i) s = Inr s'" "I (Suc i) s'" by blast
    have "\<exists>s''. for_each [Suc i..<unat limit] body s' = Inr s'' \<and> I (unat limit) s''"
      by (rule Suc.hyps(1)) (use Suc.hyps(2) i s'(2) in auto)
    with s' i show ?case by (simp add: upt_conv_Cons)
  qed auto
  from this [of 0] assms(1) show ?thesis by simp
qed

section \<open>Operations\<close>

definition IOGraphicsGetPixel :: "IOGraphicsContext \<Rightarrow> IOGraphicsPoint option \<Rightarrow> fault + UInt32" where
  "IOGraphicsGetPixel context point =
     (case (framebuffer context, point) of
        (Some fb, Some p) \<Rightarrow>
          if pointX p \<ge> sizeWidth (dimensions context) \<or> pointY p \<ge> sizeHeight (dimensions context) then Inr 0
          else array_get fb (unat (pointY p * pixelsPerScanLine context + pointX p))
      | _ \<Rightarrow> Inr 0)"

text \<open>The clipping all three drawing operations start with: nothing to draw, or the clipped extents.\<close>

definition sIOGraphicsClip ::
  "IOGraphicsContext \<Rightarrow> IOGraphicsPoint \<Rightarrow> IOGraphicsSize \<Rightarrow> (UInt32 \<times> UInt32) option" where
  "sIOGraphicsClip context point sz =
     (let startX = pointX point; startY = pointY point; drawW = sizeWidth sz; drawH = sizeHeight sz;
          width = sizeWidth (dimensions context); height = sizeHeight (dimensions context)
      in if startX \<ge> width \<or> startY \<ge> height then None
         else Some (if startX + drawW > width then width - startX else drawW,
                    if startY + drawH > height then height - startY else drawH))"

definition IOGraphicsDrawImage ::
  "IOGraphicsContext \<Rightarrow> IOGraphicsPoint \<Rightarrow> IOGraphicsImage option \<Rightarrow> fault + IOGraphicsContext" where
  "IOGraphicsDrawImage context point picture =
     (case (framebuffer context, picture) of
        (Some fb, Some img) \<Rightarrow>
          (case sIOGraphicsClip context point (imageSize img) of
             None \<Rightarrow> Inr context
           | Some (drawW, drawH) \<Rightarrow>
               bindE (for_below drawH (\<lambda>y fb.
                 let destination = unat ((pointY point + y) * pixelsPerScanLine context + pointX point);
                     source = unat (y * sizeWidth (imageSize img))
                 in for_below drawW (\<lambda>x fb.
                      bindE (array_get (imageBuffer img) (source + unat x)) (\<lambda>color.
                        if color \<noteq> kIOGraphicsTransparencyKey then array_set fb (destination + unat x) color
                        else Inr fb)) fb) fb)
                 (\<lambda>fb. Inr (context\<lparr>framebuffer := Some fb\<rparr>)))
      | _ \<Rightarrow> Inr context)"

definition IOGraphicsDrawRectangle ::
  "IOGraphicsContext \<Rightarrow> IOGraphicsPoint \<Rightarrow> IOGraphicsSize \<Rightarrow> IOGraphicsColor \<Rightarrow> fault + IOGraphicsContext" where
  "IOGraphicsDrawRectangle context point sz color =
     (case framebuffer context of
        None \<Rightarrow> Inr context
      | Some fb \<Rightarrow>
          (case sIOGraphicsClip context point sz of
             None \<Rightarrow> Inr context
           | Some (drawW, drawH) \<Rightarrow>
               bindE (for_below drawH (\<lambda>y fb.
                 let row = unat ((pointY point + y) * pixelsPerScanLine context + pointX point)
                 in for_below drawW (\<lambda>x fb. array_set fb (row + unat x) color) fb) fb)
                 (\<lambda>fb. Inr (context\<lparr>framebuffer := Some fb\<rparr>))))"

definition IOGraphicsDrawCharacter ::
  "IOGraphicsContext \<Rightarrow> IOGraphicsPoint \<Rightarrow> UInt8 \<Rightarrow> IOGraphicsColor \<Rightarrow> IOGraphicsFont \<Rightarrow> fault + IOGraphicsContext" where
  "IOGraphicsDrawCharacter context point c color font =
     (case framebuffer context of
        None \<Rightarrow> Inr context
      | Some fb \<Rightarrow>
          (case sIOGraphicsClip context point (fontSize font) of
             None \<Rightarrow> Inr context
           | Some (drawW, drawH) \<Rightarrow>
               bindE (for_below drawH (\<lambda>y fb.
                 bindE (array_get (fontBaseAddress font) (unat (ucast c * sizeHeight (fontSize font) + y))) (\<lambda>bitmapRow.
                 let row = unat ((pointY point + y) * pixelsPerScanLine context + pointX point)
                 in for_below drawW (\<lambda>x fb.
                      if (ucast bitmapRow :: Int32) AND push_bit (unat (7 - x)) 1 \<noteq> 0
                      then array_set fb (row + unat x) color else Inr fb) fb)) fb)
                 (\<lambda>fb. Inr (context\<lparr>framebuffer := Some fb\<rparr>))))"

section \<open>Drawing stays inside\<close>

text \<open>The frame buffer covers the screen, and its indices fit into 32 bits.\<close>

definition context_ok :: "IOGraphicsContext \<Rightarrow> bool" where
  "context_ok c \<longleftrightarrow> (case framebuffer c of None \<Rightarrow> True | Some fb \<Rightarrow>
     unat (sizeWidth (dimensions c)) \<le> unat (pixelsPerScanLine c) \<and>
     unat (sizeHeight (dimensions c)) * unat (pixelsPerScanLine c) \<le> length fb \<and>
     unat (sizeHeight (dimensions c)) * unat (pixelsPerScanLine c) < 2 ^ 32)"

lemma pixel_index:
  fixes x y p w h :: UInt32
  assumes "unat x < unat w" "unat y < unat h" "unat w \<le> unat p" "unat h * unat p < 2 ^ 32"
  shows "unat (y * p + x) = unat y * unat p + unat x" "unat y * unat p + unat x < unat h * unat p"
proof -
  have "(unat y + 1) * unat p \<le> unat h * unat p" using assms(2) by (intro mult_le_mono1) simp
  then show lt: "unat y * unat p + unat x < unat h * unat p" using assms(1,3) by simp
  then have "unat y * unat p + unat x < 2 ^ 32" using assms(4) by simp
  then show "unat (y * p + x) = unat y * unat p + unat x" by (simp add: unat_word_ariths)
qed

lemma clip_bounds:
  assumes "sIOGraphicsClip c point sz = Some (w, h)"
    and "unat (pointX point) + unat (sizeWidth sz) < 2 ^ 32" "unat (pointY point) + unat (sizeHeight sz) < 2 ^ 32"
  shows "unat (pointX point) + unat w \<le> unat (sizeWidth (dimensions c))"
    "unat (pointY point) + unat h \<le> unat (sizeHeight (dimensions c))"
    "unat w = min (unat (sizeWidth sz)) (unat (sizeWidth (dimensions c)) - unat (pointX point))"
    "unat h = min (unat (sizeHeight sz)) (unat (sizeHeight (dimensions c)) - unat (pointY point))"
proof -
  have X: "unat (pointX point + sizeWidth sz) = unat (pointX point) + unat (sizeWidth sz)"
    and Y: "unat (pointY point + sizeHeight sz) = unat (pointY point) + unat (sizeHeight sz)"
    using assms(2,3) by (simp_all add: unat_word_ariths)
  have lt: "unat (pointX point) < unat (sizeWidth (dimensions c)) \<and> unat (pointY point) < unat (sizeHeight (dimensions c))"
    and w: "w = (if pointX point + sizeWidth sz > sizeWidth (dimensions c) then sizeWidth (dimensions c) - pointX point else sizeWidth sz)"
    and h: "h = (if pointY point + sizeHeight sz > sizeHeight (dimensions c) then sizeHeight (dimensions c) - pointY point else sizeHeight sz)"
    using assms(1) by (simp_all add: sIOGraphicsClip_def Let_def not_le word_less_nat_alt split: if_split_asm)
  have sub: "unat (sizeWidth (dimensions c) - pointX point) = unat (sizeWidth (dimensions c)) - unat (pointX point)"
    "unat (sizeHeight (dimensions c) - pointY point) = unat (sizeHeight (dimensions c)) - unat (pointY point)"
    using lt by (simp_all add: unat_sub word_le_nat_alt)
  show "unat (pointX point) + unat w \<le> unat (sizeWidth (dimensions c))"
    "unat w = min (unat (sizeWidth sz)) (unat (sizeWidth (dimensions c)) - unat (pointX point))"
    using X lt sub(1) unfolding w by (auto simp: word_less_nat_alt)
  show "unat (pointY point) + unat h \<le> unat (sizeHeight (dimensions c))"
    "unat h = min (unat (sizeHeight sz)) (unat (sizeHeight (dimensions c)) - unat (pointY point))"
    using Y lt sub(2) unfolding h by (auto simp: word_less_nat_alt)
qed

lemma row_index:
  fixes x y p w h :: UInt32
  assumes "unat px + unat x < unat w" "unat py + unat y < unat h" "unat w \<le> unat p" "unat h * unat p < 2 ^ 32"
  shows "unat ((py + y) * p + px) + unat x = (unat py + unat y) * unat p + (unat px + unat x)"
    "(unat py + unat y) * unat p + (unat px + unat x) < unat h * unat p"
proof -
  have Y: "unat (py + y) = unat py + unat y"
    using assms(2) unsigned_less [of h, where ?'a = nat] by (simp add: unat_word_ariths)
  have "unat px < unat w" "unat (py + y) < unat h" using assms(1,2) Y by simp_all
  from pixel_index [OF this assms(3,4)] show "unat ((py + y) * p + px) + unat x = (unat py + unat y) * unat p + (unat px + unat x)"
    by (simp add: Y)
  have "(unat py + unat y + 1) * unat p \<le> unat h * unat p" using assms(2) by (intro mult_le_mono1) simp
  then show "(unat py + unat y) * unat p + (unat px + unat x) < unat h * unat p" using assms(1,3) by simp
qed

text \<open>The pixel at column \<open>x\<close> and row \<open>y\<close>.\<close>

definition pixel :: "IOGraphicsContext \<Rightarrow> nat \<Rightarrow> nat \<Rightarrow> UInt32" where
  "pixel c x y = the (framebuffer c) ! (y * unat (pixelsPerScanLine c) + x)"

lemma row_injective:
  fixes x x' y y' p :: nat
  assumes "x < p" "x' < p" "y * p + x = y' * p + x'"
  shows "x = x' \<and> y = y'"
proof -
  have "y = (y * p + x) div p" "x = (y * p + x) mod p" using assms(1) by simp_all
  moreover have "y' = (y' * p + x') div p" "x' = (y' * p + x') mod p" using assms(2) by simp_all
  ultimately show ?thesis using assms(3) by metis
qed

text \<open>
  One row of a drawing: the loop over \<open>x\<close> writes the pixels of the clipped row as \<open>f\<close> says
  (\<open>None\<close> leaves a pixel alone) and nothing else.
\<close>

lemma draw_row:
  assumes body: "\<And>i fb. i < unat w \<Longrightarrow> length fb = n \<Longrightarrow>
      body (of_nat i) fb = (case f i of None \<Rightarrow> Inr fb | Some v \<Rightarrow> array_set fb (base + i) v)"
    and room: "base + unat (w :: UInt32) \<le> n" and len: "length fb = n"
  shows "\<exists>fb'. for_below w body fb = Inr fb' \<and> length fb' = n \<and>
    (\<forall>j < n. fb' ! j = (if base \<le> j \<and> j < base + unat w then case f (j - base) of None \<Rightarrow> fb ! j | Some v \<Rightarrow> v else fb ! j))"
proof -
  let ?I = "\<lambda>i fb'. i \<le> unat w \<and> length fb' = n \<and>
    (\<forall>j < n. fb' ! j = (if base \<le> j \<and> j < base + i then case f (j - base) of None \<Rightarrow> fb ! j | Some v \<Rightarrow> v else fb ! j))"
  have "\<exists>fb'. for_below w body fb = Inr fb' \<and> ?I (unat w) fb'"
  proof (rule for_below_invariant [where I = ?I])
    show "?I 0 fb" using len by auto
    fix i s assume i: "i < unat w" and I: "?I i s"
    show "\<exists>s'. body (of_nat i) s = Inr s' \<and> ?I (Suc i) s'"
    proof (cases "f i")
      case None
      have "?I (Suc i) s" using I i None by (auto simp: less_Suc_eq)
      then show ?thesis using body [OF i] I None by simp
    next
      case (Some v)
      have "base + i < n" using i room by simp
      then have "body (of_nat i) s = Inr (s[base + i := v])" using body [OF i] I Some by (simp add: array_set_def)
      moreover have "?I (Suc i) (s[base + i := v])"
        using I i Some by (auto simp: nth_list_update less_Suc_eq)
      ultimately show ?thesis by blast
    qed
  qed
  then show ?thesis by blast
qed

text \<open>The rows of a drawing, one after the other, draw the rectangle.\<close>

lemma in_row:
  fixes px py w p X Y i :: nat
  assumes "px + w \<le> p" "X < p"
  shows "(py + i) * p + px \<le> Y * p + X \<and> Y * p + X < (py + i) * p + px + w \<longleftrightarrow> Y = py + i \<and> px \<le> X \<and> X < px + w"
proof
  assume R: "(py + i) * p + px \<le> Y * p + X \<and> Y * p + X < (py + i) * p + px + w"
  then have "Y * p + X = (py + i) * p + (Y * p + X - (py + i) * p)" "Y * p + X - (py + i) * p < px + w"
    "px \<le> Y * p + X - (py + i) * p" by linarith+
  with row_injective [of X p "Y * p + X - (py + i) * p" Y "py + i"] assms
  show "Y = py + i \<and> px \<le> X \<and> X < px + w" by simp
qed auto

lemma draw_rows:
  fixes h :: UInt32 and f :: "nat \<Rightarrow> nat \<Rightarrow> UInt32 option"
  assumes row: "\<And>y fb. y < unat h \<Longrightarrow> length fb = n \<Longrightarrow> \<exists>fb'. row (of_nat y) fb = Inr fb' \<and> length fb' = n \<and>
      (\<forall>j < n. fb' ! j = (if (py + y) * p + px \<le> j \<and> j < (py + y) * p + px + w
         then case f (j - ((py + y) * p + px)) y of None \<Rightarrow> fb ! j | Some v \<Rightarrow> v else fb ! j))"
    and room: "px + w \<le> p" and len: "length fb = n"
  shows "\<exists>fb'. for_below h row fb = Inr fb' \<and> length fb' = n \<and>
    (\<forall>X Y. X < p \<longrightarrow> Y * p + X < n \<longrightarrow> fb' ! (Y * p + X) =
       (if px \<le> X \<and> X < px + w \<and> py \<le> Y \<and> Y < py + unat h
        then case f (X - px) (Y - py) of None \<Rightarrow> fb ! (Y * p + X) | Some v \<Rightarrow> v else fb ! (Y * p + X)))"
proof -
  let ?I = "\<lambda>i fb'. i \<le> unat h \<and> length fb' = n \<and>
    (\<forall>X Y. X < p \<longrightarrow> Y * p + X < n \<longrightarrow> fb' ! (Y * p + X) =
       (if px \<le> X \<and> X < px + w \<and> py \<le> Y \<and> Y < py + i
        then case f (X - px) (Y - py) of None \<Rightarrow> fb ! (Y * p + X) | Some v \<Rightarrow> v else fb ! (Y * p + X)))"
  have "\<exists>fb'. for_below h row fb = Inr fb' \<and> ?I (unat h) fb'"
  proof (rule for_below_invariant [where I = ?I])
    show "?I 0 fb" using len by auto
    fix i s assume i: "i < unat h" and I: "?I i s"
    from row [OF i] I obtain s' where s': "row (of_nat i) s = Inr s'" "length s' = n"
      "\<And>j. j < n \<Longrightarrow> s' ! j = (if (py + i) * p + px \<le> j \<and> j < (py + i) * p + px + w
         then case f (j - ((py + i) * p + px)) i of None \<Rightarrow> s ! j | Some v \<Rightarrow> v else s ! j)" by blast
    have "s' ! (Y * p + X) = (if px \<le> X \<and> X < px + w \<and> py \<le> Y \<and> Y < py + Suc i
        then case f (X - px) (Y - py) of None \<Rightarrow> fb ! (Y * p + X) | Some v \<Rightarrow> v else fb ! (Y * p + X))"
      if XY: "X < p" "Y * p + X < n" for X Y
    proof (cases "Y = py + i \<and> px \<le> X \<and> X < px + w")
      case True
      then have "s' ! (Y * p + X) = (case f (X - px) i of None \<Rightarrow> s ! (Y * p + X) | Some v \<Rightarrow> v)"
        using s'(3) [OF XY(2)] by simp
      moreover have "s ! (Y * p + X) = fb ! (Y * p + X)" using I XY True by simp
      ultimately show ?thesis using True by (cases "f (X - px) i") auto
    next
      case False
      have "s' ! (Y * p + X) = s ! (Y * p + X)"
        using s'(3) [OF XY(2)] False unfolding in_row [OF room XY(1)] by simp
      moreover have "(py \<le> Y \<and> Y < py + Suc i) = (py \<le> Y \<and> Y < py + i)" if "px \<le> X \<and> X < px + w"
        using False that by auto
      ultimately show ?thesis using I XY by auto
    qed
    with s' i show "\<exists>s'. row (of_nat i) s = Inr s' \<and> ?I (Suc i) s'" by auto
  qed
  then show ?thesis by blast
qed

text \<open>
  The outcome of drawing at a point: what \<open>f\<close> gives for the column and the row within the drawing,
  where the drawing meets the screen; every other pixel, padding included, is as before.
\<close>

definition drawn ::
  "IOGraphicsContext \<Rightarrow> IOGraphicsPoint \<Rightarrow> IOGraphicsSize \<Rightarrow> (nat \<Rightarrow> nat \<Rightarrow> UInt32 option) \<Rightarrow> IOGraphicsContext \<Rightarrow> bool" where
  "drawn c point sz f c' \<longleftrightarrow> dimensions c' = dimensions c \<and> pixelsPerScanLine c' = pixelsPerScanLine c \<and>
     map_option length (framebuffer c') = map_option length (framebuffer c) \<and>
     (\<forall>fb. framebuffer c = Some fb \<longrightarrow> (\<forall>x y. x < unat (pixelsPerScanLine c) \<longrightarrow> y * unat (pixelsPerScanLine c) + x < length fb \<longrightarrow>
        pixel c' x y =
          (if x < unat (sizeWidth (dimensions c)) \<and> y < unat (sizeHeight (dimensions c)) \<and>
              unat (pointX point) \<le> x \<and> x < unat (pointX point) + unat (sizeWidth sz) \<and>
              unat (pointY point) \<le> y \<and> y < unat (pointY point) + unat (sizeHeight sz)
           then case f (x - unat (pointX point)) (y - unat (pointY point)) of None \<Rightarrow> pixel c x y | Some v \<Rightarrow> v
           else pixel c x y)))"

lemma drawn_ok: "drawn c point sz f c' \<Longrightarrow> context_ok c \<Longrightarrow> context_ok c'"
  unfolding drawn_def context_ok_def by (cases "framebuffer c"; cases "framebuffer c'") auto

lemma drawn_nothing:
  assumes "context_ok c" "framebuffer c = None \<or> sIOGraphicsClip c point sz = None"
  shows "drawn c point sz f c"
  using assms by (auto simp: drawn_def sIOGraphicsClip_def Let_def word_le_nat_alt split: if_splits)

lemma unat_below: "x < unat (w :: UInt32) \<Longrightarrow> unat (of_nat x :: UInt32) = x"
  using unsigned_less [of w, where ?'a = nat] by (simp add: take_bit_nat_eq_self unsigned_of_nat)

lemma drawing:
  fixes row :: "UInt32 \<Rightarrow> UInt32 list \<Rightarrow> fault + UInt32 list"
  assumes ok: "context_ok c" and fb: "framebuffer c = Some fb"
    and clip: "sIOGraphicsClip c point sz = Some (w, h)"
    and fits: "unat (pointX point) + unat (sizeWidth sz) < 2 ^ 32" "unat (pointY point) + unat (sizeHeight sz) < 2 ^ 32"
    and row: "\<And>y fb. y < unat h \<Longrightarrow> length fb = n \<Longrightarrow> row (of_nat y) fb = for_below w (cell y) fb"
    and cell: "\<And>x y fb. x < unat w \<Longrightarrow> y < unat h \<Longrightarrow> length fb = n \<Longrightarrow> cell y (of_nat x) fb =
      (case f x y of None \<Rightarrow> Inr fb | Some v \<Rightarrow> array_set fb (unat ((pointY point + of_nat y) * pixelsPerScanLine c + pointX point) + x) v)"
    and n: "n = length fb"
  shows "\<exists>fb'. for_below h row fb = Inr fb' \<and> drawn c point sz f (c\<lparr>framebuffer := Some fb'\<rparr>)"
proof -
  note b = clip_bounds [OF clip fits]
  let ?px = "unat (pointX point)" and ?py = "unat (pointY point)" and ?p = "unat (pixelsPerScanLine c)"
    and ?W = "unat (sizeWidth (dimensions c))" and ?H = "unat (sizeHeight (dimensions c))"
  have C: "?W \<le> ?p" "?H * ?p \<le> n" "?H * ?p < 2 ^ 32" using ok fb n by (simp_all add: context_ok_def)
  have lt: "?px < ?W" "?py < ?H" using clip by (simp_all add: sIOGraphicsClip_def Let_def word_le_nat_alt split: if_splits)
  have base: "unat ((pointY point + of_nat y) * pixelsPerScanLine c + pointX point) = (?py + y) * ?p + ?px"
    "(?py + y) * ?p + ?px + unat w \<le> n" if y: "y < unat h" for y
  proof -
    have u: "unat (of_nat y :: UInt32) = y"
      using y unsigned_less [of h, where ?'a = nat] by (simp add: take_bit_nat_eq_self unsigned_of_nat)
    have "unat (pointX point) + unat (0 :: UInt32) < ?W" "?py + unat (of_nat y :: UInt32) < ?H" using lt y b(2) u by simp_all
    from row_index [OF this C(1,3)] show "unat ((pointY point + of_nat y) * pixelsPerScanLine c + pointX point) = (?py + y) * ?p + ?px"
      by (simp add: u)
    have "(?py + y + 1) * ?p \<le> ?H * ?p" using y b(2) by (intro mult_le_mono1) simp
    then show "(?py + y) * ?p + ?px + unat w \<le> n" using b(1) C(1,2) by simp
  qed
  have "\<exists>fb'. for_below h row fb = Inr fb' \<and> length fb' = n \<and>
    (\<forall>X Y. X < ?p \<longrightarrow> Y * ?p + X < n \<longrightarrow> fb' ! (Y * ?p + X) =
       (if ?px \<le> X \<and> X < ?px + unat w \<and> ?py \<le> Y \<and> Y < ?py + unat h
        then case f (X - ?px) (Y - ?py) of None \<Rightarrow> fb ! (Y * ?p + X) | Some v \<Rightarrow> v else fb ! (Y * ?p + X)))"
  proof (rule draw_rows)
    show "?px + unat w \<le> ?p" using b(1) C(1) by simp
    show "length fb = n" using n by simp
    fix y and s :: "UInt32 list" assume y: "y < unat h" and s: "length s = n"
    show "\<exists>fb'. row (of_nat y) s = Inr fb' \<and> length fb' = n \<and>
      (\<forall>j < n. fb' ! j = (if (?py + y) * ?p + ?px \<le> j \<and> j < (?py + y) * ?p + ?px + unat w
         then case f (j - ((?py + y) * ?p + ?px)) y of None \<Rightarrow> s ! j | Some v \<Rightarrow> v else s ! j))"
      unfolding row [OF y s]
      by (rule draw_row [where f = "\<lambda>x. f x y", OF _ base(2) [OF y] s])
        (simp only: cell [OF _ y] base(1) [OF y])
  qed
  then obtain fb' where fb': "for_below h row fb = Inr fb'" "length fb' = n"
    "\<And>X Y. X < ?p \<Longrightarrow> Y * ?p + X < n \<Longrightarrow> fb' ! (Y * ?p + X) =
       (if ?px \<le> X \<and> X < ?px + unat w \<and> ?py \<le> Y \<and> Y < ?py + unat h
        then case f (X - ?px) (Y - ?py) of None \<Rightarrow> fb ! (Y * ?p + X) | Some v \<Rightarrow> v else fb ! (Y * ?p + X))" by blast
  have "(?px \<le> X \<and> X < ?px + unat w \<and> ?py \<le> Y \<and> Y < ?py + unat h) =
     (X < ?W \<and> Y < ?H \<and> ?px \<le> X \<and> X < ?px + unat (sizeWidth sz) \<and> ?py \<le> Y \<and> Y < ?py + unat (sizeHeight sz))" for X Y
    unfolding b(3,4) using lt by (cases "unat (sizeWidth sz) \<le> ?W - ?px"; cases "unat (sizeHeight sz) \<le> ?H - ?py") (simp_all add: min_def, linarith+)
  note same = this
  have P: "pixel c X Y = fb ! (Y * ?p + X)" "pixel (c\<lparr>framebuffer := Some fb'\<rparr>) X Y = fb' ! (Y * ?p + X)" for X Y
    using fb by (simp_all add: pixel_def)
  have E: "pixel (c\<lparr>framebuffer := Some fb'\<rparr>) X Y = (if X < ?W \<and> Y < ?H \<and> ?px \<le> X \<and> X < ?px + unat (sizeWidth sz) \<and>
       ?py \<le> Y \<and> Y < ?py + unat (sizeHeight sz)
     then case f (X - ?px) (Y - ?py) of None \<Rightarrow> pixel c X Y | Some v \<Rightarrow> v else pixel c X Y)"
    if "X < ?p" "Y * ?p + X < n" for X Y
    unfolding P using fb'(3) [OF that] unfolding same .
  have "drawn c point sz f (c\<lparr>framebuffer := Some fb'\<rparr>)"
    unfolding drawn_def using fb fb'(2) n E by simp
  with fb'(1) show ?thesis by blast
qed


section \<open>Effects of the drawing operations\<close>

lemma DrawRectangle_effect:
  assumes ok: "context_ok c"
    and fits: "unat (pointX point) + unat (sizeWidth sz) < 2 ^ 32" "unat (pointY point) + unat (sizeHeight sz) < 2 ^ 32"
  shows "\<exists>c'. IOGraphicsDrawRectangle c point sz color = Inr c' \<and> drawn c point sz (\<lambda>_ _. Some color) c'"
proof (cases "framebuffer c = None \<or> sIOGraphicsClip c point sz = None")
  case True
  then have "IOGraphicsDrawRectangle c point sz color = Inr c"
    by (auto simp: IOGraphicsDrawRectangle_def split: option.split)
  with drawn_nothing [OF ok True] show ?thesis by blast
next
  case False
  then obtain fb w h where fb: "framebuffer c = Some fb" "sIOGraphicsClip c point sz = Some (w, h)" by auto
  from drawing [OF ok fb fits, where f = "\<lambda>_ _. Some color" and n = "length fb"
      and cell = "\<lambda>y x fb. array_set fb (unat ((pointY point + of_nat y) * pixelsPerScanLine c + pointX point) + unat x) color"
      and row = "\<lambda>y fb. let row = unat ((pointY point + y) * pixelsPerScanLine c + pointX point)
                 in for_below w (\<lambda>x fb. array_set fb (row + unat x) color) fb"]
  obtain fb' where "for_below h (\<lambda>y fb. let row = unat ((pointY point + y) * pixelsPerScanLine c + pointX point)
                 in for_below w (\<lambda>x fb. array_set fb (row + unat x) color) fb) fb = Inr fb'"
    "drawn c point sz (\<lambda>_ _. Some color) (c\<lparr>framebuffer := Some fb'\<rparr>)"
    using unat_below [of _ w] by (auto simp: Let_def)
  with fb show ?thesis by (auto simp: IOGraphicsDrawRectangle_def)
qed


text \<open>The glyph of a character in a font: the dots that are set, from the top left.\<close>

definition glyph :: "IOGraphicsFont \<Rightarrow> UInt8 \<Rightarrow> IOGraphicsColor \<Rightarrow> nat \<Rightarrow> nat \<Rightarrow> UInt32 option" where
  "glyph font c color x y =
     (if bit (fontBaseAddress font ! (unat c * unat (sizeHeight (fontSize font)) + y)) (7 - x) then Some color else None)"

lemma glyph_index:
  fixes c :: UInt8 and h :: UInt32
  assumes "y < unat h" "(unat c + 1) * unat h < 2 ^ 32"
  shows "unat (ucast c * h + of_nat y) = unat c * unat h + y" "unat c * unat h + y < (unat c + 1) * unat h"
proof -
  show lt: "unat c * unat h + y < (unat c + 1) * unat h" using assms(1) by simp
  have c: "unat (ucast c :: UInt32) = unat c"
    using unsigned_less [of c, where ?'a = nat] by (simp add: unsigned_ucast_eq take_bit_nat_eq_self)
  have "unat c * unat h + y < 2 ^ 32" using lt assms(2) by simp
  then show "unat (ucast c * h + of_nat y) = unat c * unat h + y"
    using unat_below [OF assms(1)] by (simp add: unat_word_ariths c)
qed

lemma dot_mask:
  fixes b :: UInt8
  assumes "x < 8"
  shows "(ucast b :: Int32) AND push_bit (unat (7 - of_nat x :: UInt32)) 1 \<noteq> 0 \<longleftrightarrow> bit b (7 - x)"
proof -
  have "unat (of_nat x :: UInt32) = x" using assms by (simp add: take_bit_nat_eq_self unsigned_of_nat)
  then have "unat (7 - of_nat x :: UInt32) = 7 - x"
    using assms by (subst unat_sub) (simp_all add: word_le_nat_alt)
  then have n: "unat (7 - of_nat x :: UInt32) = 7 - x" by simp
  show ?thesis using diff_le_self [of 7 x] unfolding n bit_iff_and_push_bit_not_eq_0 [symmetric] by (auto simp: bit_unsigned_iff)
qed

lemma DrawCharacter_effect:
  assumes ok: "context_ok c"
    and fits: "unat (pointX point) + unat (sizeWidth (fontSize font)) < 2 ^ 32"
      "unat (pointY point) + unat (sizeHeight (fontSize font)) < 2 ^ 32"
    and font: "unat (sizeWidth (fontSize font)) \<le> 8"
      "(unat ch + 1) * unat (sizeHeight (fontSize font)) \<le> length (fontBaseAddress font)"
      "(unat ch + 1) * unat (sizeHeight (fontSize font)) < 2 ^ 32"
  shows "\<exists>c'. IOGraphicsDrawCharacter c point ch color font = Inr c' \<and> drawn c point (fontSize font) (glyph font ch color) c'"
proof (cases "framebuffer c = None \<or> sIOGraphicsClip c point (fontSize font) = None")
  case True
  then have "IOGraphicsDrawCharacter c point ch color font = Inr c"
    by (auto simp: IOGraphicsDrawCharacter_def split: option.split)
  with drawn_nothing [OF ok True] show ?thesis by blast
next
  case False
  then obtain fb w h where fb: "framebuffer c = Some fb" "sIOGraphicsClip c point (fontSize font) = Some (w, h)" by auto
  let ?H = "sizeHeight (fontSize font)"
  let ?cell = "\<lambda>y (x :: UInt32) fb. if (ucast (fontBaseAddress font ! (unat ch * unat ?H + y)) :: Int32) AND push_bit (unat (7 - x)) 1 \<noteq> 0
    then array_set fb (unat ((pointY point + of_nat y) * pixelsPerScanLine c + pointX point) + unat x) color else Inr fb"
  let ?row = "\<lambda>y fb. bindE (array_get (fontBaseAddress font) (unat (ucast ch * ?H + y))) (\<lambda>bitmapRow.
                 let row = unat ((pointY point + y) * pixelsPerScanLine c + pointX point)
                 in for_below w (\<lambda>x fb.
                      if (ucast bitmapRow :: Int32) AND push_bit (unat (7 - x)) 1 \<noteq> 0
                      then array_set fb (row + unat x) color else Inr fb) fb)"
  note b = clip_bounds [OF fb(2) fits]
  have "\<exists>fb'. for_below h ?row fb = Inr fb' \<and> drawn c point (fontSize font) (glyph font ch color) (c\<lparr>framebuffer := Some fb'\<rparr>)"
  proof (rule drawing [OF ok fb fits, where cell = ?cell and n = "length fb"])
    fix x y and fb' :: "UInt32 list" assume y: "y < unat h"
    have yH: "y < unat ?H" using y b(4) by simp
    show "?row (of_nat y) fb' = for_below w (?cell y) fb'"
      using glyph_index [OF yH font(3)] font(2) by (simp add: array_get_def Let_def)
    assume x: "x < unat w"
    then have "x < 8" using b(3) font(1) by simp
    then show "?cell y (of_nat x) fb' = (case glyph font ch color x y of None \<Rightarrow> Inr fb'
       | Some v \<Rightarrow> array_set fb' (unat ((pointY point + of_nat y) * pixelsPerScanLine c + pointX point) + x) v)"
      unfolding dot_mask [OF \<open>x < 8\<close>] glyph_def unat_below [OF x] by simp
  qed simp
  then obtain fb' where "for_below h ?row fb = Inr fb'"
    "drawn c point (fontSize font) (glyph font ch color) (c\<lparr>framebuffer := Some fb'\<rparr>)" by blast
  with fb show ?thesis by (auto simp: IOGraphicsDrawCharacter_def)
qed

text \<open>The pixels of a picture; the transparent ones are not drawn.\<close>

definition picture_pixel :: "IOGraphicsImage \<Rightarrow> nat \<Rightarrow> nat \<Rightarrow> UInt32 option" where
  "picture_pixel img x y =
     (let color = imageBuffer img ! (y * unat (sizeWidth (imageSize img)) + x)
      in if color \<noteq> kIOGraphicsTransparencyKey then Some color else None)"

lemma DrawImage_effect:
  assumes ok: "context_ok c"
    and fits: "unat (pointX point) + unat (sizeWidth (imageSize img)) < 2 ^ 32"
      "unat (pointY point) + unat (sizeHeight (imageSize img)) < 2 ^ 32"
    and img: "unat (sizeHeight (imageSize img)) * unat (sizeWidth (imageSize img)) \<le> length (imageBuffer img)"
      "unat (sizeHeight (imageSize img)) * unat (sizeWidth (imageSize img)) < 2 ^ 32"
  shows "\<exists>c'. IOGraphicsDrawImage c point (Some img) = Inr c' \<and> drawn c point (imageSize img) (picture_pixel img) c'"
proof (cases "framebuffer c = None \<or> sIOGraphicsClip c point (imageSize img) = None")
  case True
  then have "IOGraphicsDrawImage c point (Some img) = Inr c"
    by (auto simp: IOGraphicsDrawImage_def split: option.split)
  with drawn_nothing [OF ok True] show ?thesis by blast
next
  case False
  then obtain fb w h where fb: "framebuffer c = Some fb" "sIOGraphicsClip c point (imageSize img) = Some (w, h)" by auto
  let ?W = "sizeWidth (imageSize img)"
  let ?cell = "\<lambda>y (x :: UInt32) fb. bindE (array_get (imageBuffer img) (unat (of_nat y * ?W) + unat x)) (\<lambda>color.
     if color \<noteq> kIOGraphicsTransparencyKey
     then array_set fb (unat ((pointY point + of_nat y) * pixelsPerScanLine c + pointX point) + unat x) color else Inr fb)"
  let ?row = "\<lambda>y fb. let destination = unat ((pointY point + y) * pixelsPerScanLine c + pointX point);
                     source = unat (y * ?W)
                 in for_below w (\<lambda>x fb.
                      bindE (array_get (imageBuffer img) (source + unat x)) (\<lambda>color.
                        if color \<noteq> kIOGraphicsTransparencyKey then array_set fb (destination + unat x) color
                        else Inr fb)) fb"
  note b = clip_bounds [OF fb(2) fits]
  have "\<exists>fb'. for_below h ?row fb = Inr fb' \<and> drawn c point (imageSize img) (picture_pixel img) (c\<lparr>framebuffer := Some fb'\<rparr>)"
  proof (rule drawing [OF ok fb fits, where cell = ?cell and n = "length fb"])
    fix x y and fb' :: "UInt32 list" assume y: "y < unat h"
    show "?row (of_nat y) fb' = for_below w (?cell y) fb'" by (simp add: Let_def)
    assume x: "x < unat w"
    have lt: "x < unat ?W" "unat (of_nat y :: UInt32) < unat (sizeHeight (imageSize img))" "unat (0 :: UInt32) < unat ?W"
      using x y b(3,4) unat_below [OF y] by simp_all
    from pixel_index [OF lt(3,2) order_refl img(2)] have "unat (of_nat y * ?W) = y * unat ?W" using unat_below [OF y] by simp
    moreover have "y * unat ?W + x < unat (sizeHeight (imageSize img)) * unat ?W"
      using lt unat_below [OF y] mult_le_mono1 [of "Suc y" "unat (sizeHeight (imageSize img))" "unat ?W"] by simp
    ultimately show "?cell y (of_nat x) fb' = (case picture_pixel img x y of None \<Rightarrow> Inr fb'
       | Some v \<Rightarrow> array_set fb' (unat ((pointY point + of_nat y) * pixelsPerScanLine c + pointX point) + x) v)"
      using img(1) unfolding picture_pixel_def Let_def array_get_def unat_below [OF x] by simp
  qed simp
  then obtain fb' where "for_below h ?row fb = Inr fb'"
    "drawn c point (imageSize img) (picture_pixel img) (c\<lparr>framebuffer := Some fb'\<rparr>)" by blast
  with fb show ?thesis by (auto simp: IOGraphicsDrawImage_def)
qed

section \<open>Properties\<close>

text \<open>C29: Drawing paints exactly what it was asked to paint, clipped to the screen: on a frame buffer
  that covers the screen, and at a position where position plus extent stays below \<open>2^32\<close>, no drawing
  operation accesses memory outside the frame buffer, the image or the font; a rectangle gets its
  colour, an image its opaque pixels and a character the dots of its glyph, and every other pixel, the
  padding of the scan lines included, keeps its colour.\<close>

theorem drawing_correct:
  assumes "context_ok c" "unat (pointX point) + unat (sizeWidth sz) < 2 ^ 32" "unat (pointY point) + unat (sizeHeight sz) < 2 ^ 32"
  shows "(\<exists>c'. IOGraphicsDrawRectangle c point sz color = Inr c' \<and> drawn c point sz (\<lambda>_ _. Some color) c' \<and> context_ok c') \<and>
    (\<forall>img. imageSize img = sz \<longrightarrow> unat (sizeHeight sz) * unat (sizeWidth sz) < 2 ^ 32 \<longrightarrow>
      unat (sizeHeight sz) * unat (sizeWidth sz) \<le> length (imageBuffer img) \<longrightarrow>
      (\<exists>c'. IOGraphicsDrawImage c point (Some img) = Inr c' \<and> drawn c point sz (picture_pixel img) c' \<and> context_ok c')) \<and>
    (\<forall>font ch. fontSize font = sz \<longrightarrow> unat (sizeWidth sz) \<le> 8 \<longrightarrow> (unat ch + 1) * unat (sizeHeight sz) < 2 ^ 32 \<longrightarrow>
      (unat ch + 1) * unat (sizeHeight sz) \<le> length (fontBaseAddress font) \<longrightarrow>
      (\<exists>c'. IOGraphicsDrawCharacter c point ch color font = Inr c' \<and> drawn c point sz (glyph font ch color) c' \<and> context_ok c'))"
proof (intro conjI allI impI)
  show "\<exists>c'. IOGraphicsDrawRectangle c point sz color = Inr c' \<and> drawn c point sz (\<lambda>_ _. Some color) c' \<and> context_ok c'"
    using DrawRectangle_effect [OF assms] drawn_ok [OF _ assms(1)] by blast
next
  fix img :: IOGraphicsImage assume img: "imageSize img = sz" "unat (sizeHeight sz) * unat (sizeWidth sz) < 2 ^ 32"
    "unat (sizeHeight sz) * unat (sizeWidth sz) \<le> length (imageBuffer img)"
  show "\<exists>c'. IOGraphicsDrawImage c point (Some img) = Inr c' \<and> drawn c point sz (picture_pixel img) c' \<and> context_ok c'"
    using DrawImage_effect [OF assms(1), of point img, unfolded img(1), OF assms(2,3) img(3,2)] drawn_ok [OF _ assms(1)] by blast
next
  fix font :: IOGraphicsFont and ch :: UInt8 assume font: "fontSize font = sz" "unat (sizeWidth sz) \<le> 8" "(unat ch + 1) * unat (sizeHeight sz) < 2 ^ 32"
    "(unat ch + 1) * unat (sizeHeight sz) \<le> length (fontBaseAddress font)"
  show "\<exists>c'. IOGraphicsDrawCharacter c point ch color font = Inr c' \<and> drawn c point sz (glyph font ch color) c' \<and> context_ok c'"
    using DrawCharacter_effect [OF assms(1), of point font, unfolded font(1), OF assms(2,3) font(2,4,3)] drawn_ok [OF _ assms(1)] by blast
qed

definition small_context :: IOGraphicsContext where
  "small_context = \<lparr>framebuffer = Some (replicate 12 0), dimensions = \<lparr>sizeWidth = 3, sizeHeight = 3\<rparr>, pixelsPerScanLine = 4\<rparr>"

lemma drawing_correct_witness:
  "\<exists>c'. IOGraphicsDrawRectangle small_context \<lparr>pointX = 1, pointY = 2\<rparr> \<lparr>sizeWidth = 5, sizeHeight = 5\<rparr> 7 = Inr c' \<and>
     pixel c' 2 2 = 7 \<and> pixel c' 3 2 = 0 \<and> pixel c' 0 2 = 0"
proof -
  have "context_ok small_context" by (simp add: context_ok_def small_context_def)
  from drawing_correct [OF this, of "\<lparr>pointX = 1, pointY = 2\<rparr>" "\<lparr>sizeWidth = 5, sizeHeight = 5\<rparr>" 7]
  obtain c' where c': "IOGraphicsDrawRectangle small_context \<lparr>pointX = 1, pointY = 2\<rparr> \<lparr>sizeWidth = 5, sizeHeight = 5\<rparr> 7 = Inr c'"
    "drawn small_context \<lparr>pointX = 1, pointY = 2\<rparr> \<lparr>sizeWidth = 5, sizeHeight = 5\<rparr> (\<lambda>_ _. Some 7) c'" by force
  from c'(2) have "pixel c' x y = (if x < 3 \<and> y < 3 \<and> 1 \<le> x \<and> x < 1 + 5 \<and> 2 \<le> y \<and> y < 2 + 5 then 7 else pixel small_context x y)"
    if "x < 4" "y * 4 + x < 12" for x y :: nat
    using that unfolding drawn_def by (simp add: small_context_def)
  from this [of 2 2] this [of 3 2] this [of 0 2] c'(1) show ?thesis by (simp add: pixel_def small_context_def)
qed

text \<open>Where the position wraps the sum, the clipping does not clip.\<close>

lemma clip_wraps:
  "sIOGraphicsClip c \<lparr>pointX = 1, pointY = 0\<rparr> \<lparr>sizeWidth = - 1, sizeHeight = 1\<rparr> = Some (- 1, 1)"
  if "1 < sizeWidth (dimensions c)" "1 \<le> sizeHeight (dimensions c)"
  using that by (auto simp: sIOGraphicsClip_def Let_def not_less not_le dest: leD)

end
