(* ===== verification/Console.thy ===== *)
theory Console
  imports Devices Graphics VGAFont
begin

text \<open>
  The text console, \<^verbatim>\<open>kernel/src/IO/IOConsole.c\<close>: characters drawn at a cursor and copied to the
  serial port, number formatting, the format strings of \<^verbatim>\<open>IOConsoleLog\<close> with their colour escapes,
  and line input. What was written is observed at the serial port.
\<close>

unbundle bit_operations_syntax

section \<open>State\<close>

abbreviation kIOConsoleColorRed :: UInt32 where "kIOConsoleColorRed \<equiv> 0xFF5555"
abbreviation kIOConsoleColorVeryRed :: UInt32 where "kIOConsoleColorVeryRed \<equiv> 0xFF0000"
abbreviation kIOConsoleColorGreen :: UInt32 where "kIOConsoleColorGreen \<equiv> 0x08bf39"
abbreviation kIOConsoleColorVeryGreen :: UInt32 where "kIOConsoleColorVeryGreen \<equiv> 0x00FF00"
abbreviation kIOConsoleColorTurqoise :: UInt32 where "kIOConsoleColorTurqoise \<equiv> 0x5effaf"
abbreviation kIOConsoleColorBlue :: UInt32 where "kIOConsoleColorBlue \<equiv> 0x5555FF"
abbreviation kIOConsoleColorVeryBlue :: UInt32 where "kIOConsoleColorVeryBlue \<equiv> 0x0000FF"
abbreviation kIOConsoleColorLightBlue :: UInt32 where "kIOConsoleColorLightBlue \<equiv> 0x3890e8"
abbreviation kIOConsoleColorYellow :: UInt32 where "kIOConsoleColorYellow \<equiv> 0xFFFF55"
abbreviation kIOConsoleColorCyan :: UInt32 where "kIOConsoleColorCyan \<equiv> 0x55FFFF"
abbreviation kIOConsoleColorMagneta :: UInt32 where "kIOConsoleColorMagneta \<equiv> 0xFF55FF"
abbreviation kIOConsoleColorBlack :: UInt32 where "kIOConsoleColorBlack \<equiv> 0x000000"
abbreviation kIOConsoleColorWhite :: UInt32 where "kIOConsoleColorWhite \<equiv> 0xFFFFFF"
abbreviation kIOConsoleColorPink :: UInt32 where "kIOConsoleColorPink \<equiv> 0xFFA3B1"

record console = devices +
  sIOGraphicsContextPointer :: "IOGraphicsContext option"
  sIOConsoleCursorPosition :: IOGraphicsPoint
  sIOConsoleFont :: IOGraphicsFont
  sIOConsoleForegroundColor :: IOGraphicsColor
  sIOConsoleDefaultForegroundColor :: IOGraphicsColor
  sIOConsoleBackgroundColor :: IOGraphicsColor

abbreviation asc :: "char \<Rightarrow> UInt8" where
  "asc c \<equiv> of_char c"

section \<open>Screen operations\<close>

definition IOConsoleInit :: "IOGraphicsContext option \<Rightarrow> 'a console_scheme \<Rightarrow> 'a console_scheme" where
  "IOConsoleInit context s =
     s\<lparr>sIOGraphicsContextPointer := context,
       sIOConsoleCursorPosition := \<lparr>pointX = 0, pointY = 0\<rparr>,
       sIOConsoleFont := \<lparr>fontSize = \<lparr>sizeWidth = 8, sizeHeight = 16\<rparr>, fontBaseAddress = concat VGAFont\<rparr>\<rparr>"

definition IOConsoleGetColors :: "'a console_scheme \<Rightarrow> UInt64" where
  "IOConsoleGetColors s =
     (push_bit 32 (ucast (sIOConsoleForegroundColor s))) OR ucast (sIOConsoleBackgroundColor s)"

definition IOConsoleClear :: "IOGraphicsColor \<Rightarrow> 'a console_scheme \<Rightarrow> fault + 'a console_scheme" where
  "IOConsoleClear color s =
     (case sIOGraphicsContextPointer s of
        None \<Rightarrow> Inr s
      | Some context \<Rightarrow>
          bindE (IOGraphicsDrawRectangle context \<lparr>pointX = 0, pointY = 0\<rparr> (dimensions context) color) (\<lambda>context.
            Inr (s\<lparr>sIOGraphicsContextPointer := Some context,
                   sIOConsoleCursorPosition := \<lparr>pointX = 0, pointY = 0\<rparr>,
                   sIOConsoleBackgroundColor := color\<rparr>)))"

definition IOConsoleGetGraphicsContext :: "'a console_scheme \<Rightarrow> IOGraphicsContext option" where
  "IOConsoleGetGraphicsContext s = sIOGraphicsContextPointer s"

definition IOConsoleGetDimensions :: "'a console_scheme \<Rightarrow> fault + IOGraphicsSize" where
  "IOConsoleGetDimensions s =
     (case sIOGraphicsContextPointer s of None \<Rightarrow> Inl OutOfBounds | Some context \<Rightarrow> Inr (dimensions context))"

definition IOConsoleSetCursorPosition :: "IOGraphicsPoint option \<Rightarrow> 'a console_scheme \<Rightarrow> 'a console_scheme" where
  "IOConsoleSetCursorPosition point s =
     (case point of None \<Rightarrow> s
      | Some p \<Rightarrow> s\<lparr>sIOConsoleCursorPosition := \<lparr>pointX = pointX p, pointY = pointY p\<rparr>\<rparr>)"

definition IOConsoleSetForegroundColor :: "UInt32 \<Rightarrow> 'a console_scheme \<Rightarrow> 'a console_scheme" where
  "IOConsoleSetForegroundColor color s = s\<lparr>sIOConsoleForegroundColor := color\<rparr>"

definition IOConsoleSetDefaultForegroundColor :: "UInt32 \<Rightarrow> 'a console_scheme \<Rightarrow> 'a console_scheme" where
  "IOConsoleSetDefaultForegroundColor color s = s\<lparr>sIOConsoleDefaultForegroundColor := color\<rparr>"

section \<open>Characters\<close>

text \<open>What a character draws, and where it moves the cursor.\<close>

definition sIOConsoleDraw ::
  "UInt8 \<Rightarrow> IOGraphicsContext \<Rightarrow> 'a console_scheme \<Rightarrow> fault + IOGraphicsContext \<times> IOGraphicsPoint" where
  "sIOConsoleDraw character context s =
     (let point = sIOConsoleCursorPosition s; font = sIOConsoleFont s
      in if character = asc (CHR 0x0A)
         then Inr (context, point\<lparr>pointX := 0, pointY := pointY point + sizeHeight (fontSize font)\<rparr>)
         else if character = asc (CHR 0x09)
         then Inr (context, point\<lparr>pointX := pointX point + sizeWidth (fontSize font) * 4\<rparr>)
         else if character = asc (CHR 0x08)
         then let point = point\<lparr>pointX := pointX point - sizeWidth (fontSize font)\<rparr>
              in bindE (IOGraphicsDrawRectangle context point (fontSize font) (sIOConsoleBackgroundColor s)) (\<lambda>context.
                   Inr (context, point))
         else bindE (IOGraphicsDrawCharacter context point character (sIOConsoleForegroundColor s) font) (\<lambda>context.
                Inr (context, point\<lparr>pointX := pointX point + sizeWidth (fontSize font)\<rparr>)))"

definition IOConsolePutcharacter :: "UInt8 \<Rightarrow> 'a console_scheme \<Rightarrow> fault + 'a console_scheme" where
  "IOConsolePutcharacter character s =
     bindE (IOSerialWriteChar character s) (\<lambda>s.
       case sIOGraphicsContextPointer s of
         None \<Rightarrow> Inr s
       | Some context \<Rightarrow>
           bindE (sIOConsoleDraw character context s) (\<lambda>(context, point).
             let point = (if pointX point \<ge> sizeWidth (dimensions context)
                          then point\<lparr>pointX := 0, pointY := pointY point + sizeHeight (fontSize (sIOConsoleFont s))\<rparr>
                          else point);
                 s = s\<lparr>sIOGraphicsContextPointer := Some context, sIOConsoleCursorPosition := point\<rparr>
             in if pointY point \<ge> sizeHeight (dimensions context)
                then IOConsoleClear (sIOConsoleBackgroundColor s) s else Inr s))"

fun IOConsolePrint :: "UInt8 list \<Rightarrow> 'a console_scheme \<Rightarrow> fault + 'a console_scheme" where
  "IOConsolePrint [] s = Inl OutOfBounds"
| "IOConsolePrint (c # string) s =
     (if c \<noteq> 0 then bindE (IOConsolePutcharacter c s) (IOConsolePrint string) else Inr s)"

section \<open>Numbers\<close>

text \<open>\<^verbatim>\<open>abs\<close> of \<^verbatim>\<open>Math.h\<close> takes and returns an \<^verbatim>\<open>int\<close>; negating the least one wraps.\<close>

definition abs_int :: "Int32 \<Rightarrow> Int32" where
  "abs_int n = (if n <s 0 then - n else n)"

definition i64abs :: "Int64 \<Rightarrow> Int64" where
  "i64abs n = (if n <s 0 then - n else n)"

text \<open>The digits of a number, least significant first, into a buffer; the result is how many.\<close>

function sIOConsoleDigits ::
  "UInt64 \<Rightarrow> (UInt64 \<Rightarrow> UInt8) \<Rightarrow> UInt64 \<Rightarrow> UInt8 list \<Rightarrow> nat \<Rightarrow> fault + UInt8 list \<times> nat" where
  "sIOConsoleDigits base digit unsignedNumber buffer i =
     bindE (array_set buffer i (digit (unsignedNumber mod base))) (\<lambda>buffer.
       if unsignedNumber div base > 0 \<and> 1 < base
       then sIOConsoleDigits base digit (unsignedNumber div base) buffer (i + 1)
       else Inr (buffer, i + 1))"
  by pat_completeness auto
termination
proof (relation "measure (\<lambda>(base, digit, n, buffer, i). unat n)")
  fix base n :: UInt64 and digit :: "UInt64 \<Rightarrow> UInt8" and buffer b :: "UInt8 list" and i :: nat
  assume "n div base > 0 \<and> 1 < base"
  then have "unat base > 1" "unat n > 0" by (auto simp: word_less_nat_alt unat_div intro: Nat.gr0I)
  then have "unat (n div base) < unat n" by (simp add: unat_div)
  then show "((base, digit, n div base, b, i + 1), base, digit, n, buffer, i)
      \<in> measure (\<lambda>(base, digit, n, buffer, i). unat n)" by simp
qed simp

declare sIOConsoleDigits.simps [simp del]

fun sIOConsolePrintBackwards :: "UInt8 list \<Rightarrow> nat \<Rightarrow> 'a console_scheme \<Rightarrow> fault + 'a console_scheme" where
  "sIOConsolePrintBackwards buffer 0 s = Inr s"
| "sIOConsolePrintBackwards buffer (Suc i) s =
     bindE (array_get buffer i) (\<lambda>c. bindE (IOConsolePutcharacter c s) (sIOConsolePrintBackwards buffer i))"

definition sIOConsolePrintDecimal :: "Int64 \<Rightarrow> 'a console_scheme \<Rightarrow> fault + 'a console_scheme" where
  "sIOConsolePrintDecimal number s =
     bindE (if number <s 0 then IOConsolePutcharacter (asc CHR ''-'') s else Inr s) (\<lambda>s.
       let unsignedNumber = scast (abs_int (ucast number))
       in bindE (sIOConsoleDigits 10 (\<lambda>d. ucast d + asc CHR ''0'') unsignedNumber (replicate 32 0) 0) (\<lambda>(buffer, i).
            sIOConsolePrintBackwards buffer i s))"

fun sIOConsolePad :: "nat \<Rightarrow> 'a console_scheme \<Rightarrow> fault + 'a console_scheme" where
  "sIOConsolePad 0 s = Inr s"
| "sIOConsolePad (Suc n) s = bindE (IOConsolePutcharacter (asc CHR ''0'') s) (sIOConsolePad n)"

definition hexadecimal_digit :: "UInt64 \<Rightarrow> UInt8" where
  "hexadecimal_digit d = (if d < 10 then ucast d + asc CHR ''0'' else ucast d - 10 + asc CHR ''A'')"

definition sIOConsolePrintHexadecimal :: "UInt64 \<Rightarrow> UInt8 \<Rightarrow> 'a console_scheme \<Rightarrow> fault + 'a console_scheme" where
  "sIOConsolePrintHexadecimal unsignedNumber pad s =
     bindE (IOConsolePutcharacter (asc CHR ''0'') s) (\<lambda>s.
     bindE (IOConsolePutcharacter (asc CHR ''x'') s) (\<lambda>s.
       if unsignedNumber = 0
       then bindE (IOConsolePutcharacter (asc CHR ''0'') s) (sIOConsolePad (unat pad - 1))
       else bindE (sIOConsoleDigits 16 hexadecimal_digit unsignedNumber (replicate 16 0) 0) (\<lambda>(buffer, i).
            bindE (sIOConsolePad (unat pad - i) s) (sIOConsolePrintBackwards buffer i))))"

section \<open>Format strings\<close>

text \<open>
  The variable arguments: strings and numbers. Taking an argument that is not there, or a number
  where a string was passed, reads something that is not the caller's.
\<close>

datatype va_arg = VAString "UInt8 list option" | VANumber UInt64

definition va_string :: "va_arg list \<Rightarrow> fault + UInt8 list option \<times> va_arg list" where
  "va_string args = (case args of VAString x # args \<Rightarrow> Inr (x, args) | _ \<Rightarrow> Inl OutOfBounds)"

definition va_number :: "va_arg list \<Rightarrow> fault + UInt64 \<times> va_arg list" where
  "va_number args = (case args of VANumber x # args \<Rightarrow> Inr (x, args) | _ \<Rightarrow> Inl OutOfBounds)"

definition sIOConsoleDirective ::
  "UInt8 \<Rightarrow> va_arg list \<Rightarrow> 'a console_scheme \<Rightarrow> fault + va_arg list \<times> 'a console_scheme" where
  "sIOConsoleDirective c args s =
     (if c = asc CHR ''s''
      then bindE (va_string args) (\<lambda>(string, args).
             bindE (IOConsolePrint (case string of None \<Rightarrow> literal ''undefined'' | Some x \<Rightarrow> x) s) (\<lambda>s. Inr (args, s)))
      else if c = asc CHR ''c''
      then bindE (va_number args) (\<lambda>(n, args). bindE (IOConsolePutcharacter (ucast n) s) (\<lambda>s. Inr (args, s)))
      else if c = asc CHR ''d''
      then bindE (va_number args) (\<lambda>(n, args).
             bindE (sIOConsolePrintDecimal (scast (ucast n :: Int32)) s) (\<lambda>s. Inr (args, s)))
      else if c = asc CHR ''x''
      then bindE (va_number args) (\<lambda>(n, args). bindE (sIOConsolePrintHexadecimal n 0 s) (\<lambda>s. Inr (args, s)))
      else if c = asc CHR ''X''
      then bindE (va_number args) (\<lambda>(n, args). bindE (sIOConsolePrintHexadecimal n 16 s) (\<lambda>s. Inr (args, s)))
      else bindE (IOConsolePutcharacter c s) (\<lambda>s. Inr (args, s)))"

definition sIOConsoleColorOf :: "UInt8 \<Rightarrow> 'a console_scheme \<Rightarrow> UInt32 option" where
  "sIOConsoleColorOf c s =
     map_of [(asc CHR ''r'', kIOConsoleColorRed), (asc CHR ''R'', kIOConsoleColorVeryRed),
       (asc CHR ''g'', kIOConsoleColorGreen), (asc CHR ''G'', kIOConsoleColorVeryGreen),
       (asc CHR ''t'', kIOConsoleColorTurqoise), (asc CHR ''b'', kIOConsoleColorBlue),
       (asc CHR ''B'', kIOConsoleColorVeryBlue), (asc CHR ''l'', kIOConsoleColorLightBlue),
       (asc CHR ''y'', kIOConsoleColorYellow), (asc CHR ''c'', kIOConsoleColorCyan),
       (asc CHR ''m'', kIOConsoleColorMagneta), (asc CHR ''p'', kIOConsoleColorPink),
       (asc CHR ''0'', kIOConsoleColorBlack), (asc CHR ''w'', kIOConsoleColorWhite),
       (asc CHR ''!'', sIOConsoleDefaultForegroundColor s), (asc CHR ''~'', NOT (sIOConsoleBackgroundColor s))] c"

definition sIOConsoleEscape :: "UInt8 \<Rightarrow> 'a console_scheme \<Rightarrow> fault + 'a console_scheme" where
  "sIOConsoleEscape c s =
     (case sIOConsoleColorOf c s of
        Some color \<Rightarrow> Inr (IOConsoleSetForegroundColor color s)
      | None \<Rightarrow>
          if c = asc CHR ''^'' then IOConsolePutcharacter (asc CHR ''^'') s
          else bindE (IOConsolePutcharacter (asc CHR ''^'') s) (IOConsolePutcharacter c))"

fun IOConsoleLog :: "UInt8 list \<Rightarrow> va_arg list \<Rightarrow> 'a console_scheme \<Rightarrow> fault + 'a console_scheme" where
  "IOConsoleLog [] args s = Inl OutOfBounds"
| "IOConsoleLog (c # fmt) args s =
     (if c = 0 then Inr s
      else if c = asc CHR ''%''
      then (case fmt of [] \<Rightarrow> Inl OutOfBounds
            | d # fmt \<Rightarrow> bindE (sIOConsoleDirective d args s) (\<lambda>(args, s). IOConsoleLog fmt args s))
      else if c = asc CHR ''^''
      then (case fmt of [] \<Rightarrow> Inl OutOfBounds
            | d # fmt \<Rightarrow> bindE (sIOConsoleEscape d s) (IOConsoleLog fmt args))
      else bindE (IOConsolePutcharacter c s) (IOConsoleLog fmt args))"

section \<open>Line input\<close>

partial_function (option) sIOConsoleReadLine ::
  "('a console_scheme \<Rightarrow> fault + 'a console_scheme) \<Rightarrow> UInt32 \<Rightarrow> UInt8 list \<Rightarrow> UInt32 \<Rightarrow> 'a console_scheme \<Rightarrow>
   (fault + UInt8 list \<times> 'a console_scheme) option" where
  "sIOConsoleReadLine yield limit buffer i s =
     (case IOKeyboardGetCharacter yield s of
        Inl e \<Rightarrow> Some (Inl e)
      | Inr (character, s) \<Rightarrow>
          if character = asc (CHR 0x0A)
          then Some (bindE (array_set buffer (unat i) 0) (\<lambda>buffer.
                 bindE (IOConsoleLog [0x0A, 0] [] s) (\<lambda>s. Inr (buffer, s))))
          else if character = asc (CHR 0x08)
          then if i > 0
               then case IOConsoleLog [0x08, 0x20, 0x08, 0] [] s of
                      Inl e \<Rightarrow> Some (Inl e)
                    | Inr s \<Rightarrow> sIOConsoleReadLine yield limit buffer (i - 1) s
               else sIOConsoleReadLine yield limit buffer i s
          else if i < limit - 1
          then case bindE (array_set buffer (unat i) character) (\<lambda>buffer.
                      bindE (IOConsoleLog (literal ''%c'') [VANumber (scast character)] s) (\<lambda>s. Inr (buffer, s))) of
                 Inl e \<Rightarrow> Some (Inl e)
               | Inr (buffer, s) \<Rightarrow> sIOConsoleReadLine yield limit buffer (i + 1) s
          else sIOConsoleReadLine yield limit buffer i s)"

definition IOConsoleReadLine ::
  "('a console_scheme \<Rightarrow> fault + 'a console_scheme) \<Rightarrow> UInt8 list \<Rightarrow> UInt32 \<Rightarrow> 'a console_scheme \<Rightarrow>
   fault + UInt8 list \<times> 'a console_scheme" where
  "IOConsoleReadLine yield buffer limit s = returns (sIOConsoleReadLine yield limit buffer 0 s)"

section \<open>The serial port as the observer\<close>

text \<open>The transmitter becomes ready again and again.\<close>

definition transmit_ready :: "'a devices_scheme \<Rightarrow> bool" where
  "transmit_ready s \<longleftrightarrow> (\<forall>n. \<exists>m \<ge> n. portInput s (kIOCom1Port + 5) m AND 0x20 \<noteq> 0)"

definition serial_output :: "'a machine_scheme \<Rightarrow> UInt8 list" where
  "serial_output s = map snd (filter (\<lambda>w. fst w = kIOCom1Port) (portWrites s))"

lemma WaitTransmit_returns:
  assumes "transmit_ready s"
  shows "\<exists>r. sIOSerialWaitTransmit s = Some (s\<lparr>portReads := r\<rparr>)"
proof -
  let ?p = "kIOCom1Port + 5"
  obtain m where m: "portReads s ?p \<le> m" "portInput s ?p m AND 0x20 \<noteq> 0"
    using assms by (auto simp: transmit_ready_def)
  have "\<exists>r. sIOSerialWaitTransmit t = Some (s\<lparr>portReads := r\<rparr>)"
    if "t = s\<lparr>portReads := r0\<rparr>" "r0 ?p \<le> m" for t r0
    using that
  proof (induction "m - r0 ?p" arbitrary: t r0)
    case 0
    then have "r0 ?p = m" by simp
    then show ?case using 0(2) m(2)
      by (subst sIOSerialWaitTransmit.simps) (auto simp: IOCheckIsTransmitEmpty_def IOPortRead8_def)
  next
    case (Suc n)
    show ?case
    proof (cases "portInput s ?p (r0 ?p) AND 0x20 = 0")
      case True
      have "n = m - (r0(?p := r0 ?p + 1)) ?p" "(r0(?p := r0 ?p + 1)) ?p \<le> m" using Suc(2,4) by simp_all
      with Suc(1) [of "r0(?p := r0 ?p + 1)", OF _ refl] True show ?thesis unfolding Suc(3)
        by (subst sIOSerialWaitTransmit.simps) (simp add: IOCheckIsTransmitEmpty_def IOPortRead8_def)
    next
      case False
      then show ?thesis unfolding Suc(3)
        by (subst sIOSerialWaitTransmit.simps) (auto simp: IOCheckIsTransmitEmpty_def IOPortRead8_def)
    qed
  qed
  from this [of s "portReads s"] m(1) show ?thesis by simp
qed

lemma SerialWriteChar_effect:
  assumes "transmit_ready s"
  shows "\<exists>r. IOSerialWriteChar c s = Inr (s\<lparr>portReads := r, portWrites := portWrites s @ [(kIOCom1Port, c)]\<rparr>)"
proof -
  from WaitTransmit_returns [OF assms] obtain r where "sIOSerialWaitTransmit s = Some (s\<lparr>portReads := r\<rparr>)" ..
  then show ?thesis by (intro exI [of _ r]) (simp add: IOSerialWriteChar_def IOPortWrite8_def)
qed


section \<open>What the console changes\<close>

definition console_ok :: "'a console_scheme \<Rightarrow> bool" where
  "console_ok s \<longleftrightarrow> transmit_ready s \<and>
     sIOConsoleFont s = \<lparr>fontSize = \<lparr>sizeWidth = 8, sizeHeight = 16\<rparr>, fontBaseAddress = concat VGAFont\<rparr> \<and>
     (case sIOGraphicsContextPointer s of None \<Rightarrow> True | Some c \<Rightarrow> context_ok c \<and>
        unat (sizeWidth (dimensions c)) + 32 \<le> 2 ^ 32 \<and> unat (sizeHeight (dimensions c)) + 16 \<le> 2 ^ 32 \<and>
        pointX (sIOConsoleCursorPosition s) < sizeWidth (dimensions c) \<and>
        pointY (sIOConsoleCursorPosition s) < sizeHeight (dimensions c))"

text \<open>Nothing but the ports, the screen, the cursor and the colours is touched, and the screen keeps its size.\<close>

definition console_only :: "'a console_scheme \<Rightarrow> 'a console_scheme \<Rightarrow> bool" where
  "console_only s t \<longleftrightarrow> (\<exists>r w c p f. t = s\<lparr>portReads := r, portWrites := w, sIOGraphicsContextPointer := c,
     sIOConsoleCursorPosition := p, sIOConsoleForegroundColor := f\<rparr>)"

definition printed :: "'a console_scheme \<Rightarrow> UInt8 list \<Rightarrow> 'a console_scheme \<Rightarrow> bool" where
  "printed s out t \<longleftrightarrow> console_only s t \<and> console_ok t \<and> serial_output t = serial_output s @ out \<and>
     map_option dimensions (sIOGraphicsContextPointer t) = map_option dimensions (sIOGraphicsContextPointer s)"

lemma console_only_refl [simp]: "console_only s s"
  unfolding console_only_def
  by (intro exI [of _ "portReads s"] exI [of _ "portWrites s"] exI [of _ "sIOGraphicsContextPointer s"]
      exI [of _ "sIOConsoleCursorPosition s"] exI [of _ "sIOConsoleForegroundColor s"]) simp

lemma console_only_trans:
  assumes "console_only s t" "console_only t u"
  shows "console_only s u"
proof -
  from assms(1) obtain r w c p f where t: "t = s\<lparr>portReads := r, portWrites := w, sIOGraphicsContextPointer := c,
     sIOConsoleCursorPosition := p, sIOConsoleForegroundColor := f\<rparr>" by (auto simp: console_only_def)
  from assms(2) obtain r w c p f where "u = t\<lparr>portReads := r, portWrites := w, sIOGraphicsContextPointer := c,
     sIOConsoleCursorPosition := p, sIOConsoleForegroundColor := f\<rparr>" by (auto simp: console_only_def)
  then have "u = s\<lparr>portReads := r, portWrites := w, sIOGraphicsContextPointer := c,
     sIOConsoleCursorPosition := p, sIOConsoleForegroundColor := f\<rparr>" by (simp add: t)
  then show ?thesis unfolding console_only_def by blast
qed

lemma printed_nothing: "console_ok s \<Longrightarrow> printed s [] s"
  by (simp add: printed_def)

lemma printed_trans: "printed s xs t \<Longrightarrow> printed t ys u \<Longrightarrow> printed s (xs @ ys) u"
  by (auto simp: printed_def intro: console_only_trans)

lemma printed_ok: "printed s xs t \<Longrightarrow> console_ok t"
  by (simp add: printed_def)

section \<open>One character\<close>

text \<open>What a character paints and where: its glyph, the background for a backspace, nothing for a
  newline or a tab.\<close>

definition ink_point :: "UInt8 \<Rightarrow> 'a console_scheme \<Rightarrow> IOGraphicsPoint" where
  "ink_point ch s = (if ch = 8 then (sIOConsoleCursorPosition s)\<lparr>pointX := pointX (sIOConsoleCursorPosition s) - 8\<rparr>
     else sIOConsoleCursorPosition s)"

definition ink :: "UInt8 \<Rightarrow> 'a console_scheme \<Rightarrow> nat \<Rightarrow> nat \<Rightarrow> UInt32 option" where
  "ink ch s = (if ch = 9 \<or> ch = 10 then (\<lambda>_ _. None) else if ch = 8 then (\<lambda>_ _. Some (sIOConsoleBackgroundColor s))
     else glyph (sIOConsoleFont s) ch (sIOConsoleForegroundColor s))"

text \<open>The position after a character, before the end of the line and of the screen are looked at.\<close>

definition move :: "UInt8 \<Rightarrow> nat \<times> nat \<Rightarrow> nat \<times> nat" where
  "move ch = (\<lambda>(x, y). if ch = 10 then (0, y + 16) else if ch = 9 then (x + 32, y)
     else if ch = 8 then ((x + 2 ^ 32 - 8) mod 2 ^ 32, y) else (x + 8, y))"

definition wrap_line :: "nat \<Rightarrow> nat \<times> nat \<Rightarrow> nat \<times> nat" where
  "wrap_line width = (\<lambda>(x, y). if width \<le> x then (0, y + 16) else (x, y))"

definition position :: "IOGraphicsPoint \<Rightarrow> nat \<times> nat" where
  "position p = (unat (pointX p), unat (pointY p))"

lemma unat_add_small: "unat (a :: UInt32) + n < 2 ^ 32 \<Longrightarrow> n < 2 ^ 32 \<Longrightarrow> unat (a + of_nat n) = unat a + n"
  by (simp add: unat_word_ariths unsigned_of_nat take_bit_nat_eq_self)

lemma unat_back: "unat (a - 8 :: UInt32) = (unat a + 2 ^ 32 - 8) mod 2 ^ 32"
proof -
  have m: "a - 8 = a + 4294967288" by simp
  have u: "unat (4294967288 :: UInt32) = 4294967288" by simp
  have "unat a + 2 ^ 32 - 8 = unat a + 4294967288" by simp
  then show ?thesis unfolding m unat_word_ariths u by (simp only: len_num1 len_bit0) simp
qed

lemma Draw_effect:
  assumes ok: "console_ok s" and c: "sIOGraphicsContextPointer s = Some c" and ch: "ch < 0x80"
  shows "\<exists>d p. sIOConsoleDraw ch c s = Inr (d, p) \<and> drawn c (ink_point ch s) (fontSize (sIOConsoleFont s)) (ink ch s) d \<and>
    position p = move ch (position (sIOConsoleCursorPosition s))"
proof -
  let ?p = "sIOConsoleCursorPosition s" and ?font = "sIOConsoleFont s"
  have cok: "context_ok c" and font: "?font = \<lparr>fontSize = \<lparr>sizeWidth = 8, sizeHeight = 16\<rparr>, fontBaseAddress = concat VGAFont\<rparr>"
    and B: "unat (pointX ?p) + 32 < 2 ^ 32" "unat (pointY ?p) + 16 < 2 ^ 32"
    using ok c by (auto simp: console_ok_def word_less_nat_alt)
  have sum: "unat (pointX ?p + 8) = unat (pointX ?p) + 8" "unat (pointX ?p + 32) = unat (pointX ?p) + 32"
    "unat (pointY ?p + 16) = unat (pointY ?p) + 16"
    using unat_add_small [of "pointX ?p" 8] unat_add_small [of "pointX ?p" 32] unat_add_small [of "pointY ?p" 16] B by simp_all
  have idle: "drawn c q z (\<lambda>_ _. None) c" for q z by (simp add: drawn_def)
  consider "ch = 10" | "ch = 9" | "ch = 8" | "ch \<noteq> 8" "ch \<noteq> 9" "ch \<noteq> 10" by blast
  then show ?thesis
  proof cases
    case 1
    then show ?thesis using sum idle by (simp add: sIOConsoleDraw_def Let_def font ink_def move_def position_def)
  next
    case 2
    then show ?thesis using sum idle by (simp add: sIOConsoleDraw_def Let_def font ink_def move_def position_def)
  next
    case 3
    let ?q = "?p\<lparr>pointX := pointX ?p - 8\<rparr>"
    have "\<exists>d. IOGraphicsDrawRectangle c ?q (fontSize ?font) (sIOConsoleBackgroundColor s) = Inr d \<and>
      drawn c ?q (fontSize ?font) (\<lambda>_ _. Some (sIOConsoleBackgroundColor s)) d"
    proof (cases "8 \<le> unat (pointX ?p)")
      case True
      then have "unat (pointX ?p - 8) = unat (pointX ?p) - 8" using B by (simp add: unat_back mod_if)
      then show ?thesis using DrawRectangle_effect [OF cok, of ?q "fontSize ?font"] B font by simp
    next
      case False
      then have "unat (pointX ?p - 8) = unat (pointX ?p) + 2 ^ 32 - 8" using B by (simp add: unat_back)
      then have "sizeWidth (dimensions c) \<le> pointX ?q"
        using ok c by (simp add: console_ok_def word_le_nat_alt)
      then have none: "sIOGraphicsClip c ?q (fontSize ?font) = None" by (simp add: sIOGraphicsClip_def)
      then have "IOGraphicsDrawRectangle c ?q (fontSize ?font) (sIOConsoleBackgroundColor s) = Inr c"
        by (simp add: IOGraphicsDrawRectangle_def split: option.split)
      with drawn_nothing [OF cok disjI2, OF none] show ?thesis by blast
    qed
    with 3 show ?thesis
      by (auto simp: sIOConsoleDraw_def Let_def font ink_def ink_point_def move_def position_def unat_back)
  next
    case 4
    have "(unat ch + 1) * 16 \<le> 2048" using ch by (simp add: word_less_nat_alt)
    then have "\<exists>d. IOGraphicsDrawCharacter c ?p ch (sIOConsoleForegroundColor s) ?font = Inr d \<and>
      drawn c ?p (fontSize ?font) (glyph ?font ch (sIOConsoleForegroundColor s)) d"
      using DrawCharacter_effect [OF cok, of ?p ?font ch] B by (simp add: font length_concat_VGAFont)
    with 4 sum show ?thesis
      by (auto simp: sIOConsoleDraw_def Let_def font ink_def ink_point_def move_def position_def)
  qed
qed


text \<open>
  The whole effect of a character on the screen: it is drawn, the cursor moves, wraps to the next
  line at the right edge, and at the bottom the screen is cleared.
\<close>

definition shown :: "UInt8 \<Rightarrow> 'a console_scheme \<Rightarrow> IOGraphicsContext \<Rightarrow> 'a console_scheme \<Rightarrow> bool" where
  "shown ch s c t \<longleftrightarrow>
     (let width = unat (sizeWidth (dimensions c)); height = unat (sizeHeight (dimensions c));
          p = wrap_line width (move ch (position (sIOConsoleCursorPosition s)))
      in \<exists>d. drawn c (ink_point ch s) (fontSize (sIOConsoleFont s)) (ink ch s) d \<and>
           (if snd p < height then sIOGraphicsContextPointer t = Some d \<and> position (sIOConsoleCursorPosition t) = p
            else position (sIOConsoleCursorPosition t) = (0, 0) \<and>
              (\<exists>e. drawn d \<lparr>pointX = 0, pointY = 0\<rparr> (dimensions d) (\<lambda>_ _. Some (sIOConsoleBackgroundColor s)) e \<and>
                sIOGraphicsContextPointer t = Some e)))"

lemma Putcharacter_effect:
  assumes ok: "console_ok s" and ch: "ch < 0x80"
  shows "\<exists>t. IOConsolePutcharacter ch s = Inr t \<and> printed s [ch] t \<and>
    sIOConsoleForegroundColor t = sIOConsoleForegroundColor s \<and>
    (\<forall>c. sIOGraphicsContextPointer s = Some c \<longrightarrow> shown ch s c t)"
proof -
  have "transmit_ready s" using ok by (simp add: console_ok_def)
  from SerialWriteChar_effect [OF this, of ch] obtain r where
    w: "IOSerialWriteChar ch s = Inr (s\<lparr>portReads := r, portWrites := portWrites s @ [(kIOCom1Port, ch)]\<rparr>)" ..
  let ?s = "s\<lparr>portReads := r, portWrites := portWrites s @ [(kIOCom1Port, ch)]\<rparr>"
  have ok': "console_ok ?s" using ok
    by (cases "sIOGraphicsContextPointer s") (simp_all add: console_ok_def transmit_ready_def)
  show ?thesis
  proof (cases "sIOGraphicsContextPointer s")
    case None
    have "console_only s ?s" unfolding console_only_def
      by (intro exI [of _ r] exI [of _ "portWrites s @ [(kIOCom1Port, ch)]"] exI [of _ "sIOGraphicsContextPointer s"]
      exI [of _ "sIOConsoleCursorPosition s"] exI [of _ "sIOConsoleForegroundColor s"]) simp
    then show ?thesis using w None ok' by (simp add: IOConsolePutcharacter_def printed_def serial_output_def)
  next
    case (Some c)
    have same_ink: "ink_point ch ?s = ink_point ch s" "ink ch ?s = ink ch s"
      by (simp_all add: ink_point_def ink_def cong: if_cong)
    have "sIOGraphicsContextPointer ?s = Some c" using Some by simp
    from Draw_effect [OF ok' this ch] obtain d p where D: "sIOConsoleDraw ch c ?s = Inr (d, p)"
      "drawn c (ink_point ch s) (fontSize (sIOConsoleFont s)) (ink ch s) d"
      "position p = move ch (position (sIOConsoleCursorPosition s))"
      using same_ink by auto
    have cok: "context_ok c" and font: "sizeHeight (fontSize (sIOConsoleFont s)) = 16"
      and B: "unat (sizeWidth (dimensions c)) + 32 \<le> 2 ^ 32" "unat (sizeHeight (dimensions c)) + 16 \<le> 2 ^ 32"
      and curs: "pointX (sIOConsoleCursorPosition s) < sizeWidth (dimensions c)"
        "pointY (sIOConsoleCursorPosition s) < sizeHeight (dimensions c)"
      using ok Some by (simp_all add: console_ok_def)
    have dims: "dimensions d = dimensions c" and dok: "context_ok d"
      using D(2) drawn_ok [OF D(2) cok] by (simp_all add: drawn_def)
    define q where "q = (if pointX p \<ge> sizeWidth (dimensions d) then p\<lparr>pointX := 0, pointY := pointY p + 16\<rparr> else p)"
    define u where "u = ?s\<lparr>sIOGraphicsContextPointer := Some d, sIOConsoleCursorPosition := q\<rparr>"
    have put: "IOConsolePutcharacter ch s = (if pointY q \<ge> sizeHeight (dimensions d) then IOConsoleClear (sIOConsoleBackgroundColor s) u else Inr u)"
      by (simp add: IOConsolePutcharacter_def w Some D(1) q_def u_def font Let_def)
    have Y: "unat (pointY p + 16) = unat (pointY p) + 16" if "pointX p \<ge> sizeWidth (dimensions c)"
    proof -
      have "ch \<noteq> 10" using D(3) that curs(1) by (auto simp: position_def move_def word_le_nat_alt word_less_nat_alt)
      then have "unat (pointY p) = unat (pointY (sIOConsoleCursorPosition s))"
        using D(3) by (auto simp: position_def move_def split: if_splits)
      then show ?thesis using unat_add_small [of "pointY p" 16] curs(2) B(2) by (simp add: word_less_nat_alt)
    qed
    have q: "position q = wrap_line (unat (sizeWidth (dimensions c))) (move ch (position (sIOConsoleCursorPosition s)))"
      using Y unfolding D(3) [symmetric] by (auto simp: q_def dims position_def wrap_line_def word_le_nat_alt)
    have qX: "pointX q < sizeWidth (dimensions c)"
      using curs(1) by (auto simp: q_def dims not_le word_less_nat_alt)
    have only: "console_only s (u\<lparr>sIOGraphicsContextPointer := x, sIOConsoleCursorPosition := y\<rparr>)" for x y
      unfolding console_only_def u_def
      by (intro exI [of _ r] exI [of _ "portWrites s @ [(kIOCom1Port, ch)]"] exI [of _ x]
      exI [of _ y] exI [of _ "sIOConsoleForegroundColor s"]) simp
    show ?thesis
    proof (cases "pointY q < sizeHeight (dimensions c)")
      case True
      have "IOConsolePutcharacter ch s = Inr u" using put True dims by (auto dest: leD)
      moreover have "console_ok u" using ok dok dims qX True B by (simp add: console_ok_def u_def transmit_ready_def)
      moreover have "console_only s u" using only [where x = "Some d" and y = q] by (simp add: u_def)
      moreover have "shown ch s c u"
        using D(2) q True unfolding shown_def Let_def q [symmetric]
        by (intro exI [of _ d]) (simp add: position_def word_less_nat_alt u_def)
      ultimately show ?thesis using Some by (intro exI [of _ u]) (simp add: printed_def serial_output_def u_def dims)
    next
      case False
      from DrawRectangle_effect [OF dok, of "\<lparr>pointX = 0, pointY = 0\<rparr>" "dimensions d" "sIOConsoleBackgroundColor s"]
      obtain e where e: "IOGraphicsDrawRectangle d \<lparr>pointX = 0, pointY = 0\<rparr> (dimensions d) (sIOConsoleBackgroundColor s) = Inr e"
        "drawn d \<lparr>pointX = 0, pointY = 0\<rparr> (dimensions d) (\<lambda>_ _. Some (sIOConsoleBackgroundColor s)) e"
        using B dims by auto
      let ?t = "u\<lparr>sIOGraphicsContextPointer := Some e, sIOConsoleCursorPosition := \<lparr>pointX = 0, pointY = 0\<rparr>\<rparr>"
      have "IOConsolePutcharacter ch s = Inr ?t"
        using put False dims e(1) by (simp add: IOConsoleClear_def u_def not_less)
      moreover have e_dims: "dimensions e = dimensions c" using e(2) dims by (simp add: drawn_def)
      then have "console_ok ?t" using ok drawn_ok [OF e(2) dok] B curs
        by (auto simp: console_ok_def u_def transmit_ready_def word_less_nat_alt)
      moreover have "shown ch s c ?t"
        using D(2) e(2) False unfolding shown_def Let_def q [symmetric]
        by (intro exI [of _ d]) (auto simp: position_def word_less_nat_alt)
      ultimately show ?thesis using Some only [where x = "Some e"] e_dims
        by (intro exI [of _ ?t]) (simp add: printed_def serial_output_def u_def)
    qed
  qed
qed

section \<open>Strings\<close>

definition ascii :: "UInt8 list \<Rightarrow> bool" where
  "ascii cs \<longleftrightarrow> (\<forall>c \<in> set cs. c < 0x80)"

lemma ascii_simps [simp]: "ascii []" "ascii (c # cs) \<longleftrightarrow> c < 0x80 \<and> ascii cs" "ascii (cs @ ds) \<longleftrightarrow> ascii cs \<and> ascii ds"
  "ascii (rev cs) \<longleftrightarrow> ascii cs" "ascii (replicate n c) \<longleftrightarrow> n = 0 \<or> c < 0x80"
  by (auto simp: ascii_def)

lemma Putcharacter_printed: "console_ok s \<Longrightarrow> c < 0x80 \<Longrightarrow> \<exists>t. IOConsolePutcharacter c s = Inr t \<and> printed s [c] t"
  using Putcharacter_effect [of s c] by blast

text \<open>Printing a list of characters one by one, in whatever loop.\<close>

lemma printed_step:
  assumes "console_ok s" "c < 0x80"
    and "\<And>t. console_ok t \<Longrightarrow> \<exists>u. f t = Inr u \<and> printed t cs u"
  shows "\<exists>u. bindE (IOConsolePutcharacter c s) f = Inr u \<and> printed s (c # cs) u"
proof -
  from Putcharacter_printed [OF assms(1,2)] obtain t where t: "IOConsolePutcharacter c s = Inr t" "printed s [c] t" by blast
  from assms(3) [OF printed_ok [OF t(2)]] obtain u where "f t = Inr u" "printed t cs u" by blast
  with t printed_trans [OF t(2)] show ?thesis by fastforce
qed

lemma Print_effect:
  assumes "console_ok s" "c_string buf cs" "ascii cs"
  shows "\<exists>t. IOConsolePrint buf s = Inr t \<and> printed s cs t"
  using assms
proof (induction cs arbitrary: buf s)
  case Nil
  then show ?case using printed_nothing by fastforce
next
  case (Cons c cs)
  then obtain rest where b: "buf = c # rest" "c \<noteq> 0" "c_string rest cs" "c < 0x80" "ascii cs" by auto
  with printed_step [of s c "IOConsolePrint rest" cs] Cons.IH Cons.prems(1) show ?case by simp
qed

lemma Pad_effect:
  assumes "console_ok s"
  shows "\<exists>t. sIOConsolePad n s = Inr t \<and> printed s (replicate n (asc CHR ''0'')) t"
  using assms
proof (induction n arbitrary: s)
  case 0
  then show ?case using printed_nothing by fastforce
next
  case (Suc n)
  have "asc CHR ''0'' < 0x80" by simp
  from printed_step [OF Suc.prems this Suc.IH] show ?case by simp
qed

lemma PrintBackwards_effect:
  assumes "console_ok s" "n \<le> length buffer" "ascii (take n buffer)"
  shows "\<exists>t. sIOConsolePrintBackwards buffer n s = Inr t \<and> printed s (rev (take n buffer)) t"
  using assms
proof (induction n arbitrary: s)
  case 0
  then show ?case using printed_nothing by fastforce
next
  case (Suc n)
  then have "take (Suc n) buffer = take n buffer @ [buffer ! n]" by (simp add: take_Suc_conv_app_nth)
  with Suc.prems printed_step [of s "buffer ! n" "sIOConsolePrintBackwards buffer n" "rev (take n buffer)"] Suc.IH
  show ?case by (simp add: array_get_def)
qed

section \<open>Digits\<close>

function number_digits :: "nat \<Rightarrow> nat \<Rightarrow> nat list" where
  "number_digits b n = n mod b # (if 0 < n div b \<and> 1 < b then number_digits b (n div b) else [])"
  by pat_completeness auto
termination
  by (relation "measure snd") (auto intro!: div_less_dividend intro: Nat.gr0I)

declare number_digits.simps [simp del]

lemma length_number_digits: "1 < b \<Longrightarrow> n < b ^ Suc k \<Longrightarrow> length (number_digits b n) \<le> Suc k"
proof (induction k arbitrary: n)
  case 0
  then show ?case by (subst number_digits.simps) simp
next
  case (Suc k)
  then have "n div b < b ^ Suc k" by (simp add: less_mult_imp_div_less mult.commute)
  with Suc show ?case by (subst number_digits.simps) auto
qed

lemma number_digits_below: "1 < b \<Longrightarrow> d \<in> set (number_digits b n) \<Longrightarrow> d < b"
proof (induction b n rule: number_digits.induct)
  case (1 b n)
  then show ?case by (subst (asm) (2) number_digits.simps) (auto split: if_splits)
qed

definition value_of :: "nat \<Rightarrow> nat list \<Rightarrow> nat" where
  "value_of b ds = foldl (\<lambda>v d. b * v + d) 0 ds"

lemma value_of_snoc: "value_of b (ds @ [d]) = b * value_of b ds + d"
  by (simp add: value_of_def)

lemma value_of_zeros: "value_of b (replicate n 0 @ ds) = value_of b ds"
  by (induction n) (simp_all add: value_of_def)

lemma value_number_digits: "1 < b \<Longrightarrow> value_of b (rev (number_digits b n)) = n"
proof (induction b n rule: number_digits.induct)
  case (1 b n)
  show ?case
  proof (cases "0 < n div b")
    case True
    with 1 have "value_of b (rev (number_digits b (n div b))) = n div b" by simp
    then show ?thesis using True 1(2) by (subst number_digits.simps) (simp add: value_of_snoc)
  next
    case False
    then show ?thesis using 1(2) by (subst number_digits.simps) (auto simp: value_of_def div_eq_0_iff)
  qed
qed

lemma number_digits_no_leading_zero: "1 < b \<Longrightarrow> n > 0 \<Longrightarrow> last (number_digits b n) > 0"
proof (induction b n rule: number_digits.induct)
  case (1 b n)
  then show ?case
    by (subst number_digits.simps) (auto simp: number_digits.simps [of b "n div b"] div_eq_0_iff)
qed

lemma Digits_effect:
  assumes "1 < unat base" "i + length (number_digits (unat base) (unat n)) \<le> length buffer"
  shows "sIOConsoleDigits base digit n buffer i =
    (let ds = map (\<lambda>d. digit (of_nat d)) (number_digits (unat base) (unat n))
     in Inr (take i buffer @ ds @ drop (i + length ds) buffer, i + length ds))"
  using assms
proof (induction base digit n buffer i rule: sIOConsoleDigits.induct)
  case (1 base digit n buffer i)
  let ?d = "digit (n mod base)"
  have base: "1 < base" using "1.prems"(1) by (simp add: word_less_nat_alt)
  have i: "i < length buffer" using "1.prems"(2) by (subst (asm) number_digits.simps) auto
  have d: "digit (of_nat (unat n mod unat base)) = ?d" by (simp add: unat_mod [symmetric])
  have unf: "number_digits (unat base) (unat n) = unat n mod unat base #
      (if n div base > 0 then number_digits (unat base) (unat (n div base)) else [])"
    using "1.prems"(1) by (subst number_digits.simps) (simp add: unat_div word_less_nat_alt)
  have upd: "take (Suc i) (buffer[i := ?d]) = take i buffer @ [?d]"
    using i by (simp add: take_Suc_conv_app_nth)
  show ?case
  proof (cases "n div base > 0")
    case True
    have len: "i + 1 + length (number_digits (unat base) (unat (n div base))) \<le> length (buffer[i := ?d])"
      using "1.prems"(2) True unf by simp
    have "array_set buffer i ?d = Inr (buffer[i := ?d])" using i by (simp add: array_set_def)
    from "1.IH" [OF this _ "1.prems"(1) len] True base
    have IH: "sIOConsoleDigits base digit (n div base) (buffer[i := ?d]) (i + 1) =
      (let ds = map (\<lambda>d. digit (of_nat d)) (number_digits (unat base) (unat (n div base)))
       in Inr (take (i + 1) (buffer[i := ?d]) @ ds @ drop (i + 1 + length ds) (buffer[i := ?d]), i + 1 + length ds))" by simp
    show ?thesis
      by (subst sIOConsoleDigits.simps) (use True base IH i unf upd in \<open>simp add: array_set_def Let_def d drop_update_swap\<close>)
  next
    case False
    then show ?thesis
      by (subst sIOConsoleDigits.simps)
        (use i unf d in \<open>simp add: array_set_def Let_def upd_conv_take_nth_drop\<close>)
  qed
qed

section \<open>Numbers as text\<close>

definition digit_char :: "nat \<Rightarrow> UInt8" where
  "digit_char d = (if d < 10 then of_nat (d + 48) else of_nat (d + 55))"

definition digit_value :: "UInt8 \<Rightarrow> nat" where
  "digit_value c = (if unat c < 58 then unat c - 48 else unat c - 55)"

definition decimal :: "int \<Rightarrow> UInt8 list" where
  "decimal n = (if n < 0 then [asc CHR ''-''] else []) @ map digit_char (rev (number_digits 10 (nat \<bar>n\<bar>)))"

definition read_decimal :: "UInt8 list \<Rightarrow> int" where
  "read_decimal cs = (if hd cs = asc CHR ''-'' then - int (value_of 10 (map digit_value (tl cs)))
     else int (value_of 10 (map digit_value cs)))"

definition hexadecimal :: "nat \<Rightarrow> nat \<Rightarrow> UInt8 list" where
  "hexadecimal pad n = bytes ''0x'' @ replicate (pad - length (number_digits 16 n)) (asc CHR ''0'') @
     map digit_char (rev (number_digits 16 n))"

lemma digit_char:
  assumes "d < 16"
  shows "unat (digit_char d) = (if d < 10 then d + 48 else d + 55)" "digit_char d < 0x80" "digit_value (digit_char d) = d"
    "digit_char d \<noteq> asc CHR ''-''"
proof -
  show u: "unat (digit_char d) = (if d < 10 then d + 48 else d + 55)"
  proof -
    have "unat (of_nat k :: UInt8) = k" if "k < 256" for k
      using that by (simp add: unsigned_of_nat take_bit_nat_eq_self)
    from this [of "d + 48"] this [of "d + 55"] show ?thesis using assms by (simp add: digit_char_def)
  qed
  show "digit_char d < 0x80" "digit_value (digit_char d) = d" using assms u by (simp_all add: word_less_nat_alt digit_value_def)
  show "digit_char d \<noteq> asc CHR ''-''"
  proof
    assume "digit_char d = asc CHR ''-''"
    then have "unat (digit_char d) = 45" by simp
    with u show False by (simp split: if_splits)
  qed
qed

lemma digits_read:
  assumes "\<And>d. d \<in> set ds \<Longrightarrow> d < 16"
  shows "map digit_value (map digit_char ds) = ds" "ascii (map digit_char ds)"
proof -
  show "map digit_value (map digit_char ds) = ds" using assms digit_char(3) by (simp add: map_idI)
  show "ascii (map digit_char ds)" using assms digit_char(2) by (auto simp: ascii_def)
qed

lemma number_digits_small: "1 < b \<Longrightarrow> b \<le> 16 \<Longrightarrow> d \<in> set (rev (number_digits b n)) \<Longrightarrow> d < 16"
  using number_digits_below [of b d n] by simp

lemma read_decimal_decimal: "read_decimal (decimal n) = n"
proof -
  let ?ds = "rev (number_digits 10 (nat \<bar>n\<bar>))"
  have v: "value_of 10 (map digit_value (map digit_char ?ds)) = nat \<bar>n\<bar>"
    using digits_read(1) [of ?ds] number_digits_small [of 10] value_number_digits [of 10] by simp
  have ne: "?ds \<noteq> []" by (subst number_digits.simps) simp
  then have "hd (map digit_char ?ds) = digit_char (hd ?ds)" "hd ?ds < 16"
    using number_digits_small [of 10 "hd ?ds"] hd_in_set [OF ne] by (auto simp: hd_map)
  then show ?thesis using v digit_char(4) ne by (cases "n < 0") (simp_all add: read_decimal_def decimal_def)
qed

lemma ascii_bytes_simp [simp]: "ascii (bytes ''0x'')"
  by (simp add: bytes_def)

lemma hexadecimal_read:
  "value_of 16 (map digit_value (drop 2 (hexadecimal pad n))) = n"
  "length (hexadecimal pad n) = 2 + max pad (length (number_digits 16 n))"
proof -
  let ?ds = "rev (number_digits 16 n)"
  have "digit_value (asc CHR ''0'') = 0" by (simp add: digit_value_def)
  then show "value_of 16 (map digit_value (drop 2 (hexadecimal pad n))) = n"
    using digits_read(1) [of ?ds] number_digits_small [of 16] value_number_digits [of 16 n]
    by (simp add: hexadecimal_def bytes_def value_of_zeros)
  show "length (hexadecimal pad n) = 2 + max pad (length (number_digits 16 n))"
    by (simp add: hexadecimal_def bytes_def)
qed

section \<open>Printing numbers\<close>

lemma sint_bounds: "- (2 ^ 31) \<le> sint (w :: Int32)" "sint (w :: Int32) < 2 ^ 31"
  using sint_greater_eq [of w] sint_less [of w] by simp_all

lemma abs_int_value:
  assumes "w \<noteq> 0x80000000"
  shows "unat (scast (abs_int w) :: UInt64) = nat \<bar>sint w\<bar>"
proof -
  have ne: "sint w \<noteq> - (2 ^ 31)"
  proof
    assume m: "sint w = - (2 ^ 31)"
    have "w = word_of_int (sint w)" by simp
    also have "\<dots> = 0x80000000" unfolding m by simp
    finally show False using assms by simp
  qed
  have "sint (abs_int w) = \<bar>sint w\<bar>"
  proof (cases "sint w < 0")
    case True
    have "sint (- w) = signed_take_bit 31 (- sint w)" by (simp add: sint_word_ariths)
    also have "\<dots> = - sint w" using sint_bounds [of w] ne True by (intro signed_take_bit_int_eq_self) simp_all
    finally show ?thesis using True by (simp add: abs_int_def word_sless_alt)
  next
    case False
    then show ?thesis by (simp add: abs_int_def word_sless_alt)
  qed
  moreover have "\<bar>sint w\<bar> < 2 ^ 64" using sint_bounds [of w] by simp
  moreover have "uint (scast (abs_int w) :: UInt64) = take_bit 64 (sint (abs_int w))"
    unfolding scast_eq by (simp only: unsigned_of_int) simp
  then have "unat (scast (abs_int w) :: UInt64) = nat (take_bit 64 (sint (abs_int w)))"
    by (simp only: nat_uint_eq [symmetric])
  ultimately show ?thesis by (simp add: take_bit_int_eq_self)
qed

lemma Digits_print:
  fixes base n :: UInt64
  assumes b: "1 < unat base" "unat base \<le> 16"
    and room: "length (number_digits (unat base) (unat n)) \<le> k"
    and digit: "\<And>d. d < unat base \<Longrightarrow> digit (of_nat d) = digit_char d"
  shows "\<exists>buffer. sIOConsoleDigits base digit n (replicate k 0) 0 = Inr (buffer, length (number_digits (unat base) (unat n))) \<and>
    (\<forall>s. console_ok s \<longrightarrow> (\<exists>t. sIOConsolePrintBackwards buffer (length (number_digits (unat base) (unat n))) s = Inr t \<and>
       printed s (map digit_char (rev (number_digits (unat base) (unat n)))) t))"
proof -
  let ?ds = "number_digits (unat base) (unat n)"
  have "map (\<lambda>d. digit (of_nat d)) ?ds = map digit_char ?ds"
    using number_digits_below [OF b(1)] digit by (auto intro: map_cong)
  then have D: "sIOConsoleDigits base digit n (replicate k 0) 0 = Inr (map digit_char ?ds @ drop (length ?ds) (replicate k 0), length ?ds)"
    using Digits_effect [OF b(1), of 0 n "replicate k 0" digit] room by (simp add: Let_def)
  let ?buf = "map digit_char ?ds @ drop (length ?ds) (replicate k 0)"
  have "ascii (map digit_char ?ds)" using digits_read(2) [of ?ds] number_digits_small [of "unat base"] b by simp
  then have "\<exists>t. sIOConsolePrintBackwards ?buf (length ?ds) s = Inr t \<and> printed s (map digit_char (rev ?ds)) t"
    if "console_ok s" for s
    using PrintBackwards_effect [OF that, of "length ?ds" ?buf] by (simp add: rev_map)
  with D show ?thesis by blast
qed


lemma of_nat_digit:
  assumes "d < 16"
  shows "ucast (of_nat d :: UInt64) = (of_nat d :: UInt8)" "(of_nat d :: UInt64) < 10 \<longleftrightarrow> d < 10"
proof -
  have u: "unat (of_nat d :: UInt64) = d" "unat (of_nat d :: UInt8) = d"
    using assms by (simp_all add: unsigned_of_nat take_bit_nat_eq_self)
  then have "unat (ucast (of_nat d :: UInt64) :: UInt8) = unat (of_nat d :: UInt8)"
    using assms by (simp add: unsigned_ucast_eq take_bit_nat_eq_self)
  then show "ucast (of_nat d :: UInt64) = (of_nat d :: UInt8)" by (simp only: word_unat_eq_iff)
  show "(of_nat d :: UInt64) < 10 \<longleftrightarrow> d < 10" by (simp only: word_less_nat_alt u(1)) simp
qed

lemma PrintDecimal_effect:
  fixes w :: Int32
  assumes ok: "console_ok s" and w: "w \<noteq> 0x80000000"
  shows "\<exists>t. sIOConsolePrintDecimal (scast w) s = Inr t \<and> printed s (decimal (sint w)) t"
proof -
  let ?n = "scast (abs_int w) :: UInt64" and ?digit = "\<lambda>d :: UInt64. ucast d + asc CHR ''0''"
  have v: "unat ?n = nat \<bar>sint w\<bar>" by (rule abs_int_value [OF w])
  have sint: "sint (scast w :: Int64) = sint w"
  proof -
    have "signed_take_bit 63 (sint w) = sint w" using sint_bounds [of w] by (intro signed_take_bit_int_eq_self) simp_all
    then show ?thesis unfolding scast_eq sint_sbintrunc' by simp
  qed
  have low: "ucast (scast w :: Int64) = w" by (rule bit_word_eqI) (simp add: bit_unsigned_iff bit_signed_iff)
  have "unat ?n < 10 ^ Suc 31" using sint_bounds [of w] v by simp
  then have "length (number_digits (unat (10 :: UInt64)) (unat ?n)) \<le> 32" using length_number_digits [of 10 _ 31] by simp
  moreover have "?digit (of_nat d) = digit_char d" if "d < unat (10 :: UInt64)" for d
    using that of_nat_digit [of d] by (simp add: digit_char_def)
  ultimately obtain buffer where D: "sIOConsoleDigits 10 ?digit ?n (replicate 32 0) 0 = Inr (buffer, length (number_digits 10 (unat ?n)))"
    "\<And>s :: 'a console_scheme. console_ok s \<Longrightarrow> \<exists>t. sIOConsolePrintBackwards buffer (length (number_digits 10 (unat ?n))) s = Inr t \<and>
       printed s (map digit_char (rev (number_digits 10 (unat ?n)))) t"
    using Digits_print [of 10 ?n 32 ?digit] by force
  have P: "sIOConsolePrintDecimal (scast w) s = bindE (if sint w < 0 then IOConsolePutcharacter (asc CHR ''-'') s else Inr s)
     (sIOConsolePrintBackwards buffer (length (number_digits 10 (unat ?n))))"
    unfolding sIOConsolePrintDecimal_def Let_def low D(1) bindE_Inr prod.case word_sless_alt sint sint_0 ..
  show ?thesis
  proof (cases "sint w < 0")
    case True
    have "asc CHR ''-'' < 0x80" by simp
    from printed_step [OF ok this D(2)] True show ?thesis by (simp add: P decimal_def v)
  next
    case False
    with D(2) [OF ok] show ?thesis by (simp add: P decimal_def v)
  qed
qed

lemma PrintHexadecimal_effect:
  assumes ok: "console_ok s" and pad: "0 < unat pad \<or> n \<noteq> 0 \<or> pad = 0"
  shows "\<exists>t. sIOConsolePrintHexadecimal n pad s = Inr t \<and> printed s (hexadecimal (unat pad) (unat n)) t"
proof -
  have "unat n < 2 ^ 64" using unsigned_less [of n, where ?'a = nat] by simp
  then have "unat n < 16 ^ Suc 15" by simp
  then have "length (number_digits (unat (16 :: UInt64)) (unat n)) \<le> 16" using length_number_digits [of 16 _ 15] by simp
  moreover have "hexadecimal_digit (of_nat d) = digit_char d" if "d < unat (16 :: UInt64)" for d
    using that of_nat_digit [of d] by (auto simp: digit_char_def hexadecimal_digit_def)
  ultimately obtain buffer where D: "sIOConsoleDigits 16 hexadecimal_digit n (replicate 16 0) 0 = Inr (buffer, length (number_digits 16 (unat n)))"
    "\<And>s :: 'a console_scheme. console_ok s \<Longrightarrow> \<exists>t. sIOConsolePrintBackwards buffer (length (number_digits 16 (unat n))) s = Inr t \<and>
       printed s (map digit_char (rev (number_digits 16 (unat n)))) t"
    using Digits_print [of 16 n 16 hexadecimal_digit] by force
  have small: "asc CHR ''0'' < 0x80" "asc CHR ''x'' < 0x80" by simp_all
  let ?pad = "unat pad - length (number_digits 16 (unat n))"
  have rest: "\<exists>u. (if n = 0 then bindE (IOConsolePutcharacter (asc CHR ''0'') t) (sIOConsolePad (unat pad - 1))
     else bindE (sIOConsoleDigits 16 hexadecimal_digit n (replicate 16 0) 0) (\<lambda>(buffer, i).
            bindE (sIOConsolePad (unat pad - i) t) (sIOConsolePrintBackwards buffer i))) = Inr u \<and>
     printed t (replicate ?pad (asc CHR ''0'') @ map digit_char (rev (number_digits 16 (unat n)))) u"
    if ok: "console_ok t" for t :: "'a console_scheme"
  proof (cases "n = 0")
    case True
    have zero: "number_digits 16 0 = [0]" "digit_char 0 = asc CHR ''0''" by (subst number_digits.simps, simp_all add: digit_char_def)
    from printed_step [OF ok small(1) Pad_effect] show ?thesis
      using True by (simp add: zero replicate_append_same)
  next
    case False
    from Pad_effect [OF ok] obtain t' where t': "sIOConsolePad ?pad t = Inr t'" "printed t (replicate ?pad (asc CHR ''0'')) t'" by blast
    from D(2) [OF printed_ok [OF t'(2)]] obtain u where
      "sIOConsolePrintBackwards buffer (length (number_digits 16 (unat n))) t' = Inr u"
      "printed t' (map digit_char (rev (number_digits 16 (unat n)))) u" by blast
    with t' False printed_trans [OF t'(2)] show ?thesis by (auto simp: D(1))
  qed
  from printed_step [OF ok small(1) printed_step [OF _ small(2) rest]]
  show ?thesis by (simp add: sIOConsolePrintHexadecimal_def hexadecimal_def bytes_def)
qed

text \<open>The least number has no absolute value: what is printed for it is not its decimal.\<close>

lemma abs_int_least: "scast (abs_int 0x80000000) = (0xFFFFFFFF80000000 :: UInt64)"
  by (simp add: abs_int_def word_sless_alt)

section \<open>Format strings\<close>

text \<open>The pieces of a format string with the arguments they take, and the text they print.\<close>

datatype piece = Plain UInt8 | Text "UInt8 list" "UInt8 list" | Missing | Letter UInt64 | Decimal Int32 UInt64
  | Hexadecimal UInt64 | Padded UInt64 | Color UInt8 | Caret

fun piece_format :: "piece \<Rightarrow> UInt8 list" where
  "piece_format (Plain c) = [c]"
| "piece_format (Text buf cs) = bytes ''%s''"
| "piece_format Missing = bytes ''%s''"
| "piece_format (Letter n) = bytes ''%c''"
| "piece_format (Decimal w n) = bytes ''%d''"
| "piece_format (Hexadecimal n) = bytes ''%x''"
| "piece_format (Padded n) = bytes ''%X''"
| "piece_format (Color c) = bytes ''^'' @ [c]"
| "piece_format Caret = bytes ''^^''"

fun piece_args :: "piece \<Rightarrow> va_arg list" where
  "piece_args (Text buf cs) = [VAString (Some buf)]"
| "piece_args Missing = [VAString None]"
| "piece_args (Letter n) = [VANumber n]"
| "piece_args (Decimal w n) = [VANumber n]"
| "piece_args (Hexadecimal n) = [VANumber n]"
| "piece_args (Padded n) = [VANumber n]"
| "piece_args _ = []"

fun piece_text :: "piece \<Rightarrow> UInt8 list" where
  "piece_text (Plain c) = [c]"
| "piece_text (Text buf cs) = cs"
| "piece_text Missing = bytes ''undefined''"
| "piece_text (Letter n) = [ucast n]"
| "piece_text (Decimal w n) = decimal (sint w)"
| "piece_text (Hexadecimal n) = hexadecimal 0 (unat n)"
| "piece_text (Padded n) = hexadecimal 16 (unat n)"
| "piece_text (Color c) = []"
| "piece_text Caret = [asc CHR ''^'']"

fun piece_ok :: "piece \<Rightarrow> bool" where
  "piece_ok (Plain c) \<longleftrightarrow> c < 0x80 \<and> c \<notin> {0, asc CHR ''%'', asc CHR ''^''}"
| "piece_ok (Text buf cs) \<longleftrightarrow> c_string buf cs \<and> ascii cs"
| "piece_ok (Letter n) \<longleftrightarrow> (ucast n :: UInt8) < 0x80"
| "piece_ok (Decimal w n) \<longleftrightarrow> ucast n = w \<and> w \<noteq> 0x80000000"
| "piece_ok (Color c) \<longleftrightarrow> c \<in> set (bytes ''rRgGtbBlycmp0w!~'')"
| "piece_ok _ \<longleftrightarrow> True"

lemma SetForegroundColor_printed: "console_ok s \<Longrightarrow> printed s [] (IOConsoleSetForegroundColor color s)"
proof -
  assume ok: "console_ok s"
  have "console_only s (IOConsoleSetForegroundColor color s)" unfolding console_only_def IOConsoleSetForegroundColor_def
    by (intro exI [of _ "portReads s"] exI [of _ "portWrites s"] exI [of _ "sIOGraphicsContextPointer s"]
      exI [of _ "sIOConsoleCursorPosition s"] exI [of _ color]) simp
  then show ?thesis using ok
    by (cases "sIOGraphicsContextPointer s")
      (simp_all add: printed_def console_ok_def IOConsoleSetForegroundColor_def transmit_ready_def serial_output_def)
qed

lemma color_known: "c \<in> set (bytes ''rRgGtbBlycmp0w!~'') \<Longrightarrow> \<exists>color. sIOConsoleColorOf c s = Some color"
  by (auto simp: bytes_def sIOConsoleColorOf_def)

lemma Directive_prints:
  assumes ok: "console_ok s" and p: "piece_ok p" "piece_format p = [asc CHR ''%'', d]"
  shows "\<exists>t. sIOConsoleDirective d (piece_args p @ args) s = Inr (args, t) \<and> printed s (piece_text p) t"
  using p
proof (cases p)
  case (Text buf cs)
  then have "c_string buf cs" "ascii cs" using p(1) by simp_all
  from Print_effect [OF ok this] Text p(2) show ?thesis
    by (auto simp: bytes_def sIOConsoleDirective_def va_string_def)
next
  case Missing
  have "c_string (literal ''undefined'') (bytes ''undefined'')" "ascii (bytes ''undefined'')"
    by (simp_all add: literal_def bytes_def)
  from Print_effect [OF ok this] Missing p(2) show ?thesis
    by (auto simp: bytes_def sIOConsoleDirective_def va_string_def)
next
  case (Letter n)
  with Putcharacter_printed [OF ok, of "ucast n"] p show ?thesis
    by (auto simp: bytes_def sIOConsoleDirective_def va_number_def)
next
  case (Decimal w n)
  with PrintDecimal_effect [OF ok, of w] p show ?thesis
    by (auto simp: bytes_def sIOConsoleDirective_def va_number_def)
next
  case (Hexadecimal n)
  with PrintHexadecimal_effect [OF ok, of 0 n] p show ?thesis
    by (auto simp: bytes_def sIOConsoleDirective_def va_number_def)
next
  case (Padded n)
  with PrintHexadecimal_effect [OF ok, of 16 n] p show ?thesis
    by (auto simp: bytes_def sIOConsoleDirective_def va_number_def)
qed (auto simp: bytes_def)

lemma Escape_prints:
  assumes ok: "console_ok s" and p: "piece_ok p" "piece_format p = [asc CHR ''^'', d]"
  shows "\<exists>t. sIOConsoleEscape d s = Inr t \<and> printed s (piece_text p) t \<and> piece_args p = []"
  using p
proof (cases p)
  case (Color c)
  with p have "d = c" "c \<in> set (bytes ''rRgGtbBlycmp0w!~'')" by (simp_all add: bytes_def)
  with color_known [of c s] SetForegroundColor_printed [OF ok] Color show ?thesis by (auto simp: sIOConsoleEscape_def)
next
  case Caret
  with p(2) have "d = asc CHR ''^''" by (simp add: bytes_def)
  moreover have "sIOConsoleColorOf (asc CHR ''^'') s = None" by (simp add: sIOConsoleColorOf_def)
  moreover have "asc CHR ''^'' < 0x80" by simp
  note Putcharacter_printed [OF ok this]
  ultimately show ?thesis using Caret by (simp add: sIOConsoleEscape_def)
qed (auto simp: bytes_def)

lemma Log_effect:
  assumes "console_ok s" "\<forall>p \<in> set ps. piece_ok p"
  shows "\<exists>t. IOConsoleLog (concat (map piece_format ps) @ 0 # rest) (concat (map piece_args ps) @ args) s = Inr t \<and>
    printed s (concat (map piece_text ps)) t"
  using assms
proof (induction ps arbitrary: s)
  case Nil
  then show ?case using printed_nothing by fastforce
next
  case (Cons p ps)
  let ?fmt = "concat (map piece_format ps) @ 0 # rest" and ?args = "concat (map piece_args ps) @ args"
  have IH: "\<exists>t. IOConsoleLog ?fmt ?args s = Inr t \<and> printed s (concat (map piece_text ps)) t"
    if "console_ok s" for s :: "'a console_scheme"
    using Cons.IH [OF that] Cons.prems(2) by simp
  have ok: "piece_ok p" using Cons.prems(2) by simp
  consider (plain) c where "p = Plain c" | (percent) d where "piece_format p = [asc CHR ''%'', d]"
    | (caret) d where "piece_format p = [asc CHR ''^'', d]"
    by (cases p) (auto simp: bytes_def)
  then show ?case
  proof cases
    case plain
    with printed_step [OF Cons.prems(1) _ IH] ok show ?thesis by simp
  next
    case percent
    from Directive_prints [OF Cons.prems(1) ok percent] obtain t where
      t: "sIOConsoleDirective d (piece_args p @ ?args) s = Inr (?args, t)" "printed s (piece_text p) t" by blast
    from IH [OF printed_ok [OF t(2)]] obtain u where "IOConsoleLog ?fmt ?args t = Inr u"
      "printed t (concat (map piece_text ps)) u" by blast
    with t printed_trans [OF t(2)] show ?thesis by (simp add: percent)
  next
    case caret
    from Escape_prints [OF Cons.prems(1) ok caret] obtain t where
      t: "sIOConsoleEscape d s = Inr t" "printed s (piece_text p) t" "piece_args p = []" by blast
    from IH [OF printed_ok [OF t(2)]] obtain u where "IOConsoleLog ?fmt ?args t = Inr u"
      "printed t (concat (map piece_text ps)) u" by blast
    with t printed_trans [OF t(2)] show ?thesis by (simp add: caret)
  qed
qed


section \<open>Properties\<close>

text \<open>C30: A character goes to the serial port and to the screen and to nothing else: it is drawn with the
  glyph and the colours in force (a backspace clears the cell to the left), the cursor moves one cell,
  four for a tab, to the next line for a newline or at the right edge, and at the bottom the screen is
  cleared and the cursor goes home; the cursor never leaves the screen and no access leaves the frame
  buffer or the font.\<close>

theorem Putcharacter_correct:
  assumes "console_ok s" "sIOGraphicsContextPointer s = Some c" "ch < 0x80"
  shows "\<exists>t. IOConsolePutcharacter ch s = Inr t \<and> console_only s t \<and> console_ok t \<and>
    serial_output t = serial_output s @ [ch] \<and> shown ch s c t"
  using Putcharacter_effect [OF assms(1,3)] assms(2) by (auto simp: printed_def)

text \<open>C31: A logged format string prints what its pieces say: for every sequence of characters, directives
  and colour escapes, with arguments of the kinds the directives take, \<^verbatim>\<open>IOConsoleLog\<close> returns, has
  consumed exactly those arguments, and has written the concatenation of the pieces' texts.\<close>

theorem ConsoleLog_correct:
  assumes "console_ok s" "\<forall>p \<in> set ps. piece_ok p"
  shows "\<exists>t. IOConsoleLog (concat (map piece_format ps) @ 0 # rest) (concat (map piece_args ps) @ args) s = Inr t \<and>
    console_only s t \<and> console_ok t \<and> serial_output t = serial_output s @ concat (map piece_text ps)"
  using Log_effect [OF assms] unfolding printed_def by blast

text \<open>C32: The texts of numbers read back as the numbers: a decimal for every 32-bit number but the least,
  and hexadecimal for every 64-bit number, at least as long as the padding asks for.\<close>

theorem numbers_roundtrip:
  fixes w :: Int32
  assumes "console_ok s" "w \<noteq> 0x80000000"
  shows "(\<exists>t out. sIOConsolePrintDecimal (scast w) s = Inr t \<and> serial_output t = serial_output s @ out \<and>
      read_decimal out = sint w) \<and>
    (\<exists>t out. sIOConsolePrintHexadecimal n 16 s = Inr t \<and> serial_output t = serial_output s @ out \<and>
      length out \<ge> 18 \<and> take 2 out = bytes ''0x'' \<and> value_of 16 (map digit_value (drop 2 out)) = unat n)"
proof (rule conjI)
  show "\<exists>t out. sIOConsolePrintDecimal (scast w) s = Inr t \<and> serial_output t = serial_output s @ out \<and>
      read_decimal out = sint w"
    using PrintDecimal_effect [OF assms] read_decimal_decimal by (auto simp: printed_def)
  have "take 2 (hexadecimal 16 (unat n)) = bytes ''0x''" by (simp add: hexadecimal_def bytes_def)
  then show "\<exists>t out. sIOConsolePrintHexadecimal n 16 s = Inr t \<and> serial_output t = serial_output s @ out \<and>
      length out \<ge> 18 \<and> take 2 out = bytes ''0x'' \<and> value_of 16 (map digit_value (drop 2 out)) = unat n"
    using PrintHexadecimal_effect [OF assms(1), of 16 n] hexadecimal_read [of 16 "unat n"]
    by (auto simp: printed_def)
qed

definition small_console :: console where
  "small_console = devices.extend small_devices
     (console.fields (Some small_context) \<lparr>pointX = 1, pointY = 0\<rparr>
      \<lparr>fontSize = \<lparr>sizeWidth = 8, sizeHeight = 16\<rparr>, fontBaseAddress = concat VGAFont\<rparr>
      kIOConsoleColorWhite kIOConsoleColorWhite kIOConsoleColorBlack)"

lemma small_console_ok: "console_ok small_console" "sIOGraphicsContextPointer small_console = Some small_context"
  "serial_output small_console = []"
  by (auto simp: console_ok_def transmit_ready_def small_console_def devices.defs console.defs small_devices_def context_ok_def
      small_context_def serial_output_def)

lemma Putcharacter_correct_witness:
  "\<exists>t. IOConsolePutcharacter (asc CHR ''A'') small_console = Inr t \<and> serial_output t = [asc CHR ''A'']"
  using Putcharacter_correct [OF small_console_ok(1,2), of "asc CHR ''A''"] by (auto simp: small_console_ok(3))

lemma ConsoleLog_correct_witness:
  "\<exists>t. IOConsoleLog (literal ''^gx=%d'') [VANumber 0xFFFFFFFE] small_console = Inr t \<and>
    serial_output t = bytes ''x='' @ decimal (- 2)"
proof -
  let ?ps = "[Color (asc CHR ''g''), Plain (asc CHR ''x''), Plain (asc CHR ''=''), Decimal (- 2) 0xFFFFFFFE]"
  have ps: "\<forall>p \<in> set ?ps. piece_ok p" by (simp add: bytes_def)
  have "concat (map piece_format ?ps) @ [0] = literal ''^gx=%d''" "concat (map piece_args ?ps) @ [] = [VANumber 0xFFFFFFFE]"
    "concat (map piece_text ?ps) = bytes ''x='' @ decimal (- 2)"
    by (simp_all add: bytes_def literal_def)
  with ConsoleLog_correct [OF small_console_ok(1) ps, of "[]" "[]"] show ?thesis
    by (auto simp: small_console_ok(3))
qed

lemma numbers_roundtrip_witness:
  "\<exists>t out. sIOConsolePrintDecimal (scast (- 5 :: Int32)) small_console = Inr t \<and> serial_output t = out \<and> read_decimal out = - 5"
proof -
  have "(- 5 :: Int32) \<noteq> 0x80000000" by simp
  from numbers_roundtrip [OF small_console_ok(1) this, of 7] show ?thesis by (simp add: small_console_ok(3))
qed

text \<open>A percent sign or a caret at the end of a format reads past its terminator.\<close>

lemma Log_reads_past_the_end:
  assumes "console_ok s"
  shows "IOConsoleLog (literal ''%'') [] s = Inl OutOfBounds"
proof -
  from Putcharacter_printed [OF assms, of 0] obtain t where "IOConsolePutcharacter 0 s = Inr t" by auto
  then show ?thesis by (simp add: literal_def bytes_def sIOConsoleDirective_def)
qed

text \<open>Characters from 0x80 on have no glyph in the font.\<close>

lemma DrawCharacter_beyond_font:
  fixes p :: IOGraphicsPoint
  defines "font \<equiv> \<lparr>fontSize = \<lparr>sizeWidth = 8, sizeHeight = 16\<rparr>, fontBaseAddress = concat VGAFont\<rparr>"
  assumes "framebuffer c = Some fb" "pointX p < sizeWidth (dimensions c)" "pointY p < sizeHeight (dimensions c)"
    "unat (pointX p) + 8 < 2 ^ 32" "unat (pointY p) + 16 < 2 ^ 32"
  shows "IOGraphicsDrawCharacter c p 0x80 color font = Inl OutOfBounds"
proof -
  obtain w h where clip: "sIOGraphicsClip c p (fontSize font) = Some (w, h)"
    using assms(3,4) by (auto simp: sIOGraphicsClip_def Let_def not_le)
  have "unat h = min 16 (unat (sizeHeight (dimensions c)) - unat (pointY p))"
    using clip_bounds(4) [OF clip] assms(5,6) by (simp add: font_def)
  then have "0 < unat h" using assms(4) by (simp add: word_less_nat_alt)
  then have "[0..<unat h] = 0 # [1..<unat h]" by (simp add: upt_conv_Cons)
  moreover have "array_get (fontBaseAddress font) (unat (ucast (0x80 :: UInt8) * sizeHeight (fontSize font) + of_nat 0)) = Inl OutOfBounds"
    by (simp add: array_get_def font_def length_concat_VGAFont)
  ultimately show ?thesis using assms(2) clip by (simp add: IOGraphicsDrawCharacter_def)
qed

end
