(* ===== verification/Arch.thy ===== *)
theory Arch
  imports Console
begin

text \<open>
  The processor's tables and registers, \<^verbatim>\<open>kernel/src/arch/x86_64\<close>: the segment descriptors and the task
  state segment (\<^verbatim>\<open>GDT.c\<close>), the interrupt gates (\<^verbatim>\<open>IDT.c\<close>), the interrupt controller (\<^verbatim>\<open>PIC.c\<close>), processor
  identification (\<^verbatim>\<open>OSCPU.c\<close>), the system call registers (\<^verbatim>\<open>syscall.c\<close>) and the random numbers of
  \<^verbatim>\<open>lib/Rand.c\<close> that rest on them.
\<close>

unbundle bit_operations_syntax

section \<open>State\<close>

text \<open>The symbols whose addresses the linker fixes.\<close>

datatype symbol = SymGlobalDescriptorTable | SymGlobalDescriptorTablePointer | SymTaskStateSegment | SymDoubleFaultStack
  | SymInterruptsDescriptorTable | SymInterruptsDescriptorTablePointer | SymISR nat | SymIRQ nat | SymBootCPU
  | SymSyscallEntry | SymStackTop | SymKernelProcess | SymIdleTask | SymGarbageCollector | SymShellEntry | SymInitTask

record HALGlobalDescriptorTable =
  limitLow :: UInt16
  baseLow :: UInt16
  baseMiddle :: UInt8
  access :: UInt8
  granularity :: UInt8
  baseHigh :: UInt8

record HALGlobalDescriptorTablePointer =
  gdtLimit :: UInt16
  gdtBase :: UInt64

record HALTaskStateSegment =
  reserved0 :: UInt32
  rsp0 :: UInt64
  rsp1 :: UInt64
  rsp2 :: UInt64
  reserved1 :: UInt64
  ist1 :: UInt64
  ist2 :: UInt64
  ist3 :: UInt64
  ist4 :: UInt64
  ist5 :: UInt64
  ist6 :: UInt64
  ist7 :: UInt64
  reserved2 :: UInt64
  reserved3 :: UInt16
  iomapBase :: UInt16

record HALInterruptsDescriptorTableEntry =
  offsetLow :: UInt16
  selector :: UInt16
  ist :: UInt8
  attributes :: UInt8
  offsetMid :: UInt16
  offsetHigh :: UInt32
  reserved :: UInt32

record HALInterruptsDescriptorTablePointer =
  idtLimit :: UInt16
  idtBase :: UInt64

record OSCPUData =
  userStackPointer :: UInt64
  kernelStackPointer :: UInt64
  selfAddress :: UInt64
  features :: UInt64
  vendorID :: "UInt8 list"
  family :: UInt32
  model :: UInt32

text \<open>
  \<open>cpuid\<close>, \<open>timeStamp\<close> and \<open>hardwareRandom\<close> are what the processor answers; the counters say how often
  it was asked. \<open>gdtr\<close>, \<open>idtr\<close> and \<open>taskRegister\<close> are what was loaded last.
\<close>

record arch = console +
  kernelSymbol :: "symbol \<Rightarrow> UInt64"
  cpuid :: "UInt32 \<Rightarrow> UInt32 \<Rightarrow> UInt32 \<times> UInt32 \<times> UInt32 \<times> UInt32"
  timeStamp :: "nat \<Rightarrow> UInt32 \<times> UInt32"
  timeStampReads :: nat
  hardwareRandom :: "nat \<Rightarrow> UInt64 \<times> UInt8"
  hardwareRandomReads :: nat
  msr :: "UInt32 \<Rightarrow> UInt64"
  gHALGlobalDescriptorTable :: "HALGlobalDescriptorTable list"
  gHALGlobalDescriptorTablePointer :: HALGlobalDescriptorTablePointer
  gHALTaskStateSegment :: HALTaskStateSegment
  gdtr :: UInt64
  taskRegister :: UInt16
  gHALInterruptsDescriptorTable :: "HALInterruptsDescriptorTableEntry list"
  gHALInterruptsDescriptorTablePointer :: HALInterruptsDescriptorTablePointer
  idtr :: HALInterruptsDescriptorTablePointer
  gOSBootCPU :: OSCPUData
  sPseudorandState :: UInt64

section \<open>Segment descriptors\<close>

abbreviation kHALGDTEntries :: nat where
  "kHALGDTEntries \<equiv> 7"

abbreviation sizeof_HALTaskStateSegment :: nat where
  "sizeof_HALTaskStateSegment \<equiv> 104"

definition sHALGlobalDescriptorTableSetGate ::
  "nat \<Rightarrow> UInt64 \<Rightarrow> UInt64 \<Rightarrow> UInt8 \<Rightarrow> UInt8 \<Rightarrow> 'a arch_scheme \<Rightarrow> fault + 'a arch_scheme" where
  "sHALGlobalDescriptorTableSetGate number base limit acc gran s =
     bindE (array_set (gHALGlobalDescriptorTable s) number
       \<lparr>limitLow = ucast (limit AND 0xFFFF), baseLow = ucast (base AND 0xFFFF),
        baseMiddle = ucast (drop_bit 16 base AND 0xFF), access = acc,
        granularity = ucast (drop_bit 16 limit AND 0x0F) OR (gran AND 0xF0),
        baseHigh = ucast (drop_bit 24 base AND 0xFF)\<rparr>)
       (\<lambda>table. Inr (s\<lparr>gHALGlobalDescriptorTable := table\<rparr>))"

text \<open>An entry overwritten by an 8-byte store of a word.\<close>

definition descriptor_of_word :: "UInt64 \<Rightarrow> HALGlobalDescriptorTable" where
  "descriptor_of_word w =
     \<lparr>limitLow = ucast w, baseLow = ucast (drop_bit 16 w), baseMiddle = ucast (drop_bit 32 w),
      access = ucast (drop_bit 40 w), granularity = ucast (drop_bit 48 w), baseHigh = ucast (drop_bit 56 w)\<rparr>"

definition sHALTaskStateSegmentWrite :: "nat \<Rightarrow> 'a arch_scheme \<Rightarrow> fault + 'a arch_scheme" where
  "sHALTaskStateSegmentWrite number s =
     (let base = kernelSymbol s SymTaskStateSegment
      in bindE (sHALGlobalDescriptorTableSetGate number base (of_nat sizeof_HALTaskStateSegment) 0x89 0 s) (\<lambda>s.
         bindE (array_set (gHALGlobalDescriptorTable s) (number + 1) (descriptor_of_word (drop_bit 32 base))) (\<lambda>table.
           Inr (s\<lparr>gHALGlobalDescriptorTable := table\<rparr>))))"

definition HALGlobalDescriptorTableInitialize :: "'a arch_scheme \<Rightarrow> fault + 'a arch_scheme" where
  "HALGlobalDescriptorTableInitialize s =
     (let s = s\<lparr>gHALGlobalDescriptorTablePointer :=
                \<lparr>gdtLimit = of_nat (8 * kHALGDTEntries) - 1, gdtBase = kernelSymbol s SymGlobalDescriptorTable\<rparr>\<rparr>
      in bindE (sHALGlobalDescriptorTableSetGate 0 0 0 0 0 s) (\<lambda>s.
         bindE (sHALGlobalDescriptorTableSetGate 1 0 0 0x9A 0x20 s) (\<lambda>s.
         bindE (sHALGlobalDescriptorTableSetGate 2 0 0 0x92 0 s) (\<lambda>s.
         bindE (sHALGlobalDescriptorTableSetGate 3 0 0 0xF2 0 s) (\<lambda>s.
         bindE (sHALGlobalDescriptorTableSetGate 4 0 0 0xFA 0x20 s) (\<lambda>s.
         let s = s\<lparr>gHALTaskStateSegment :=
               \<lparr>reserved0 = 0, rsp0 = 0, rsp1 = 0, rsp2 = 0, reserved1 = 0, ist1 = 0, ist2 = 0, ist3 = 0, ist4 = 0,
                ist5 = 0, ist6 = 0, ist7 = 0, reserved2 = 0, reserved3 = 0, iomapBase = 0\<rparr>\<rparr>;
             s = s\<lparr>gHALTaskStateSegment := (gHALTaskStateSegment s)
               \<lparr>iomapBase := of_nat sizeof_HALTaskStateSegment,
                ist1 := kernelSymbol s SymDoubleFaultStack + 4096\<rparr>\<rparr>
         in bindE (sHALTaskStateSegmentWrite 5 s) (\<lambda>s.
              Inr (s\<lparr>gdtr := kernelSymbol s SymGlobalDescriptorTablePointer, taskRegister := 0x28\<rparr>))))))))"

section \<open>Interrupt gates\<close>

definition sHALInterruptsDescriptorTableSetGate ::
  "nat \<Rightarrow> UInt64 \<Rightarrow> UInt16 \<Rightarrow> UInt8 \<Rightarrow> 'a arch_scheme \<Rightarrow> fault + 'a arch_scheme" where
  "sHALInterruptsDescriptorTableSetGate number handler sel flags s =
     bindE (array_set (gHALInterruptsDescriptorTable s) number
       \<lparr>offsetLow = ucast (handler AND 0xFFFF), selector = sel, ist = 0, attributes = flags,
        offsetMid = ucast (drop_bit 16 handler AND 0xFFFF),
        offsetHigh = ucast (drop_bit 32 handler AND 0xFFFFFFFF), reserved = 0\<rparr>)
       (\<lambda>table. Inr (s\<lparr>gHALInterruptsDescriptorTable := table\<rparr>))"

definition sHALInterruptsDescriptorTableSetIST :: "nat \<Rightarrow> 'a arch_scheme \<Rightarrow> fault + 'a arch_scheme" where
  "sHALInterruptsDescriptorTableSetIST number s =
     bindE (array_get (gHALInterruptsDescriptorTable s) number) (\<lambda>entry.
     bindE (array_set (gHALInterruptsDescriptorTable s) number (entry\<lparr>ist := 1\<rparr>)) (\<lambda>table.
       Inr (s\<lparr>gHALInterruptsDescriptorTable := table\<rparr>)))"

fun sHALInterruptsDescriptorTableSetGates :: "nat list \<Rightarrow> 'a arch_scheme \<Rightarrow> fault + 'a arch_scheme" where
  "sHALInterruptsDescriptorTableSetGates [] s = Inr s"
| "sHALInterruptsDescriptorTableSetGates (n # ns) s =
     bindE (sHALInterruptsDescriptorTableSetGate n (kernelSymbol s (SymISR n)) 0x08 0x8E s)
       (sHALInterruptsDescriptorTableSetGates ns)"

definition HALInterruptsDescriptorTableInitialize :: "'a arch_scheme \<Rightarrow> fault + 'a arch_scheme" where
  "HALInterruptsDescriptorTableInitialize s =
     (let s = s\<lparr>gHALInterruptsDescriptorTablePointer :=
                \<lparr>idtLimit = 16 * 256 - 1, idtBase = kernelSymbol s SymInterruptsDescriptorTable\<rparr>\<rparr>
      in bindE (sHALInterruptsDescriptorTableSetGates [0..<32] s) (\<lambda>s.
         bindE (sHALInterruptsDescriptorTableSetIST 8 s) (\<lambda>s.
         bindE (sHALInterruptsDescriptorTableSetIST 13 s) (\<lambda>s.
         bindE (sHALInterruptsDescriptorTableSetIST 14 s) (\<lambda>s.
         bindE (sHALInterruptsDescriptorTableSetGate 32 (kernelSymbol s (SymIRQ 0)) 0x08 0x8E s) (\<lambda>s.
         bindE (sHALInterruptsDescriptorTableSetGate 33 (kernelSymbol s (SymIRQ 1)) 0x08 0x8E s) (\<lambda>s.
           Inr (s\<lparr>idtr := gHALInterruptsDescriptorTablePointer s\<rparr>))))))))"

section \<open>Interrupt controller\<close>

definition HALLegacyInterruptControllerRemap :: "'a devices_scheme \<Rightarrow> UInt16 \<times> 'a devices_scheme" where
  "HALLegacyInterruptControllerRemap s =
     (let (currentMaster, s) = IOPortRead8 0x21 s;
          (currentSlave, s) = IOPortRead8 0xA1 s;
          s = IOPortWrite8WithWait 0x20 0x11 s;
          s = IOPortWrite8WithWait 0xA0 0x11 s;
          s = IOPortWrite8WithWait 0x21 0x20 s;
          s = IOPortWrite8WithWait 0xA1 0x28 s;
          s = IOPortWrite8WithWait 0x21 0x04 s;
          s = IOPortWrite8WithWait 0xA1 0x02 s;
          s = IOPortWrite8WithWait 0x21 0x01 s;
          s = IOPortWrite8WithWait 0xA1 0x01 s;
          s = IOPortWrite8WithWait 0x21 0xFD s;
          s = IOPortWrite8WithWait 0xA1 0xFF s
      in (push_bit 8 (ucast currentMaster) OR ucast currentSlave, s))"

section \<open>Processor identification\<close>

definition CPUID :: "UInt32 \<Rightarrow> UInt32 \<Rightarrow> 'a arch_scheme \<Rightarrow> UInt32 \<times> UInt32 \<times> UInt32 \<times> UInt32" where
  "CPUID leaf subleaf s = cpuid s leaf subleaf"

definition WRMSR :: "UInt32 \<Rightarrow> UInt64 \<Rightarrow> 'a arch_scheme \<Rightarrow> 'a arch_scheme" where
  "WRMSR register val s =
     (let low = (ucast val :: UInt32); high = (ucast (drop_bit 32 val) :: UInt32)
      in s\<lparr>msr := (msr s)(register := push_bit 32 (ucast high) OR ucast low)\<rparr>)"

definition RDMSR :: "UInt32 \<Rightarrow> 'a arch_scheme \<Rightarrow> UInt64" where
  "RDMSR register s =
     (let low = (ucast (msr s register) :: UInt32); high = (ucast (drop_bit 32 (msr s register)) :: UInt32)
      in push_bit 32 (ucast high) OR ucast low)"

datatype OSCPUFeature = kCPUFeatureFPU | kCPUFeatureTSC | kCPUFeatureMSR | kCPUFeatureAPIC | kCPUFeatureMTRR
  | kCPUFeaturePAE | kCPUFeatureSSE | kCPUFeatureSSE2 | kCPUFeatureSSE3 | kCPUFeatureSSSE3 | kCPUFeatureSSE4_1
  | kCPUFeatureSSE4_2 | kCPUFeatureAVX | kCPUFeatureF16C | kCPUFeatureRDRAND | kCPUFeatureHypervisor

fun OSCPUFeatureValue :: "OSCPUFeature \<Rightarrow> UInt64" where
  "OSCPUFeatureValue kCPUFeatureFPU = push_bit 0 1"
| "OSCPUFeatureValue kCPUFeatureTSC = push_bit 1 1"
| "OSCPUFeatureValue kCPUFeatureMSR = push_bit 2 1"
| "OSCPUFeatureValue kCPUFeatureAPIC = push_bit 3 1"
| "OSCPUFeatureValue kCPUFeatureMTRR = push_bit 4 1"
| "OSCPUFeatureValue kCPUFeaturePAE = push_bit 5 1"
| "OSCPUFeatureValue kCPUFeatureSSE = push_bit 10 1"
| "OSCPUFeatureValue kCPUFeatureSSE2 = push_bit 11 1"
| "OSCPUFeatureValue kCPUFeatureSSE3 = push_bit 12 1"
| "OSCPUFeatureValue kCPUFeatureSSSE3 = push_bit 13 1"
| "OSCPUFeatureValue kCPUFeatureSSE4_1 = push_bit 14 1"
| "OSCPUFeatureValue kCPUFeatureSSE4_2 = push_bit 15 1"
| "OSCPUFeatureValue kCPUFeatureAVX = push_bit 20 1"
| "OSCPUFeatureValue kCPUFeatureF16C = push_bit 21 1"
| "OSCPUFeatureValue kCPUFeatureRDRAND = push_bit 22 1"
| "OSCPUFeatureValue kCPUFeatureHypervisor = push_bit 30 1"

text \<open>The bytes of a word in memory.\<close>

definition word_bytes :: "UInt32 \<Rightarrow> UInt8 list" where
  "word_bytes w = [ucast w, ucast (drop_bit 8 w), ucast (drop_bit 16 w), ucast (drop_bit 24 w)]"

text \<open>The bits of \<^verbatim>\<open>edx\<close> and \<^verbatim>\<open>ecx\<close> that are looked at, in the order of the code.\<close>

definition edx_features :: "(nat \<times> OSCPUFeature) list" where
  "edx_features = [(0, kCPUFeatureFPU), (4, kCPUFeatureTSC), (5, kCPUFeatureMSR), (6, kCPUFeaturePAE),
     (9, kCPUFeatureAPIC), (12, kCPUFeatureMTRR), (25, kCPUFeatureSSE), (26, kCPUFeatureSSE2)]"

definition ecx_features :: "(nat \<times> OSCPUFeature) list" where
  "ecx_features = [(0, kCPUFeatureSSE3), (9, kCPUFeatureSSSE3), (19, kCPUFeatureSSE4_1), (20, kCPUFeatureSSE4_2),
     (28, kCPUFeatureAVX), (29, kCPUFeatureF16C), (30, kCPUFeatureRDRAND), (31, kCPUFeatureHypervisor)]"

fun detect :: "UInt32 \<Rightarrow> (nat \<times> OSCPUFeature) list \<Rightarrow> UInt64 \<Rightarrow> UInt64" where
  "detect register [] fs = fs"
| "detect register ((n, f) # rest) fs =
     detect register rest (if register AND push_bit n 1 \<noteq> 0 then fs OR OSCPUFeatureValue f else fs)"

definition OSCPUInitialize :: "UInt64 \<Rightarrow> 'a arch_scheme \<Rightarrow> 'a arch_scheme" where
  "OSCPUInitialize kernelStackTop s =
     (let s = s\<lparr>gOSBootCPU := (gOSBootCPU s)\<lparr>kernelStackPointer := kernelStackTop, selfAddress := kernelSymbol s SymBootCPU\<rparr>\<rparr>;
          s = WRMSR 0xC0000102 (kernelSymbol s SymBootCPU) s;
          (eax, ebx, ecx, edx) = CPUID 0 0 s;
          s = s\<lparr>gOSBootCPU := (gOSBootCPU s)\<lparr>vendorID := word_bytes ebx @ word_bytes edx @ word_bytes ecx @ [0]\<rparr>\<rparr>;
          (eax, ebx, ecx, edx) = CPUID 1 0 s;
          fam = drop_bit 8 eax AND 0xF;
          mdl = drop_bit 4 eax AND 0xF;
          mdl = (if fam = 6 \<or> fam = 15 then mdl + push_bit 4 (drop_bit 16 eax AND 0xF) else mdl);
          fs = detect ecx ecx_features (detect edx edx_features (features (gOSBootCPU s)))
      in s\<lparr>gOSBootCPU := (gOSBootCPU s)\<lparr>family := fam, model := mdl, features := fs\<rparr>\<rparr>)"

definition OSCPUHasFeature :: "OSCPUFeature \<Rightarrow> 'a arch_scheme \<Rightarrow> bool" where
  "OSCPUHasFeature feature s \<longleftrightarrow> features (gOSBootCPU s) AND OSCPUFeatureValue feature \<noteq> 0"

section \<open>System call registers\<close>

definition OSServicesInitialize :: "'a arch_scheme \<Rightarrow> fault + 'a arch_scheme" where
  "OSServicesInitialize s =
     (let efer = RDMSR 0xC0000080 s;
          s = WRMSR 0xC0000080 (efer OR 1) s;
          star = push_bit 48 0x13 OR push_bit 32 0x08;
          s = WRMSR 0xC0000081 star s;
          s = WRMSR 0xC0000082 (kernelSymbol s SymSyscallEntry) s;
          s = WRMSR 0xC0000084 0x200 s
      in bindE (if kernelStackPointer (gOSBootCPU s) = 0
                then bindE (VMPhysicalMemoryAllocatePage s) (\<lambda>(physicalStackPointer, s).
                       Inr (s\<lparr>gOSBootCPU := (gOSBootCPU s)\<lparr>kernelStackPointer := physicalStackPointer + HHDM_OFFSET + 4096\<rparr>\<rparr>))
                else Inr s) (\<lambda>s.
         let s = WRMSR 0xC0000101 (kernelSymbol s SymBootCPU) s
         in Inr (WRMSR 0xC0000102 (kernelSymbol s SymBootCPU) s)))"

section \<open>Random numbers\<close>

definition RDTSC :: "'a arch_scheme \<Rightarrow> UInt64 \<times> 'a arch_scheme" where
  "RDTSC s = (let (lo, hi) = timeStamp s (timeStampReads s)
     in (push_bit 32 (ucast hi) OR ucast lo, s\<lparr>timeStampReads := timeStampReads s + 1\<rparr>))"

abbreviation BOOTINFO_MAGIC :: UInt64 where
  "BOOTINFO_MAGIC \<equiv> 0x7465726D"

definition RandInitialize :: "'a arch_scheme \<Rightarrow> 'a arch_scheme" where
  "RandInitialize s =
     (let (t, s) = RDTSC s; s = s\<lparr>sPseudorandState := t\<rparr>
      in if sPseudorandState s = 0 then s\<lparr>sPseudorandState := BOOTINFO_MAGIC\<rparr> else s)"

definition RandXorshift :: "'a arch_scheme \<Rightarrow> UInt64 \<times> 'a arch_scheme" where
  "RandXorshift s =
     (let x = sPseudorandState s;
          x = x XOR push_bit 13 x;
          x = x XOR drop_bit 7 x;
          x = x XOR push_bit 17 x
      in (x, s\<lparr>sPseudorandState := x\<rparr>))"

definition RandHardware :: "'a arch_scheme \<Rightarrow> (UInt64 \<times> bool) \<times> 'a arch_scheme" where
  "RandHardware s = (let (v, ok) = hardwareRandom s (hardwareRandomReads s)
     in ((v, ok \<noteq> 0), s\<lparr>hardwareRandomReads := hardwareRandomReads s + 1\<rparr>))"

definition Rand :: "'a arch_scheme \<Rightarrow> UInt64 \<times> 'a arch_scheme" where
  "Rand s =
     (if OSCPUHasFeature kCPUFeatureRDRAND s
      then let ((result, ok), s) = RandHardware s in if ok then (result, s) else RandXorshift s
      else RandXorshift s)"

section \<open>Registers\<close>

lemma split_word:
  fixes v :: UInt64
  shows "push_bit 32 (ucast (ucast (drop_bit 32 v) :: UInt32)) OR ucast (ucast v :: UInt32) = v"
  by (rule bit_word_eqI)
    (auto simp: bit_or_iff bit_push_bit_iff bit_unsigned_iff bit_drop_bit_eq not_less)

lemma WRMSR_eq: "WRMSR r v s = s\<lparr>msr := (msr s)(r := v)\<rparr>"
  by (simp add: WRMSR_def Let_def split_word)

lemma RDMSR_eq: "RDMSR r s = msr s r"
  by (simp add: RDMSR_def Let_def split_word)

section \<open>Descriptors\<close>

text \<open>How the processor reads a segment descriptor, a selector, the two halves of a system descriptor
  and an interrupt gate.\<close>

definition descriptor_present :: "HALGlobalDescriptorTable \<Rightarrow> bool" where
  "descriptor_present d \<longleftrightarrow> bit (access d) 7"

definition descriptor_ring :: "HALGlobalDescriptorTable \<Rightarrow> UInt8" where
  "descriptor_ring d = drop_bit 5 (access d) AND 3"

definition descriptor_code :: "HALGlobalDescriptorTable \<Rightarrow> bool" where
  "descriptor_code d \<longleftrightarrow> bit (access d) 4 \<and> bit (access d) 3"

definition descriptor_data :: "HALGlobalDescriptorTable \<Rightarrow> bool" where
  "descriptor_data d \<longleftrightarrow> bit (access d) 4 \<and> \<not> bit (access d) 3 \<and> bit (access d) 1"

definition descriptor_long :: "HALGlobalDescriptorTable \<Rightarrow> bool" where
  "descriptor_long d \<longleftrightarrow> bit (granularity d) 5"

definition system_base :: "HALGlobalDescriptorTable \<Rightarrow> HALGlobalDescriptorTable \<Rightarrow> UInt64" where
  "system_base d e = ucast (baseLow d) OR push_bit 16 (ucast (baseMiddle d)) OR push_bit 24 (ucast (baseHigh d)) OR
     push_bit 32 (ucast (limitLow e)) OR push_bit 48 (ucast (baseLow e))"

text \<open>The descriptor a selector picks serves code or data of the ring the selector asks for.\<close>

definition selects_code :: "HALGlobalDescriptorTable list \<Rightarrow> UInt64 \<Rightarrow> bool" where
  "selects_code table sel \<longleftrightarrow> (let d = table ! unat (drop_bit 3 sel) in unat (drop_bit 3 sel) < length table \<and>
     descriptor_present d \<and> descriptor_code d \<and> descriptor_long d \<and> ucast (descriptor_ring d) = sel AND 3)"

definition selects_data :: "HALGlobalDescriptorTable list \<Rightarrow> UInt64 \<Rightarrow> bool" where
  "selects_data table sel \<longleftrightarrow> (let d = table ! unat (drop_bit 3 sel) in unat (drop_bit 3 sel) < length table \<and>
     descriptor_present d \<and> descriptor_data d \<and> ucast (descriptor_ring d) = sel AND 3)"

lemma bit_field:
  fixes b :: UInt64
  shows "bit (push_bit k (ucast (ucast (drop_bit k b) :: 'm :: len word)) :: UInt64) n \<longleftrightarrow> k \<le> n \<and> n < 64 \<and> n - k < LENGTH('m) \<and> bit b n"
  by (auto simp: bit_push_bit_iff bit_unsigned_iff bit_drop_bit_eq)

lemma truncate_mask:
  "(ucast (b AND 0xFFFF :: UInt64) :: UInt16) = ucast b" "(ucast (b AND 0xFF :: UInt64) :: UInt8) = ucast b"
  "(ucast (b AND 0xFFFFFFFF :: UInt64) :: UInt32) = ucast b"
proof -
  have m: "(0xFFFF :: UInt64) = mask 16" "(0xFF :: UInt64) = mask 8" "(0xFFFFFFFF :: UInt64) = mask 32"
    by (simp_all add: mask_eq_exp_minus_1)
  show "(ucast (b AND 0xFFFF :: UInt64) :: UInt16) = ucast b" "(ucast (b AND 0xFF :: UInt64) :: UInt8) = ucast b"
    "(ucast (b AND 0xFFFFFFFF :: UInt64) :: UInt32) = ucast b"
    unfolding m by (rule bit_word_eqI; simp add: bit_and_iff bit_unsigned_iff bit_mask_iff)+
qed

lemma system_base_split:
  fixes b :: UInt64
  shows "system_base \<lparr>limitLow = l, baseLow = ucast (b AND 0xFFFF), baseMiddle = ucast (drop_bit 16 b AND 0xFF), access = a,
     granularity = g, baseHigh = ucast (drop_bit 24 b AND 0xFF)\<rparr> (descriptor_of_word (drop_bit 32 b)) = b"
proof (rule bit_word_eqI)
  fix n assume "n < LENGTH(64)"
  then have n: "n < 64" by simp
  have low: "(ucast (ucast b :: UInt16) :: UInt64) = push_bit 0 (ucast (ucast (drop_bit 0 b) :: UInt16))"
    and high: "drop_bit 16 (drop_bit 32 b) = drop_bit 48 b" by simp_all
  show "bit (system_base \<lparr>limitLow = l, baseLow = ucast (b AND 0xFFFF), baseMiddle = ucast (drop_bit 16 b AND 0xFF), access = a,
     granularity = g, baseHigh = ucast (drop_bit 24 b AND 0xFF)\<rparr> (descriptor_of_word (drop_bit 32 b))) n = bit b n"
    unfolding system_base_def descriptor_of_word_def HALGlobalDescriptorTable.simps truncate_mask high low bit_or_iff bit_field
    using n by (cases "bit b n") (simp_all, linarith)
qed

lemma seven: "length table = 7 \<Longrightarrow> \<exists>a b c d e f g. table = [a, b, c, d, e, f, g]"
  by (auto simp: length_Suc_conv eval_nat_numeral)

lemma GDTInitialize_effect:
  assumes "length (gHALGlobalDescriptorTable s) = 7"
  shows "\<exists>t a b. HALGlobalDescriptorTableInitialize s = Inr t \<and> gHALGlobalDescriptorTable t =
      [\<lparr>limitLow = 0, baseLow = 0, baseMiddle = 0, access = 0, granularity = 0, baseHigh = 0\<rparr>,
       \<lparr>limitLow = 0, baseLow = 0, baseMiddle = 0, access = 0x9A, granularity = 0x20, baseHigh = 0\<rparr>,
       \<lparr>limitLow = 0, baseLow = 0, baseMiddle = 0, access = 0x92, granularity = 0, baseHigh = 0\<rparr>,
       \<lparr>limitLow = 0, baseLow = 0, baseMiddle = 0, access = 0xF2, granularity = 0, baseHigh = 0\<rparr>,
       \<lparr>limitLow = 0, baseLow = 0, baseMiddle = 0, access = 0xFA, granularity = 0x20, baseHigh = 0\<rparr>, a, b] \<and>
     access a = 0x89 \<and> limitLow a = 104 \<and> system_base a b = kernelSymbol s SymTaskStateSegment \<and>
     taskRegister t = 0x28 \<and> gdtr t = kernelSymbol s SymGlobalDescriptorTablePointer \<and>
     ist1 (gHALTaskStateSegment t) = kernelSymbol s SymDoubleFaultStack + 4096 \<and> kernelSymbol t = kernelSymbol s \<and> gOSBootCPU t = gOSBootCPU s"
proof -
  obtain a b c d e f g where table: "gHALGlobalDescriptorTable s = [a, b, c, d, e, f, g]" using seven [OF assms] by blast
  show ?thesis
    by (simp add: HALGlobalDescriptorTableInitialize_def sHALGlobalDescriptorTableSetGate_def sHALTaskStateSegmentWrite_def
        table array_set_def Let_def system_base_split)
qed


section \<open>Gates\<close>

definition interrupt_gate :: "UInt64 \<Rightarrow> HALInterruptsDescriptorTableEntry" where
  "interrupt_gate h = \<lparr>offsetLow = ucast (h AND 0xFFFF), selector = 0x08, ist = 0, attributes = 0x8E,
     offsetMid = ucast (drop_bit 16 h AND 0xFFFF), offsetHigh = ucast (drop_bit 32 h AND 0xFFFFFFFF), reserved = 0\<rparr>"

definition gate_handler :: "HALInterruptsDescriptorTableEntry \<Rightarrow> UInt64" where
  "gate_handler e = ucast (offsetLow e) OR push_bit 16 (ucast (offsetMid e)) OR push_bit 32 (ucast (offsetHigh e))"

lemma gate_handler_interrupt_gate: "gate_handler (interrupt_gate h) = h"
proof (rule bit_word_eqI)
  fix n assume "n < LENGTH(64)"
  then have n: "n < 64" by simp
  have low: "(ucast (ucast h :: UInt16) :: UInt64) = push_bit 0 (ucast (ucast (drop_bit 0 h) :: UInt16))" by simp
  show "bit (gate_handler (interrupt_gate h)) n = bit h n"
    unfolding gate_handler_def interrupt_gate_def HALInterruptsDescriptorTableEntry.simps truncate_mask low bit_or_iff bit_field
    using n by (cases "bit h n") (simp_all, linarith)
qed

lemma SetGate_eq:
  "number < length (gHALInterruptsDescriptorTable s) \<Longrightarrow> sHALInterruptsDescriptorTableSetGate number h 0x08 0x8E s =
    Inr (s\<lparr>gHALInterruptsDescriptorTable := (gHALInterruptsDescriptorTable s)[number := interrupt_gate h]\<rparr>)"
  by (simp add: sHALInterruptsDescriptorTableSetGate_def array_set_def interrupt_gate_def)

lemma SetGates_effect:
  assumes "\<forall>n \<in> set ns. n < length (gHALInterruptsDescriptorTable s)"
  shows "\<exists>table. sHALInterruptsDescriptorTableSetGates ns s = Inr (s\<lparr>gHALInterruptsDescriptorTable := table\<rparr>) \<and>
    length table = length (gHALInterruptsDescriptorTable s) \<and>
    (\<forall>i < length table. table ! i = (if i \<in> set ns then interrupt_gate (kernelSymbol s (SymISR i)) else gHALInterruptsDescriptorTable s ! i))"
  using assms
proof (induction ns arbitrary: s)
  case Nil
  then show ?case by (intro exI [of _ "gHALInterruptsDescriptorTable s"]) simp
next
  case (Cons n ns)
  let ?s = "s\<lparr>gHALInterruptsDescriptorTable := (gHALInterruptsDescriptorTable s)[n := interrupt_gate (kernelSymbol s (SymISR n))]\<rparr>"
  have "\<forall>n \<in> set ns. n < length (gHALInterruptsDescriptorTable ?s)" using Cons.prems by simp
  from Cons.IH [OF this] obtain table where t: "sHALInterruptsDescriptorTableSetGates ns ?s = Inr (?s\<lparr>gHALInterruptsDescriptorTable := table\<rparr>)"
    "length table = length (gHALInterruptsDescriptorTable ?s)"
    "\<forall>i < length table. table ! i = (if i \<in> set ns then interrupt_gate (kernelSymbol ?s (SymISR i)) else gHALInterruptsDescriptorTable ?s ! i)"
    by blast
  then show ?case using Cons.prems by (intro exI [of _ table]) (auto simp: SetGate_eq nth_list_update)
qed

lemma SetIST_eq:
  "number < length (gHALInterruptsDescriptorTable s) \<Longrightarrow> sHALInterruptsDescriptorTableSetIST number s =
    Inr (s\<lparr>gHALInterruptsDescriptorTable := (gHALInterruptsDescriptorTable s)
      [number := (gHALInterruptsDescriptorTable s ! number)\<lparr>ist := 1\<rparr>]\<rparr>)"
  by (simp add: sHALInterruptsDescriptorTableSetIST_def array_set_def array_get_def)

lemma IDTInitialize_effect:
  assumes "length (gHALInterruptsDescriptorTable s) = 256"
  shows "\<exists>t. HALInterruptsDescriptorTableInitialize s = Inr t \<and> idtr t = \<lparr>idtLimit = 0xFFF, idtBase = kernelSymbol s SymInterruptsDescriptorTable\<rparr> \<and>
    length (gHALInterruptsDescriptorTable t) = 256 \<and>
    (\<forall>n < 256. gHALInterruptsDescriptorTable t ! n =
      (if n < 32 then (interrupt_gate (kernelSymbol s (SymISR n)))\<lparr>ist := if n \<in> {8, 13, 14} then 1 else 0\<rparr>
       else if n < 34 then interrupt_gate (kernelSymbol s (SymIRQ (n - 32))) else gHALInterruptsDescriptorTable s ! n))"
proof -
  let ?p = "\<lparr>idtLimit = 16 * 256 - 1, idtBase = kernelSymbol s SymInterruptsDescriptorTable\<rparr>"
  let ?s = "s\<lparr>gHALInterruptsDescriptorTablePointer := ?p\<rparr>"
  define ns :: "nat list" where "ns = [0..<32]"
  have ns: "set ns = {0..<32}" by (simp add: ns_def)
  have "\<forall>n \<in> set ns. n < length (gHALInterruptsDescriptorTable ?s)" using assms ns by simp
  from SetGates_effect [OF this] obtain table where
    t: "sHALInterruptsDescriptorTableSetGates ns ?s = Inr (?s\<lparr>gHALInterruptsDescriptorTable := table\<rparr>)" "length table = 256"
    "\<And>i. i < 256 \<Longrightarrow> table ! i = (if i < 32 then interrupt_gate (kernelSymbol s (SymISR i)) else gHALInterruptsDescriptorTable s ! i)"
    using assms by (auto simp: ns)
  let ?one = "\<lambda>n. (interrupt_gate (kernelSymbol s (SymISR n)))\<lparr>ist := 1\<rparr>"
  let ?t = "table[8 := ?one 8, 13 := ?one 13, 14 := ?one 14, 32 := interrupt_gate (kernelSymbol s (SymIRQ 0)),
    33 := interrupt_gate (kernelSymbol s (SymIRQ 1))]"
  have "HALInterruptsDescriptorTableInitialize s = Inr (?s\<lparr>gHALInterruptsDescriptorTable := ?t, idtr := ?p\<rparr>)"
    unfolding HALInterruptsDescriptorTableInitialize_def Let_def ns_def [symmetric] t(1) bindE_Inr
    by (simp add: SetIST_eq SetGate_eq t(2,3))
  moreover have "?t ! n = (if n < 32 then (interrupt_gate (kernelSymbol s (SymISR n)))\<lparr>ist := if n \<in> {8, 13, 14} then 1 else 0\<rparr>
       else if n < 34 then interrupt_gate (kernelSymbol s (SymIRQ (n - 32))) else gHALInterruptsDescriptorTable s ! n)" if "n < 256" for n
  proof -
    have ist0: "(interrupt_gate h)\<lparr>ist := 0\<rparr> = interrupt_gate h" for h by (simp add: interrupt_gate_def)
    consider "n = 8" | "n = 13" | "n = 14" | "n = 32" | "n = 33" | "n \<notin> {8, 13, 14, 32, 33}" by blast
    then show ?thesis
    proof cases
      case 6
      then have "\<not> n < 32 \<Longrightarrow> \<not> n < 34" by simp
      then show ?thesis using 6 that t(3) [OF that] ist0 by simp
    qed (simp_all add: t(2))
  qed
  ultimately show ?thesis using t(2) by simp
qed


section \<open>Features\<close>

fun feature_bit :: "OSCPUFeature \<Rightarrow> nat" where
  "feature_bit kCPUFeatureFPU = 0" | "feature_bit kCPUFeatureTSC = 1" | "feature_bit kCPUFeatureMSR = 2"
| "feature_bit kCPUFeatureAPIC = 3" | "feature_bit kCPUFeatureMTRR = 4" | "feature_bit kCPUFeaturePAE = 5"
| "feature_bit kCPUFeatureSSE = 10" | "feature_bit kCPUFeatureSSE2 = 11" | "feature_bit kCPUFeatureSSE3 = 12"
| "feature_bit kCPUFeatureSSSE3 = 13" | "feature_bit kCPUFeatureSSE4_1 = 14" | "feature_bit kCPUFeatureSSE4_2 = 15"
| "feature_bit kCPUFeatureAVX = 20" | "feature_bit kCPUFeatureF16C = 21" | "feature_bit kCPUFeatureRDRAND = 22"
| "feature_bit kCPUFeatureHypervisor = 30"

lemma feature_value: "OSCPUFeatureValue f = push_bit (feature_bit f) 1"
  by (cases f) simp_all

lemma feature_bit_inject: "feature_bit f = feature_bit g \<longleftrightarrow> f = g"
  by (cases f; cases g) simp_all

lemma feature_bit_below: "feature_bit f < 64"
  by (cases f) simp_all

lemma detect_bit:
  "bit (detect r fs w) (feature_bit f) \<longleftrightarrow> bit w (feature_bit f) \<or> (\<exists>n. (n, f) \<in> set fs \<and> bit r n)"
proof (induction r fs w rule: detect.induct)
  case (2 r n g rest w)
  have "bit (w OR OSCPUFeatureValue g) (feature_bit f) \<longleftrightarrow> bit w (feature_bit f) \<or> f = g"
    using feature_bit_below [of f] feature_bit_inject [of f g]
    unfolding feature_value by (auto simp: bit_or_iff bit_push_bit_iff bit_1_iff simp del: push_bit_of_1)
  then show ?case using 2 by (auto simp: bit_iff_and_push_bit_not_eq_0)
qed simp

lemma HasFeature_bit: "OSCPUHasFeature f s \<longleftrightarrow> bit (features (gOSBootCPU s)) (feature_bit f)"
  unfolding OSCPUHasFeature_def feature_value bit_iff_and_push_bit_not_eq_0 ..

section \<open>The generator\<close>

lemma shift_fixpoint:
  fixes x :: "'a :: len word"
  assumes "0 < n"
  shows "push_bit n x = x \<Longrightarrow> x = 0" "drop_bit n x = x \<Longrightarrow> x = 0"
proof -
  assume p: "push_bit n x = x"
  have "push_bit (n * j) x = x" for j
  proof (induction j)
    case (Suc j)
    have "push_bit (n * Suc j) x = push_bit n (push_bit (n * j) x)" by (simp add: push_bit_push_bit)
    then show ?case using Suc p by simp
  qed simp
  moreover have "push_bit (n * LENGTH('a)) x = 0" using assms by (intro bit_word_eqI) (auto simp: bit_push_bit_iff)
  ultimately show "x = 0" by metis
next
  assume p: "drop_bit n x = x"
  have "drop_bit (n * j) x = x" for j
  proof (induction j)
    case (Suc j)
    have "drop_bit (n * Suc j) x = drop_bit n (drop_bit (n * j) x)" by (simp add: drop_bit_drop_bit)
    then show ?case using Suc p by simp
  qed simp
  moreover have "drop_bit (n * LENGTH('a)) x = 0"
  proof (rule bit_word_eqI)
    fix k assume "k < LENGTH('a)"
    have "LENGTH('a) \<le> n * LENGTH('a) + k" using assms by (simp add: trans_le_add1)
    then show "bit (drop_bit (n * LENGTH('a)) x) k = bit 0 k" by (auto simp: bit_drop_bit_eq dest: bit_imp_le_length)
  qed
  ultimately show "x = 0" by metis
qed

lemma xor_shift_nonzero:
  fixes x :: "'a :: len word"
  assumes "x \<noteq> 0" "0 < n"
  shows "x XOR push_bit n x \<noteq> 0" "x XOR drop_bit n x \<noteq> 0"
proof -
  have eq: "a XOR b = 0 \<Longrightarrow> b = a" for a b :: "'a word"
  proof -
    assume "a XOR b = 0"
    then have "a XOR (a XOR b) = a XOR 0" by simp
    then show "b = a" by (simp add: xor.assoc [symmetric])
  qed
  show "x XOR push_bit n x \<noteq> 0" using shift_fixpoint(1) [OF assms(2), of x] eq assms(1) by blast
  show "x XOR drop_bit n x \<noteq> 0" using shift_fixpoint(2) [OF assms(2), of x] eq assms(1) by blast
qed

lemma Xorshift_nonzero:
  assumes "sPseudorandState s \<noteq> 0"
  shows "sPseudorandState (snd (RandXorshift s)) \<noteq> 0 \<and> fst (RandXorshift s) \<noteq> 0"
proof -
  define x where "x = sPseudorandState s"
  define y where "y = x XOR push_bit 13 x"
  define z where "z = y XOR drop_bit 7 y"
  have "RandXorshift s = (z XOR push_bit 17 z, s\<lparr>sPseudorandState := z XOR push_bit 17 z\<rparr>)"
    unfolding RandXorshift_def Let_def x_def y_def z_def ..
  moreover have "y \<noteq> 0" unfolding y_def using assms x_def by (intro xor_shift_nonzero) simp_all
  then have "z \<noteq> 0" unfolding z_def by (intro xor_shift_nonzero) simp_all
  then have "z XOR push_bit 17 z \<noteq> 0" by (intro xor_shift_nonzero) simp_all
  ultimately show ?thesis by simp
qed

lemma Rand_nonzero: "sPseudorandState s \<noteq> 0 \<Longrightarrow> sPseudorandState (snd (Rand s)) \<noteq> 0"
  using Xorshift_nonzero [of s] Xorshift_nonzero [of "s\<lparr>hardwareRandomReads := hardwareRandomReads s + 1\<rparr>"]
  by (auto simp: Rand_def RandHardware_def Let_def split: prod.split)

section \<open>Properties\<close>

text \<open>C33: After the descriptor table and the system call registers are initialised, every selector in use
  picks a descriptor of the right kind and ring: 0x08 and 0x10 for kernel code and data, 0x1b and 0x23 for
  user data and code (the selectors of a spawned user task), and those that \<^verbatim>\<open>syscall\<close> and \<^verbatim>\<open>sysret\<close> form
  from STAR; the task register picks the system descriptor that decodes to the address and size of the
  task state segment; system calls enter at \<^verbatim>\<open>syscall_entry\<close> with interrupts masked.\<close>

theorem GDT_correct:
  assumes "length (gHALGlobalDescriptorTable s) = 7" "kernelStackPointer (gOSBootCPU s) \<noteq> 0"
  shows "\<exists>t. bindE (HALGlobalDescriptorTableInitialize s) OSServicesInitialize = Inr t \<and>
    (let table = gHALGlobalDescriptorTable t; tss = unat (drop_bit 3 (taskRegister t)); star = msr t 0xC0000081 in
      selects_code table 0x08 \<and> selects_data table 0x10 \<and> selects_data table 0x1b \<and> selects_code table 0x23 \<and>
      selects_code table (drop_bit 48 star + 16) \<and> selects_data table (drop_bit 48 star + 8) \<and>
      selects_code table (drop_bit 32 star AND 0xFFFF) \<and> selects_data table ((drop_bit 32 star AND 0xFFFF) + 8) \<and>
      tss = 5 \<and> descriptor_present (table ! tss) \<and> system_base (table ! tss) (table ! (tss + 1)) = kernelSymbol s SymTaskStateSegment \<and>
      unat (limitLow (table ! tss)) = sizeof_HALTaskStateSegment \<and>
      ist1 (gHALTaskStateSegment t) = kernelSymbol s SymDoubleFaultStack + 4096 \<and>
      bit (msr t 0xC0000080) 0 \<and> msr t 0xC0000082 = kernelSymbol s SymSyscallEntry \<and> bit (msr t 0xC0000084) 9)"
proof -
  from GDTInitialize_effect [OF assms(1)] obtain t a b where t: "HALGlobalDescriptorTableInitialize s = Inr t"
    "gHALGlobalDescriptorTable t =
      [\<lparr>limitLow = 0, baseLow = 0, baseMiddle = 0, access = 0, granularity = 0, baseHigh = 0\<rparr>,
       \<lparr>limitLow = 0, baseLow = 0, baseMiddle = 0, access = 0x9A, granularity = 0x20, baseHigh = 0\<rparr>,
       \<lparr>limitLow = 0, baseLow = 0, baseMiddle = 0, access = 0x92, granularity = 0, baseHigh = 0\<rparr>,
       \<lparr>limitLow = 0, baseLow = 0, baseMiddle = 0, access = 0xF2, granularity = 0, baseHigh = 0\<rparr>,
       \<lparr>limitLow = 0, baseLow = 0, baseMiddle = 0, access = 0xFA, granularity = 0x20, baseHigh = 0\<rparr>, a, b]"
    "access a = 0x89" "limitLow a = 104" "system_base a b = kernelSymbol s SymTaskStateSegment" "taskRegister t = 0x28"
    "ist1 (gHALTaskStateSegment t) = kernelSymbol s SymDoubleFaultStack + 4096" "kernelSymbol t = kernelSymbol s"
    "gOSBootCPU t = gOSBootCPU s" by blast
  show ?thesis using assms(2)
    by (simp add: t OSServicesInitialize_def WRMSR_eq RDMSR_eq selects_code_def selects_data_def descriptor_present_def
        descriptor_code_def descriptor_data_def descriptor_long_def descriptor_ring_def Let_def bit_or_iff)
qed

text \<open>C34: After the interrupt table is initialised, gate \<open>n\<close> of the 32 processor exceptions leads to the stub
  \<open>isr<n>\<close> and gates 32 and 33 to the stubs of the timer and the keyboard: present, ring 0, kernel code,
  interrupts off; double, protection and page faults switch to the interrupt stack; the other gates are
  as they were, and the processor has loaded the table.\<close>

theorem IDT_correct:
  assumes "length (gHALInterruptsDescriptorTable s) = 256"
  shows "\<exists>t. HALInterruptsDescriptorTableInitialize s = Inr t \<and> idtBase (idtr t) = kernelSymbol s SymInterruptsDescriptorTable \<and>
    unat (idtLimit (idtr t)) = 16 * 256 - 1 \<and>
    (\<forall>n < 256. let e = gHALInterruptsDescriptorTable t ! n in
       if n < 34 then gate_handler e = kernelSymbol s (if n < 32 then SymISR n else SymIRQ (n - 32)) \<and>
         selector e = 0x08 \<and> attributes e = 0x8E \<and> ist e = (if n \<in> {8, 13, 14} then 1 else 0)
       else e = gHALInterruptsDescriptorTable s ! n)"
proof -
  from IDTInitialize_effect [OF assms] obtain t where t: "HALInterruptsDescriptorTableInitialize s = Inr t"
    "idtr t = \<lparr>idtLimit = 0xFFF, idtBase = kernelSymbol s SymInterruptsDescriptorTable\<rparr>"
    "\<And>n. n < 256 \<Longrightarrow> gHALInterruptsDescriptorTable t ! n =
      (if n < 32 then (interrupt_gate (kernelSymbol s (SymISR n)))\<lparr>ist := if n \<in> {8, 13, 14} then 1 else 0\<rparr>
       else if n < 34 then interrupt_gate (kernelSymbol s (SymIRQ (n - 32))) else gHALInterruptsDescriptorTable s ! n)"
    by blast
  have h: "gate_handler (e\<lparr>ist := x\<rparr>) = gate_handler e" "selector (interrupt_gate h) = 0x08" "attributes (interrupt_gate h) = 0x8E"
    "ist (interrupt_gate h) = 0" for e x h
    by (simp_all add: gate_handler_def interrupt_gate_def)
  have "let e = gHALInterruptsDescriptorTable t ! n in
       if n < 34 then gate_handler e = kernelSymbol s (if n < 32 then SymISR n else SymIRQ (n - 32)) \<and>
         selector e = 0x08 \<and> attributes e = 0x8E \<and> ist e = (if n \<in> {8, 13, 14} then 1 else 0)
       else e = gHALInterruptsDescriptorTable s ! n" if "n < 256" for n
    unfolding t(3) [OF that] Let_def
    by (cases "n < 32"; cases "n < 34") (simp_all add: gate_handler_interrupt_gate h)
  then show ?thesis using t(1,2) by simp
qed

text \<open>Processor identification records exactly the features the processor reports: a feature is present
  afterwards just when the bit that stands for it in leaf 1 of \<^verbatim>\<open>cpuid\<close> is set, and the vendor string is the
  twelve bytes of leaf 0 in the order EBX, EDX, ECX, terminated.\<close>

theorem OSCPUInitialize_correct:
  assumes "features (gOSBootCPU s) = 0" "cpuid s 1 0 = (eax, ebx, ecx, edx)" "cpuid s 0 0 = (a, b, c, d)"
  shows "(OSCPUHasFeature f (OSCPUInitialize stack s) \<longleftrightarrow>
      (\<exists>n. (n, f) \<in> set edx_features \<and> bit edx n \<or> (n, f) \<in> set ecx_features \<and> bit ecx n)) \<and>
    vendorID (gOSBootCPU (OSCPUInitialize stack s)) = word_bytes b @ word_bytes d @ word_bytes c @ [0]"
  using assms by (auto simp: HasFeature_bit OSCPUInitialize_def WRMSR_eq CPUID_def Let_def detect_bit)

text \<open>The random number generator never gets stuck at zero, the fixed point of its shifts: after
  initialisation the state stays nonzero through any number of calls, whatever the time stamp counter and
  the hardware generator answer.\<close>

theorem Rand_never_stuck:
  "sPseudorandState (((\<lambda>s. snd (Rand s)) ^^ n) (RandInitialize s)) \<noteq> 0"
proof (induction n)
  case 0
  then show ?case by (simp add: RandInitialize_def RDTSC_def Let_def split: prod.split)
next
  case (Suc n)
  then show ?case using Rand_nonzero by simp
qed

definition empty_gate :: HALInterruptsDescriptorTableEntry where
  "empty_gate = \<lparr>offsetLow = 0, selector = 0, ist = 0, attributes = 0, offsetMid = 0, offsetHigh = 0, reserved = 0\<rparr>"

definition empty_tss :: HALTaskStateSegment where
  "empty_tss = \<lparr>reserved0 = 0, rsp0 = 0, rsp1 = 0, rsp2 = 0, reserved1 = 0, ist1 = 0, ist2 = 0, ist3 = 0, ist4 = 0,
     ist5 = 0, ist6 = 0, ist7 = 0, reserved2 = 0, reserved3 = 0, iomapBase = 0\<rparr>"

definition small_arch :: arch where
  "small_arch = console.extend small_console
     (arch.fields (\<lambda>s. if s = SymKernelProcess then 0xFFFFFFFF80200000 else 0xFFFFFFFF80100000)
        (\<lambda>leaf sub. if leaf = 0 then (1, 0x756E6547, 0x6C65746E, 0x49656E69) else (0x000906EA, 0, 0x40000000, 0x21))
        (\<lambda>_. (0, 0)) 0 (\<lambda>_. (0, 0)) 0 (\<lambda>_. 0) (replicate 7 (descriptor_of_word 0)) \<lparr>gdtLimit = 0, gdtBase = 0\<rparr> empty_tss 0 0
        (replicate 256 empty_gate) \<lparr>idtLimit = 0, idtBase = 0\<rparr> \<lparr>idtLimit = 0, idtBase = 0\<rparr>
        \<lparr>userStackPointer = 0, kernelStackPointer = 0x1000, selfAddress = 0, features = 0, vendorID = replicate 13 0,
         family = 0, model = 0\<rparr> 0)"

lemma GDT_correct_witness:
  "\<exists>t. bindE (HALGlobalDescriptorTableInitialize small_arch) OSServicesInitialize = Inr t \<and> selects_code (gHALGlobalDescriptorTable t) 0x23"
proof -
  have "length (gHALGlobalDescriptorTable small_arch) = 7" "kernelStackPointer (gOSBootCPU small_arch) \<noteq> 0"
    by (simp_all add: small_arch_def console.defs arch.defs)
  from GDT_correct [OF this] show ?thesis by (auto simp: Let_def)
qed

lemma IDT_correct_witness:
  "\<exists>t. HALInterruptsDescriptorTableInitialize small_arch = Inr t \<and> gate_handler (gHALInterruptsDescriptorTable t ! 33) = kernelSymbol small_arch (SymIRQ 1)"
proof -
  have "length (gHALInterruptsDescriptorTable small_arch) = 256"
    by (simp add: small_arch_def console.defs arch.defs)
  from IDT_correct [OF this] obtain t where t: "HALInterruptsDescriptorTableInitialize small_arch = Inr t"
    "\<And>n. n < 256 \<Longrightarrow> let e = gHALInterruptsDescriptorTable t ! n in
       if n < 34 then gate_handler e = kernelSymbol small_arch (if n < 32 then SymISR n else SymIRQ (n - 32)) \<and>
         selector e = 0x08 \<and> attributes e = 0x8E \<and> ist e = (if n \<in> {8, 13, 14} then 1 else 0)
       else e = gHALInterruptsDescriptorTable small_arch ! n" by blast
  from t(2) [of 33] t(1) show ?thesis by (simp add: Let_def)
qed

lemma OSCPUInitialize_correct_witness:
  "OSCPUHasFeature kCPUFeatureRDRAND (OSCPUInitialize 0 small_arch) \<and>
   vendorID (gOSBootCPU (OSCPUInitialize 0 small_arch)) = word_bytes 0x756E6547 @ word_bytes 0x49656E69 @ word_bytes 0x6C65746E @ [0]"
proof -
  have "features (gOSBootCPU small_arch) = 0" "cpuid small_arch 1 0 = (0x000906EA, 0, 0x40000000, 0x21)"
    "cpuid small_arch 0 0 = (1, 0x756E6547, 0x6C65746E, 0x49656E69)"
    by (simp_all add: small_arch_def console.defs arch.defs)
  from OSCPUInitialize_correct [OF this, of kCPUFeatureRDRAND 0] show ?thesis
    by (simp add: edx_features_def ecx_features_def)
qed

end
