(* ===== verification/Scheduler.thy ===== *)
theory Scheduler
  imports Arch
begin

text \<open>
  The scheduler, \<^verbatim>\<open>kernel/src/OS/OSScheduler.c\<close>, with the timer interrupt that drives it (\<^verbatim>\<open>IOTimer.c\<close>,
  \<^verbatim>\<open>interrupts.c\<close>). Tasks and processes are stores indexed by address; the tasks form a ring through
  their \<^verbatim>\<open>next\<close> pointers. The operations are shown to refine a round-robin queue.
\<close>

unbundle bit_operations_syntax

section \<open>State\<close>

datatype OSProcessState = kOSProcessStateDead | kOSProcessStateRunning | kOSProcessStateReady
  | kOSProcessStateBlocked | kOSProcessStateSleeping

record OSProcess =
  processId :: UInt64
  processState :: OSProcessState
  physicalPML4 :: UInt64
  processParent :: UInt64
  processName :: "UInt8 list"
  heapStartPointer :: UInt64
  heapCurrentPointer :: UInt64

record OSTask =
  stackPointer :: UInt64
  nextTask :: UInt64
  taskId :: UInt32
  sleepTicks :: UInt32
  taskState :: OSProcessState
  kernelStackTop :: UInt64
  kernelStackBase :: UInt64
  taskProcess :: UInt64
  waitingForProcess :: Int32

type_synonym task_store = "UInt64 \<Rightarrow> OSTask"

record scheduler = arch +
  tasks :: task_store
  processes :: "UInt64 \<Rightarrow> OSProcess"
  gOSSchedulerCurrentTask :: UInt64
  gOSSchedulerNextProcessID :: UInt32
  sOSSchedulerLock :: OSSpinlock
  sOSSchedulerGarbageCollectorTask :: UInt64

abbreviation sizeof_OSTask :: UInt64 where
  "sizeof_OSTask \<equiv> 64"

abbreviation sizeof_OSProcess :: UInt64 where
  "sizeof_OSProcess \<equiv> 80"

definition zero_task :: OSTask where
  "zero_task = \<lparr>stackPointer = 0, nextTask = 0, taskId = 0, sleepTicks = 0, taskState = kOSProcessStateDead,
     kernelStackTop = 0, kernelStackBase = 0, taskProcess = 0, waitingForProcess = 0\<rparr>"

definition zero_process :: OSProcess where
  "zero_process = \<lparr>processId = 0, processState = kOSProcessStateDead, physicalPML4 = 0, processParent = 0,
     processName = replicate 32 0, heapStartPointer = 0, heapCurrentPointer = 0\<rparr>"

abbreviation current_task :: "'a scheduler_scheme \<Rightarrow> OSTask" where
  "current_task s \<equiv> tasks s (gOSSchedulerCurrentTask s)"

definition update_task :: "UInt64 \<Rightarrow> (OSTask \<Rightarrow> OSTask) \<Rightarrow> 'a scheduler_scheme \<Rightarrow> 'a scheduler_scheme" where
  "update_task a f s = s\<lparr>tasks := (tasks s)(a := f (tasks s a))\<rparr>"

abbreviation with_scheduler_lock where
  "with_scheduler_lock \<equiv> with_spinlock sOSSchedulerLock (\<lambda>l s. s\<lparr>sOSSchedulerLock := l\<rparr>)"

interpretation scheduler_lock: lock_field sOSSchedulerLock "\<lambda>l s. s\<lparr>sOSSchedulerLock := l\<rparr>"
  by unfold_locales simp_all

section \<open>The timer interrupt\<close>

text \<open>One pass over the ring that counts the sleepers down.\<close>

partial_function (option) sOSSchedulerTick :: "task_store \<Rightarrow> UInt64 \<Rightarrow> UInt64 \<Rightarrow> task_store option" where
  "sOSSchedulerTick ts taskIterator start =
     (let t = ts taskIterator;
          ts = (if sleepTicks t > 0 then ts(taskIterator := t\<lparr>sleepTicks := sleepTicks t - 1\<rparr>) else ts);
          taskIterator = nextTask t
      in if taskIterator \<noteq> start then sOSSchedulerTick ts taskIterator start else Some ts)"

partial_function (option) sOSSchedulerSelect ::
  "task_store \<Rightarrow> UInt64 \<Rightarrow> UInt64 \<Rightarrow> (fault + task_store \<times> UInt64) option" where
  "sOSSchedulerSelect ts current candidate =
     (let t = ts candidate;
          t = (if taskState t = kOSProcessStateSleeping \<and> sleepTicks t = 0
               then t\<lparr>taskState := kOSProcessStateRunning\<rparr> else t);
          ts = ts(candidate := t)
      in if taskState t = kOSProcessStateRunning then Some (Inr (ts, candidate))
         else if nextTask t = current
         then if taskState (ts current) = kOSProcessStateRunning then Some (Inr (ts, nextTask t))
              else Some (Inl (Panic ''no running tasks''))
         else sOSSchedulerSelect ts current (nextTask t))"

definition OSSchedulerNext :: "UInt64 \<Rightarrow> 'a scheduler_scheme \<Rightarrow> fault + UInt64 \<times> 'a scheduler_scheme" where
  "OSSchedulerNext currentStackPointer s =
     (let current = gOSSchedulerCurrentTask s
      in if current = 0 then Inr (currentStackPointer, s)
         else bindE (OSSpinlockLock (sOSSchedulerLock s)) (\<lambda>lock.
           let ts = (tasks s)(current := (tasks s current)\<lparr>stackPointer := currentStackPointer\<rparr>)
           in case sOSSchedulerTick ts (nextTask (ts current)) (nextTask (ts current)) of
                None \<Rightarrow> Inl Diverges
              | Some ts \<Rightarrow>
                  let t = ts current;
                      ts = (if sleepTicks t > 0 then ts(current := t\<lparr>sleepTicks := sleepTicks t - 1\<rparr>) else ts)
                  in bindE (returns (sOSSchedulerSelect ts current (nextTask (ts current)))) (\<lambda>(ts, chosen).
                       let s = s\<lparr>tasks := ts, sOSSchedulerLock := lock\<rparr>;
                           newPML4 = physicalPML4 (processes s (taskProcess (ts chosen)));
                           s = (if newPML4 \<noteq> physicalPML4 (processes s (taskProcess (ts current)))
                                then VMLoadCR3 newPML4 s else s);
                           s = s\<lparr>gOSSchedulerCurrentTask := chosen,
                                 gHALTaskStateSegment := (gHALTaskStateSegment s)\<lparr>rsp0 := kernelStackTop (ts chosen)\<rparr>,
                                 gOSBootCPU := (gOSBootCPU s)\<lparr>kernelStackPointer := kernelStackTop (ts chosen)\<rparr>,
                                 sOSSchedulerLock := OSSpinlockUnlock lock\<rparr>
                       in Inr (stackPointer (ts chosen), s))))"

definition IOTimerInterruptsHandler :: "UInt64 \<Rightarrow> 'a scheduler_scheme \<Rightarrow> fault + UInt64 \<times> 'a scheduler_scheme" where
  "IOTimerInterruptsHandler registers s = OSSchedulerNext registers (s\<lparr>sIOTimerTicks := sIOTimerTicks s + 1\<rparr>)"

text \<open>The interrupt handler: the registers' address, the interrupt's number; the result is the stack to resume.\<close>

definition irq_handler_c :: "UInt64 \<Rightarrow> UInt64 \<Rightarrow> 'a scheduler_scheme \<Rightarrow> fault + UInt64 \<times> 'a scheduler_scheme" where
  "irq_handler_c regs interruptNumber s =
     bindE (if interruptNumber = 32 then IOTimerInterruptsHandler regs s
            else if interruptNumber = 33 then bindE (IOKeyboardInterruptsHandler s) (\<lambda>s. Inr (regs, s))
            else Inr (regs, s))
       (\<lambda>(rsp, s). Inr (rsp, IOPortWrite8 0x20 0x20 s))"

section \<open>Operations of tasks\<close>

text \<open>
  \<open>interrupt32\<close> is \<^verbatim>\<open>int $32\<close>: the timer handler switches to another task, and the operation goes on when
  the scheduler comes back to this one; what runs in between is not in this code.
\<close>

definition OSSchedulerYield ::
  "('a scheduler_scheme \<Rightarrow> fault + 'a scheduler_scheme) \<Rightarrow> UInt64 \<Rightarrow> 'a scheduler_scheme \<Rightarrow> fault + 'a scheduler_scheme" where
  "OSSchedulerYield interrupt32 ticks s =
     interrupt32 (update_task (gOSSchedulerCurrentTask s)
       (\<lambda>t. t\<lparr>sleepTicks := ucast ticks, taskState := kOSProcessStateSleeping\<rparr>) s)"

definition OSSchedulerBlock ::
  "('a scheduler_scheme \<Rightarrow> fault + 'a scheduler_scheme) \<Rightarrow> UInt32 \<Rightarrow> 'a scheduler_scheme \<Rightarrow> fault + 'a scheduler_scheme" where
  "OSSchedulerBlock interrupt32 processID s =
     interrupt32 (update_task (gOSSchedulerCurrentTask s)
       (\<lambda>t. t\<lparr>taskState := kOSProcessStateBlocked, waitingForProcess := processID\<rparr>) s)"

partial_function (option) sOSSchedulerWake :: "task_store \<Rightarrow> UInt32 \<Rightarrow> UInt64 \<Rightarrow> UInt64 \<Rightarrow> task_store option" where
  "sOSSchedulerWake ts processID iteratorTask current =
     (let t = ts iteratorTask;
          ts = (if taskState t = kOSProcessStateBlocked \<and> waitingForProcess t = processID
                then ts(iteratorTask := t\<lparr>taskState := kOSProcessStateRunning, waitingForProcess := - 1\<rparr>) else ts);
          iteratorTask = nextTask t
      in if iteratorTask \<noteq> current then sOSSchedulerWake ts processID iteratorTask current else Some ts)"

definition OSSchedulerWakeup :: "UInt32 \<Rightarrow> 'a scheduler_scheme \<Rightarrow> fault + unit \<times> 'a scheduler_scheme" where
  "OSSchedulerWakeup processID = with_scheduler_lock (\<lambda>s.
     case sOSSchedulerWake (tasks s) processID (gOSSchedulerCurrentTask s) (gOSSchedulerCurrentTask s) of
       None \<Rightarrow> Inl Diverges
     | Some ts \<Rightarrow> Inr ((), s\<lparr>tasks := ts\<rparr>))"

definition sOSSchedulerPostGarbageCollectorSignal :: "'a scheduler_scheme \<Rightarrow> fault + unit \<times> 'a scheduler_scheme" where
  "sOSSchedulerPostGarbageCollectorSignal s =
     (if sOSSchedulerGarbageCollectorTask s = 0 then Inr ((), s)
      else with_scheduler_lock (\<lambda>s. Inr ((), update_task (sOSSchedulerGarbageCollectorTask s)
             (\<lambda>t. t\<lparr>taskState := kOSProcessStateRunning, sleepTicks := 0\<rparr>) s)) s)"

definition OSSchedulerTerminate ::
  "('a scheduler_scheme \<Rightarrow> fault + 'a scheduler_scheme) \<Rightarrow> 'a scheduler_scheme \<Rightarrow> fault + 'a scheduler_scheme" where
  "OSSchedulerTerminate interrupt32 s =
     (let processID = taskId (current_task s);
          s = update_task (gOSSchedulerCurrentTask s) (\<lambda>t. t\<lparr>taskState := kOSProcessStateDead\<rparr>) s
      in bindE (OSSchedulerWakeup processID s) (\<lambda>(_, s).
         bindE (sOSSchedulerPostGarbageCollectorSignal s) (\<lambda>(_, s). interrupt32 s)))"

section \<open>Spawning\<close>

text \<open>\<^verbatim>\<open>*--rsp = v\<close> for the values of a list.\<close>

fun push_all :: "UInt64 list \<Rightarrow> UInt64 \<times> memory \<Rightarrow> UInt64 \<times> memory" where
  "push_all [] m = m"
| "push_all (v # vs) (rsp, m) = push_all vs (rsp - 8, store64 m (rsp - 8) v)"

text \<open>The stack: SS, RSP, RFLAGS, CS, RIP, interrupt number, error code and fifteen registers.\<close>

definition sOSSchedulerFrame :: "UInt64 \<Rightarrow> bool \<Rightarrow> UInt64 \<Rightarrow> UInt64 \<Rightarrow> memory \<Rightarrow> UInt64 \<times> memory" where
  "sOSSchedulerFrame entry isUser fixedUserStackPointer stackTop m =
     (let cs = (if isUser then 0x23 else 0x08);
          ss = (if isUser then 0x1b else 0x10);
          rflags = 0x202;
          targetStackPointer = (if isUser then fixedUserStackPointer else stackTop)
      in push_all ([ss, targetStackPointer, rflags, cs, entry, 0, 0] @ replicate 15 0) (stackTop, m))"

abbreviation kOSSchedulerStackSize :: UInt64 where
  "kOSSchedulerStackSize \<equiv> 16384"

definition OSSchedulerSpawn ::
  "('a scheduler_scheme \<Rightarrow> fault + 'a scheduler_scheme) \<Rightarrow> UInt64 \<Rightarrow> UInt64 \<Rightarrow> bool \<Rightarrow> UInt64 \<Rightarrow>
   'a scheduler_scheme \<Rightarrow> fault + UInt64 \<times> 'a scheduler_scheme" where
  "OSSchedulerSpawn interrupt32 entry owner isUser fixedUserStackPointer s =
     bindE (VMHeapAllocate sizeof_OSTask s) (\<lambda>(task, s).
       if task = 0 then Inr (0, s)
       else let owner = (if owner = 0 then kernelSymbol s SymKernelProcess else owner)
       in bindE (VMHeapAllocate kOSSchedulerStackSize s) (\<lambda>(stackBaseAddress, s).
          bindE (if stackBaseAddress = 0
                 then bindE (sOSSchedulerPostGarbageCollectorSignal s) (\<lambda>(_, s).
                      bindE (OSSchedulerYield interrupt32 0 s) (VMHeapAllocate kOSSchedulerStackSize))
                 else Inr (stackBaseAddress, s)) (\<lambda>(stackBaseAddress, s).
            if stackBaseAddress = 0 then bindE (VMHeapFree task s) (\<lambda>(_, s). Inr (0, s))
            else
              let (rsp, bytes) = sOSSchedulerFrame entry isUser fixedUserStackPointer
                     (stackBaseAddress + kOSSchedulerStackSize) (heapBytes s);
                  s = s\<lparr>heapBytes := bytes,
                        tasks := (tasks s)(task := (tasks s task)
                          \<lparr>stackPointer := rsp, taskProcess := owner, taskId := ucast (processId (processes s owner)),
                           sleepTicks := 0, kernelStackTop := stackBaseAddress + kOSSchedulerStackSize,
                           kernelStackBase := stackBaseAddress, taskState := kOSProcessStateRunning,
                           waitingForProcess := - 1\<rparr>)\<rparr>
              in with_scheduler_lock (\<lambda>s.
                   let s = update_task task (\<lambda>t. t\<lparr>nextTask := nextTask (current_task s)\<rparr>) s
                   in Inr (task, update_task (gOSSchedulerCurrentTask s) (\<lambda>t. t\<lparr>nextTask := task\<rparr>) s)) s)))"

definition OSSchedulerInitialize ::
  "('a scheduler_scheme \<Rightarrow> fault + 'a scheduler_scheme) \<Rightarrow> 'a scheduler_scheme \<Rightarrow> fault + 'a scheduler_scheme" where
  "OSSchedulerInitialize interrupt32 s =
     (let kernelProcess = kernelSymbol s SymKernelProcess
      in bindE (StringCopy (processName (processes s kernelProcess)) (literal ''kernel'')) (\<lambda>name.
         let s = s\<lparr>processes := (processes s)(kernelProcess := (processes s kernelProcess)
                   \<lparr>processId := 0, processState := kOSProcessStateRunning, physicalPML4 := gVMKernelPML4Physical s,
                    processName := name\<rparr>)\<rparr>
         in bindE (VMHeapAllocate sizeof_OSTask s) (\<lambda>(kernelTask, s).
            if kernelTask = 0 then Inl (Panic ''Failed to initialize scheduler: OOm'')
            else let s = s\<lparr>tasks := (tasks s)(kernelTask := zero_task\<lparr>taskId := 0, taskProcess := kernelProcess,
                           sleepTicks := 0, nextTask := kernelTask, taskState := kOSProcessStateRunning,
                           waitingForProcess := - 1\<rparr>),
                         gOSSchedulerCurrentTask := kernelTask\<rparr>
            in bindE (OSSchedulerSpawn interrupt32 (kernelSymbol s SymIdleTask) kernelProcess False 0 s) (\<lambda>(_, s).
               bindE (OSSchedulerSpawn interrupt32 (kernelSymbol s SymGarbageCollector) kernelProcess False 0 s) (\<lambda>(gc, s).
                 Inr (s\<lparr>sOSSchedulerGarbageCollectorTask := gc\<rparr>))))))"

section \<open>Garbage collection\<close>

text \<open>One pass around the ring, and the collector for a number of passes. A block that has gone back to the
  heap may be handed out again at once, so nothing is known of what a task that was freed reads as: that is the
  parameter \<open>freed\<close>, and what holds of the collector holds for every value of it.\<close>

partial_function (option) sOSSchedulerCollect ::
  "(UInt64 \<Rightarrow> OSTask) \<Rightarrow> UInt64 \<Rightarrow> UInt64 \<Rightarrow> UInt64 \<Rightarrow> 'a scheduler_scheme \<Rightarrow> (fault + 'a scheduler_scheme) option" where
  "sOSSchedulerCollect freed self previousTask candidate s =
     (if candidate = self then Some (Inr s)
      else if taskState (tasks s candidate) = kOSProcessStateDead
      then case bindE (with_scheduler_lock (\<lambda>s. Inr ((), update_task previousTask
                        (\<lambda>t. t\<lparr>nextTask := nextTask (tasks s candidate)\<rparr>) s)) s) (\<lambda>(_, s).
                bindE (if kernelStackBase (tasks s candidate) \<noteq> 0
                       then VMHeapFree (kernelStackBase (tasks s candidate)) s else Inr ((), s)) (\<lambda>(_, s).
                bindE (VMHeapFree candidate s) (\<lambda>(_, s).
                       Inr ((), update_task candidate (\<lambda>_. freed candidate) s)))) of
             Inl e \<Rightarrow> Some (Inl e)
           | Inr (_, s) \<Rightarrow> sOSSchedulerCollect freed self previousTask (nextTask (tasks s previousTask)) s
      else sOSSchedulerCollect freed self candidate (nextTask (tasks s candidate)) s)"

fun OSSchedulerGarbageCollector ::
  "(UInt64 \<Rightarrow> OSTask) \<Rightarrow> ('a scheduler_scheme \<Rightarrow> fault + 'a scheduler_scheme) \<Rightarrow> nat \<Rightarrow> 'a scheduler_scheme \<Rightarrow> fault + 'a scheduler_scheme" where
  "OSSchedulerGarbageCollector freed interrupt32 0 s = Inr s"
| "OSSchedulerGarbageCollector freed interrupt32 (Suc passes) s =
     (let self = gOSSchedulerCurrentTask s
      in bindE (returns (sOSSchedulerCollect freed self self (nextTask (tasks s self)) s)) (\<lambda>s.
         bindE (OSSchedulerYield interrupt32 200 s) (OSSchedulerGarbageCollector freed interrupt32 passes)))"

section \<open>The ring\<close>

text \<open>The tasks met when following the next pointers from one address to another.\<close>

fun path :: "task_store \<Rightarrow> UInt64 \<Rightarrow> UInt64 list \<Rightarrow> UInt64 \<Rightarrow> bool" where
  "path ts x [] y \<longleftrightarrow> x = y"
| "path ts x (a # as) y \<longleftrightarrow> a = x \<and> x \<noteq> 0 \<and> path ts (nextTask (ts x)) as y"

lemma path_append: "path ts x (as @ bs) z \<longleftrightarrow> (\<exists>y. path ts x as y \<and> path ts y bs z)"
  by (induction as arbitrary: x) auto

lemma path_cong:
  "(\<And>a. a \<in> set as \<Longrightarrow> nextTask (ts a) = nextTask (us a)) \<Longrightarrow> path ts x as y = path us x as y"
  by (induction as arbitrary: x) auto

definition ring :: "task_store \<Rightarrow> UInt64 \<Rightarrow> UInt64 list \<Rightarrow> bool" where
  "ring ts current others \<longleftrightarrow> path ts current (current # others) current \<and> distinct (current # others)"

lemma ring_cong:
  assumes "\<And>a. a \<in> set (current # others) \<Longrightarrow> nextTask (ts a) = nextTask (us a)"
  shows "ring ts current others = ring us current others"
proof -
  have "path ts current (current # others) current = path us current (current # others) current"
    by (rule path_cong) (rule assms)
  then show ?thesis unfolding ring_def by (simp only:)
qed

lemma ring_rotate:
  assumes "ring ts current (as @ a # bs)"
  shows "ring ts a (bs @ current # as)"
proof -
  have "path ts current ((current # as) @ a # bs) current" using assms by (simp add: ring_def)
  then obtain y where "path ts current (current # as) y" "path ts y (a # bs) current" by (auto simp only: path_append)
  moreover from this have "y = a" by simp
  ultimately have "path ts a ((a # bs) @ current # as) a" by (auto simp only: path_append)
  then show ?thesis using assms by (auto simp: ring_def)
qed

lemma ring_next: "ring ts current others \<Longrightarrow> nextTask (ts current) = (case others of [] \<Rightarrow> current | a # _ \<Rightarrow> a)"
  by (cases others) (auto simp: ring_def)

section \<open>Counting down and choosing\<close>

definition count_down :: "OSTask \<Rightarrow> OSTask" where
  "count_down t = (if sleepTicks t > 0 then t\<lparr>sleepTicks := sleepTicks t - 1\<rparr> else t)"

lemma unat_pred: "unat (x - 1 :: UInt32) = unat x - 1" if "0 < unat x"
  using that by (subst unat_sub) (simp_all add: word_le_nat_alt)

lemma count_down_simps [simp]:
  "nextTask (count_down t) = nextTask t" "taskState (count_down t) = taskState t" "stackPointer (count_down t) = stackPointer t"
  "taskProcess (count_down t) = taskProcess t" "kernelStackTop (count_down t) = kernelStackTop t"
  "kernelStackBase (count_down t) = kernelStackBase t" "waitingForProcess (count_down t) = waitingForProcess t"
  "taskId (count_down t) = taskId t"
  "unat (sleepTicks (count_down t)) = unat (sleepTicks t) - 1"
  by (simp_all add: count_down_def unat_pred word_less_nat_alt)

lemma Tick_effect:
  assumes "path ts x (x # as) start" "distinct (x # as)" "start \<notin> set as"
  shows "sOSSchedulerTick ts x start = Some (\<lambda>a. if a \<in> set (x # as) then count_down (ts a) else ts a)"
  using assms
proof (induction as arbitrary: ts x)
  case Nil
  then show ?case by (subst sOSSchedulerTick.simps) (auto simp: Let_def count_down_def)
next
  case (Cons b as)
  let ?ts = "ts(x := count_down (ts x))"
  have eq: "(if sleepTicks (ts x) > 0 then ts(x := ts x\<lparr>sleepTicks := sleepTicks (ts x) - 1\<rparr>) else ts) = ?ts"
    by (simp add: count_down_def)
  have b: "nextTask (ts x) = b" "b \<noteq> start" using Cons.prems by auto
  have "path ?ts b (b # as) start = path ts b (b # as) start" by (rule path_cong) simp
  then have p: "path ?ts b (b # as) start" using Cons.prems(1) b by simp
  have "sOSSchedulerTick ts x start = sOSSchedulerTick ?ts b start"
    by (subst sOSSchedulerTick.simps) (simp add: Let_def eq b)
  also have "\<dots> = Some (\<lambda>a. if a \<in> set (b # as) then count_down (?ts a) else ?ts a)"
    by (rule Cons.IH [OF p]) (use Cons.prems(2,3) in auto)
  also have "(\<lambda>a. if a \<in> set (b # as) then count_down (?ts a) else ?ts a)
      = (\<lambda>a. if a \<in> set (x # b # as) then count_down (ts a) else ts a)"
    using Cons.prems(2) by auto
  finally show ?case .
qed

definition ready :: "OSTask \<Rightarrow> bool" where
  "ready t \<longleftrightarrow> taskState t = kOSProcessStateRunning \<or> taskState t = kOSProcessStateSleeping \<and> sleepTicks t = 0"

abbreviation run :: "OSTask \<Rightarrow> OSTask" where
  "run t \<equiv> t\<lparr>taskState := kOSProcessStateRunning\<rparr>"

lemma Select_effect:
  assumes "path ts x (x # as) current" "distinct (x # as)" "current \<notin> set (x # as)"
  shows "sOSSchedulerSelect ts current x = Some
    (case find (\<lambda>a. ready (ts a)) (x # as) of
       Some a \<Rightarrow> Inr (ts(a := run (ts a)), a)
     | None \<Rightarrow> if taskState (ts current) = kOSProcessStateRunning then Inr (ts, current) else Inl (Panic ''no running tasks''))"
  using assms
proof (induction as arbitrary: x)
  case Nil
  then show ?case by (subst sOSSchedulerSelect.simps) (auto simp: Let_def ready_def fun_upd_idem)
next
  case (Cons b as)
  show ?case
  proof (cases "ready (ts x)")
    case True
    then show ?thesis
      by (subst sOSSchedulerSelect.simps) (auto simp: Let_def ready_def fun_upd_idem)
  next
    case False
    have b: "nextTask (ts x) = b" "b \<noteq> current" using Cons.prems by auto
    have IH: "sOSSchedulerSelect ts current b = Some (case find (\<lambda>a. ready (ts a)) (b # as) of
       Some a \<Rightarrow> Inr (ts(a := run (ts a)), a)
     | None \<Rightarrow> if taskState (ts current) = kOSProcessStateRunning then Inr (ts, current) else Inl (Panic ''no running tasks''))"
      by (rule Cons.IH) (use Cons.prems b in auto)
    have "sOSSchedulerSelect ts current x = sOSSchedulerSelect ts current b"
      using False b by (subst sOSSchedulerSelect.simps) (auto simp: Let_def ready_def)
    then show ?thesis using False IH by simp
  qed
qed

section \<open>One timer tick\<close>

definition sched_inv :: "'a scheduler_scheme \<Rightarrow> UInt64 list \<Rightarrow> bool" where
  "sched_inv s others \<longleftrightarrow> ring (tasks s) (gOSSchedulerCurrentTask s) others \<and> lock_free (sOSSchedulerLock s)"

text \<open>The tasks after a tick: the stack pointer of the current task is saved, every task of the ring has
  counted down once and the current one twice.\<close>

definition aged :: "'a scheduler_scheme \<Rightarrow> UInt64 list \<Rightarrow> UInt64 \<Rightarrow> task_store" where
  "aged s others sp = (\<lambda>a. if a = gOSSchedulerCurrentTask s
     then count_down (count_down ((tasks s a)\<lparr>stackPointer := sp\<rparr>))
     else if a \<in> set others then count_down (tasks s a) else tasks s a)"

definition switch_to :: "UInt64 \<Rightarrow> task_store \<Rightarrow> 'a scheduler_scheme \<Rightarrow> 'a scheduler_scheme" where
  "switch_to chosen ts s = s\<lparr>tasks := ts,
     cr3 := (if physicalPML4 (processes s (taskProcess (ts chosen))) \<noteq> physicalPML4 (processes s (taskProcess (ts (gOSSchedulerCurrentTask s))))
             then physicalPML4 (processes s (taskProcess (ts chosen))) else cr3 s),
     gOSSchedulerCurrentTask := chosen,
     gHALTaskStateSegment := (gHALTaskStateSegment s)\<lparr>rsp0 := kernelStackTop (ts chosen)\<rparr>,
     gOSBootCPU := (gOSBootCPU s)\<lparr>kernelStackPointer := kernelStackTop (ts chosen)\<rparr>,
     sOSSchedulerLock := \<lparr>lockValue = 0\<rparr>\<rparr>"

definition elect :: "task_store \<Rightarrow> UInt64 \<Rightarrow> UInt64 list \<Rightarrow> UInt64 option" where
  "elect ts current others =
     (case find (\<lambda>a. ready (ts a)) others of
        Some a \<Rightarrow> Some a
      | None \<Rightarrow> if taskState (ts current) = kOSProcessStateRunning \<or> others = [] \<and> ready (ts current) then Some current else None)"

lemma ring_tick:
  assumes ring: "ring ts current others"
  shows "sOSSchedulerTick ts (nextTask (ts current)) (nextTask (ts current)) =
    Some (\<lambda>a. if a = current \<or> a \<in> set others then count_down (ts a) else ts a)"
proof (cases others)
  case Nil
  with Tick_effect [of ts current "[]" current] ring show ?thesis by (auto simp: ring_def)
next
  case (Cons a as)
  have "ring ts a (as @ current # [])" using ring_rotate [of ts current "[]" a as] ring Cons by simp
  then have "sOSSchedulerTick ts a a = Some (\<lambda>b. if b \<in> set (a # as @ [current]) then count_down (ts b) else ts b)"
    by (intro Tick_effect) (auto simp: ring_def)
  then show ?thesis using ring_next [OF ring] Cons by (auto simp: fun_eq_iff)
qed

lemma ring_select:
  assumes ring: "ring ts current others"
  shows "returns (sOSSchedulerSelect ts current (nextTask (ts current))) =
    (case elect ts current others of Some a \<Rightarrow> Inr (ts(a := run (ts a)), a) | None \<Rightarrow> Inl (Panic ''no running tasks''))"
proof (cases others)
  case Nil
  then have n: "nextTask (ts current) = current" using ring_next [OF ring] by simp
  show ?thesis
    by (subst sOSSchedulerSelect.simps) (auto simp: Let_def Nil n elect_def ready_def fun_upd_idem)
next
  case (Cons a as)
  have "path ts a (a # as) current" "distinct (a # as)" "current \<notin> set (a # as)"
    using ring Cons by (auto simp: ring_def)
  from Select_effect [OF this] show ?thesis
    using ring_next [OF ring] Cons
    by (cases "find (\<lambda>a. ready (ts a)) (a # as)") (simp_all add: elect_def fun_upd_idem)
qed

lemma aged_ring: "ring (aged s others sp) c os \<longleftrightarrow> ring (tasks s) c os"
  by (rule ring_cong) (simp add: aged_def)

lemma Next_effect:
  assumes inv: "sched_inv s others"
  shows "OSSchedulerNext sp s =
    (case elect (aged s others sp) (gOSSchedulerCurrentTask s) others of
       None \<Rightarrow> Inl (Panic ''no running tasks'')
     | Some a \<Rightarrow> Inr (stackPointer (aged s others sp a), switch_to a ((aged s others sp)(a := run (aged s others sp a))) s))"
proof -
  let ?c = "gOSSchedulerCurrentTask s"
  let ?saved = "(tasks s)(?c := (tasks s ?c)\<lparr>stackPointer := sp\<rparr>)"
  have ring: "ring (tasks s) ?c others" and lock: "OSSpinlockLock (sOSSchedulerLock s) = Inr \<lparr>lockValue = 1\<rparr>"
    using inv by (simp_all add: sched_inv_def OSSpinlockLock_def)
  have c: "?c \<noteq> 0" using ring by (simp add: ring_def)
  have "ring ?saved ?c others = ring (tasks s) ?c others" by (rule ring_cong) simp
  then have tick: "sOSSchedulerTick ?saved (nextTask (?saved ?c)) (nextTask (?saved ?c)) =
      Some (\<lambda>a. if a = ?c \<or> a \<in> set others then count_down (?saved a) else ?saved a)"
    using ring_tick ring by blast
  let ?ticked = "\<lambda>a. if a = ?c \<or> a \<in> set others then count_down (?saved a) else ?saved a"
  let ?aged = "aged s others sp"
  have aged: "(if sleepTicks (?ticked ?c) > 0 then ?ticked(?c := (?ticked ?c)\<lparr>sleepTicks := sleepTicks (?ticked ?c) - 1\<rparr>) else ?ticked)
      = ?aged"
    by (auto simp: aged_def fun_eq_iff count_down_def)
  have select: "returns (sOSSchedulerSelect ?aged ?c (nextTask (?aged ?c))) =
      (case elect ?aged ?c others of Some a \<Rightarrow> Inr (?aged(a := run (?aged a)), a) | None \<Rightarrow> Inl (Panic ''no running tasks''))"
    by (rule ring_select) (simp add: aged_ring ring)
  have proc: "taskProcess ((?aged(a := run (?aged a))) b) = taskProcess (?aged b)" for a b by simp
  show ?thesis
    unfolding OSSchedulerNext_def Let_def if_not_P [OF c] lock bindE_Inr tick option.case aged select
    by (cases "elect ?aged ?c others") (simp_all add: switch_to_def VMLoadCR3_def OSSpinlockUnlock_def Let_def)
qed

section \<open>Round robin\<close>

lemma elect_member: "elect ts c others = Some a \<Longrightarrow> a = c \<or> a \<in> set others"
  by (auto simp: elect_def find_Some_iff split: option.splits if_splits)

lemma elect_ready: "elect ts c others = Some a \<Longrightarrow> ready (ts a)"
  by (auto simp: elect_def find_Some_iff ready_def split: option.splits if_splits)

text \<open>How the others stand when \<open>a\<close> becomes the current task.\<close>

definition rotation :: "UInt64 \<Rightarrow> UInt64 list \<Rightarrow> UInt64 \<Rightarrow> UInt64 list" where
  "rotation c others a = (if a = c then others
     else tl (dropWhile (\<lambda>x. x \<noteq> a) others) @ c # takeWhile (\<lambda>x. x \<noteq> a) others)"

lemma rotation_split: "a \<noteq> c \<Longrightarrow> a \<notin> set xs \<Longrightarrow> rotation c (xs @ a # ys) a = ys @ c # xs"
  by (auto simp: rotation_def dropWhile_append takeWhile_append)

lemma set_rotation: "a = c \<or> a \<in> set others \<Longrightarrow> set (a # rotation c others a) = set (c # others)"
proof (cases "a = c")
  case False
  assume "a = c \<or> a \<in> set others"
  then obtain xs ys where "others = xs @ a # ys" "a \<notin> set xs" using False split_list_first by metis
  then show ?thesis using rotation_split [OF False] by auto
qed (simp add: rotation_def)

lemma length_rotation: "a = c \<or> a \<in> set others \<Longrightarrow> length (rotation c others a) = length others"
proof (cases "a = c")
  case False
  assume "a = c \<or> a \<in> set others"
  then obtain xs ys where "others = xs @ a # ys" "a \<notin> set xs" using False split_list_first by metis
  then show ?thesis using rotation_split [OF False] by auto
qed (simp add: rotation_def)

lemma ring_rotation:
  assumes "ring ts c others" "a = c \<or> a \<in> set others"
  shows "ring ts a (rotation c others a)"
proof (cases "a = c")
  case True
  then show ?thesis using assms(1) by (simp add: rotation_def)
next
  case False
  then obtain xs ys where "others = xs @ a # ys" "a \<notin> set xs" using assms(2) split_list_first by metis
  then show ?thesis using rotation_split [OF False] ring_rotate assms(1) by simp
qed

lemma timer_effect:
  assumes inv: "sched_inv s others"
  shows "irq_handler_c sp 32 s =
    (case elect (aged s others sp) (gOSSchedulerCurrentTask s) others of
       None \<Rightarrow> Inl (Panic ''no running tasks'')
     | Some a \<Rightarrow> Inr (stackPointer (aged s others sp a), IOPortWrite8 0x20 0x20
         (switch_to a ((aged s others sp)(a := run (aged s others sp a))) (s\<lparr>sIOTimerTicks := sIOTimerTicks s + 1\<rparr>))))"
proof -
  let ?s = "s\<lparr>sIOTimerTicks := sIOTimerTicks s + 1\<rparr>"
  have "sched_inv ?s others" using inv by (simp add: sched_inv_def)
  moreover have "aged ?s others sp = aged s others sp" by (simp add: aged_def fun_eq_iff)
  ultimately show ?thesis
    using Next_effect [of ?s others sp]
    by (cases "elect (aged s others sp) (gOSSchedulerCurrentTask s) others")
      (simp_all add: irq_handler_c_def IOTimerInterruptsHandler_def)
qed

lemma timer_step:
  assumes inv: "sched_inv s others" and a: "elect (aged s others sp) (gOSSchedulerCurrentTask s) others = Some a"
  shows "\<exists>t. irq_handler_c sp 32 s = Inr (stackPointer (aged s others sp a), t) \<and> gOSSchedulerCurrentTask t = a \<and>
    sched_inv t (rotation (gOSSchedulerCurrentTask s) others a) \<and> tasks t = (aged s others sp)(a := run (aged s others sp a)) \<and>
    processes t = processes s \<and> rsp0 (gHALTaskStateSegment t) = kernelStackTop (tasks s a) \<and>
    kernelStackPointer (gOSBootCPU t) = kernelStackTop (tasks s a) \<and>
    (cr3 s = physicalPML4 (processes s (taskProcess (current_task s))) \<longrightarrow>
      cr3 t = physicalPML4 (processes s (taskProcess (tasks s a)))) \<and> sIOTimerTicks t = sIOTimerTicks s + 1"
proof -
  let ?ts = "(aged s others sp)(a := run (aged s others sp a))"
  have "ring ?ts a (rotation (gOSSchedulerCurrentTask s) others a) =
      ring (tasks s) a (rotation (gOSSchedulerCurrentTask s) others a)"
    by (rule ring_cong) (simp add: aged_def)
  then have "ring ?ts a (rotation (gOSSchedulerCurrentTask s) others a)"
    using ring_rotation [OF _ elect_member [OF a]] inv by (simp add: sched_inv_def)
  then show ?thesis
    using timer_effect [OF inv, of sp] a
    by (simp add: sched_inv_def switch_to_def IOPortWrite8_def aged_def)
qed

section \<open>Everyone's turn comes\<close>

text \<open>A run of timer interrupts; the list holds the stack pointers they find.\<close>

fun timer_interrupts :: "UInt64 list \<Rightarrow> 'a scheduler_scheme \<Rightarrow> fault + 'a scheduler_scheme" where
  "timer_interrupts [] s = Inr s"
| "timer_interrupts (sp # sps) s = bindE (irq_handler_c sp 32 s) (\<lambda>(_, s). timer_interrupts sps s)"

lemma elect_running:
  assumes "i = c \<or> i \<in> set others" "taskState (ts i) = kOSProcessStateRunning"
  shows "\<exists>a. elect ts c others = Some a"
proof (cases "find (\<lambda>a. ready (ts a)) others")
  case None
  then have "i = c" using assms by (auto simp: find_None_iff ready_def)
  then show ?thesis using None assms(2) by (auto simp: elect_def)
qed (simp add: elect_def)

lemma elect_first:
  assumes "k < length others" "ready (ts (others ! k))" "distinct (c # others)"
  shows "\<exists>j \<le> k. elect ts c others = Some (others ! j)"
proof (cases "find (\<lambda>a. ready (ts a)) others")
  case None
  then show ?thesis using assms(1,2) nth_mem by (fastforce simp: find_None_iff)
next
  case (Some a)
  then obtain j where j: "j < length others" "a = others ! j" "\<forall>i < j. \<not> ready (ts (others ! i))"
    by (auto simp: find_Some_iff)
  then have "j \<le> k" using assms(2) not_le_imp_less by blast
  then show ?thesis using Some j(2) by (auto simp: elect_def)
qed

lemma rotation_position:
  assumes "distinct (c # others)" "j < k" "k < length others"
  shows "rotation c others (others ! j) ! (k - j - 1) = others ! k" "k - j - 1 < length (rotation c others (others ! j))"
proof -
  let ?a = "others ! j"
  have ne: "?a \<noteq> c" using assms by (metis distinct.simps(2) less_trans nth_mem)
  have others: "others = take j others @ ?a # drop (Suc j) others" using assms by (simp add: id_take_nth_drop)
  have "?a \<notin> set (take j others)" using assms
    by (auto simp: in_set_conv_nth nth_eq_iff_index_eq)
  from rotation_split [OF ne this, of "drop (Suc j) others"] others
  have rot: "rotation c others ?a = drop (Suc j) others @ c # take j others" by simp
  have "k - j - 1 < length (drop (Suc j) others)" "Suc j + (k - j - 1) = k" using assms by simp_all
  then show "rotation c others ?a ! (k - j - 1) = others ! k"
    unfolding rot by (subst nth_append) simp
  show "k - j - 1 < length (rotation c others ?a)" unfolding rot using assms by simp
qed

lemma aged_ready:
  assumes "ready (tasks s a)" shows "ready (aged s others sp a)"
  using assms by (auto simp: ready_def aged_def count_down_def)

lemma ready_runs:
  assumes "sched_inv s others" "k < length others" "ready (tasks s (others ! k))" "length sps = Suc k"
  shows "\<exists>j \<le> k. \<exists>t. timer_interrupts (take (Suc j) sps) s = Inr t \<and> gOSSchedulerCurrentTask t = others ! k"
  using assms
proof (induction k arbitrary: s others sps rule: less_induct)
  case (less k)
  let ?c = "gOSSchedulerCurrentTask s"
  have dist: "distinct (?c # others)" using less.prems(1) by (simp add: sched_inv_def ring_def)
  obtain sp sps' where sps: "sps = sp # sps'" using less.prems(4) by (cases sps) auto
  have "ready (aged s others sp (others ! k))" by (rule aged_ready [OF less.prems(3)])
  from elect_first [where ts = "aged s others sp", OF less.prems(2) this dist] obtain j where
    j: "j \<le> k" "elect (aged s others sp) ?c others = Some (others ! j)" by blast
  from timer_step [OF less.prems(1) j(2)] obtain t where t: "irq_handler_c sp 32 s = Inr (stackPointer (aged s others sp (others ! j)), t)"
    "gOSSchedulerCurrentTask t = others ! j" "sched_inv t (rotation ?c others (others ! j))"
    "tasks t = (aged s others sp)(others ! j := run (aged s others sp (others ! j)))" by blast
  show ?case
  proof (cases "j = k")
    case True
    then show ?thesis using t sps by (intro exI [of _ 0]) simp
  next
    case False
    then have jk: "j < k" using j(1) by simp
    note rot = rotation_position [OF dist jk less.prems(2)]
    have ne: "others ! k \<noteq> others ! j" using dist jk less.prems(2) by (simp add: nth_eq_iff_index_eq)
    have "ready (tasks t (rotation ?c others (others ! j) ! (k - j - 1)))"
      unfolding rot(1) t(4) using ne \<open>ready (aged s others sp (others ! k))\<close> by simp
    moreover have "length (take (k - j) sps') = Suc (k - j - 1)" using less.prems(4) sps jk by simp
    ultimately obtain i u where i: "i \<le> k - j - 1" "timer_interrupts (take (Suc i) (take (k - j) sps')) t = Inr u"
      "gOSSchedulerCurrentTask u = others ! k"
      using less.IH [of "k - j - 1" t "rotation ?c others (others ! j)" "take (k - j) sps'"] t(3) rot jk by auto
    have "Suc i \<le> k - j" using i(1) jk by simp
    then have "Suc i \<le> k" "take (Suc i) (take (k - j) sps') = take (Suc i) sps'" by (simp_all add: min_absorb1)
    then show ?thesis using i(2,3) t(1) sps by (intro exI [of _ "Suc i"]) simp
  qed
qed

lemma sleeper_runs:
  assumes "sched_inv s others" "a \<in> set others"
    "taskState (tasks s a) = kOSProcessStateRunning \<or> taskState (tasks s a) = kOSProcessStateSleeping"
    "i \<in> set (gOSSchedulerCurrentTask s # others)" "taskState (tasks s i) = kOSProcessStateRunning"
    "length sps = unat (sleepTicks (tasks s a)) + length others"
  shows "\<exists>j < length sps. \<exists>t. timer_interrupts (take (Suc j) sps) s = Inr t \<and> gOSSchedulerCurrentTask t = a"
  using assms
proof (induction "unat (sleepTicks (tasks s a))" arbitrary: s others sps)
  case base: 0
  then obtain k where k: "k < length others" "others ! k = a" by (auto simp: in_set_conv_nth)
  have "ready (tasks s (others ! k))" using base by (auto simp: ready_def k unat_eq_zero)
  from ready_runs [OF base(2) k(1) this, of "take (Suc k) sps"] k base(7) obtain j t where
    "j \<le> k" "timer_interrupts (take (Suc j) (take (Suc k) sps)) s = Inr t" "gOSSchedulerCurrentTask t = a" by auto
  then show ?case using k(1) base(7) by (intro exI [of _ j]) (simp add: min_absorb1)
next
  case (Suc n)
  let ?c = "gOSSchedulerCurrentTask s"
  obtain sp sps' where sps: "sps = sp # sps'" using Suc(2) Suc.prems(6) by (cases sps) auto
  have dist: "distinct (?c # others)" using Suc.prems(1) by (simp add: sched_inv_def ring_def)
  have "taskState (aged s others sp i) = kOSProcessStateRunning" using Suc.prems(5) by (auto simp: aged_def)
  with elect_running [of i ?c others "aged s others sp"] Suc.prems(4) obtain b where
    b: "elect (aged s others sp) ?c others = Some b" by auto
  from timer_step [OF Suc.prems(1) b] obtain t where t: "irq_handler_c sp 32 s = Inr (stackPointer (aged s others sp b), t)"
    "gOSSchedulerCurrentTask t = b" "sched_inv t (rotation ?c others b)"
    "tasks t = (aged s others sp)(b := run (aged s others sp b))" by blast
  show ?case
  proof (cases "b = a")
    case True
    then show ?thesis using t sps by (intro exI [of _ 0]) simp
  next
    case False
    note set = set_rotation [OF elect_member [OF b]]
    have a: "tasks t a = count_down (tasks s a)" using t(4) False dist Suc.prems(2) by (auto simp: aged_def)
    have "\<exists>j < length sps'. \<exists>u. timer_interrupts (take (Suc j) sps') t = Inr u \<and> gOSSchedulerCurrentTask u = a"
    proof (rule Suc.hyps(1) [OF _ t(3)])
      show "n = unat (sleepTicks (tasks t a))" using a Suc(2) by simp
      show "a \<in> set (rotation ?c others b)" using set False Suc.prems(2) by auto
      show "taskState (tasks t a) = kOSProcessStateRunning \<or> taskState (tasks t a) = kOSProcessStateSleeping"
        using a Suc.prems(3) by simp
      show "i \<in> set (gOSSchedulerCurrentTask t # rotation ?c others b)" using set Suc.prems(4) t(2) by simp
      show "taskState (tasks t i) = kOSProcessStateRunning"
        using t(4) \<open>taskState (aged s others sp i) = kOSProcessStateRunning\<close> by simp
      show "length sps' = unat (sleepTicks (tasks t a)) + length (rotation ?c others b)"
        using Suc(2) Suc.prems(6) sps a length_rotation [OF elect_member [OF b]] by simp
    qed
    then obtain j u where "j < length sps'" "timer_interrupts (take (Suc j) sps') t = Inr u" "gOSSchedulerCurrentTask u = a" by blast
    then show ?thesis using t(1) sps by (intro exI [of _ "Suc j"]) simp
  qed
qed

section \<open>Waking and ending\<close>

definition wake :: "UInt32 \<Rightarrow> OSTask \<Rightarrow> OSTask" where
  "wake pid t = (if taskState t = kOSProcessStateBlocked \<and> waitingForProcess t = pid
     then t\<lparr>taskState := kOSProcessStateRunning, waitingForProcess := - 1\<rparr> else t)"

lemma wake_next [simp]: "nextTask (wake pid t) = nextTask t"
  by (simp add: wake_def)

lemma Wake_effect:
  assumes "path ts x (x # as) current" "distinct (x # as)" "current \<notin> set as"
  shows "sOSSchedulerWake ts pid x current = Some (\<lambda>a. if a \<in> set (x # as) then wake pid (ts a) else ts a)"
  using assms
proof (induction as arbitrary: ts x)
  case Nil
  then show ?case by (subst sOSSchedulerWake.simps) (auto simp: Let_def wake_def)
next
  case (Cons b as)
  let ?ts = "ts(x := wake pid (ts x))"
  have eq: "(if taskState (ts x) = kOSProcessStateBlocked \<and> waitingForProcess (ts x) = pid
      then ts(x := ts x\<lparr>taskState := kOSProcessStateRunning, waitingForProcess := - 1\<rparr>) else ts) = ?ts"
    by (simp add: wake_def)
  have b: "nextTask (ts x) = b" "b \<noteq> current" using Cons.prems by auto
  have "path ?ts b (b # as) current = path ts b (b # as) current" by (rule path_cong) simp
  then have p: "path ?ts b (b # as) current" using Cons.prems(1) b by simp
  have "sOSSchedulerWake ts pid x current = sOSSchedulerWake ?ts pid b current"
    by (subst sOSSchedulerWake.simps) (simp add: Let_def eq b)
  also have "\<dots> = Some (\<lambda>a. if a \<in> set (b # as) then wake pid (?ts a) else ?ts a)"
    by (rule Cons.IH [OF p]) (use Cons.prems(2,3) in auto)
  also have "(\<lambda>a. if a \<in> set (b # as) then wake pid (?ts a) else ?ts a)
      = (\<lambda>a. if a \<in> set (x # b # as) then wake pid (ts a) else ts a)"
    using Cons.prems(2) by auto
  finally show ?case .
qed

definition woken :: "UInt32 \<Rightarrow> 'a scheduler_scheme \<Rightarrow> UInt64 list \<Rightarrow> task_store" where
  "woken pid s others = (\<lambda>a. if a \<in> set (gOSSchedulerCurrentTask s # others) then wake pid (tasks s a) else tasks s a)"

lemma Wakeup_effect:
  assumes inv: "sched_inv s others"
  shows "OSSchedulerWakeup pid s = Inr ((), s\<lparr>tasks := woken pid s others\<rparr>) \<and> sched_inv (s\<lparr>tasks := woken pid s others\<rparr>) others"
proof -
  have "sOSSchedulerWake (tasks s) pid (gOSSchedulerCurrentTask s) (gOSSchedulerCurrentTask s) = Some (woken pid s others)"
    unfolding woken_def using inv by (intro Wake_effect) (auto simp: sched_inv_def ring_def)
  moreover have "ring (woken pid s others) c os = ring (tasks s) c os" for c os
    by (rule ring_cong) (simp add: woken_def)
  moreover have lock: "lock_free (sOSSchedulerLock s)" using inv by (simp add: sched_inv_def)
  moreover have "s\<lparr>tasks := ts, interruptFlag := f, sOSSchedulerLock := \<lparr>lockValue = 0\<rparr>\<rparr> = s\<lparr>tasks := ts\<rparr>"
    if "f = interruptFlag s" for ts f
  proof -
    have "sOSSchedulerLock s = \<lparr>lockValue = 0\<rparr>" using lock by (cases "sOSSchedulerLock s") simp
    then show ?thesis using that by simp
  qed
  ultimately show ?thesis using inv
    by (simp add: OSSchedulerWakeup_def scheduler_lock.section_eq sched_inv_def)
qed

lemma PostSignal_effect:
  assumes "lock_free (sOSSchedulerLock s)"
  shows "sOSSchedulerPostGarbageCollectorSignal s = Inr ((), if sOSSchedulerGarbageCollectorTask s = 0 then s
    else update_task (sOSSchedulerGarbageCollectorTask s) (\<lambda>t. t\<lparr>taskState := kOSProcessStateRunning, sleepTicks := 0\<rparr>) s)"
proof -
  have "sOSSchedulerLock s = \<lparr>lockValue = 0\<rparr>" using assms by (cases "sOSSchedulerLock s") simp
  then show ?thesis using assms
    by (simp add: sOSSchedulerPostGarbageCollectorSignal_def scheduler_lock.section_eq update_task_def)
qed

lemma elect_other:
  assumes "i \<in> set others" "ready (ts i)"
  shows "\<exists>a \<in> set others. elect ts c others = Some a"
proof (cases "find (\<lambda>a. ready (ts a)) others")
  case None
  then show ?thesis using assms by (auto simp: find_None_iff)
next
  case (Some a)
  then have "a \<in> set others" by (auto simp: find_Some_iff)
  then show ?thesis using Some by (auto simp: elect_def)
qed

text \<open>\<^verbatim>\<open>int $32\<close> up to the moment the next task runs; \<open>sp\<close> is where the registers were saved.\<close>

definition int32 :: "UInt64 \<Rightarrow> 'a scheduler_scheme \<Rightarrow> fault + 'a scheduler_scheme" where
  "int32 sp s = bindE (irq_handler_c sp 32 s) (\<lambda>(_, s). Inr s)"

lemma Terminate_effect:
  assumes inv: "sched_inv s others" and i: "i \<in> set others" "taskState (tasks s i) = kOSProcessStateRunning"
    and gc: "sOSSchedulerGarbageCollectorTask s \<noteq> gOSSchedulerCurrentTask s"
  shows "\<exists>t a. OSSchedulerTerminate (int32 sp) s = Inr t \<and> gOSSchedulerCurrentTask t = a \<and> a \<in> set others \<and>
    sched_inv t (rotation (gOSSchedulerCurrentTask s) others a) \<and>
    taskState (tasks t (gOSSchedulerCurrentTask s)) = kOSProcessStateDead \<and>
    (\<forall>b \<in> set others. taskState (tasks s b) = kOSProcessStateBlocked \<longrightarrow> waitingForProcess (tasks s b) = taskId (current_task s) \<longrightarrow>
      taskState (tasks t b) = kOSProcessStateRunning) \<and>
    (sOSSchedulerGarbageCollectorTask s \<in> set others \<longrightarrow> taskState (tasks t (sOSSchedulerGarbageCollectorTask s)) = kOSProcessStateRunning)"
proof -
  let ?c = "gOSSchedulerCurrentTask s" and ?gc = "sOSSchedulerGarbageCollectorTask s"
  let ?s1 = "update_task ?c (\<lambda>t. t\<lparr>taskState := kOSProcessStateDead\<rparr>) s"
  have ring: "ring (tasks s) ?c others" using inv by (simp add: sched_inv_def)
  have c: "?c \<notin> set others" "?c \<noteq> 0" using ring by (auto simp: ring_def)
  have "ring (tasks ?s1) ?c others = ring (tasks s) ?c others" by (rule ring_cong) (simp add: update_task_def)
  then have inv1: "sched_inv ?s1 others" using inv by (simp add: sched_inv_def update_task_def)
  let ?pid = "taskId (current_task s)"
  let ?s2 = "?s1\<lparr>tasks := woken ?pid ?s1 others\<rparr>"
  have inv2: "OSSchedulerWakeup ?pid ?s1 = Inr ((), ?s2)" "sched_inv ?s2 others" using Wakeup_effect [OF inv1] by simp_all
  let ?s3 = "if ?gc = 0 then ?s2 else update_task ?gc (\<lambda>t. t\<lparr>taskState := kOSProcessStateRunning, sleepTicks := 0\<rparr>) ?s2"
  have s3: "sOSSchedulerPostGarbageCollectorSignal ?s2 = Inr ((), ?s3)"
    using PostSignal_effect [of ?s2] inv2(2) by (simp add: sched_inv_def update_task_def)
  have "ring (tasks ?s3) c os = ring (tasks ?s2) c os" for c os by (rule ring_cong) (simp add: update_task_def)
  then have inv3: "sched_inv ?s3 others" using inv2(2) by (simp add: sched_inv_def update_task_def)
  have cur3: "gOSSchedulerCurrentTask ?s3 = ?c" by (simp add: update_task_def)
  have st: "taskState (tasks ?s3 ?c) = kOSProcessStateDead"
    using gc by (simp add: update_task_def woken_def wake_def)
  have run: "taskState (tasks ?s3 b) = kOSProcessStateRunning"
    if "b \<in> set others" "taskState (tasks s b) = kOSProcessStateRunning \<or>
      taskState (tasks s b) = kOSProcessStateBlocked \<and> waitingForProcess (tasks s b) = ?pid \<or> b = ?gc \<and> ?gc \<noteq> 0" for b
    using that c by (auto simp: update_task_def woken_def wake_def)
  have aged_run: "taskState (aged ?s3 others sp b) = taskState (tasks ?s3 b)" for b by (simp add: aged_def)
  have "\<exists>a \<in> set others. elect (aged ?s3 others sp) ?c others = Some a"
  proof -
    have "ready (aged ?s3 others sp i)" using run [of i] i aged_run [of i] by (simp add: ready_def)
    then show ?thesis by (rule elect_other [OF i(1)])
  qed
  then obtain a where a: "a \<in> set others" "elect (aged ?s3 others sp) ?c others = Some a" by blast
  from timer_step [OF inv3, unfolded cur3, OF a(2)] obtain t where t: "irq_handler_c sp 32 ?s3 = Inr (stackPointer (aged ?s3 others sp a), t)"
    "gOSSchedulerCurrentTask t = a" "sched_inv t (rotation ?c others a)"
    "tasks t = (aged ?s3 others sp)(a := run (aged ?s3 others sp a))" by blast
  have ends: "OSSchedulerTerminate (int32 sp) s = Inr t"
    unfolding OSSchedulerTerminate_def Let_def inv2(1) bindE_Inr prod.case s3 int32_def t(1) ..
  have "taskState (tasks t ?c) = kOSProcessStateDead" using t(4) a(1) c(1) st aged_run [of ?c] by auto
  moreover have "taskState (tasks t b) = kOSProcessStateRunning" if "taskState (tasks ?s3 b) = kOSProcessStateRunning" for b
    using t(4) aged_run [of b] that by simp
  moreover have "?gc \<in> set others \<Longrightarrow> ?gc \<noteq> 0"
  proof -
    assume "?gc \<in> set others"
    then obtain xs ys where "others = xs @ ?gc # ys" using split_list by metis
    then have "ring (tasks s) ?gc (ys @ ?c # xs)" using ring_rotate ring by metis
    then show "?gc \<noteq> 0" by (simp add: ring_def)
  qed
  ultimately show ?thesis using ends t(2,3) a(1) run by (intro exI [of _ t] exI [of _ a]) auto
qed

section \<open>The first stack frame\<close>

text \<open>The registers of an interrupted task, as the interrupt stub leaves them in memory.\<close>

record CPURegisters =
  regRax :: UInt64
  regRbx :: UInt64
  regRcx :: UInt64
  regRdx :: UInt64
  regRbp :: UInt64
  regRsi :: UInt64
  regRdi :: UInt64
  regR8 :: UInt64
  regR9 :: UInt64
  regR10 :: UInt64
  regR11 :: UInt64
  regR12 :: UInt64
  regR13 :: UInt64
  regR14 :: UInt64
  regR15 :: UInt64
  regInterruptNumber :: UInt64
  regErrorCode :: UInt64
  regRip :: UInt64
  regCs :: UInt64
  regRflags :: UInt64
  regRsp :: UInt64
  regSs :: UInt64

definition registers_at :: "memory \<Rightarrow> UInt64 \<Rightarrow> CPURegisters" where
  "registers_at m a =
     \<lparr>regRax = load64 m a, regRbx = load64 m (a + 8), regRcx = load64 m (a + 16), regRdx = load64 m (a + 24),
      regRbp = load64 m (a + 32), regRsi = load64 m (a + 40), regRdi = load64 m (a + 48), regR8 = load64 m (a + 56),
      regR9 = load64 m (a + 64), regR10 = load64 m (a + 72), regR11 = load64 m (a + 80), regR12 = load64 m (a + 88),
      regR13 = load64 m (a + 96), regR14 = load64 m (a + 104), regR15 = load64 m (a + 112),
      regInterruptNumber = load64 m (a + 120), regErrorCode = load64 m (a + 128), regRip = load64 m (a + 136),
      regCs = load64 m (a + 144), regRflags = load64 m (a + 152), regRsp = load64 m (a + 160), regSs = load64 m (a + 168)\<rparr>"

lemma slot_apart:
  assumes "j < 8" "i < 1000"
  shows "\<not> (of_nat j + 8 * of_nat (Suc i) :: UInt64) < 8"
proof -
  have e: "(of_nat j + 8 * of_nat (Suc i) :: UInt64) = of_nat (j + 8 * Suc i)" by simp
  have "unat (of_nat (j + 8 * Suc i) :: UInt64) = j + 8 * Suc i"
    using assms by (simp add: unsigned_of_nat take_bit_nat_eq_self del: of_nat_add of_nat_mult)
  then show ?thesis unfolding e word_less_nat_alt by simp
qed

lemma push_all_effect:
  assumes "length vs \<le> 1000"
  shows "\<exists>m'. push_all vs (a, m) = (a - 8 * of_nat (length vs), m') \<and>
    (\<forall>i < length vs. load64 m' (a - 8 * of_nat (Suc i)) = vs ! i) \<and>
    (\<forall>x. (\<forall>i < length vs. \<not> x - (a - 8 * of_nat (Suc i)) < 8) \<longrightarrow> m' x = m x)"
  using assms
proof (induction vs arbitrary: a m)
  case (Cons v vs)
  then obtain m' where IH: "push_all vs (a - 8, store64 m (a - 8) v) = (a - 8 - 8 * of_nat (length vs), m')"
    "\<And>i. i < length vs \<Longrightarrow> load64 m' (a - 8 - 8 * of_nat (Suc i)) = vs ! i"
    "\<And>x. (\<And>i. i < length vs \<Longrightarrow> \<not> x - (a - 8 - 8 * of_nat (Suc i)) < 8) \<Longrightarrow> m' x = store64 m (a - 8) v x"
    by fastforce
  have "load64 m' (a - 8) = load64 (store64 m (a - 8) v) (a - 8)"
  proof (rule load64_cong)
    fix j :: nat assume j: "j < 8"
    show "m' (a - 8 + of_nat j) = store64 m (a - 8) v (a - 8 + of_nat j)"
    proof (rule IH(3))
      fix i assume "i < length vs"
      then show "\<not> a - 8 + of_nat j - (a - 8 - 8 * of_nat (Suc i)) < (8 :: UInt64)"
        using slot_apart [OF j, of i] Cons.prems by (simp add: algebra_simps)
    qed
  qed
  then have first: "load64 m' (a - 8) = v" by simp
  have "load64 m' (a - 8 * of_nat (Suc i)) = (v # vs) ! i" if "i < length (v # vs)" for i
  proof (cases i)
    case (Suc k)
    then show ?thesis using IH(2) [of k] that by (simp add: algebra_simps)
  qed (simp add: first)
  moreover have "m' x = m x" if out: "\<And>i. i < length (v # vs) \<Longrightarrow> \<not> x - (a - 8 * of_nat (Suc i)) < 8" for x
  proof -
    have "m' x = store64 m (a - 8) v x"
    proof (rule IH(3))
      fix i assume "i < length vs"
      then show "\<not> x - (a - 8 - 8 * of_nat (Suc i)) < 8" using out [of "Suc i"] by (simp add: algebra_simps)
    qed
    also have "\<dots> = m x" using out [of 0] by (simp add: store64_apart)
    finally show ?thesis .
  qed
  ultimately show ?case using IH(1) by (intro exI [of _ m']) (simp add: algebra_simps)
qed simp

definition frame_registers :: "UInt64 \<Rightarrow> bool \<Rightarrow> UInt64 \<Rightarrow> UInt64 \<Rightarrow> CPURegisters" where
  "frame_registers entry isUser userStack stackTop =
     \<lparr>regRax = 0, regRbx = 0, regRcx = 0, regRdx = 0, regRbp = 0, regRsi = 0, regRdi = 0, regR8 = 0, regR9 = 0, regR10 = 0,
      regR11 = 0, regR12 = 0, regR13 = 0, regR14 = 0, regR15 = 0, regInterruptNumber = 0, regErrorCode = 0, regRip = entry,
      regCs = (if isUser then 0x23 else 0x08), regRflags = 0x202, regRsp = (if isUser then userStack else stackTop),
      regSs = (if isUser then 0x1b else 0x10)\<rparr>"

lemma Frame_effect:
  "\<exists>m'. sOSSchedulerFrame entry isUser userStack stackTop m = (stackTop - 176, m') \<and>
     registers_at m' (stackTop - 176) = frame_registers entry isUser userStack stackTop \<and>
     (\<forall>x. (\<forall>i < 22. \<not> x - (stackTop - 8 * of_nat (Suc i)) < 8) \<longrightarrow> m' x = m x)"
proof -
  let ?vs = "[if isUser then 0x1b else 0x10, if isUser then userStack else stackTop, 0x202,
    if isUser then 0x23 else 0x08, entry, 0, 0] @ replicate 15 0"
  have len: "length ?vs = 22" by simp
  obtain m' where m': "push_all ?vs (stackTop, m) = (stackTop - 8 * of_nat 22, m')"
    "\<forall>i < 22. load64 m' (stackTop - 8 * of_nat (Suc i)) = ?vs ! i"
    "\<forall>x. (\<forall>i < 22. \<not> x - (stackTop - 8 * of_nat (Suc i)) < 8) \<longrightarrow> m' x = m x"
    using push_all_effect [of ?vs stackTop m] unfolding len by auto
  have "load64 m' (stackTop - 176 + 8 * of_nat k) = ?vs ! (21 - k)" if "k < 22" for k
  proof -
    have "(of_nat (8 * Suc (21 - k) + 8 * k) :: UInt64) = of_nat 176" using that by simp
    then have "8 * of_nat (Suc (21 - k)) + 8 * of_nat k = (176 :: UInt64)" by (simp only: of_nat_add of_nat_mult of_nat_numeral)
    moreover have "stackTop - x = stackTop - (x + y) + y" for x y by simp
    ultimately have "stackTop - 8 * of_nat (Suc (21 - k)) = stackTop - 176 + 8 * of_nat k" by metis
    moreover have "21 - k < 22" by simp
    ultimately show ?thesis using m'(2) [rule_format, OF \<open>21 - k < 22\<close>] by (simp only:)
  qed
  note slot = this
  have "registers_at m' (stackTop - 176) = frame_registers entry isUser userStack stackTop"
    unfolding registers_at_def frame_registers_def
    using slot [of 0] slot [of 1] slot [of 2] slot [of 3] slot [of 4] slot [of 5] slot [of 6] slot [of 7] slot [of 8]
      slot [of 9] slot [of 10] slot [of 11] slot [of 12] slot [of 13] slot [of 14] slot [of 15] slot [of 16] slot [of 17]
      slot [of 18] slot [of 19] slot [of 20] slot [of 21]
    by simp
  then show ?thesis using m'(1,3) unfolding sOSSchedulerFrame_def Let_def by (intro exI [of _ m']) simp
qed

lemma frame_inside:
  assumes "i < 22" "\<not> x - b < 16384"
  shows "\<not> x - (b + 16384 - 8 * of_nat (Suc i)) < (8 :: UInt64)"
proof -
  have "8 * Suc i \<le> 16384" using assms(1) by simp
  then obtain c where c: "c + 8 * Suc i = 16384" unfolding nat_le_iff_add by (metis add.commute)
  then have "(of_nat (c + 8 * Suc i) :: UInt64) = of_nat 16384" by (simp only:)
  then have e: "(of_nat c + 8 * of_nat (Suc i) :: UInt64) = 16384" by (simp only: of_nat_add of_nat_mult of_nat_numeral)
  have w: "b + 16384 - 8 * of_nat (Suc i) = b + of_nat c" unfolding e [symmetric] by simp
  have u: "unat (of_nat c :: UInt64) = c" using c by (simp add: unsigned_of_nat take_bit_nat_eq_self)
  have big: "16384 \<le> unat (x - b)" using assms(2) by (simp add: word_less_nat_alt)
  then have le: "of_nat c \<le> x - b" using c unfolding word_le_nat_alt u by simp
  have "unat (x - b - of_nat c) = unat (x - b) - c" using unat_sub [OF le] unfolding u .
  then have "8 \<le> unat (x - b - of_nat c)" using big c by simp
  then show ?thesis unfolding w word_less_nat_alt diff_diff_eq by simp
qed

lemma Allocate_live:
  fixes s :: "'a heap_scheme"
  assumes "heap_inv s bs" "sz \<noteq> 0" "sz \<le> - 16" "VMHeapAllocate sz s = Inr (r, t)" "r \<noteq> 0"
  shows "\<exists>st bs' n. t = s\<lparr>heapHeaders := st\<rparr> \<and> heap_inv t bs' \<and> r - 40 \<notin> fst ` live bs \<and> live bs' = insert (r - 40, n) (live bs)"
proof -
  from Allocate_effect [OF assms(1,2)] assms(4,5) obtain st where "t = s\<lparr>heapHeaders := st\<rparr>"
    by (auto split: option.splits)
  moreover from kernel_heap.alloc_law [OF assms(1) _ assms(4)] assms(2,3,5) obtain bs' n where
    "heap_inv t bs'" "r - 40 \<notin> fst ` live bs" "live bs' = insert (r - 40, n) (live bs)" by auto
  ultimately show ?thesis by blast
qed

lemma ring_insert:
  assumes "ring ts c others" "a \<notin> set (c # others)" "a \<noteq> 0" "nextTask (us c) = a" "nextTask (us a) = nextTask (ts c)"
    "\<And>b. b \<in> set others \<Longrightarrow> nextTask (us b) = nextTask (ts b)"
  shows "ring us c (a # others)"
proof -
  have "path us x others y = path ts x others y" for x y by (rule path_cong) (rule assms(6))
  with assms show ?thesis by (auto simp: ring_def)
qed

text \<open>The task spawning makes, given its stack.\<close>

definition spawned :: "UInt64 \<Rightarrow> UInt64 \<Rightarrow> UInt64 \<Rightarrow> 'a scheduler_scheme \<Rightarrow> OSTask" where
  "spawned task stack owner s =
     (let owner = (if owner = 0 then kernelSymbol s SymKernelProcess else owner)
      in (tasks s task)\<lparr>stackPointer := stack + kOSSchedulerStackSize - 176, taskProcess := owner,
        taskId := ucast (processId (processes s owner)), sleepTicks := 0, kernelStackTop := stack + kOSSchedulerStackSize,
        kernelStackBase := stack, taskState := kOSProcessStateRunning, waitingForProcess := - 1,
        nextTask := nextTask (current_task s)\<rparr>)"

lemma Spawn_state:
  fixes s :: "'a scheduler_scheme"
  assumes heap: "heap_inv s bs" and lock: "lock_free (sOSSchedulerLock s)"
    and task: "VMHeapAllocate sizeof_OSTask s = Inr (task, s1)" "task \<noteq> 0" "task \<noteq> gOSSchedulerCurrentTask s"
    and stack: "VMHeapAllocate kOSSchedulerStackSize s1 = Inr (stack, s2)" "stack \<noteq> 0"
    and st: "s1 = s\<lparr>heapHeaders := st1\<rparr>" "s2 = s1\<lparr>heapHeaders := st2\<rparr>"
  shows "\<exists>m. OSSchedulerSpawn interrupt32 entry owner isUser userStack s = Inr (task, s\<lparr>heapHeaders := st2, heapBytes := m,
       tasks := (tasks s)(task := spawned task stack owner s,
         gOSSchedulerCurrentTask s := (current_task s)\<lparr>nextTask := task\<rparr>)\<rparr>) \<and>
    registers_at m (stack + kOSSchedulerStackSize - 176) = frame_registers entry isUser userStack (stack + kOSSchedulerStackSize) \<and>
    (\<forall>x. \<not> x - stack < kOSSchedulerStackSize \<longrightarrow> m x = heapBytes s x)"
proof -
  let ?c = "gOSSchedulerCurrentTask s" and ?hi = "stack + kOSSchedulerStackSize"
  have s2s: "s2 = s\<lparr>heapHeaders := st2\<rparr>" unfolding st by simp
  from Frame_effect [of entry isUser userStack ?hi "heapBytes s"] obtain m where
    m: "sOSSchedulerFrame entry isUser userStack ?hi (heapBytes s) = (?hi - 176, m)"
      "registers_at m (?hi - 176) = frame_registers entry isUser userStack ?hi"
      "\<forall>x. (\<forall>i < 22. \<not> x - (?hi - 8 * of_nat (Suc i)) < 8) \<longrightarrow> m x = heapBytes s x" by blast
  have same: "m x = heapBytes s x" if "\<not> x - stack < kOSSchedulerStackSize" for x
    using m(3) frame_inside [OF _ that] by blast
  have "s\<lparr>heapHeaders := st2, heapBytes := m, tasks := ts, interruptFlag := interruptFlag s, sOSSchedulerLock := \<lparr>lockValue = 0\<rparr>\<rparr>
      = s\<lparr>heapHeaders := st2, heapBytes := m, tasks := ts\<rparr>" for ts
    using lock by (cases s) simp
  note restore = this
  have "OSSchedulerSpawn interrupt32 entry owner isUser userStack s = Inr (task, s\<lparr>heapHeaders := st2, heapBytes := m,
       tasks := (tasks s)(task := spawned task stack owner s, ?c := (current_task s)\<lparr>nextTask := task\<rparr>)\<rparr>)"
    using task stack m(1) lock
    by (simp add: OSSchedulerSpawn_def s2s st(1) scheduler_lock.section_eq update_task_def Let_def spawned_def restore fun_upd_twist)
  then show ?thesis using m(2) same by blast
qed

lemma Spawn_effect:
  fixes s :: "'a scheduler_scheme"
  assumes heap: "heap_inv s bs" and inv: "sched_inv s others"
    and own: "\<forall>a \<in> set (gOSSchedulerCurrentTask s # others). a - 40 \<in> fst ` live bs"
    and task: "VMHeapAllocate sizeof_OSTask s = Inr (task, s1)" "task \<noteq> 0"
    and stack: "VMHeapAllocate kOSSchedulerStackSize s1 = Inr (stack, s2)" "stack \<noteq> 0"
  shows "\<exists>t bs'. OSSchedulerSpawn interrupt32 entry owner isUser userStack s = Inr (task, t) \<and>
    heap_inv t bs' \<and> sched_inv t (task # others) \<and> gOSSchedulerCurrentTask t = gOSSchedulerCurrentTask s \<and>
    (\<forall>a \<in> set (gOSSchedulerCurrentTask s # task # others). a - 40 \<in> fst ` live bs') \<and> stack - 40 \<in> fst ` live bs' \<and>
    taskState (tasks t task) = kOSProcessStateRunning \<and> sleepTicks (tasks t task) = 0 \<and>
    kernelStackTop (tasks t task) = stack + kOSSchedulerStackSize \<and>
    registers_at (heapBytes t) (stackPointer (tasks t task)) = frame_registers entry isUser userStack (stack + kOSSchedulerStackSize) \<and>
    (\<forall>x. \<not> x - stack < kOSSchedulerStackSize \<longrightarrow> heapBytes t x = heapBytes s x) \<and>
    (\<forall>a. a \<noteq> task \<longrightarrow> a \<noteq> gOSSchedulerCurrentTask s \<longrightarrow> tasks t a = tasks s a)"
proof -
  let ?c = "gOSSchedulerCurrentTask s"
  from Allocate_live [OF heap _ _ task] obtain st1 bs1 n1 where
    s1: "s1 = s\<lparr>heapHeaders := st1\<rparr>" "heap_inv s1 bs1" "task - 40 \<notin> fst ` live bs" "live bs1 = insert (task - 40, n1) (live bs)"
    by auto
  from Allocate_live [OF s1(2) _ _ stack] obtain st2 bs2 n2 where
    s2: "s2 = s1\<lparr>heapHeaders := st2\<rparr>" "heap_inv s2 bs2" "live bs2 = insert (stack - 40, n2) (live bs1)" by auto
  have ring: "ring (tasks s) ?c others" and lock: "lock_free (sOSSchedulerLock s)" using inv by (simp_all add: sched_inv_def)
  have new: "task \<notin> set (?c # others)" using s1(3) own by blast
  then have ne: "task \<noteq> ?c" by simp
  let ?ts = "(tasks s)(task := spawned task stack owner s, ?c := (tasks s ?c)\<lparr>nextTask := task\<rparr>)"
  from Spawn_state [OF heap lock task ne stack s1(1) s2(1), of interrupt32 entry owner isUser userStack] obtain m where
    m: "OSSchedulerSpawn interrupt32 entry owner isUser userStack s = Inr (task, s\<lparr>heapHeaders := st2, heapBytes := m, tasks := ?ts\<rparr>)"
      "registers_at m (stack + kOSSchedulerStackSize - 176) = frame_registers entry isUser userStack (stack + kOSSchedulerStackSize)"
      "\<forall>x. \<not> x - stack < kOSSchedulerStackSize \<longrightarrow> m x = heapBytes s x" by blast
  let ?t = "s\<lparr>heapHeaders := st2, heapBytes := m, tasks := ?ts\<rparr>"
  have "heap_inv ?t bs2" using s2(2) unfolding s2(1) s1(1) by (simp add: heap_inv_def heap_blocks_def)
  moreover have "sched_inv ?t (task # others)"
  proof -
    have "ring (tasks ?t) ?c (task # others)"
      by (rule ring_insert [OF ring new task(2)]) (use new ring in \<open>auto simp: spawned_def Let_def ring_def\<close>)
    then show ?thesis using lock by (simp add: sched_inv_def)
  qed
  ultimately show ?thesis using own s1(4) s2(3) m ne
    by (intro exI [of _ ?t] exI [of _ bs2]) (simp add: spawned_def Let_def)
qed

section \<open>Garbage collection\<close>

lemma fst_filter: "fst ` {q \<in> L. P (fst q)} = {a \<in> fst ` L. P a}"
  by force

lemma Free_live:
  fixes s :: "'a heap_scheme"
  assumes inv: "heap_inv s bs" and a: "a - 40 \<in> fst ` live bs"
  shows "\<exists>st bs'. VMHeapFree a s = Inr ((), s\<lparr>heapHeaders := st\<rparr>) \<and> heap_inv (s\<lparr>heapHeaders := st\<rparr>) bs' \<and>
    live bs' = {q \<in> live bs. fst q \<noteq> a - 40}"
proof -
  have ord: "ordered heap_start bs heap_end" using inv by (simp add: heap_inv_def heap_blocks_def)
  obtain n where "(a - 40, n) \<in> live bs" using a by auto
  from live_release(1) [OF ord this] Free_effect [OF inv] obtain st where
    "VMHeapFree (a - 40 + 40) s = Inr ((), s\<lparr>heapHeaders := st\<rparr>)" "heap_inv (s\<lparr>heapHeaders := st\<rparr>) (free_blocks (a - 40) bs)"
    by blast
  then show ?thesis using free_blocks_live [OF ordered_distinct [OF ord], of "a - 40"] by auto
qed

text \<open>The heap blocks of a task: itself and its kernel stack.\<close>

definition blocks_of :: "task_store \<Rightarrow> UInt64 \<Rightarrow> UInt64 list" where
  "blocks_of ts a = (a - 40) # (if kernelStackBase (ts a) = 0 then [] else [kernelStackBase (ts a) - 40])"

definition dead :: "task_store \<Rightarrow> UInt64 \<Rightarrow> bool" where
  "dead ts a \<longleftrightarrow> taskState (ts a) = kOSProcessStateDead"

lemma collect_free:
  fixes s :: "'a scheduler_scheme"
  assumes heap: "heap_inv s bs" and own: "set (blocks_of (tasks s) a) \<subseteq> fst ` live bs" "distinct (blocks_of (tasks s) a)"
  shows "\<exists>st bs'. bindE (if kernelStackBase (tasks s a) \<noteq> 0 then VMHeapFree (kernelStackBase (tasks s a)) s else Inr ((), s))
      (\<lambda>(_, s). VMHeapFree a s) = Inr ((), s\<lparr>heapHeaders := st\<rparr>) \<and> heap_inv (s\<lparr>heapHeaders := st\<rparr>) bs' \<and>
    live bs' = {q \<in> live bs. fst q \<notin> set (blocks_of (tasks s) a)}"
proof (cases "kernelStackBase (tasks s a) = 0")
  case True
  with Free_live [OF heap, of a] own show ?thesis by (simp add: blocks_of_def)
next
  case False
  with Free_live [OF heap, of "kernelStackBase (tasks s a)"] own obtain st bs1 where
    st: "VMHeapFree (kernelStackBase (tasks s a)) s = Inr ((), s\<lparr>heapHeaders := st\<rparr>)" "heap_inv (s\<lparr>heapHeaders := st\<rparr>) bs1"
    "live bs1 = {q \<in> live bs. fst q \<noteq> kernelStackBase (tasks s a) - 40}" by (auto simp: blocks_of_def)
  have "a - 40 \<in> fst ` live bs1" using own False unfolding st(3) fst_filter [where P = "\<lambda>x. x \<noteq> kernelStackBase (tasks s a) - 40"]
    by (simp add: blocks_of_def)
  from Free_live [OF st(2) this] obtain st' bs' where
    "VMHeapFree a (s\<lparr>heapHeaders := st\<rparr>) = Inr ((), s\<lparr>heapHeaders := st\<rparr>\<lparr>heapHeaders := st'\<rparr>)"
    "heap_inv (s\<lparr>heapHeaders := st\<rparr>\<lparr>heapHeaders := st'\<rparr>) bs'" "live bs' = {q \<in> live bs1. fst q \<noteq> a - 40}" by blast
  with st False show ?thesis by (intro exI [of _ st'] exI [of _ bs']) (auto simp: blocks_of_def)
qed

text \<open>A pass over the rest of the ring, whatever a freed task reads as.\<close>

definition collected :: "(UInt64 \<Rightarrow> OSTask) \<Rightarrow> task_store \<Rightarrow> UInt64 list \<Rightarrow> task_store \<Rightarrow> bool" where
  "collected freed before as ts \<longleftrightarrow>
     (\<forall>a. if a \<in> set as \<and> dead before a then ts a = freed a else \<exists>n. ts a = (before a)\<lparr>nextTask := n\<rparr>)"

lemma Collect_effect:
  fixes s :: "'a scheduler_scheme"
  assumes "path (tasks s) p (p # as) self" "distinct (p # as)" "self \<notin> set as" "heap_inv s bs" "lock_free (sOSSchedulerLock s)"
    "set (concat (map (blocks_of (tasks s)) as)) \<subseteq> fst ` live bs" "distinct (concat (map (blocks_of (tasks s)) as))"
  shows "\<exists>st ts bs'. sOSSchedulerCollect freed self p (nextTask (tasks s p)) s = Some (Inr (s\<lparr>heapHeaders := st, tasks := ts\<rparr>)) \<and>
    path ts p (p # filter (\<lambda>a. \<not> dead (tasks s) a) as) self \<and>
    heap_inv (s\<lparr>heapHeaders := st, tasks := ts\<rparr>) bs' \<and>
    live bs' = {q \<in> live bs. fst q \<notin> set (concat (map (blocks_of (tasks s)) (filter (dead (tasks s)) as)))} \<and>
    collected freed (tasks s) as ts \<and> (\<forall>a. a \<notin> set (p # as) \<longrightarrow> ts a = tasks s a)"
  using assms
proof (induction as arbitrary: p s bs)
  case Nil
  then have "sOSSchedulerCollect freed self p (nextTask (tasks s p)) s = Some (Inr s)"
    by (subst sOSSchedulerCollect.simps) simp
  moreover have "\<exists>n. tasks s a = (tasks s a)\<lparr>nextTask := n\<rparr>" for a by (rule exI [of _ "nextTask (tasks s a)"]) simp
  ultimately show ?case using Nil
    by (intro exI [of _ "heapHeaders s"] exI [of _ "tasks s"] exI [of _ bs]) (auto simp: collected_def)
next
  case (Cons a as)
  from Cons.prems have a: "nextTask (tasks s p) = a" "a \<noteq> 0" "path (tasks s) (nextTask (tasks s a)) as self" "a \<noteq> self" "p \<noteq> 0" "a \<noteq> p"
    "a \<notin> set as" by auto
  show ?case
  proof (cases "dead (tasks s) a")
    case True
    let ?ts = "(tasks s)(p := (tasks s p)\<lparr>nextTask := nextTask (tasks s a)\<rparr>)"
    let ?s = "s\<lparr>tasks := ?ts\<rparr>"
    let ?ts' = "?ts(a := freed a)"
    have same: "blocks_of ?ts b = blocks_of (tasks s) b" for b by (simp add: blocks_of_def)
    have same': "blocks_of ?ts' b = blocks_of (tasks s) b \<and> dead ?ts' b = dead (tasks s) b" if "b \<in> set as" for b
      using that a(7) by (auto simp: blocks_of_def dead_def)
    have unlink: "with_scheduler_lock (\<lambda>s'. Inr ((), update_task p (\<lambda>t. t\<lparr>nextTask := nextTask (tasks s' a)\<rparr>) s')) s = Inr ((), ?s)"
      using Cons.prems(5) by (cases s) (simp add: scheduler_lock.section_eq update_task_def)
    have h: "heap_inv ?s bs" using Cons.prems(4) by (simp add: heap_inv_def heap_blocks_def)
    from collect_free [OF h, of a] Cons.prems(6,7) obtain st bs1 where
      free: "bindE (if kernelStackBase (tasks ?s a) \<noteq> 0 then VMHeapFree (kernelStackBase (tasks ?s a)) ?s else Inr ((), ?s))
      (\<lambda>(_, s). VMHeapFree a s) = Inr ((), ?s\<lparr>heapHeaders := st\<rparr>)" "heap_inv (?s\<lparr>heapHeaders := st\<rparr>) bs1"
      "live bs1 = {q \<in> live bs. fst q \<notin> set (blocks_of (tasks s) a)}"
      by (auto simp: same)
    have reused: "bindE (if kernelStackBase (tasks ?s a) \<noteq> 0 then VMHeapFree (kernelStackBase (tasks ?s a)) ?s else Inr ((), ?s))
      (\<lambda>(_, s). bindE (VMHeapFree a s) (\<lambda>(_, s). Inr ((), update_task a (\<lambda>_. freed a) s)))
      = Inr ((), update_task a (\<lambda>_. freed a) (?s\<lparr>heapHeaders := st\<rparr>))"
      using free(1) by (auto simp: bindE_def split: sum.splits prod.splits if_splits)
    let ?u = "?s\<lparr>heapHeaders := st, tasks := ?ts'\<rparr>"
    have "update_task a (\<lambda>_. freed a) (?s\<lparr>heapHeaders := st\<rparr>) = ?u" by (simp add: update_task_def)
    then have step: "sOSSchedulerCollect freed self p a s = sOSSchedulerCollect freed self p (nextTask (tasks ?u p)) ?u"
      using True a reused unlink by (subst sOSSchedulerCollect.simps) (simp add: dead_def)
    have "path ?ts' x as y = path (tasks s) x as y" for x y
      by (rule path_cong) (use Cons.prems(2) in auto)
    then have P: "path (tasks ?u) p (p # as) self" using a by simp
    have H: "heap_inv ?u bs1" using free(2) by (simp add: heap_inv_def heap_blocks_def)
    have maps: "map (blocks_of (tasks ?u)) as = map (blocks_of (tasks s)) as" using same' by simp
    have own: "set (concat (map (blocks_of (tasks ?u)) as)) \<subseteq> fst ` live bs1"
      using Cons.prems(6,7) unfolding maps free(3) fst_filter [where P = "\<lambda>x. x \<notin> set (blocks_of (tasks s) a)"] by auto
    have L: "lock_free (sOSSchedulerLock ?u)" using Cons.prems(5) by simp
    have D: "distinct (p # as)" "self \<notin> set as" "distinct (concat (map (blocks_of (tasks ?u)) as))"
      using Cons.prems(2,3,7) unfolding maps by auto
    have sel: "filter (\<lambda>a. \<not> dead (tasks ?u) a) as = filter (\<lambda>a. \<not> dead (tasks s) a) as"
      "filter (dead (tasks ?u)) as = filter (dead (tasks s)) as"
      "map (blocks_of (tasks ?u)) (filter (dead (tasks s)) as) = map (blocks_of (tasks s)) (filter (dead (tasks s)) as)"
      using same' by (auto intro!: filter_cong)
    from Cons.IH [OF P D(1,2) H L own D(3), unfolded sel] obtain st' ts' bs' where
      IH: "sOSSchedulerCollect freed self p (nextTask (tasks ?u p)) ?u = Some (Inr (?u\<lparr>heapHeaders := st', tasks := ts'\<rparr>))"
      "path ts' p (p # filter (\<lambda>a. \<not> dead (tasks s) a) as) self" "heap_inv (?u\<lparr>heapHeaders := st', tasks := ts'\<rparr>) bs'"
      "live bs' = {q \<in> live bs1. fst q \<notin> set (concat (map (blocks_of (tasks s)) (filter (dead (tasks s)) as)))}"
      "collected freed (tasks ?u) as ts'" "\<forall>a. a \<notin> set (p # as) \<longrightarrow> ts' a = tasks ?u a"
      by (elim exE conjE)
    have "collected freed (tasks s) (a # as) ts'"
      unfolding collected_def
    proof
      fix b
      show "if b \<in> set (a # as) \<and> dead (tasks s) b then ts' b = freed b else \<exists>n. ts' b = (tasks s b)\<lparr>nextTask := n\<rparr>"
      proof (cases "b = a")
        case True
        then show ?thesis using \<open>dead (tasks s) a\<close> IH(6) a(6,7) by simp
      next
        case False
        then show ?thesis using IH(5) [unfolded collected_def, rule_format, of b] same' [of b]
          by (cases "b = p"; cases "b \<in> set as") auto
      qed
    qed
    moreover have "\<forall>b. b \<notin> set (p # a # as) \<longrightarrow> ts' b = tasks s b" using IH(6) by auto
    ultimately show ?thesis using IH(1-4) a step True unfolding free(3)
      by (intro exI [of _ st'] exI [of _ ts'] exI [of _ bs']) auto
  next
    case False
    have step: "sOSSchedulerCollect freed self p a s = sOSSchedulerCollect freed self a (nextTask (tasks s a)) s"
      using False a by (subst sOSSchedulerCollect.simps) (simp add: dead_def)
    have "path (tasks s) a (a # as) self" using a by simp
    then obtain st' ts' bs' where IH: "sOSSchedulerCollect freed self a (nextTask (tasks s a)) s = Some (Inr (s\<lparr>heapHeaders := st', tasks := ts'\<rparr>))"
      "path ts' a (a # filter (\<lambda>a. \<not> dead (tasks s) a) as) self" "heap_inv (s\<lparr>heapHeaders := st', tasks := ts'\<rparr>) bs'"
      "live bs' = {q \<in> live bs. fst q \<notin> set (concat (map (blocks_of (tasks s)) (filter (dead (tasks s)) as)))}"
      "collected freed (tasks s) as ts'" "\<forall>b. b \<notin> set (a # as) \<longrightarrow> ts' b = tasks s b"
      using Cons.IH [of s a bs] Cons.prems by auto
    have "ts' p = tasks s p" using IH(6) Cons.prems(2) by auto
    moreover have "collected freed (tasks s) (a # as) ts'" using IH(5) False by (auto simp: collected_def)
    ultimately show ?thesis using IH(1-4,6) a step False
      by (intro exI [of _ st'] exI [of _ ts'] exI [of _ bs']) auto
  qed
qed

section \<open>Properties\<close>

text \<open>C6: A timer interrupt on a well-formed ring saves the interrupted stack, counts every sleeper down,
  and switches to the first other task in ring order that can run, or stays with the current task when
  that is running; it resumes that task's saved stack, loads its address space, its kernel stack into
  the task state segment and the processor block, and keeps the ring. It panics exactly when no task
  can be elected.\<close>

theorem timer_interrupt_correct:
  assumes "sched_inv s others"
  shows "case elect (aged s others sp) (gOSSchedulerCurrentTask s) others of
      None \<Rightarrow> irq_handler_c sp 32 s = Inl (Panic ''no running tasks'')
    | Some a \<Rightarrow> \<exists>t. irq_handler_c sp 32 s = Inr (stackPointer (aged s others sp a), t) \<and> gOSSchedulerCurrentTask t = a \<and>
        sched_inv t (rotation (gOSSchedulerCurrentTask s) others a) \<and> tasks t = (aged s others sp)(a := run (aged s others sp a)) \<and>
        rsp0 (gHALTaskStateSegment t) = kernelStackTop (tasks s a) \<and> kernelStackPointer (gOSBootCPU t) = kernelStackTop (tasks s a) \<and>
        (cr3 s = physicalPML4 (processes s (taskProcess (current_task s))) \<longrightarrow>
          cr3 t = physicalPML4 (processes s (taskProcess (tasks s a))))"
  using timer_effect [OF assms, of sp] timer_step [OF assms, of sp]
  by (cases "elect (aged s others sp) (gOSSchedulerCurrentTask s) others") fastforce+

definition kernel_task :: OSTask where
  "kernel_task = zero_task\<lparr>nextTask := 0xFFFFFFFFC0000090, taskState := kOSProcessStateRunning, waitingForProcess := - 1\<rparr>"

definition sleeping_task :: OSTask where
  "sleeping_task = zero_task\<lparr>stackPointer := 0x5000, nextTask := 0xFFFFFFFFC0000028, taskId := 7, sleepTicks := 3,
     taskState := kOSProcessStateSleeping, waitingForProcess := - 1\<rparr>"

text \<open>Two tasks in the first two blocks of the heap: the kernel's, and one that sleeps for three ticks.\<close>

definition small_scheduler :: scheduler where
  "small_scheduler = (arch.extend small_arch
     (scheduler.fields (\<lambda>a. if a = 0xFFFFFFFFC0000028 then kernel_task else sleeping_task) (\<lambda>_. zero_process)
        0xFFFFFFFFC0000028 1 \<lparr>lockValue = 0\<rparr> 0))
     \<lparr>heapHeaders := \<lambda>a. \<lparr>blockMagic = kVMHeapBlockHeaderMagic,
        nextBlock = (if a = 0xFFFFFFFFC0000000 then 0xFFFFFFFFC0000068 else if a = 0xFFFFFFFFC0000068 then 0xFFFFFFFFC00000D0 else 0),
        previousBlock = (if a = 0xFFFFFFFFC0000000 then 0 else if a = 0xFFFFFFFFC0000068 then 0xFFFFFFFFC0000000 else 0xFFFFFFFFC0000068),
        blockSize = (if a = 0xFFFFFFFFC00000D0 then 0x3FFF08 else 64), isFree = (a = 0xFFFFFFFFC00000D0)\<rparr>\<rparr>"

abbreviation small_blocks :: "block list" where
  "small_blocks \<equiv> [Block 0xFFFFFFFFC0000000 64 False, Block 0xFFFFFFFFC0000068 64 False, Block 0xFFFFFFFFC00000D0 0x3FFF08 True]"

lemma small_scheduler_simps [simp]:
  "gOSSchedulerCurrentTask small_scheduler = 0xFFFFFFFFC0000028" "sOSSchedulerGarbageCollectorTask small_scheduler = 0"
  "tasks small_scheduler = (\<lambda>a. if a = 0xFFFFFFFFC0000028 then kernel_task else sleeping_task)"
  "sOSSchedulerLock small_scheduler = \<lparr>lockValue = 0\<rparr>"
  by (simp_all add: small_scheduler_def arch.defs scheduler.defs)

lemma small_scheduler_inv: "sched_inv small_scheduler [0xFFFFFFFFC0000090]"
  by (simp add: sched_inv_def ring_def kernel_task_def sleeping_task_def)

lemma small_scheduler_heap: "heap_inv small_scheduler small_blocks"
  by (simp add: heap_inv_def heap_blocks_def heap_rep_def first_addr_def small_scheduler_def small_arch_def small_console_def
      small_devices_def devices.defs console.defs arch.defs scheduler.defs)

lemma timer_interrupt_correct_witness:
  "\<exists>t. irq_handler_c 0x9000 32 small_scheduler = Inr (0x9000, t) \<and> gOSSchedulerCurrentTask t = 0xFFFFFFFFC0000028 \<and>
     sleepTicks (tasks t 0xFFFFFFFFC0000090) = 2"
  using timer_interrupt_correct [OF small_scheduler_inv, where sp = "0x9000"]
  by (auto simp: elect_def aged_def count_down_def ready_def kernel_task_def sleeping_task_def zero_task_def)

text \<open>C7: Every sleeper gets its turn: while some task of the ring is running, a task that is running or asleep
  is the current one after at most its remaining ticks plus the length of the ring, whatever the tasks
  in between save as their stacks, and no interrupt before that panics.\<close>

theorem sleeper_gets_its_turn:
  assumes "sched_inv s others" "a \<in> set others"
    "taskState (tasks s a) = kOSProcessStateRunning \<or> taskState (tasks s a) = kOSProcessStateSleeping"
    "i \<in> set (gOSSchedulerCurrentTask s # others)" "taskState (tasks s i) = kOSProcessStateRunning"
    "length sps = unat (sleepTicks (tasks s a)) + length others"
  shows "\<exists>j < length sps. \<exists>t. timer_interrupts (take (Suc j) sps) s = Inr t \<and> gOSSchedulerCurrentTask t = a"
  by (rule sleeper_runs [OF assms])

lemma sleeper_gets_its_turn_witness:
  "\<exists>j < length [1 :: UInt64, 2, 3, 4]. \<exists>t. timer_interrupts (take (Suc j) [1, 2, 3, 4]) small_scheduler = Inr t \<and> gOSSchedulerCurrentTask t = 0xFFFFFFFFC0000090"
  using sleeper_gets_its_turn [OF small_scheduler_inv, of "0xFFFFFFFFC0000090" "0xFFFFFFFFC0000028" "[1, 2, 3, 4]"]
  by (simp add: kernel_task_def sleeping_task_def zero_task_def)

text \<open>C9: A task that terminates is dead and never current again at the next switch: the tasks blocked on its
  identifier are running, the garbage collector is awake, another task is current and the ring is
  kept.\<close>

theorem OSSchedulerTerminate_correct:
  assumes "sched_inv s others" "i \<in> set others" "taskState (tasks s i) = kOSProcessStateRunning"
    and "sOSSchedulerGarbageCollectorTask s \<noteq> gOSSchedulerCurrentTask s"
  shows "\<exists>t a. OSSchedulerTerminate (int32 sp) s = Inr t \<and> gOSSchedulerCurrentTask t = a \<and> a \<in> set others \<and>
    sched_inv t (rotation (gOSSchedulerCurrentTask s) others a) \<and>
    taskState (tasks t (gOSSchedulerCurrentTask s)) = kOSProcessStateDead \<and>
    (\<forall>b \<in> set others. taskState (tasks s b) = kOSProcessStateBlocked \<longrightarrow> waitingForProcess (tasks s b) = taskId (current_task s) \<longrightarrow>
      taskState (tasks t b) = kOSProcessStateRunning) \<and>
    (sOSSchedulerGarbageCollectorTask s \<in> set others \<longrightarrow> taskState (tasks t (sOSSchedulerGarbageCollectorTask s)) = kOSProcessStateRunning)"
  by (rule Terminate_effect [OF assms])

lemma OSSchedulerTerminate_correct_witness:
  "\<exists>t. OSSchedulerTerminate (int32 0x9000)
     (update_task 0xFFFFFFFFC0000090 (\<lambda>t. t\<lparr>taskState := kOSProcessStateRunning\<rparr>) small_scheduler) = Inr t \<and>
     gOSSchedulerCurrentTask t = 0xFFFFFFFFC0000090 \<and> taskState (tasks t 0xFFFFFFFFC0000028) = kOSProcessStateDead"
proof -
  let ?s = "update_task 0xFFFFFFFFC0000090 (\<lambda>t. t\<lparr>taskState := kOSProcessStateRunning\<rparr>) small_scheduler"
  have "sched_inv ?s [0xFFFFFFFFC0000090]"
    by (simp add: sched_inv_def ring_def kernel_task_def sleeping_task_def update_task_def)
  from OSSchedulerTerminate_correct [OF this, of "0xFFFFFFFFC0000090" "0x9000"] show ?thesis
    by (auto simp: update_task_def)
qed

text \<open>C8: Spawning with memory to spare returns a new task, linked right after the current one in the ring and
  running, in a live heap block of its own and with a live stack block of its own; the registers on its
  stack are those the interrupt return needs to start at the entry point with the right segments and
  stack, nothing outside the new stack is written and no other task changes.\<close>

theorem OSSchedulerSpawn_correct:
  assumes "heap_inv s bs" "sched_inv s others"
    "\<forall>a \<in> set (gOSSchedulerCurrentTask s # others). a - 40 \<in> fst ` live bs"
    "VMHeapAllocate sizeof_OSTask s = Inr (task, s1)" "task \<noteq> 0"
    "VMHeapAllocate kOSSchedulerStackSize s1 = Inr (stack, s2)" "stack \<noteq> 0"
  shows "\<exists>t bs'. OSSchedulerSpawn interrupt32 entry owner isUser userStack s = Inr (task, t) \<and>
    heap_inv t bs' \<and> sched_inv t (task # others) \<and> gOSSchedulerCurrentTask t = gOSSchedulerCurrentTask s \<and>
    (\<forall>a \<in> set (gOSSchedulerCurrentTask s # task # others). a - 40 \<in> fst ` live bs') \<and> stack - 40 \<in> fst ` live bs' \<and>
    taskState (tasks t task) = kOSProcessStateRunning \<and> sleepTicks (tasks t task) = 0 \<and>
    kernelStackTop (tasks t task) = stack + kOSSchedulerStackSize \<and>
    registers_at (heapBytes t) (stackPointer (tasks t task)) = frame_registers entry isUser userStack (stack + kOSSchedulerStackSize) \<and>
    (\<forall>x. \<not> x - stack < kOSSchedulerStackSize \<longrightarrow> heapBytes t x = heapBytes s x) \<and>
    (\<forall>a. a \<noteq> task \<longrightarrow> a \<noteq> gOSSchedulerCurrentTask s \<longrightarrow> tasks t a = tasks s a)"
  by (rule Spawn_effect [OF assms])

lemma OSSchedulerSpawn_correct_witness:
  "\<exists>t. OSSchedulerSpawn Inr 0x400000 0 True 0x7FFFFFFFF000 small_scheduler = Inr (0xFFFFFFFFC00000F8, t) \<and>
     sched_inv t [0xFFFFFFFFC00000F8, 0xFFFFFFFFC0000090] \<and>
     regRip (registers_at (heapBytes t) (stackPointer (tasks t 0xFFFFFFFFC00000F8))) = 0x400000"
proof -
  from Allocate_effect [OF small_scheduler_heap, of 64] obtain st where
    a: "VMHeapAllocate 64 small_scheduler = Inr (0xFFFFFFFFC00000F8, small_scheduler\<lparr>heapHeaders := st\<rparr>)"
    "heap_inv (small_scheduler\<lparr>heapHeaders := st\<rparr>) [Block 0xFFFFFFFFC0000000 64 False, Block 0xFFFFFFFFC0000068 64 False,
       Block 0xFFFFFFFFC00000D0 64 False, Block 0xFFFFFFFFC0000138 0x3FFEA0 True]"
    by (auto simp: take_block_def)
  from Allocate_effect [OF a(2), of 16384] obtain u where
    b: "VMHeapAllocate 16384 (small_scheduler\<lparr>heapHeaders := st\<rparr>) = Inr (0xFFFFFFFFC0000160, u)"
    by (auto simp: take_block_def)
  have own: "\<forall>a \<in> set (gOSSchedulerCurrentTask small_scheduler # [0xFFFFFFFFC0000090]). a - 40 \<in> fst ` live small_blocks"
    by simp
  have nz: "(0xFFFFFFFFC00000F8 :: UInt64) \<noteq> 0" "(0xFFFFFFFFC0000160 :: UInt64) \<noteq> 0" by simp_all
  obtain t where "OSSchedulerSpawn Inr 0x400000 0 True 0x7FFFFFFFF000 small_scheduler = Inr (0xFFFFFFFFC00000F8, t)"
    "sched_inv t [0xFFFFFFFFC00000F8, 0xFFFFFFFFC0000090]"
    "registers_at (heapBytes t) (stackPointer (tasks t 0xFFFFFFFFC00000F8)) =
       frame_registers 0x400000 True 0x7FFFFFFFF000 (0xFFFFFFFFC0000160 + 16384)"
    using OSSchedulerSpawn_correct [OF small_scheduler_heap small_scheduler_inv own a(1) nz(1) b nz(2), of Inr "0x400000" 0 True "0x7FFFFFFFF000"]
    by (elim exE conjE)
  then show ?thesis by (intro exI [of _ t]) (simp add: frame_registers_def)
qed

text \<open>C10: One pass of the garbage collector over the ring unlinks exactly the dead tasks and frees exactly
  their blocks, the task and its kernel stack, in any arrangement of dead and living tasks. The memory of a
  freed task is arbitrary from then on, and the pass ends right all the same, so it never follows a pointer of
  one: the living tasks are the ring, in their old order, and keep everything but their links, the heap stays
  well formed, and no task outside the ring changes.\<close>

theorem garbage_collection_correct:
  fixes s :: "'a scheduler_scheme" and freed :: "UInt64 \<Rightarrow> OSTask"
  assumes "ring (tasks s) self as" "heap_inv s bs" "lock_free (sOSSchedulerLock s)"
    "set (concat (map (blocks_of (tasks s)) as)) \<subseteq> fst ` live bs" "distinct (concat (map (blocks_of (tasks s)) as))"
  shows "\<exists>st ts bs'. sOSSchedulerCollect freed self self (nextTask (tasks s self)) s = Some (Inr (s\<lparr>heapHeaders := st, tasks := ts\<rparr>)) \<and>
    ring ts self (filter (\<lambda>a. \<not> dead (tasks s) a) as) \<and> heap_inv (s\<lparr>heapHeaders := st, tasks := ts\<rparr>) bs' \<and>
    live bs' = {q \<in> live bs. fst q \<notin> set (concat (map (blocks_of (tasks s)) (filter (dead (tasks s)) as)))} \<and>
    (\<forall>a. if a \<in> set as \<and> dead (tasks s) a then ts a = freed a else \<exists>n. ts a = (tasks s a)\<lparr>nextTask := n\<rparr>) \<and>
    (\<forall>a. a \<notin> set (self # as) \<longrightarrow> ts a = tasks s a)"
proof -
  have p: "path (tasks s) self (self # as) self" "distinct (self # as)" "self \<notin> set as" using assms(1) by (auto simp: ring_def)
  have "distinct (self # filter (\<lambda>a. \<not> dead (tasks s) a) as)" using p(2) by auto
  then show ?thesis using Collect_effect [OF p assms(2-5), of freed]
    unfolding ring_def collected_def by (elim exE conjE) (intro exI conjI; assumption)
qed

text \<open>A ring of two, the second dead, whose memory is handed out at once and reads as zeros.\<close>

lemma garbage_collection_correct_witness:
  "\<exists>st ts. sOSSchedulerCollect (\<lambda>_. zero_task) 0xFFFFFFFFC0000028 0xFFFFFFFFC0000028 0xFFFFFFFFC0000090
      (update_task 0xFFFFFFFFC0000090 (\<lambda>t. t\<lparr>taskState := kOSProcessStateDead\<rparr>) small_scheduler)
     = Some (Inr (update_task 0xFFFFFFFFC0000090 (\<lambda>t. t\<lparr>taskState := kOSProcessStateDead\<rparr>) small_scheduler\<lparr>heapHeaders := st, tasks := ts\<rparr>))
     \<and> ring ts 0xFFFFFFFFC0000028 [] \<and> ts 0xFFFFFFFFC0000090 = zero_task"
proof -
  let ?s = "update_task 0xFFFFFFFFC0000090 (\<lambda>t. t\<lparr>taskState := kOSProcessStateDead\<rparr>) small_scheduler"
  have r: "ring (tasks ?s) 0xFFFFFFFFC0000028 [0xFFFFFFFFC0000090]"
    by (simp add: ring_def kernel_task_def sleeping_task_def update_task_def)
  have h: "heap_inv ?s small_blocks" using small_scheduler_heap by (simp add: heap_inv_def heap_blocks_def update_task_def)
  have l: "lock_free (sOSSchedulerLock ?s)" by (simp add: update_task_def)
  have b: "blocks_of (tasks ?s) 0xFFFFFFFFC0000090 = [0xFFFFFFFFC0000068]"
    by (simp add: blocks_of_def update_task_def sleeping_task_def zero_task_def)
  have own: "set (concat (map (blocks_of (tasks ?s)) [0xFFFFFFFFC0000090])) \<subseteq> fst ` live small_blocks"
    "distinct (concat (map (blocks_of (tasks ?s)) [0xFFFFFFFFC0000090]))" unfolding list.map b by simp_all
  have following: "nextTask (tasks ?s 0xFFFFFFFFC0000028) = 0xFFFFFFFFC0000090"
    and none: "filter (\<lambda>a. \<not> dead (tasks ?s) a) [0xFFFFFFFFC0000090] = []" and dead: "dead (tasks ?s) 0xFFFFFFFFC0000090"
    by (simp_all add: dead_def update_task_def kernel_task_def)
  obtain st ts where "sOSSchedulerCollect (\<lambda>_. zero_task) 0xFFFFFFFFC0000028 0xFFFFFFFFC0000028 (nextTask (tasks ?s 0xFFFFFFFFC0000028)) ?s
      = Some (Inr (?s\<lparr>heapHeaders := st, tasks := ts\<rparr>))"
    "ring ts 0xFFFFFFFFC0000028 (filter (\<lambda>a. \<not> dead (tasks ?s) a) [0xFFFFFFFFC0000090])"
    "\<forall>a. if a \<in> set [0xFFFFFFFFC0000090] \<and> dead (tasks ?s) a then ts a = zero_task else \<exists>n. ts a = (tasks ?s a)\<lparr>nextTask := n\<rparr>"
    using garbage_collection_correct [OF r h l own, of "\<lambda>_. zero_task"] by (elim exE conjE)
  moreover from this(3) [rule_format, of "0xFFFFFFFFC0000090"] dead have "ts 0xFFFFFFFFC0000090 = zero_task" by simp
  ultimately show ?thesis unfolding following none by blast
qed

end
