(* ===== verification/FileSystem.thy ===== *)
theory FileSystem
  imports Scheduler
begin

text \<open>
  The start-up file system: the archive reader \<^verbatim>\<open>kernel/src/FS/CPIO.c\<close> and the virtual file system
  \<^verbatim>\<open>kernel/src/FS/VFS.c\<close>. An archive is a byte object in memory, the nodes are a store indexed by
  address. Archives written in the format are shown to come back file by file; any other byte sequence
  is shown not to hold the loop up.
\<close>

unbundle bit_operations_syntax

section \<open>The kernel's view of memory\<close>

text \<open>
  A pointer of the kernel names a byte of the heap, when it lies in the heap's window, or a byte of
  physical memory in the direct map. The two are kept apart in the state, and are one memory here.
\<close>

definition in_heap :: "UInt64 \<Rightarrow> bool" where
  "in_heap a \<longleftrightarrow> a - kVMKernelHeapStart < kVMHeapSizePages * kVMPageSize"

definition kernel_memory :: "'a heap_scheme \<Rightarrow> memory" where
  "kernel_memory s = (\<lambda>a. if in_heap a then heapBytes s a else mem s (HHDM_TO_PHYS a))"

definition set_kernel_memory :: "memory \<Rightarrow> 'a heap_scheme \<Rightarrow> 'a heap_scheme" where
  "set_kernel_memory m s =
     s\<lparr>heapBytes := (\<lambda>a. if in_heap a then m a else heapBytes s a),
       mem := (\<lambda>p. if in_heap (PHYS_TO_HHDM p) then mem s p else m (PHYS_TO_HHDM p))\<rparr>"

text \<open>The object of a number of bytes at an address.\<close>

definition memory_object :: "'a heap_scheme \<Rightarrow> UInt64 \<Rightarrow> UInt64 \<Rightarrow> UInt8 list" where
  "memory_object s a count = map (\<lambda>i. kernel_memory s (a + of_nat i)) [0..<unat count]"

section \<open>Nodes\<close>

abbreviation kFSVNodeFlagFile :: UInt32 where "kFSVNodeFlagFile \<equiv> 0x01"
abbreviation kFSVNodeFlagDirectory :: UInt32 where "kFSVNodeFlagDirectory \<equiv> 0x02"

text \<open>
  A table of operations; a null entry is \<open>None\<close>. The only function stored in one is
  \<^verbatim>\<open>FSCPIORead\<close>; the entries for opening and closing would be code outside this repository, named by
  its address.
\<close>

datatype FSVNodeReadFunction = FSCPIOReadFunction

record FSVNodeOperations =
  readFunction :: "FSVNodeReadFunction option"
  writeFunction :: "UInt64 option"
  openFunction :: "UInt64 option"
  closeFunction :: "UInt64 option"
  findDirectoryFunction :: "UInt64 option"

record FSVNode =
  nodeName :: "UInt8 list"
  protectionMask :: UInt32
  ownerIdentifier :: UInt32
  groupIdentifier :: UInt32
  nodeFlags :: UInt32
  inodeIdentifier :: UInt32
  dataLength :: UInt64
  operations :: "FSVNodeOperations option"
  implementationData :: UInt64
  mountPoint :: UInt64
  childNode :: UInt64
  nextNode :: UInt64

abbreviation sizeof_FSVNode :: UInt64 where
  "sizeof_FSVNode \<equiv> 328"

type_synonym node_store = "UInt64 \<Rightarrow> FSVNode"

record filesystem = scheduler +
  nodes :: node_store
  gFSVirtualFileSystemRoot :: UInt64

definition zero_node :: FSVNode where
  "zero_node = \<lparr>nodeName = replicate 256 0, protectionMask = 0, ownerIdentifier = 0, groupIdentifier = 0, nodeFlags = 0,
     inodeIdentifier = 0, dataLength = 0, operations = None, implementationData = 0, mountPoint = 0, childNode = 0, nextNode = 0\<rparr>"

definition update_node :: "UInt64 \<Rightarrow> (FSVNode \<Rightarrow> FSVNode) \<Rightarrow> 'a filesystem_scheme \<Rightarrow> 'a filesystem_scheme" where
  "update_node a f s = s\<lparr>nodes := (nodes s)(a := f (nodes s a))\<rparr>"

section \<open>The archive\<close>

abbreviation sizeof_FSCPIOHeader :: UInt64 where
  "sizeof_FSCPIOHeader \<equiv> 110"

definition FSCPIO_ALIGN4 :: "UInt64 \<Rightarrow> UInt64" where
  "FSCPIO_ALIGN4 x = (x + 3) AND NOT 3"

definition gFSCPIOOperations :: FSVNodeOperations where
  "gFSCPIOOperations = \<lparr>readFunction = Some FSCPIOReadFunction, writeFunction = None, openFunction = None,
     closeFunction = None, findDirectoryFunction = None\<rparr>"

text \<open>The fields of the header as pointers: each is the object from where the field starts.\<close>

record FSCPIOHeader =
  headerMagic :: "UInt8 list"
  headerInode :: "UInt8 list"
  headerMode :: "UInt8 list"
  headerUserIdentifier :: "UInt8 list"
  headerGroupIdentifier :: "UInt8 list"
  headerLinkCount :: "UInt8 list"
  headerModificationTime :: "UInt8 list"
  headerFileLength :: "UInt8 list"
  headerDeviceMajor :: "UInt8 list"
  headerDeviceMinor :: "UInt8 list"
  headerRemoteDeviceMajor :: "UInt8 list"
  headerRemoteDeviceMinor :: "UInt8 list"
  headerNameLength :: "UInt8 list"
  headerCheckSum :: "UInt8 list"

definition header_at :: "UInt8 list \<Rightarrow> FSCPIOHeader" where
  "header_at object =
     \<lparr>headerMagic = object, headerInode = drop 6 object, headerMode = drop 14 object, headerUserIdentifier = drop 22 object,
      headerGroupIdentifier = drop 30 object, headerLinkCount = drop 38 object, headerModificationTime = drop 46 object,
      headerFileLength = drop 54 object, headerDeviceMajor = drop 62 object, headerDeviceMinor = drop 70 object,
      headerRemoteDeviceMajor = drop 78 object, headerRemoteDeviceMinor = drop 86 object, headerNameLength = drop 94 object,
      headerCheckSum = drop 102 object\<rparr>"

definition sFSCPIODigit :: "UInt8 \<Rightarrow> UInt64 \<Rightarrow> UInt64" where
  "sFSCPIODigit character result =
     (if asc CHR ''0'' \<le> character \<and> character \<le> asc CHR ''9'' then result + (ucast character - ucast (asc CHR ''0''))
      else if asc CHR ''A'' \<le> character \<and> character \<le> asc CHR ''F'' then result + (ucast character - ucast (asc CHR ''A'') + 10)
      else if asc CHR ''a'' \<le> character \<and> character \<le> asc CHR ''f'' then result + (ucast character - ucast (asc CHR ''a'') + 10)
      else result)"

fun sFSCPIOHexadecimal :: "UInt8 list \<Rightarrow> nat \<Rightarrow> UInt64 \<Rightarrow> fault + UInt64" where
  "sFSCPIOHexadecimal string 0 result = Inr result"
| "sFSCPIOHexadecimal [] (Suc n) result = Inl OutOfBounds"
| "sFSCPIOHexadecimal (character # string) (Suc n) result =
     sFSCPIOHexadecimal string n (sFSCPIODigit character (push_bit 4 result))"

definition sFSCPIOHexadecimalToUInt64 :: "UInt8 list \<Rightarrow> nat \<Rightarrow> fault + UInt64" where
  "sFSCPIOHexadecimalToUInt64 string n = sFSCPIOHexadecimal string n 0"

definition FSCPIORead :: "UInt64 \<Rightarrow> UInt64 \<Rightarrow> UInt64 \<Rightarrow> UInt64 \<Rightarrow> 'a filesystem_scheme \<Rightarrow> UInt64 \<times> 'a filesystem_scheme" where
  "FSCPIORead node offset count buffer s =
     (if offset > dataLength (nodes s node) then (0, s)
      else let count = (if offset + count > dataLength (nodes s node) then dataLength (nodes s node) - offset else count)
      in (count, set_kernel_memory (MemoryCopy (kernel_memory s) buffer (implementationData (nodes s node) + offset) count) s))"

section \<open>Mounting\<close>

text \<open>
  One turn of the loop. The archive is an object of \<open>length archive\<close> bytes at \<open>baseAddress\<close>, which
  nothing in the loop writes; \<open>None\<close> is the \<^verbatim>\<open>break\<close> at the trailer.
\<close>

abbreviation found_object :: "UInt8 list" where
  "found_object \<equiv> bytes ''^bCPIO^!: Found object '' @ [0x27] @ bytes ''^y%s^!'' @ [0x27] @
     bytes '' (size: ^y%d^!) at ^y0x%x^!'' @ [0x0A, 0]"

definition sFSCPIOLinkNode :: "UInt64 \<Rightarrow> UInt64 \<Rightarrow> UInt64 \<Rightarrow> 'a filesystem_scheme \<Rightarrow> 'a filesystem_scheme" where
  "sFSCPIOLinkNode rootNode tailNode newNode s =
     (if childNode (nodes s rootNode) = 0 then update_node rootNode (\<lambda>n. n\<lparr>childNode := newNode\<rparr>) s
      else if tailNode \<noteq> 0 then update_node tailNode (\<lambda>n. n\<lparr>nextNode := newNode\<rparr>) s
      else s)"

definition sFSCPIOMountEntry ::
  "UInt8 list \<Rightarrow> UInt64 \<Rightarrow> UInt64 \<Rightarrow> UInt64 \<Rightarrow> UInt64 \<Rightarrow> 'a filesystem_scheme \<Rightarrow>
   fault + (UInt64 \<times> UInt64) option \<times> 'a filesystem_scheme" where
  "sFSCPIOMountEntry archive baseAddress rootNode currentPointer tailNode s =
     (let object = drop (unat (currentPointer - baseAddress)) archive;
          header = header_at object
      in bindE (StringCompareWithLimit (headerMagic header) (literal ''070701'') 6) (\<lambda>different.
         if different \<noteq> 0 then Inl (Panic ''CPIO: Invalid magic detected in StartupVolume'')
         else bindE (sFSCPIOHexadecimalToUInt64 (headerNameLength header) 8) (\<lambda>nameSize.
              bindE (sFSCPIOHexadecimalToUInt64 (headerFileLength header) 8) (\<lambda>fileSize.
         let fileName = drop (unat sizeof_FSCPIOHeader) object
         in bindE (StringCompare fileName (literal ''TRAILER!!!'')) (\<lambda>different.
            if different = 0 then Inr (None, s)
            else
              let offsetToData = FSCPIO_ALIGN4 (sizeof_FSCPIOHeader + nameSize);
                  fileContent = currentPointer + offsetToData
              in bindE (VMHeapAllocate sizeof_FSVNode s) (\<lambda>(newNode, s).
                 if newNode = 0 then Inl (Panic ''CPIO: Failed to allocate memory for new node'')
                 else bindE (StringCopyWithLimit (nodeName zero_node) fileName 255) (\<lambda>name.
                      bindE (sFSCPIOHexadecimalToUInt64 (headerInode header) 8) (\<lambda>inode.
                      bindE (sFSCPIOHexadecimalToUInt64 (headerMode header) 8) (\<lambda>mode.
                   let s = update_node newNode (\<lambda>_. zero_node
                         \<lparr>nodeName := name, dataLength := fileSize, inodeIdentifier := ucast inode,
                          operations := Some gFSCPIOOperations, implementationData := fileContent,
                          nodeFlags := (if mode AND 0xF000 = 0x4000 then kFSVNodeFlagDirectory else kFSVNodeFlagFile)\<rparr>) s;
                       s = sFSCPIOLinkNode rootNode tailNode newNode s
                   in bindE (IOConsoleLog found_object [VAString (Some fileName), VANumber fileSize, VANumber fileContent] s)
                        (\<lambda>s. Inr (Some (currentPointer + (offsetToData + FSCPIO_ALIGN4 fileSize), newNode), s)))))))))))"

partial_function (option) sFSCPIOMountLoop ::
  "UInt8 list \<Rightarrow> UInt64 \<Rightarrow> UInt64 \<Rightarrow> UInt64 \<Rightarrow> UInt64 \<Rightarrow> UInt64 \<Rightarrow> 'a filesystem_scheme \<Rightarrow>
   (fault + 'a filesystem_scheme) option" where
  "sFSCPIOMountLoop archive baseAddress endPointer rootNode currentPointer tailNode s =
     (if currentPointer < endPointer
      then case sFSCPIOMountEntry archive baseAddress rootNode currentPointer tailNode s of
             Inl e \<Rightarrow> Some (Inl e)
           | Inr (r, s) \<Rightarrow>
               (case r of
                  None \<Rightarrow> Some (Inr s)
                | Some (currentPointer, tailNode) \<Rightarrow>
                    sFSCPIOMountLoop archive baseAddress endPointer rootNode currentPointer tailNode s)
      else Some (Inr s))"

definition FSCPIOMount :: "UInt64 \<Rightarrow> UInt64 \<Rightarrow> 'a filesystem_scheme \<Rightarrow> fault + UInt64 \<times> 'a filesystem_scheme" where
  "FSCPIOMount baseAddress totalSize s =
     bindE (VMHeapAllocate sizeof_FSVNode s) (\<lambda>(rootNode, s).
       if rootNode = 0 then Inl (Panic ''CPIO: Failed to allocate memory for root node'')
       else bindE (StringCopy (nodeName zero_node) (literal ''/'')) (\<lambda>name.
         let s = update_node rootNode (\<lambda>_. zero_node\<lparr>nodeName := name, nodeFlags := kFSVNodeFlagDirectory,
               operations := Some gFSCPIOOperations\<rparr>) s
         in bindE (returns (sFSCPIOMountLoop (memory_object s baseAddress totalSize) baseAddress (baseAddress + totalSize)
              rootNode baseAddress 0 s)) (\<lambda>s. Inr (rootNode, s))))"

section \<open>The virtual file system\<close>

definition FSVirtualFileSystemInitialize :: "UInt64 \<Rightarrow> 'a filesystem_scheme \<Rightarrow> 'a filesystem_scheme" where
  "FSVirtualFileSystemInitialize rootNode s = s\<lparr>gFSVirtualFileSystemRoot := rootNode\<rparr>"

definition FSVNodeRead :: "UInt64 \<Rightarrow> UInt64 \<Rightarrow> UInt64 \<Rightarrow> UInt64 \<Rightarrow> 'a filesystem_scheme \<Rightarrow> UInt64 \<times> 'a filesystem_scheme" where
  "FSVNodeRead node offset count buffer s =
     (if node = 0 then (0, s)
      else case operations (nodes s node) of
        None \<Rightarrow> (0, s)
      | Some table \<Rightarrow> (case readFunction table of
            None \<Rightarrow> (0, s)
          | Some FSCPIOReadFunction \<Rightarrow> FSCPIORead node offset count buffer s))"

text \<open>\<open>call\<close> runs the function at an address on a node.\<close>

partial_function (option) sFSVirtualFileSystemFind ::
  "(UInt64 \<Rightarrow> UInt64 \<Rightarrow> 'a filesystem_scheme \<Rightarrow> fault + 'a filesystem_scheme) \<Rightarrow> UInt8 list \<Rightarrow> UInt64 \<Rightarrow>
   'a filesystem_scheme \<Rightarrow> (fault + UInt64 \<times> 'a filesystem_scheme) option" where
  "sFSVirtualFileSystemFind call searchName nodeIterator s =
     (if nodeIterator = 0 then Some (Inr (0, s))
      else case StringCompare (nodeName (nodes s nodeIterator)) searchName of
             Inl e \<Rightarrow> Some (Inl e)
           | Inr different \<Rightarrow>
               if different = 0
               then Some (bindE (case operations (nodes s nodeIterator) of
                                   None \<Rightarrow> Inr s
                                 | Some table \<Rightarrow> (case openFunction table of None \<Rightarrow> Inr s | Some f \<Rightarrow> call f nodeIterator s))
                            (\<lambda>s. Inr (nodeIterator, s)))
               else sFSVirtualFileSystemFind call searchName (nextNode (nodes s nodeIterator)) s)"

definition FSVirtualFileSystemOpenPath ::
  "(UInt64 \<Rightarrow> UInt64 \<Rightarrow> 'a filesystem_scheme \<Rightarrow> fault + 'a filesystem_scheme) \<Rightarrow> UInt8 list \<Rightarrow>
   'a filesystem_scheme \<Rightarrow> fault + UInt64 \<times> 'a filesystem_scheme" where
  "FSVirtualFileSystemOpenPath call name s =
     (if gFSVirtualFileSystemRoot s = 0 then Inr (0, s)
      else bindE (StringCompare name (literal ''/'')) (\<lambda>different.
        if different = 0 then Inr (gFSVirtualFileSystemRoot s, s)
        else bindE (array_get name 0) (\<lambda>c.
          let searchName = (if c = asc CHR ''/'' then tl name else name)
          in returns (sFSVirtualFileSystemFind call searchName (childNode (nodes s (gFSVirtualFileSystemRoot s))) s))))"

definition FSVNodeClose ::
  "(UInt64 \<Rightarrow> UInt64 \<Rightarrow> 'a filesystem_scheme \<Rightarrow> fault + 'a filesystem_scheme) \<Rightarrow> UInt64 \<Rightarrow>
   'a filesystem_scheme \<Rightarrow> fault + 'a filesystem_scheme" where
  "FSVNodeClose call node s =
     (if node = 0 then Inr s
      else case operations (nodes s node) of
        None \<Rightarrow> Inr s
      | Some table \<Rightarrow> (case closeFunction table of None \<Rightarrow> Inr s | Some f \<Rightarrow> call f node s))"

section \<open>Archives as they are meant\<close>

text \<open>A file and its place in an archive of the new ASCII format.\<close>

record cpio_file =
  cpioName :: "UInt8 list"
  cpioMode :: UInt32
  cpioInode :: UInt32
  cpioData :: "UInt8 list"

definition up4 :: "nat \<Rightarrow> nat" where
  "up4 n = (n + 3) div 4 * 4"

definition hex8 :: "UInt32 \<Rightarrow> UInt8 list" where
  "hex8 w = (let ds = rev (number_digits 16 (unat w)) in map digit_char (replicate (8 - length ds) 0 @ ds))"

definition cpio_header :: "cpio_file \<Rightarrow> UInt8 list" where
  "cpio_header f = bytes ''070701'' @ hex8 (cpioInode f) @ hex8 (cpioMode f) @ replicate 32 (asc CHR ''0'') @
     hex8 (of_nat (length (cpioData f))) @ replicate 32 (asc CHR ''0'') @ hex8 (of_nat (Suc (length (cpioName f)))) @
     replicate 8 (asc CHR ''0'')"

definition data_offset :: "cpio_file \<Rightarrow> nat" where
  "data_offset f = up4 (111 + length (cpioName f))"

definition cpio_entry :: "cpio_file \<Rightarrow> UInt8 list" where
  "cpio_entry f = cpio_header f @ cpioName f @ replicate (data_offset f - 110 - length (cpioName f)) 0 @
     cpioData f @ replicate (up4 (length (cpioData f)) - length (cpioData f)) 0"

definition trailer :: "UInt8 list" where
  "trailer = cpio_entry \<lparr>cpioName = bytes ''TRAILER!!!'', cpioMode = 0, cpioInode = 0, cpioData = []\<rparr>"

definition cpio_archive :: "cpio_file list \<Rightarrow> UInt8 list" where
  "cpio_archive fs = concat (map cpio_entry fs) @ trailer"

definition cpio_ok :: "cpio_file \<Rightarrow> bool" where
  "cpio_ok f \<longleftrightarrow> 0 \<notin> set (cpioName f) \<and> ascii (cpioName f) \<and> length (cpioName f) \<le> 255 \<and>
     cpioName f \<noteq> bytes ''TRAILER!!!'' \<and> length (cpioData f) < 2 ^ 31"

section \<open>Parsing one header\<close>

lemma up4_le: "n \<le> up4 n" "up4 n < n + 4"
  by (simp_all add: up4_def)

lemma unat_cast_back: "of_nat (unat x) = (x :: UInt64)"
  by simp

lemma FSCPIO_ALIGN4_nat:
  assumes "n + 3 < 2 ^ 64"
  shows "FSCPIO_ALIGN4 (of_nat n) = of_nat (up4 n)"
proof -
  have "x AND NOT 3 = push_bit 2 (drop_bit 2 x)" for x :: UInt64
  proof -
    have m: "(3 :: UInt64) = mask 2" by (simp add: mask_eq_exp_minus_1)
    show ?thesis unfolding m by (rule bit_word_eqI) (auto simp: bit_simps le_add_diff_inverse simp flip: add_2_eq_Suc)
  qed
  moreover have u: "unat (of_nat n + 3 :: UInt64) = n + 3"
  proof -
    have "unat (of_nat (n + 3) :: UInt64) = n + 3" using assms by (simp add: unsigned_of_nat take_bit_nat_eq_self del: of_nat_add)
    then show ?thesis by simp
  qed
  have "unat (push_bit 2 (drop_bit 2 (of_nat n + 3 :: UInt64))) = up4 n"
  proof -
    have "(n + 3) div 4 * 4 < 2 ^ 64" using assms by (meson le_less_trans div_times_less_eq_dividend)
    then show ?thesis unfolding unsigned_push_bit_eq unsigned_drop_bit_eq
      by (simp add: u drop_bit_eq_div take_bit_nat_eq_self up4_def push_bit_eq_mult)
  qed
  ultimately show ?thesis unfolding FSCPIO_ALIGN4_def by (metis unat_cast_back)
qed

lemma digit_step: "d < 16 \<Longrightarrow> sFSCPIODigit (digit_char d) r = r + of_nat d"
proof -
  assume d: "d < 16"
  have u: "unat (digit_char d) = (if d < 10 then d + 48 else d + 55)" by (rule digit_char(1) [OF d])
  have c: "ucast (digit_char d) = (of_nat (unat (digit_char d)) :: UInt64)" by simp
  show ?thesis
  proof (cases "d < 10")
    case True
    then have "ucast (digit_char d) = (of_nat d + 48 :: UInt64)" using c u by simp
    then show ?thesis using u True by (simp add: sFSCPIODigit_def word_le_nat_alt)
  next
    case False
    then have "ucast (digit_char d) = (of_nat d + 55 :: UInt64)" using c u by simp
    then show ?thesis using u False d by (simp add: sFSCPIODigit_def word_le_nat_alt)
  qed
qed

lemma Hexadecimal_effect:
  assumes "\<forall>d \<in> set ds. d < 16"
  shows "sFSCPIOHexadecimal (map digit_char ds @ rest) (length ds) r = Inr (foldl (\<lambda>v d. 16 * v + of_nat d) r ds)"
  using assms
proof (induction ds arbitrary: r)
  case (Cons d ds)
  have "push_bit 4 r = 16 * r" by (simp add: push_bit_eq_mult)
  with Cons show ?case by (simp add: digit_step)
qed simp

lemma hex8_effect: "sFSCPIOHexadecimalToUInt64 (hex8 w @ rest) 8 = Inr (ucast w)" "length (hex8 w) = 8"
proof -
  let ?ds = "replicate (8 - length (number_digits 16 (unat w))) 0 @ rev (number_digits 16 (unat w))"
  have "unat w < 16 ^ Suc 7" using unsigned_less [of w, where ?'a = nat] by simp
  from length_number_digits [OF _ this] have len: "length (number_digits 16 (unat w)) \<le> 8" by simp
  then show "length (hex8 w) = 8" by (simp add: hex8_def)
  have l: "length ?ds = 8" using len by simp
  have hex: "hex8 w = map digit_char ?ds" by (simp add: hex8_def Let_def)
  have small: "\<forall>d \<in> set ?ds. d < 16" using number_digits_small [of 16] by auto
  have "of_nat (foldl (\<lambda>v d. 16 * v + d) v ds) = foldl (\<lambda>v d. 16 * v + of_nat d) (of_nat v :: UInt64) ds" for v :: nat and ds
    by (induction ds arbitrary: v) simp_all
  from this [of 0 ?ds] have "foldl (\<lambda>v d. 16 * v + of_nat d) (0 :: UInt64) ?ds = of_nat (value_of 16 ?ds)"
    by (simp add: value_of_def)
  also have "value_of 16 ?ds = unat w" unfolding value_of_zeros by (rule value_number_digits) simp
  finally show "sFSCPIOHexadecimalToUInt64 (hex8 w @ rest) 8 = Inr (ucast w)"
    using Hexadecimal_effect [OF small, of rest 0] unfolding l hex by (simp add: sFSCPIOHexadecimalToUInt64_def)
qed

lemma length_cpio_header [simp]: "length (cpio_header f) = 110"
  by (simp add: cpio_header_def hex8_effect(2) bytes_def)

lemma data_offset_bounds: "111 + length (cpioName f) \<le> data_offset f" "data_offset f < 115 + length (cpioName f)"
  using up4_le [of "111 + length (cpioName f)"] by (simp_all add: data_offset_def)

lemma cpio_entry_name:
  "\<exists>rest. cpio_entry f @ after = cpio_header f @ cpioName f @ 0 # rest"
proof -
  obtain k where k: "data_offset f - 110 - length (cpioName f) = Suc k"
    using data_offset_bounds(1) [of f] by (cases "data_offset f - 110 - length (cpioName f)") auto
  show ?thesis unfolding cpio_entry_def k by simp
qed

lemma length_cpio_entry: "length (cpio_entry f) = data_offset f + up4 (length (cpioData f))"
  using data_offset_bounds(1) [of f] up4_le(1) [of "length (cpioData f)"] by (simp add: cpio_entry_def)

lemma cpio_entry_data: "take (length (cpioData f)) (drop (data_offset f) (cpio_entry f @ after)) = cpioData f"
  using data_offset_bounds(1) [of f] by (simp add: cpio_entry_def)

lemma magic_equal: "StringCompareWithLimit (bytes ''070701'' @ rest) (literal ''070701'') 6 = Inr 0"
  by (simp add: bytes_def literal_def StringCompareWithLimit.simps)

lemma header_values:
  assumes "object = cpio_entry f @ after"
  shows "StringCompareWithLimit (headerMagic (header_at object)) (literal ''070701'') 6 = Inr 0"
    "sFSCPIOHexadecimalToUInt64 (headerNameLength (header_at object)) 8 = Inr (ucast (of_nat (Suc (length (cpioName f))) :: UInt32))"
    "sFSCPIOHexadecimalToUInt64 (headerFileLength (header_at object)) 8 = Inr (ucast (of_nat (length (cpioData f)) :: UInt32))"
    "sFSCPIOHexadecimalToUInt64 (headerInode (header_at object)) 8 = Inr (ucast (cpioInode f))"
    "sFSCPIOHexadecimalToUInt64 (headerMode (header_at object)) 8 = Inr (ucast (cpioMode f))"
proof -
  have drops: "drop 6 object = hex8 (cpioInode f) @ drop 14 object" "drop 14 object = hex8 (cpioMode f) @ drop 22 object"
    "drop 54 object = hex8 (of_nat (length (cpioData f))) @ drop 62 object"
    "drop 94 object = hex8 (of_nat (Suc (length (cpioName f)))) @ drop 102 object"
    unfolding assms by (simp_all add: cpio_entry_def cpio_header_def hex8_effect(2) bytes_def)
  have "object = bytes ''070701'' @ drop 6 object" unfolding assms by (simp add: cpio_entry_def cpio_header_def bytes_def)
  then show "StringCompareWithLimit (headerMagic (header_at object)) (literal ''070701'') 6 = Inr 0"
    by (metis header_at_def FSCPIOHeader.select_convs(1) magic_equal)
  show "sFSCPIOHexadecimalToUInt64 (headerNameLength (header_at object)) 8 = Inr (ucast (of_nat (Suc (length (cpioName f))) :: UInt32))"
    "sFSCPIOHexadecimalToUInt64 (headerFileLength (header_at object)) 8 = Inr (ucast (of_nat (length (cpioData f)) :: UInt32))"
    "sFSCPIOHexadecimalToUInt64 (headerInode (header_at object)) 8 = Inr (ucast (cpioInode f))"
    "sFSCPIOHexadecimalToUInt64 (headerMode (header_at object)) 8 = Inr (ucast (cpioMode f))"
    unfolding header_at_def FSCPIOHeader.select_convs using drops hex8_effect(1) by metis+
qed

section \<open>One entry\<close>

abbreviation plain :: "string \<Rightarrow> piece list" where
  "plain s \<equiv> map Plain (bytes s)"

text \<open>What the kernel log says of a file whose contents are at an address.\<close>

definition found_pieces :: "UInt8 list \<Rightarrow> cpio_file \<Rightarrow> UInt64 \<Rightarrow> piece list" where
  "found_pieces object f loc =
     [Color (asc CHR ''b'')] @ plain ''CPIO'' @ [Color (asc CHR ''!'')] @ plain '': Found object '' @
     [Plain 0x27, Color (asc CHR ''y''), Text object (cpioName f), Color (asc CHR ''!''), Plain 0x27] @ plain '' (size: '' @
     [Color (asc CHR ''y''), Decimal (of_nat (length (cpioData f))) (of_nat (length (cpioData f))), Color (asc CHR ''!'')] @
     plain '') at '' @ [Color (asc CHR ''y'')] @ plain ''0x'' @ [Hexadecimal loc, Color (asc CHR ''!''), Plain 0x0A]"

definition found_text :: "cpio_file \<Rightarrow> UInt64 \<Rightarrow> UInt8 list" where
  "found_text f loc = bytes ''CPIO: Found object '' @ [0x27] @ cpioName f @ [0x27] @ bytes '' (size: '' @
     decimal (int (length (cpioData f))) @ bytes '') at 0x'' @ hexadecimal 0 (unat loc) @ [0x0A]"

lemma ucast_of_nat_32: "ucast (of_nat k :: UInt64) = (of_nat k :: UInt32)"
  by (rule bit_word_eqI) (auto simp: bit_simps)

lemma ucast_of_nat_64: "k < 2 ^ 32 \<Longrightarrow> ucast (of_nat k :: UInt32) = (of_nat k :: UInt64)"
  by (simp add: word_unat_eq_iff unsigned_ucast_eq unsigned_of_nat take_bit_nat_eq_self)

lemma found_logs:
  assumes ok: "console_ok s" and f: "cpio_ok f" and name: "c_string object (cpioName f)"
  shows "\<exists>t. IOConsoleLog found_object [VAString (Some object), VANumber (of_nat (length (cpioData f))), VANumber loc] s = Inr t \<and>
    printed s (found_text f loc) t"
proof -
  let ?ps = "found_pieces object f loc"
  have len: "length (cpioData f) < 2 ^ 31" using f by (simp add: cpio_ok_def)
  have u: "unat (of_nat (length (cpioData f)) :: Int32) = length (cpioData f)"
    using len by (simp add: unsigned_of_nat take_bit_nat_eq_self)
  have s: "sint (of_nat (length (cpioData f)) :: Int32) = int (length (cpioData f))"
    using len by (simp add: signed_of_nat signed_take_bit_int_eq_self)
  have ne: "of_nat (length (cpioData f)) \<noteq> (0x80000000 :: Int32)"
  proof
    assume "of_nat (length (cpioData f)) = (0x80000000 :: Int32)"
    then have "unat (of_nat (length (cpioData f)) :: Int32) = 2 ^ 31" by simp
    with u len show False by simp
  qed
  have "\<forall>p \<in> set ?ps. piece_ok p"
    using name f ne ucast_of_nat_32 [of "length (cpioData f)"] by (simp add: found_pieces_def bytes_def cpio_ok_def)
  from Log_effect [OF ok this, of "[]" "[]"] obtain t where
    "IOConsoleLog (concat (map piece_format ?ps) @ [0]) (concat (map piece_args ?ps)) s = Inr t"
    "printed s (concat (map piece_text ?ps)) t" by auto
  moreover have "concat (map piece_format ?ps) @ [0] = found_object" by (simp add: found_pieces_def bytes_def)
  moreover have "concat (map piece_args ?ps) = [VAString (Some object), VANumber (of_nat (length (cpioData f))), VANumber loc]"
    by (simp add: found_pieces_def bytes_def)
  moreover have "concat (map piece_text ?ps) = found_text f loc" by (simp add: found_pieces_def found_text_def bytes_def s)
  ultimately show ?thesis by (simp only:) blast
qed

text \<open>The node of a file.\<close>

definition file_node :: "cpio_file \<Rightarrow> UInt64 \<Rightarrow> FSVNode" where
  "file_node f loc = zero_node\<lparr>nodeName := cpioName f @ replicate (256 - length (cpioName f)) 0,
     dataLength := of_nat (length (cpioData f)), inodeIdentifier := cpioInode f, operations := Some gFSCPIOOperations,
     implementationData := loc,
     nodeFlags := (if cpioMode f AND 0xF000 = 0x4000 then kFSVNodeFlagDirectory else kFSVNodeFlagFile)\<rparr>"

definition link_node :: "UInt64 \<Rightarrow> UInt64 \<Rightarrow> UInt64 \<Rightarrow> FSVNode \<Rightarrow> node_store \<Rightarrow> node_store" where
  "link_node root tailNode new node ns =
     (let ns = ns(new := node)
      in if childNode (ns root) = 0 then ns(root := (ns root)\<lparr>childNode := new\<rparr>)
         else if tailNode \<noteq> 0 then ns(tailNode := (ns tailNode)\<lparr>nextNode := new\<rparr>) else ns)"

lemma LinkNode_effect:
  "sFSCPIOLinkNode root tailNode new (update_node new (\<lambda>_. node) s) = s\<lparr>nodes := link_node root tailNode new node (nodes s)\<rparr>"
  by (simp add: sFSCPIOLinkNode_def link_node_def update_node_def Let_def)

lemma ucast_mode: "(ucast (w :: UInt32) :: UInt64) AND 0xF000 = 0x4000 \<longleftrightarrow> w AND 0xF000 = 0x4000"
proof -
  have "(ucast w AND ucast (0xF000 :: UInt32) :: UInt64) = ucast (w AND 0xF000)"
    by (rule bit_word_eqI) (auto simp: bit_simps dest: bit_imp_le_length)
  then have "(ucast w :: UInt64) AND 0xF000 = ucast (w AND 0xF000)" by simp
  moreover have "(ucast (w AND 0xF000) :: UInt64) = ucast (0x4000 :: UInt32) \<longleftrightarrow> w AND 0xF000 = 0x4000"
    by (simp only: word_unat_eq_iff unsigned_ucast_eq) (simp add: take_bit_nat_eq_self unsigned_less [THEN less_le_trans])
  ultimately show ?thesis by simp
qed

lemma ucast_back: "ucast (ucast (w :: UInt32) :: UInt64) = w"
  by (rule bit_word_eqI) (auto simp: bit_simps)

lemma console_only_filesystem:
  fixes s :: "'a filesystem_scheme"
  assumes "console_only s t"
  shows "nodes t = nodes s" "kernel_memory t = kernel_memory s" "heap_inv t bs = heap_inv s bs"
    "gFSVirtualFileSystemRoot t = gFSVirtualFileSystemRoot s"
  using assms by (auto simp: console_only_def kernel_memory_def heap_inv_def heap_blocks_def)

lemma console_ok_heap [simp]: "console_ok (s\<lparr>heapHeaders := st\<rparr>) = console_ok s"
  by (cases "sIOGraphicsContextPointer s") (simp_all add: console_ok_def transmit_ready_def)

lemma console_ok_nodes [simp]: "console_ok (s\<lparr>nodes := ns\<rparr>) = console_ok s"
  by (cases "sIOGraphicsContextPointer s") (simp_all add: console_ok_def transmit_ready_def)

lemma Allocate_returns:
  fixes s :: "'a heap_scheme"
  assumes "heap_inv s bs" "sz \<noteq> 0"
  shows "\<exists>r t. VMHeapAllocate sz s = Inr (r, t)"
  using Allocate_effect [OF assms] by (cases "alloc_blocks (align16 sz) bs") auto

lemma Entry_effect:
  fixes s :: "'a filesystem_scheme"
  assumes inv: "heap_inv s bs" and ok: "console_ok s" and f: "cpio_ok f"
    and obj: "drop (unat (cur - base)) archive = cpio_entry f @ after"
  shows "sFSCPIOMountEntry archive base root cur tailNode s = Inl (Panic ''CPIO: Failed to allocate memory for new node'') \<or>
    (\<exists>new st t n bs'. sFSCPIOMountEntry archive base root cur tailNode s =
        Inr (Some (cur + of_nat (length (cpio_entry f)), new), t) \<and> new \<noteq> 0 \<and> new - 40 \<notin> fst ` live bs \<and>
      printed (s\<lparr>heapHeaders := st, nodes := link_node root tailNode new (file_node f (cur + of_nat (data_offset f))) (nodes s)\<rparr>)
        (found_text f (cur + of_nat (data_offset f))) t \<and> heap_inv t bs' \<and> live bs' = insert (new - 40, n) (live bs))"
proof -
  define object where "object = cpio_entry f @ after"
  let ?loc = "cur + of_nat (data_offset f)"
  note head = header_values [OF object_def]
  have f': "0 \<notin> set (cpioName f)" "length (cpioName f) \<le> 255" "cpioName f \<noteq> bytes ''TRAILER!!!''" "length (cpioData f) < 2 ^ 31"
    using f by (simp_all add: cpio_ok_def)
  obtain rest where "object = cpio_header f @ cpioName f @ 0 # rest" unfolding object_def using cpio_entry_name by blast
  then have name: "c_string (drop 110 object) (cpioName f)" using f'(1) by simp
  have "c_string (literal ''TRAILER!!!'') (bytes ''TRAILER!!!'')" by (simp add: literal_def bytes_def)
  from StringCompare_effect [OF name this] obtain d where cmp: "StringCompare (drop 110 object) (literal ''TRAILER!!!'') = Inr d" "d \<noteq> 0"
    using f'(3) by auto
  have size_data: "ucast (of_nat (length (cpioData f)) :: UInt32) = (of_nat (length (cpioData f)) :: UInt64)"
    and size_name: "ucast (of_nat (Suc (length (cpioName f))) :: UInt32) = (of_nat (Suc (length (cpioName f))) :: UInt64)"
    by (rule ucast_of_nat_64, use f' in simp)+
  have "FSCPIO_ALIGN4 (of_nat (111 + length (cpioName f))) = of_nat (data_offset f)"
    unfolding data_offset_def by (rule FSCPIO_ALIGN4_nat) (use f' in simp)
  then have off: "FSCPIO_ALIGN4 (110 + of_nat (Suc (length (cpioName f)))) = of_nat (data_offset f)" by (simp add: add.commute)
  have al: "FSCPIO_ALIGN4 (of_nat (length (cpioData f))) = of_nat (up4 (length (cpioData f)))"
    by (rule FSCPIO_ALIGN4_nat) (use f' in simp)
  have copy: "StringCopyWithLimit (nodeName zero_node) (drop 110 object) 255 = Inr (cpioName f @ replicate (256 - length (cpioName f)) 0)"
  proof -
    have "replicate (256 - length (cpioName f)) (0 :: UInt8) = replicate (255 - length (cpioName f)) 0 @ [0]"
    proof -
      have "256 - length (cpioName f) = Suc (255 - length (cpioName f))" using f'(2) by simp
      then show ?thesis by (simp only: replicate_Suc replicate_append_same)
    qed
    then show ?thesis using StringCopyWithLimit_effect [OF name, of 255 "nodeName zero_node"] f'(2) by (simp add: zero_node_def)
  qed
  from Allocate_returns [OF inv] obtain new u where run: "VMHeapAllocate sizeof_FSVNode s = Inr (new, u)" by fastforce
  show ?thesis
  proof (cases "new = 0")
    case True
    then show ?thesis
      using run head cmp by (simp add: sFSCPIOMountEntry_def obj [folded object_def] Let_def)
  next
    case False
    from Allocate_live [OF inv _ _ run this] obtain st bs' n where
      u: "u = s\<lparr>heapHeaders := st\<rparr>" "heap_inv u bs'" "new - 40 \<notin> fst ` live bs" "live bs' = insert (new - 40, n) (live bs)" by auto
    let ?s = "s\<lparr>heapHeaders := st, nodes := link_node root tailNode new (file_node f ?loc) (nodes s)\<rparr>"
    have "console_ok ?s" using ok by (simp add: console_ok_heap console_ok_nodes)
    from found_logs [OF this f name, of ?loc] obtain t where
      t: "IOConsoleLog found_object [VAString (Some (drop 110 object)), VANumber (of_nat (length (cpioData f))), VANumber ?loc] ?s = Inr t"
        "printed ?s (found_text f ?loc) t" by blast
    have h: "heap_inv ?s bs'" using u(1,2) by (simp add: heap_inv_def heap_blocks_def)
    have ht: "heap_inv t bs'" using t(2) h console_only_filesystem(3) [of ?s t bs'] by (simp add: printed_def)
    have "sFSCPIOMountEntry archive base root cur tailNode s = Inr (Some (cur + of_nat (length (cpio_entry f)), new), t)"
    proof -
      have node: "zero_node\<lparr>nodeName := cpioName f @ replicate (256 - length (cpioName f)) 0, dataLength := of_nat (length (cpioData f)),
          inodeIdentifier := ucast (ucast (cpioInode f) :: UInt64), operations := Some gFSCPIOOperations, implementationData := ?loc,
          nodeFlags := (if (ucast (cpioMode f) :: UInt64) AND 0xF000 = 0x4000 then kFSVNodeFlagDirectory else kFSVNodeFlagFile)\<rparr>
        = file_node f ?loc"
        unfolding ucast_mode file_node_def by (simp add: ucast_back)
      have len: "cur + (of_nat (data_offset f) + of_nat (up4 (length (cpioData f)))) = cur + of_nat (length (cpio_entry f))"
        by (simp add: length_cpio_entry)
      have header: "unat sizeof_FSCPIOHeader = 110" and ns: "nodes (s\<lparr>heapHeaders := st\<rparr>) = nodes s" by simp_all
      show ?thesis
        unfolding header sFSCPIOMountEntry_def obj [folded object_def] Let_def head size_name size_data bindE_Inr cmp if_False if_not_P [OF cmp(2)]
          run u(1) prod.case if_not_P [OF False] copy off al node LinkNode_effect ns t(1) len
        by simp
    qed
    then show ?thesis using False u(3,4) t(2) ht by blast
  qed
qed

section \<open>The mounted volume\<close>

fun chain :: "node_store \<Rightarrow> UInt64 \<Rightarrow> UInt64 list \<Rightarrow> bool" where
  "chain ns p [] \<longleftrightarrow> p = 0"
| "chain ns p (a # as) \<longleftrightarrow> p = a \<and> a \<noteq> 0 \<and> chain ns (nextNode (ns a)) as"

text \<open>The children of the root, in order, with the files they stand for and where those are.\<close>

definition listing :: "node_store \<Rightarrow> UInt64 \<Rightarrow> UInt64 list \<Rightarrow> (cpio_file \<times> UInt64) list \<Rightarrow> bool" where
  "listing ns root as fls \<longleftrightarrow> chain ns (childNode (ns root)) as \<and> distinct (root # as) \<and>
     list_all2 (\<lambda>a fl. \<exists>n. ns a = (file_node (fst fl) (snd fl))\<lparr>nextNode := n\<rparr>) as fls"

fun located :: "UInt64 \<Rightarrow> cpio_file list \<Rightarrow> (cpio_file \<times> UInt64) list" where
  "located cur [] = []"
| "located cur (f # fs) = (f, cur + of_nat (data_offset f)) # located (cur + of_nat (length (cpio_entry f))) fs"

lemma chain_cong: "(\<And>a. a \<in> set as \<Longrightarrow> nextNode (ns a) = nextNode (ms a)) \<Longrightarrow> chain ns p as = chain ms p as"
  by (induction as arbitrary: p) auto

lemma chain_nonzero: "chain ns p as \<Longrightarrow> a \<in> set as \<Longrightarrow> a \<noteq> 0"
  by (induction as arbitrary: p) auto

lemma chain_append:
  assumes "chain ns p as" "as \<noteq> []" "distinct as" "new \<notin> set as" "new \<noteq> 0" "nextNode (ms (last as)) = new" "nextNode (ms new) = 0"
    "\<And>a. a \<in> set (butlast as) \<Longrightarrow> nextNode (ms a) = nextNode (ns a)"
  shows "chain ms p (as @ [new])"
  using assms
proof (induction as arbitrary: p)
  case (Cons a as)
  show ?case
  proof (cases "as = []")
    case True
    with Cons.prems show ?thesis by simp
  next
    case False
    have "chain ms (nextNode (ns a)) (as @ [new])"
      by (rule Cons.IH) (use Cons.prems False in auto)
    moreover have "nextNode (ms a) = nextNode (ns a)" using Cons.prems(8) False by simp
    ultimately show ?thesis using Cons.prems(1) by simp
  qed
qed simp

lemma all_files_update:
  assumes "list_all2 (\<lambda>a fl. \<exists>n. ns a = (F fl)\<lparr>nextNode := n\<rparr>) as fls"
    "\<And>a. a \<in> set as \<Longrightarrow> \<exists>n. ms a = (ns a)\<lparr>nextNode := n\<rparr>"
  shows "list_all2 (\<lambda>a fl. \<exists>n. ms a = (F fl :: FSVNode)\<lparr>nextNode := n\<rparr>) as fls"
  using assms
proof (induction as fls rule: list_all2_induct)
  case (Cons a as fl fls)
  then obtain n k where "ns a = (F fl)\<lparr>nextNode := n\<rparr>" "ms a = (ns a)\<lparr>nextNode := k\<rparr>" by fastforce
  then have "ms a = (F fl)\<lparr>nextNode := k\<rparr>" by simp
  with Cons show ?case by auto
qed simp

lemma listing_link:
  assumes l: "listing ns root as fls" and new: "new \<notin> set (root # as)" "new \<noteq> 0" "root \<noteq> 0"
    and tail: "tailNode = (if as = [] then 0 else last as)"
  shows "listing (link_node root tailNode new (file_node f loc) ns) root (as @ [new]) (fls @ [(f, loc)])"
proof -
  have ch: "chain ns (childNode (ns root)) as" and dist: "distinct (root # as)"
    and all: "list_all2 (\<lambda>a fl. \<exists>n. ns a = (file_node (fst fl) (snd fl))\<lparr>nextNode := n\<rparr>) as fls"
    using l by (simp_all add: listing_def)
  have zero: "nextNode (file_node f loc) = 0" by (simp add: file_node_def zero_node_def)
  have self: "\<exists>n. file_node f loc = (file_node f loc)\<lparr>nextNode := n\<rparr>" using zero by (intro exI [of _ 0]) simp
  show ?thesis
  proof (cases as)
    case Nil
    with ch all have "childNode (ns root) = 0" "fls = []" by simp_all
    moreover have "root \<noteq> new" "new \<noteq> root" using new(1) by auto
    ultimately have "link_node root tailNode new (file_node f loc) ns =
        ns(new := file_node f loc, root := (ns root)\<lparr>childNode := new\<rparr>)" by (simp add: link_node_def Let_def)
    then show ?thesis unfolding listing_def Nil \<open>fls = []\<close> using \<open>new \<noteq> root\<close> new(2) zero self by (simp add: file_node_def)
  next
    case (Cons b bs)
    with ch have first: "childNode (ns root) \<noteq> 0" "as \<noteq> []" by simp_all
    have last_as: "last as \<in> set as" "last as \<noteq> 0" using chain_nonzero [OF ch] first(2) by simp_all
    have "root \<noteq> new" "last as \<noteq> new" using new(1) last_as(1) by auto
    then have link: "link_node root tailNode new (file_node f loc) ns =
        ns(new := file_node f loc, last as := (ns (last as))\<lparr>nextNode := new\<rparr>)"
      using tail first last_as(2) by (simp add: link_node_def Let_def)
    let ?ms = "ns(new := file_node f loc, last as := (ns (last as))\<lparr>nextNode := new\<rparr>)"
    have ne: "last as \<noteq> new" "last as \<noteq> root" "root \<noteq> new" using new dist last_as(1) by auto
    have but: "a \<noteq> last as \<and> a \<noteq> new" if "a \<in> set (butlast as)" for a
    proof -
      have "distinct (butlast as @ [last as])" using dist first(2) by simp
      then have "a \<noteq> last as" using that by auto
      then show ?thesis using that new(1) in_set_butlastD [of a as] by auto
    qed
    have "chain ?ms (childNode (ns root)) (as @ [new])"
      by (rule chain_append [OF ch first(2)]) (use dist new zero ne but in auto)
    moreover have "list_all2 (\<lambda>a fl. \<exists>n. ?ms a = (file_node (fst fl) (snd fl))\<lparr>nextNode := n\<rparr>) as fls"
    proof (rule all_files_update [OF all])
      fix a assume "a \<in> set as"
      then show "\<exists>n. ?ms a = (ns a)\<lparr>nextNode := n\<rparr>"
        using new(1) by (cases "a = last as") (auto intro: exI [of _ "nextNode (ns a)"])
    qed
    then have "list_all2 (\<lambda>a fl. \<exists>n. ?ms a = (file_node (fst fl) (snd fl))\<lparr>nextNode := n\<rparr>) (as @ [new]) (fls @ [(f, loc)])"
      by (rule list_all2_appendI) (use ne self in simp)
    ultimately show ?thesis using ne new dist unfolding link listing_def by simp
  qed
qed

section \<open>Mounting an archive\<close>

lemma Trailer_effect:
  assumes "drop (unat (cur - base)) archive = trailer @ slack"
  shows "sFSCPIOMountEntry archive base root cur tailNode s = Inr (None, s)"
proof -
  let ?f = "\<lparr>cpioName = bytes ''TRAILER!!!'', cpioMode = 0, cpioInode = 0, cpioData = []\<rparr>"
  define object where "object = trailer @ slack"
  have obj: "object = cpio_entry ?f @ slack" by (simp add: object_def trailer_def)
  note head = header_values [OF obj]
  obtain rest where "object = cpio_header ?f @ cpioName ?f @ 0 # rest" unfolding obj using cpio_entry_name by blast
  then have name: "c_string (drop 110 object) (bytes ''TRAILER!!!'')" by (simp add: bytes_def)
  have "c_string (literal ''TRAILER!!!'') (bytes ''TRAILER!!!'')" by (simp add: literal_def bytes_def)
  from StringCompare_eq [OF name this] have "StringCompare (drop 110 object) (literal ''TRAILER!!!'') = Inr 0" by simp
  with head show ?thesis by (simp add: sFSCPIOMountEntry_def assms [folded object_def] Let_def)
qed

lemma kernel_memory_heap [simp]: "kernel_memory (s\<lparr>heapHeaders := st\<rparr>) = kernel_memory s"
  by (simp add: kernel_memory_def fun_eq_iff)

lemma kernel_memory_nodes [simp]: "kernel_memory (s\<lparr>nodes := ns\<rparr>) = kernel_memory s"
  by (simp add: kernel_memory_def fun_eq_iff)

lemma pointer_into:
  assumes "unat base + n < 2 ^ 64" "k \<le> n"
  shows "unat (base + of_nat k :: UInt64) = unat base + k" "unat (base + of_nat k - base :: UInt64) = k"
proof -
  have u: "unat (of_nat k :: UInt64) = k" using assms by (simp add: unsigned_of_nat take_bit_nat_eq_self)
  then show "unat (base + of_nat k) = unat base + k" using assms by (simp add: unat_word_ariths)
  show "unat (base + of_nat k - base) = k" using u by simp
qed

lemma Loop_effect:
  fixes s :: "'a filesystem_scheme"
  assumes "\<forall>f \<in> set fs. cpio_ok f" "drop off archive = concat (map cpio_entry fs) @ trailer @ slack"
    "unat base + length archive < 2 ^ 64" "off \<le> length archive"
    "listing (nodes s) root as fls" "root \<noteq> 0" "heap_inv s bs" "console_ok s"
    "\<forall>a \<in> set (root # as). a - 40 \<in> fst ` live bs" "tailNode = (if as = [] then 0 else last as)"
  shows "sFSCPIOMountLoop archive base (base + of_nat (length archive)) root (base + of_nat off) tailNode s =
      Some (Inl (Panic ''CPIO: Failed to allocate memory for new node'')) \<or>
    (\<exists>t as' bs'. sFSCPIOMountLoop archive base (base + of_nat (length archive)) root (base + of_nat off) tailNode s = Some (Inr t) \<and>
      listing (nodes t) root as' (fls @ located (base + of_nat off) fs) \<and> heap_inv t bs' \<and> console_ok t \<and>
      serial_output t = serial_output s @ concat (map (\<lambda>fl. found_text (fst fl) (snd fl)) (located (base + of_nat off) fs)) \<and>
      kernel_memory t = kernel_memory s \<and> gFSVirtualFileSystemRoot t = gFSVirtualFileSystemRoot s \<and>
      (\<forall>a \<in> set (root # as'). a - 40 \<in> fst ` live bs') \<and> live bs \<subseteq> live bs')"
  using assms
proof (induction fs arbitrary: off s as fls bs tailNode)
  case Nil
  let ?cur = "base + of_nat off"
  have p: "unat ?cur = unat base + off" "unat (?cur - base) = off" by (rule pointer_into [OF Nil.prems(3,4)])+
  have "length trailer > 0" by (simp add: trailer_def length_cpio_entry data_offset_def up4_def)
  then have "off < length archive" using arg_cong [OF Nil.prems(2), of length] by (simp del: length_greater_0_conv)
  then have lt: "?cur < base + of_nat (length archive)"
    using p(1) pointer_into(1) [OF Nil.prems(3) order_refl] by (simp add: word_less_nat_alt)
  have "sFSCPIOMountEntry archive base root ?cur tailNode s = Inr (None, s)"
    by (rule Trailer_effect [where slack = slack]) (use p(2) Nil.prems(2) in simp)
  then have "sFSCPIOMountLoop archive base (base + of_nat (length archive)) root ?cur tailNode s = Some (Inr s)"
    using lt by (subst sFSCPIOMountLoop.simps) simp
  then show ?case using Nil.prems by (intro disjI2 exI [of _ s] exI [of _ as] exI [of _ bs]) simp
next
  case (Cons f fs)
  let ?cur = "base + of_nat off" and ?limit = "base + of_nat (length archive)"
  have p: "unat ?cur = unat base + off" "unat (?cur - base) = off" by (rule pointer_into [OF Cons.prems(3,4)])+
  have f: "cpio_ok f" and fs: "\<forall>f \<in> set fs. cpio_ok f" using Cons.prems(1) by simp_all
  have obj: "drop (unat (?cur - base)) archive = cpio_entry f @ (concat (map cpio_entry fs) @ trailer @ slack)"
    using p(2) Cons.prems(2) by simp
  have longer: "length (cpio_entry f) > 0" using data_offset_bounds(1) [of f] by (simp add: length_cpio_entry)
  have fits: "off + length (cpio_entry f) \<le> length archive" using arg_cong [OF Cons.prems(2), of length] Cons.prems(4) by simp
  have lt: "?cur < ?limit" using p(1) pointer_into(1) [OF Cons.prems(3) order_refl] fits longer by (simp add: word_less_nat_alt del: length_greater_0_conv)
  from Entry_effect [OF Cons.prems(7,8) f obj, of root tailNode] show ?case
  proof
    assume "sFSCPIOMountEntry archive base root ?cur tailNode s = Inl (Panic ''CPIO: Failed to allocate memory for new node'')"
    then show ?thesis using lt by (intro disjI1) (subst sFSCPIOMountLoop.simps, simp)
  next
    assume "\<exists>new st t n bs'. sFSCPIOMountEntry archive base root ?cur tailNode s =
        Inr (Some (?cur + of_nat (length (cpio_entry f)), new), t) \<and> new \<noteq> 0 \<and> new - 40 \<notin> fst ` live bs \<and>
      printed (s\<lparr>heapHeaders := st, nodes := link_node root tailNode new (file_node f (?cur + of_nat (data_offset f))) (nodes s)\<rparr>)
        (found_text f (?cur + of_nat (data_offset f))) t \<and> heap_inv t bs' \<and> live bs' = insert (new - 40, n) (live bs)"
    then obtain new st t n bs1 where entry: "sFSCPIOMountEntry archive base root ?cur tailNode s =
        Inr (Some (?cur + of_nat (length (cpio_entry f)), new), t)" and new: "new \<noteq> 0" "new - 40 \<notin> fst ` live bs"
      and pr: "printed (s\<lparr>heapHeaders := st, nodes := link_node root tailNode new (file_node f (?cur + of_nat (data_offset f))) (nodes s)\<rparr>)
        (found_text f (?cur + of_nat (data_offset f))) t" and h: "heap_inv t bs1" "live bs1 = insert (new - 40, n) (live bs)"
      by blast
    let ?loc = "?cur + of_nat (data_offset f)"
    have next_cur: "?cur + of_nat (length (cpio_entry f)) = base + of_nat (off + length (cpio_entry f))" by simp
    have fresh: "new \<notin> set (root # as)" using new(2) Cons.prems(9) by blast
    have t: "nodes t = link_node root tailNode new (file_node f ?loc) (nodes s)" "kernel_memory t = kernel_memory s"
      "gFSVirtualFileSystemRoot t = gFSVirtualFileSystemRoot s" "console_ok t"
      "serial_output t = serial_output s @ found_text f ?loc"
      using pr console_only_filesystem [of "s\<lparr>heapHeaders := st, nodes := link_node root tailNode new (file_node f ?loc) (nodes s)\<rparr>" t]
      by (simp_all add: printed_def serial_output_def kernel_memory_heap kernel_memory_nodes)
    have l: "listing (nodes t) root (as @ [new]) (fls @ [(f, ?loc)])"
      unfolding t(1) by (rule listing_link [OF Cons.prems(5) fresh new(1) Cons.prems(6,10)])
    have d: "drop (off + length (cpio_entry f)) archive = concat (map cpio_entry fs) @ trailer @ slack"
    proof -
      have "drop (off + length (cpio_entry f)) archive = drop (length (cpio_entry f)) (drop off archive)" by (simp add: add.commute)
      then show ?thesis unfolding Cons.prems(2) by simp
    qed
    have own: "\<forall>a \<in> set (root # as @ [new]). a - 40 \<in> fst ` live bs1" using Cons.prems(9) h(2) by auto
    have step: "sFSCPIOMountLoop archive base ?limit root ?cur tailNode s =
        sFSCPIOMountLoop archive base ?limit root (base + of_nat (off + length (cpio_entry f))) new t"
      using lt entry next_cur by (subst sFSCPIOMountLoop.simps) simp
    have tl: "new = (if as @ [new] = [] then 0 else last (as @ [new]))" by simp
    note IH = Cons.IH [OF fs d Cons.prems(3) fits l Cons.prems(6) h(1) t(4) own tl]
    from IH show ?thesis
    proof
      assume "sFSCPIOMountLoop archive base ?limit root (base + of_nat (off + length (cpio_entry f))) new t =
        Some (Inl (Panic ''CPIO: Failed to allocate memory for new node''))"
      then show ?thesis unfolding step by blast
    next
      assume "\<exists>u as' bs'. sFSCPIOMountLoop archive base ?limit root (base + of_nat (off + length (cpio_entry f))) new t = Some (Inr u) \<and>
        listing (nodes u) root as' ((fls @ [(f, ?loc)]) @ located (base + of_nat (off + length (cpio_entry f))) fs) \<and> heap_inv u bs' \<and>
        console_ok u \<and> serial_output u = serial_output t @
          concat (map (\<lambda>fl. found_text (fst fl) (snd fl)) (located (base + of_nat (off + length (cpio_entry f))) fs)) \<and>
        kernel_memory u = kernel_memory t \<and> gFSVirtualFileSystemRoot u = gFSVirtualFileSystemRoot t \<and>
        (\<forall>a \<in> set (root # as'). a - 40 \<in> fst ` live bs') \<and> live bs1 \<subseteq> live bs'"
      then obtain u as' bs' where u: "sFSCPIOMountLoop archive base ?limit root (base + of_nat (off + length (cpio_entry f))) new t = Some (Inr u)"
        "listing (nodes u) root as' ((fls @ [(f, ?loc)]) @ located (base + of_nat (off + length (cpio_entry f))) fs)" "heap_inv u bs'"
        "console_ok u" "serial_output u = serial_output t @
          concat (map (\<lambda>fl. found_text (fst fl) (snd fl)) (located (base + of_nat (off + length (cpio_entry f))) fs))"
        "kernel_memory u = kernel_memory t" "gFSVirtualFileSystemRoot u = gFSVirtualFileSystemRoot t"
        "\<forall>a \<in> set (root # as'). a - 40 \<in> fst ` live bs'" "live bs1 \<subseteq> live bs'" by blast
      have "located ?cur (f # fs) = (f, ?loc) # located (base + of_nat (off + length (cpio_entry f))) fs"
        unfolding located.simps next_cur ..
      then show ?thesis unfolding step using u t h(2)
        by (intro disjI2 exI [of _ u] exI [of _ as'] exI [of _ bs']) (simp del: located.simps of_nat_add)
    qed
  qed
qed

section \<open>Any archive ends\<close>

lemma byte_width [simp]: "unat (ucast (x :: UInt8) :: UInt64) = unat x"
  using unsigned_less [of x, where ?'a = nat] by (simp add: unsigned_ucast_eq take_bit_nat_eq_self)

lemma Digit_bound: "unat r < 16 ^ k \<Longrightarrow> k < 16 \<Longrightarrow> unat (sFSCPIODigit c (push_bit 4 r)) < 16 ^ Suc k"
proof -
  assume r: "unat r < 16 ^ k" "k < 16"
  then have "(16 :: nat) ^ Suc k \<le> 16 ^ 16" by (intro power_increasing) auto
  then have lt: "16 * unat r + 15 < 2 ^ 64" using r(1) by simp
  then have p: "unat (push_bit 4 r) = 16 * unat r" by (simp add: push_bit_eq_mult unat_word_ariths)
  have "\<exists>v \<le> 15. sFSCPIODigit c (push_bit 4 r) = push_bit 4 r + v"
  proof -
    have small: "unat (ucast c - ucast b + (d :: UInt64)) \<le> 15"
      if "b \<le> c" "unat d \<le> 10" "unat c + unat d \<le> unat b + 15" for b :: UInt8 and d
    proof -
      have "unat (ucast c - ucast b :: UInt64) = unat c - unat b" using that(1) byte_width by (simp add: unat_sub word_le_nat_alt)
      then show ?thesis using unsigned_less [of c, where ?'a = nat] that(2,3) by (simp add: unat_word_ariths)
    qed
    show ?thesis
    proof (cases "asc CHR ''0'' \<le> c \<and> c \<le> asc CHR ''9''")
      case True
      then show ?thesis using small [of "asc CHR ''0''" 0] True
        by (intro exI [of _ "ucast c - ucast (asc CHR ''0'') :: UInt64"]) (simp add: sFSCPIODigit_def word_le_nat_alt)
    next
      case no: False
      show ?thesis
      proof (cases "asc CHR ''A'' \<le> c \<and> c \<le> asc CHR ''F''")
        case True
        then show ?thesis using small [of "asc CHR ''A''" 10] no
          by (intro exI [of _ "ucast c - ucast (asc CHR ''A'') + 10 :: UInt64"]) (simp add: sFSCPIODigit_def word_le_nat_alt)
      next
        case no': False
        show ?thesis
        proof (cases "asc CHR ''a'' \<le> c \<and> c \<le> asc CHR ''f''")
          case True
          then show ?thesis using small [of "asc CHR ''a''" 10] no no'
            by (intro exI [of _ "ucast c - ucast (asc CHR ''a'') + 10 :: UInt64"]) (simp add: sFSCPIODigit_def word_le_nat_alt)
        next
          case False
          with no no' show ?thesis by (intro exI [of _ 0]) (auto simp: sFSCPIODigit_def)
        qed
      qed
    qed
  qed
  then obtain v where v: "unat v \<le> 15" "sFSCPIODigit c (push_bit 4 r) = push_bit 4 r + v" by (auto simp: word_le_nat_alt)
  then have "unat (sFSCPIODigit c (push_bit 4 r)) = 16 * unat r + unat v" using p lt by (simp add: unat_word_ariths)
  then show ?thesis using v(1) r(1) by simp
qed

lemma Hexadecimal_bound:
  "sFSCPIOHexadecimal string n r = Inr v \<Longrightarrow> unat r < 16 ^ k \<Longrightarrow> n + k \<le> 16 \<Longrightarrow> unat v < 16 ^ (n + k)"
proof (induction string n r arbitrary: k rule: sFSCPIOHexadecimal.induct)
  case (3 c string n r)
  then show ?case using Digit_bound [of r k c] by (metis (no_types, lifting) Suc_le_lessD add_Suc add_Suc_right add_leD2
      order.strict_trans1 sFSCPIOHexadecimal.simps(3) le_add2)
qed auto

lemma HexadecimalToUInt64_bound: "sFSCPIOHexadecimalToUInt64 string 8 = Inr v \<Longrightarrow> unat v < 2 ^ 32"
  using Hexadecimal_bound [of string 8 0 v 0] by (simp add: sFSCPIOHexadecimalToUInt64_def)

lemma FSCPIO_ALIGN4_bounds:
  assumes "unat x + 3 < 2 ^ 64" shows "unat x \<le> unat (FSCPIO_ALIGN4 x)" "unat (FSCPIO_ALIGN4 x) < unat x + 4"
proof -
  have "FSCPIO_ALIGN4 x = of_nat (up4 (unat x))" using FSCPIO_ALIGN4_nat [OF assms] by simp
  moreover have "up4 (unat x) < 2 ^ 64" using up4_le(2) [of "unat x"] assms by linarith
  ultimately have "unat (FSCPIO_ALIGN4 x) = up4 (unat x)" by (simp add: unsigned_of_nat take_bit_nat_eq_self)
  with up4_le [of "unat x"] show "unat x \<le> unat (FSCPIO_ALIGN4 x)" "unat (FSCPIO_ALIGN4 x) < unat x + 4" by simp_all
qed

lemma Entry_progress:
  assumes "sFSCPIOMountEntry archive base root cur tailNode s = Inr (Some (next_cur, tail'), t)"
  shows "\<exists>d. next_cur = cur + d \<and> 110 \<le> unat d \<and> unat d < 2 ^ 34"
proof -
  from assms obtain a b n k where ab: "sFSCPIOHexadecimalToUInt64 a 8 = Inr n" "sFSCPIOHexadecimalToUInt64 b 8 = Inr k"
    "next_cur = cur + (FSCPIO_ALIGN4 (sizeof_FSCPIOHeader + n) + FSCPIO_ALIGN4 k)"
    unfolding sFSCPIOMountEntry_def Let_def by (auto simp: bindE_eq_Inr split: if_splits)
  note nk = HexadecimalToUInt64_bound [OF ab(1)] HexadecimalToUInt64_bound [OF ab(2)] ab(3)
  have u: "unat (110 + n) = 110 + unat n" using nk(1) by (simp add: unat_word_ariths)
  have a: "110 + unat n \<le> unat (FSCPIO_ALIGN4 (110 + n))" "unat (FSCPIO_ALIGN4 (110 + n)) < 114 + unat n"
    using FSCPIO_ALIGN4_bounds [of "110 + n"] nk(1) u by simp_all
  have b: "unat (FSCPIO_ALIGN4 k) < unat k + 4" using FSCPIO_ALIGN4_bounds [of k] nk(2) by simp
  have "unat (FSCPIO_ALIGN4 (110 + n) + FSCPIO_ALIGN4 k) = unat (FSCPIO_ALIGN4 (110 + n)) + unat (FSCPIO_ALIGN4 k)"
    using a b nk by (simp add: unat_word_ariths)
  then show ?thesis using a b nk by (intro exI [of _ "FSCPIO_ALIGN4 (110 + n) + FSCPIO_ALIGN4 k"]) simp
qed

lemma Loop_returns:
  assumes "unat endPointer + 2 ^ 34 \<le> 2 ^ 64"
  shows "\<exists>r. sFSCPIOMountLoop archive base endPointer root cur tailNode s = Some r"
proof (induction "unat endPointer - unat cur" arbitrary: cur tailNode s rule: less_induct)
  case less
  show ?case
  proof (cases "cur < endPointer")
    case False
    then show ?thesis by (subst sFSCPIOMountLoop.simps) simp
  next
    case True
    show ?thesis
    proof (cases "\<exists>c tl t. sFSCPIOMountEntry archive base root cur tailNode s = Inr (Some (c, tl), t)")
      case False
      then show ?thesis using True
        by (subst sFSCPIOMountLoop.simps) (auto split: sum.splits option.splits)
    next
      case step: True
      then obtain c tl t where e: "sFSCPIOMountEntry archive base root cur tailNode s = Inr (Some (c, tl), t)" by blast
      from Entry_progress [OF e] obtain d where d: "c = cur + d" "110 \<le> unat d" "unat d < 2 ^ 34" by blast
      have lt: "unat cur < unat endPointer" using True by (simp add: word_less_nat_alt)
      then have "unat c = unat cur + unat d" using d assms by (simp add: unat_word_ariths)
      then have "unat endPointer - unat c < unat endPointer - unat cur" using d(2) lt by simp
      from less [OF this] obtain r where "sFSCPIOMountLoop archive base endPointer root c tl t = Some r" by blast
      then show ?thesis using True e by (subst sFSCPIOMountLoop.simps) simp
    qed
  qed
qed

section \<open>Looking a file up and reading it\<close>

lemma kernel_memory_set [simp]: "kernel_memory (set_kernel_memory m s) = m"
  by (auto simp: kernel_memory_def set_kernel_memory_def fun_eq_iff PHYS_TO_HHDM_def HHDM_TO_PHYS_def)

lemma set_kernel_memory_nodes [simp]: "nodes (set_kernel_memory m s) = nodes s"
  by (simp add: set_kernel_memory_def)

lemma nth_memory_object: "i < unat n \<Longrightarrow> memory_object s a n ! i = kernel_memory s (a + of_nat i)"
  by (simp add: memory_object_def)

lemma length_memory_object [simp]: "length (memory_object s a n) = unat n"
  by (simp add: memory_object_def)

lemma located_data:
  assumes "(f, loc) \<in> set (located (base + of_nat off) fs)" "drop off archive = concat (map cpio_entry fs) @ rest" "off \<le> length archive"
  shows "\<exists>pos. loc = base + of_nat pos \<and> pos + length (cpioData f) \<le> length archive \<and>
    take (length (cpioData f)) (drop pos archive) = cpioData f"
  using assms
proof (induction fs arbitrary: off)
  case (Cons g fs)
  have fits: "off + length (cpio_entry g) \<le> length archive" using arg_cong [OF Cons.prems(2), of length] Cons.prems(3) by simp
  have e: "base + of_nat off + of_nat (length (cpio_entry g)) = base + of_nat (off + length (cpio_entry g))" by simp
  show ?case
  proof (cases "(f, loc) = (g, base + of_nat off + of_nat (data_offset g))")
    case True
    have "drop (off + data_offset g) archive = drop (data_offset g) (cpio_entry g @ concat (map cpio_entry fs) @ rest)"
      using Cons.prems(2) by (metis add.commute append.assoc concat.simps(2) drop_drop list.simps(9))
    then have "take (length (cpioData g)) (drop (off + data_offset g) archive) = cpioData g" by (simp only: cpio_entry_data)
    moreover have "off + data_offset g + length (cpioData g) \<le> length archive"
      using fits up4_le(1) [of "length (cpioData g)"] by (simp add: length_cpio_entry)
    ultimately show ?thesis using True by (intro exI [of _ "off + data_offset g"]) simp
  next
    case False
    then have "(f, loc) \<in> set (located (base + of_nat (off + length (cpio_entry g))) fs)"
      using Cons.prems(1) unfolding located.simps e by auto
    moreover have "drop (off + length (cpio_entry g)) archive = concat (map cpio_entry fs) @ rest"
    proof -
      have "drop (off + length (cpio_entry g)) archive = drop (length (cpio_entry g)) (drop off archive)" by (simp add: add.commute)
      then show ?thesis unfolding Cons.prems(2) by simp
    qed
    ultimately show ?thesis by (rule Cons.IH) (rule fits)
  qed
qed simp

lemma map_fst_located [simp]: "map fst (located cur fs) = fs"
  by (induction fs arbitrary: cur) simp_all

lemma Find_effect:
  assumes "chain (nodes s) p as" "list_all2 (\<lambda>a fl. \<exists>n. nodes s a = (file_node (fst fl) (snd fl))\<lparr>nextNode := n\<rparr>) as fls"
    "\<forall>fl \<in> set fls. cpio_ok (fst fl)" "c_string name (cpioName f)" "f \<in> set (map fst fls)"
  shows "\<exists>k < length fls. cpioName (fst (fls ! k)) = cpioName f \<and> (\<forall>j < k. cpioName (fst (fls ! j)) \<noteq> cpioName f) \<and>
    sFSVirtualFileSystemFind call name p s = Some (Inr (as ! k, s))"
  using assms
proof (induction as arbitrary: p fls)
  case (Cons a as)
  then obtain g loc fls' n where fls: "fls = (g, loc) # fls'" and node: "nodes s a = (file_node g loc)\<lparr>nextNode := n\<rparr>"
    and rest: "list_all2 (\<lambda>a fl. \<exists>n. nodes s a = (file_node (fst fl) (snd fl))\<lparr>nextNode := n\<rparr>) as fls'"
    by (auto simp: list_all2_Cons1)
  have p: "p = a" "a \<noteq> 0" "chain (nodes s) (nextNode (nodes s a)) as" using Cons.prems(1) by auto
  have g: "0 \<notin> set (cpioName g)" "length (cpioName g) \<le> 255" using Cons.prems(3) fls by (auto simp: cpio_ok_def)
  obtain m where m: "256 - length (cpioName g) = Suc m" using g(2) by (cases "256 - length (cpioName g)") auto
  have str: "c_string (nodeName (nodes s a)) (cpioName g)" unfolding node file_node_def using g(1) by (simp add: m)
  from StringCompare_effect [OF str Cons.prems(4)] obtain d where
    d: "StringCompare (nodeName (nodes s a)) name = Inr d" "d = 0 \<longleftrightarrow> cpioName g = cpioName f" by blast
  show ?case
  proof (cases "cpioName g = cpioName f")
    case True
    have "operations (nodes s a) = Some gFSCPIOOperations" by (simp add: node file_node_def)
    then have "sFSVirtualFileSystemFind call name p s = Some (Inr (a, s))"
      using d True p by (subst sFSVirtualFileSystemFind.simps) (simp add: gFSCPIOOperations_def)
    then show ?thesis using True fls by (intro exI [of _ 0]) simp
  next
    case False
    have "f \<in> set (map fst fls')" using Cons.prems(5) fls False by auto
    from Cons.IH [OF p(3) rest _ Cons.prems(4) this] Cons.prems(3) fls obtain k where k: "k < length fls'"
      "cpioName (fst (fls' ! k)) = cpioName f" "\<forall>j < k. cpioName (fst (fls' ! j)) \<noteq> cpioName f"
      "sFSVirtualFileSystemFind call name (nextNode (nodes s a)) s = Some (Inr (as ! k, s))" by auto
    have "sFSVirtualFileSystemFind call name p s = Some (Inr (as ! k, s))"
      using d False p k(4) by (subst sFSVirtualFileSystemFind.simps) simp
    then show ?thesis using k False fls
      by (intro exI [of _ "Suc k"]) (auto simp: less_Suc_eq_0_disj)
  qed
qed simp

lemma copy_object:
  assumes "\<not> (0 < d - a \<and> d - a < of_nat n)" "n < 2 ^ 64"
  shows "map (\<lambda>i. MemoryCopy m d a (of_nat n) (d + of_nat i)) [0..<n] = map (\<lambda>i. m (a + of_nat i)) [0..<n]"
proof (rule map_cong)
  fix i assume "i \<in> set [0..<n]"
  then have "unat (of_nat i :: UInt64) < unat (of_nat n :: UInt64)" using assms(2) by (simp add: unsigned_of_nat take_bit_nat_eq_self)
  then show "MemoryCopy m d a (of_nat n) (d + of_nat i) = m (a + of_nat i)"
    unfolding MemoryCopy_effect [OF assms(1)] by (simp add: word_less_nat_alt)
qed simp

lemma kernel_memory_root [simp]: "kernel_memory (s\<lparr>gFSVirtualFileSystemRoot := r\<rparr>) = kernel_memory s"
  by (simp add: kernel_memory_def fun_eq_iff)

lemma Mount_effect:
  fixes s :: "'a filesystem_scheme"
  assumes inv: "heap_inv s bs" and ok: "console_ok s" and files: "\<forall>f \<in> set fs. cpio_ok f"
    and mem: "memory_object s base (of_nat (length archive)) = archive" "archive = cpio_archive fs @ slack"
    and fits: "unat base + length archive < 2 ^ 64"
  shows "case FSCPIOMount base (of_nat (length archive)) s of
      Inl e \<Rightarrow> e \<in> {Panic ''CPIO: Failed to allocate memory for root node'', Panic ''CPIO: Failed to allocate memory for new node''}
    | Inr (root, t) \<Rightarrow> root \<noteq> 0 \<and> (\<exists>as bs'. listing (nodes t) root as (located base fs) \<and> heap_inv t bs' \<and> live bs \<subseteq> live bs' \<and>
        (\<forall>a \<in> set (root # as). a - 40 \<in> fst ` live bs')) \<and> console_ok t \<and> kernel_memory t = kernel_memory s \<and>
        serial_output t = serial_output s @ concat (map (\<lambda>fl. found_text (fst fl) (snd fl)) (located base fs))"
proof -
  from Allocate_returns [OF inv] obtain root u where run: "VMHeapAllocate sizeof_FSVNode s = Inr (root, u)" by fastforce
  show ?thesis
  proof (cases "root = 0")
    case True
    then show ?thesis using run by (simp add: FSCPIOMount_def)
  next
    case False
    from Allocate_live [OF inv _ _ run this] obtain st bs1 n where
      u: "u = s\<lparr>heapHeaders := st\<rparr>" "heap_inv u bs1" "root - 40 \<notin> fst ` live bs" "live bs1 = insert (root - 40, n) (live bs)" by auto
    have "c_string (literal ''/'') [0x2F]" by (simp add: literal_def bytes_def)
    from StringCopy_effect [OF this, of "nodeName zero_node"] have name: "StringCopy (nodeName zero_node) (literal ''/'') = Inr (0x2F # 0 # replicate 254 0)"
      by (simp add: zero_node_def)
    let ?root = "zero_node\<lparr>nodeName := 0x2F # 0 # replicate 254 0, nodeFlags := kFSVNodeFlagDirectory, operations := Some gFSCPIOOperations\<rparr>"
    define v where "v = update_node root (\<lambda>_. ?root) u"
    have v: "kernel_memory v = kernel_memory s" "heap_inv v bs1" "console_ok v" "serial_output v = serial_output s"
      "listing (nodes v) root [] []"
      using u ok by (simp_all add: v_def update_node_def heap_inv_def heap_blocks_def serial_output_def listing_def zero_node_def)
    have object: "memory_object v base (of_nat (length archive)) = archive"
      using mem(1) v(1) by (simp add: memory_object_def)
    have d: "drop 0 archive = concat (map cpio_entry fs) @ trailer @ slack" using mem(2) by (simp add: cpio_archive_def)
    have own: "\<forall>a \<in> set (root # []). a - 40 \<in> fst ` live bs1" using u(4) by simp
    note loop = Loop_effect [OF files d fits _ v(5) False v(2,3) own, of 0, simplified]
    have mount: "FSCPIOMount base (of_nat (length archive)) s = bindE (returns (sFSCPIOMountLoop archive base (base + of_nat (length archive))
        root base 0 v)) (\<lambda>s. Inr (root, s))"
      using run False name object by (simp add: FSCPIOMount_def v_def Let_def)
    from loop consider (panic) "sFSCPIOMountLoop archive base (base + of_nat (length archive)) root base 0 v =
        Some (Inl (Panic ''CPIO: Failed to allocate memory for new node''))"
      | (fine) t as' bs' where "sFSCPIOMountLoop archive base (base + of_nat (length archive)) root base 0 v = Some (Inr t)"
        "listing (nodes t) root as' (located base fs)" "heap_inv t bs'" "console_ok t"
        "serial_output t = serial_output v @ concat (map (\<lambda>fl. found_text (fst fl) (snd fl)) (located base fs))"
        "kernel_memory t = kernel_memory v" "root - 40 \<in> fst ` live bs' \<and> (\<forall>a \<in> set as'. a - 40 \<in> fst ` live bs')"
        "live bs1 \<subseteq> live bs'" by blast
    then show ?thesis
    proof cases
      case panic
      then show ?thesis unfolding mount by (simp add: returns_def)
    next
      case t: (fine t as' bs')
      have "\<exists>as bs'. listing (nodes t) root as (located base fs) \<and> heap_inv t bs' \<and> live bs \<subseteq> live bs' \<and>
          (\<forall>a \<in> set (root # as). a - 40 \<in> fst ` live bs')"
        by (intro exI [of _ as'] exI [of _ bs']) (use t u(4) in simp)
      then show ?thesis unfolding mount using v t False by (simp add: returns_def)
    qed
  qed
qed


lemma open_and_read:
  fixes s :: "'a filesystem_scheme"
  assumes "heap_inv s bs" "console_ok s" "\<forall>f \<in> set (pre @ f # post). cpio_ok f" "\<forall>g \<in> set pre. cpioName g \<noteq> cpioName f"
    "cpioName f \<noteq> []"
    "memory_object s base (of_nat (length archive)) = archive" "archive = cpio_archive (pre @ f # post) @ slack"
    "unat base + length archive < 2 ^ 64" "FSCPIOMount base (of_nat (length archive)) s = Inr (root, t)"
    "unat buffer + length (cpioData f) \<le> unat base \<or> unat base + length archive \<le> unat buffer"
  shows "\<exists>node u. FSVirtualFileSystemOpenPath call (asc CHR ''/'' # cpioName f @ [0]) (FSVirtualFileSystemInitialize root t) =
      Inr (node, FSVirtualFileSystemInitialize root t) \<and>
    FSVNodeRead node 0 (of_nat (length (cpioData f))) buffer (FSVirtualFileSystemInitialize root t) = (of_nat (length (cpioData f)), u) \<and>
    memory_object u buffer (of_nat (length (cpioData f))) = cpioData f"
proof -
  let ?fs = "pre @ f # post" and ?t = "FSVirtualFileSystemInitialize root t" and ?n = "length (cpioData f)"
  from Mount_effect [OF assms(1-3,6-8)] assms(9) obtain as where
    t: "root \<noteq> 0" "listing (nodes t) root as (located base ?fs)" "kernel_memory t = kernel_memory s" by auto
  have f: "cpio_ok f" "?n < 2 ^ 31" "0 \<notin> set (cpioName f)" using assms(3) by (auto simp: cpio_ok_def)
  have nt: "nodes ?t = nodes t" "gFSVirtualFileSystemRoot ?t = root" by (simp_all add: FSVirtualFileSystemInitialize_def)
  have ok: "\<forall>fl \<in> set (located base ?fs). cpio_ok (fst fl)"
    using assms(3) map_fst_located [of base ?fs] by (metis (no_types, lifting) image_eqI list.set_map)
  have name: "c_string (cpioName f @ [0]) (cpioName f)" using f(3) by simp
  from t(2) have ch: "chain (nodes ?t) (childNode (nodes ?t root)) as"
    "list_all2 (\<lambda>a fl. \<exists>n. nodes ?t a = (file_node (fst fl) (snd fl))\<lparr>nextNode := n\<rparr>) as (located base ?fs)"
    unfolding listing_def nt by auto
  have "f \<in> set (map fst (located base ?fs))" by simp
  from Find_effect [OF ch ok name this, of call] obtain k where k: "k < length (located base ?fs)"
    "cpioName (fst (located base ?fs ! k)) = cpioName f" "\<forall>j < k. cpioName (fst (located base ?fs ! j)) \<noteq> cpioName f"
    "sFSVirtualFileSystemFind call (cpioName f @ [0]) (childNode (nodes ?t root)) ?t = Some (Inr (as ! k, ?t))"
    by blast
  have file_at: "fst (located base ?fs ! j) = ?fs ! j" if "j < length ?fs" for j
    using that map_fst_located [of base ?fs] by (metis length_map nth_map)
  have len: "length (located base ?fs) = length ?fs" using map_fst_located [of base ?fs] by (metis length_map)
  have "k = length pre"
  proof (rule antisym)
    show "k \<le> length pre" 
    proof (rule ccontr)
      assume "\<not> k \<le> length pre"
      then have "cpioName (fst (located base ?fs ! length pre)) \<noteq> cpioName f" using k(3) by simp
      then show False using file_at [of "length pre"] by simp
    qed
    show "length pre \<le> k"
    proof (rule ccontr)
      assume "\<not> length pre \<le> k"
      then have "?fs ! k \<in> set pre" by (simp add: nth_append)
      then show False using assms(4) k(1,2) file_at [of k] len by simp
    qed
  qed
  then obtain loc where loc: "located base ?fs ! k = (f, loc)" using file_at [of k] by (cases "located base ?fs ! k") simp
  let ?a = "as ! k"
  from list_all2_nthD2 [OF ch(2) k(1)] loc obtain n where node: "nodes ?t ?a = (file_node f loc)\<lparr>nextNode := n\<rparr>" by auto
  have "?a \<noteq> 0" using chain_nonzero [OF ch(1)] list_all2_lengthD [OF ch(2)] k(1) by simp
  have opens: "FSVirtualFileSystemOpenPath call (asc CHR ''/'' # cpioName f @ [0]) ?t = Inr (?a, ?t)"
  proof -
    define name where "name = asc CHR ''/'' # cpioName f @ [0]"
    have str: "c_string name (asc CHR ''/'' # cpioName f)" "c_string (literal ''/'') [asc CHR ''/'']"
      using f(3) by (simp_all add: literal_def bytes_def name_def)
    obtain d where d: "StringCompare name (literal ''/'') = Inr d" "d = 0 \<longleftrightarrow> asc CHR ''/'' # cpioName f = [asc CHR ''/'']"
      using StringCompare_effect [OF str] by blast
    have "d \<noteq> 0" using d(2) assms(5) by blast
    moreover have "array_get name 0 = Inr (asc CHR ''/'')" "tl name = cpioName f @ [0]" by (simp_all add: name_def array_get_def)
    ultimately show ?thesis using t(1) nt(2) k(4) d(1) unfolding name_def [symmetric]
      by (simp add: FSVirtualFileSystemOpenPath_def returns_def)
  qed
  have "(f, loc) \<in> set (located (base + of_nat 0) ?fs)" using nth_mem [OF k(1)] unfolding loc by simp
  moreover have "drop 0 archive = concat (map cpio_entry ?fs) @ trailer @ slack" using assms(7) by (simp add: cpio_archive_def)
  ultimately obtain pos where pos: "loc = base + of_nat pos" "pos + ?n \<le> length archive" "take ?n (drop pos archive) = cpioData f"
    using located_data by blast
  have w: "(of_nat ?n :: UInt64) = 0 \<longleftrightarrow> ?n = 0" "unat (of_nat ?n :: UInt64) = ?n"
    using f(2) by (simp_all add: unsigned_of_nat take_bit_nat_eq_self word_unat_eq_iff)
  have apart: "\<not> (0 < buffer - loc \<and> buffer - loc < of_nat ?n)"
  proof -
    have l: "unat loc = unat base + pos" unfolding pos(1) by (rule pointer_into(1) [OF assms(8)]) (use pos(2) in simp)
    have "?n \<le> unat (buffer - loc)" if "0 < buffer - loc"
    proof (cases "unat loc \<le> unat buffer")
      case True
      then have "unat (buffer - loc) = unat buffer - unat loc" by (simp add: unat_sub word_le_nat_alt)
      then show ?thesis using assms(10) l pos(2) True that by (auto simp: word_less_nat_alt)
    next
      case False
      then have "unat (buffer - loc) = unat buffer + 2 ^ 64 - unat loc" by (simp add: unat_sub_if' word_le_nat_alt)
      then show ?thesis using assms(8) l pos(2) by simp
    qed
    then show ?thesis using w(2) by (auto simp: word_less_nat_alt)
  qed
  let ?m = "MemoryCopy (kernel_memory ?t) buffer loc (of_nat ?n)"
  have km: "kernel_memory ?t = kernel_memory s" using t(3) by (simp add: FSVirtualFileSystemInitialize_def kernel_memory_root)
  have read: "FSVNodeRead ?a 0 (of_nat ?n) buffer ?t = (of_nat ?n, set_kernel_memory ?m ?t)"
    using \<open>?a \<noteq> 0\<close> by (simp add: FSVNodeRead_def FSCPIORead_def node file_node_def gFSCPIOOperations_def Let_def)
  have "memory_object (set_kernel_memory ?m ?t) buffer (of_nat ?n) = map (\<lambda>i. ?m (buffer + of_nat i)) [0..<?n]"
    by (simp add: memory_object_def w(2))
  also have "\<dots> = map (\<lambda>i. kernel_memory s (loc + of_nat i)) [0..<?n]"
    unfolding km by (rule copy_object [OF apart]) (use f(2) in simp)
  also have "\<dots> = cpioData f"
  proof (rule nth_equalityI)
    fix i assume "i < length (map (\<lambda>i. kernel_memory s (loc + of_nat i)) [0..<?n])"
    then have i: "i < ?n" by simp
    then have "kernel_memory s (base + of_nat (pos + i)) = archive ! (pos + i)"
      using assms(6,8) pos(2) nth_memory_object [of "pos + i" "of_nat (length archive)" s base]
      by (simp add: unsigned_of_nat take_bit_nat_eq_self)
    also have "\<dots> = take ?n (drop pos archive) ! i" using i pos(2) by simp
    finally show "map (\<lambda>i. kernel_memory s (loc + of_nat i)) [0..<?n] ! i = cpioData f ! i"
      using i unfolding pos(1,3) by (simp add: add.assoc)
  qed simp
  finally show ?thesis using opens read by blast
qed

section \<open>Properties\<close>

text \<open>C24: Mounting an archive of well-formed files yields a root whose children are exactly the files, in their
  order: each with its name, type, inode, length and the address of its contents in the archive. The
  nodes are live and distinct heap blocks, the archive and all other memory are as before, and the
  log says one line for each file; the only other outcome is the panic for lack of memory.\<close>

theorem FSCPIOMount_correct:
  fixes s :: "'a filesystem_scheme"
  assumes "heap_inv s bs" "console_ok s" "\<forall>f \<in> set fs. cpio_ok f"
    "memory_object s base (of_nat (length archive)) = archive" "archive = cpio_archive fs @ slack"
    "unat base + length archive < 2 ^ 64"
  shows "case FSCPIOMount base (of_nat (length archive)) s of
      Inl e \<Rightarrow> e \<in> {Panic ''CPIO: Failed to allocate memory for root node'', Panic ''CPIO: Failed to allocate memory for new node''}
    | Inr (root, t) \<Rightarrow> root \<noteq> 0 \<and> (\<exists>as bs'. listing (nodes t) root as (located base fs) \<and> heap_inv t bs' \<and> live bs \<subseteq> live bs' \<and>
        (\<forall>a \<in> set (root # as). a - 40 \<in> fst ` live bs')) \<and> console_ok t \<and> kernel_memory t = kernel_memory s \<and>
        serial_output t = serial_output s @ concat (map (\<lambda>fl. found_text (fst fl) (snd fl)) (located base fs))"
  by (rule Mount_effect [OF assms])

text \<open>C23: What was put into an archive is what the kernel reads: after mounting, opening the path of a file and
  reading it from the start gives the whole contents of the first file of that name in the buffer, and
  its length, for every place of the buffer outside the archive.\<close>

theorem file_system_roundtrip:
  fixes s :: "'a filesystem_scheme"
  assumes "heap_inv s bs" "console_ok s" "\<forall>f \<in> set (pre @ f # post). cpio_ok f" "\<forall>g \<in> set pre. cpioName g \<noteq> cpioName f"
    "cpioName f \<noteq> []"
    "memory_object s base (of_nat (length archive)) = archive" "archive = cpio_archive (pre @ f # post) @ slack"
    "unat base + length archive < 2 ^ 64"
    "unat buffer + length (cpioData f) \<le> unat base \<or> unat base + length archive \<le> unat buffer"
  shows "case FSCPIOMount base (of_nat (length archive)) s of
      Inl e \<Rightarrow> e \<in> {Panic ''CPIO: Failed to allocate memory for root node'', Panic ''CPIO: Failed to allocate memory for new node''}
    | Inr (root, t) \<Rightarrow> \<exists>node u. let t = FSVirtualFileSystemInitialize root t in
        FSVirtualFileSystemOpenPath call (asc CHR ''/'' # cpioName f @ [0]) t = Inr (node, t) \<and>
        FSVNodeRead node 0 (of_nat (length (cpioData f))) buffer t = (of_nat (length (cpioData f)), u) \<and>
        memory_object u buffer (of_nat (length (cpioData f))) = cpioData f"
  using Mount_effect [OF assms(1-3,6-8)] open_and_read [OF assms(1-8) _ assms(9)]
  by (cases "FSCPIOMount base (of_nat (length archive)) s") (simp, fastforce simp: Let_def)

text \<open>C25: Mounting ends for every archive, whatever its bytes: each turn of the loop moves at least a header forward
  and less than sixteen gigabytes, so the loop ends when the archive is not at the very top of the address
  space.\<close>

theorem mount_loop_terminates:
  assumes "unat endPointer + 2 ^ 34 \<le> 2 ^ 64"
  shows "\<exists>r. sFSCPIOMountLoop archive base endPointer root cur tailNode s = Some r"
  by (rule Loop_returns [OF assms])

text \<open>Reading a node copies what is there: past the end nothing, otherwise the requested count cut to the end of
  the file, from the right place, without touching anything but the buffer; the sum of offset and count
  must not wrap.\<close>

theorem FSCPIORead_correct:
  assumes "unat offset + unat count < 2 ^ 64"
    and "\<not> (0 < buffer - (implementationData (nodes s node) + offset) \<and> buffer - (implementationData (nodes s node) + offset) < count)"
  shows "\<exists>n t. FSCPIORead node offset count buffer s = (of_nat n, t) \<and>
    n = min (unat count) (unat (dataLength (nodes s node)) - unat offset) \<and> nodes t = nodes s \<and>
    (\<forall>a. kernel_memory t a = (if unat (a - buffer) < n then kernel_memory s (implementationData (nodes s node) + offset + (a - buffer))
       else kernel_memory s a))"
proof (cases "offset > dataLength (nodes s node)")
  case True
  then have "FSCPIORead node offset count buffer s = (of_nat 0, s)" by (simp add: FSCPIORead_def)
  moreover have "unat (dataLength (nodes s node)) - unat offset = 0" using True by (simp add: word_less_nat_alt)
  ultimately show ?thesis by (intro exI [of _ 0] exI [of _ s]) simp
next
  case False
  let ?l = "dataLength (nodes s node)" and ?a = "implementationData (nodes s node) + offset"
  define c where "c = (if offset + count > ?l then ?l - offset else count)"
  have sum: "unat (offset + count) = unat offset + unat count" using assms(1) by (simp add: unat_word_ariths)
  have le: "unat offset \<le> unat ?l" using False by (simp add: word_less_nat_alt)
  have c: "unat c = min (unat count) (unat ?l - unat offset)"
    using sum le False by (auto simp: c_def word_less_nat_alt unat_sub word_le_nat_alt min_def)
  then have "c \<le> count" by (simp add: word_le_nat_alt)
  then have "\<not> (0 < buffer - ?a \<and> buffer - ?a < c)" using assms(2) by auto
  note copy = MemoryCopy_effect [OF this, of "kernel_memory s"]
  have run: "FSCPIORead node offset count buffer s = (c, set_kernel_memory (MemoryCopy (kernel_memory s) buffer ?a c) s)"
    using False by (simp add: FSCPIORead_def Let_def c_def)
  show ?thesis
    by (intro exI [of _ "unat c"] exI [of _ "set_kernel_memory (MemoryCopy (kernel_memory s) buffer ?a c) s"])
      (simp add: run c [symmetric] copy word_less_nat_alt)
qed

text \<open>When the sum wraps the count is not cut: the reader copies past the end of the file.\<close>

lemma FSCPIORead_wraps:
  assumes "offset \<le> dataLength (nodes s node)" "offset + count \<le> dataLength (nodes s node)" "offset + count < offset"
  shows "fst (FSCPIORead node offset count buffer s) = count" "count > dataLength (nodes s node) - offset"
proof -
  show "fst (FSCPIORead node offset count buffer s) = count" using assms by (simp add: FSCPIORead_def Let_def leD)
  show "count > dataLength (nodes s node) - offset" using assms by unat_arith
qed


section \<open>Witnesses\<close>

definition small_file :: cpio_file where
  "small_file = \<lparr>cpioName = bytes ''init'', cpioMode = 0x81A4, cpioInode = 1, cpioData = bytes ''HOT!''\<rparr>"

abbreviation small_archive :: "UInt8 list" where
  "small_archive \<equiv> cpio_archive [small_file] @ []"

abbreviation small_base :: UInt64 where
  "small_base \<equiv> 0xFFFF888000200000"

text \<open>The small system with an archive at two megabytes of physical memory.\<close>

definition small_filesystem :: filesystem where
  "small_filesystem = (scheduler.extend small_scheduler (filesystem.fields (\<lambda>_. zero_node) 0))
     \<lparr>mem := \<lambda>p. if unat (p - 0x200000) < length small_archive then small_archive ! unat (p - 0x200000) else 0\<rparr>"

lemma small_archive_length: "length small_archive = 244"
  by (simp add: cpio_archive_def trailer_def length_cpio_entry data_offset_def up4_def small_file_def bytes_def)

lemma small_archive_object: "memory_object small_filesystem small_base (of_nat (length small_archive)) = small_archive"
proof (rule nth_equalityI)
  show "length (memory_object small_filesystem small_base (of_nat (length small_archive))) = length small_archive"
    unfolding small_archive_length length_memory_object by simp
  fix i assume "i < length (memory_object small_filesystem small_base (of_nat (length small_archive)))"
  then have i: "i < 244" unfolding small_archive_length length_memory_object by simp
  have u: "unat (of_nat i :: UInt64) = i" using i by (simp add: unsigned_of_nat take_bit_nat_eq_self)
  have w: "small_base - kVMKernelHeapStart = 0xFFFF888040200000" by simp
  have "unat (small_base + of_nat i - kVMKernelHeapStart) = unat (0xFFFF888040200000 + of_nat i :: UInt64)"
    unfolding diff_add_eq [symmetric] w ..
  also have "\<dots> = 0xFFFF888040200000 + i" using u i by (simp add: unat_word_ariths)
  finally have "\<not> in_heap (small_base + of_nat i)" unfolding in_heap_def word_less_nat_alt by simp
  moreover have "HHDM_TO_PHYS (small_base + of_nat i) - 0x200000 = of_nat i" by (simp add: HHDM_TO_PHYS_def)
  moreover have "mem small_filesystem p = (if unat (p - 0x200000) < length small_archive then small_archive ! unat (p - 0x200000) else 0)" for p
    unfolding small_filesystem_def by simp
  ultimately have "kernel_memory small_filesystem (small_base + of_nat i) = small_archive ! i"
    using i u small_archive_length unfolding kernel_memory_def by (simp only: if_False if_True)
  then show "memory_object small_filesystem small_base (of_nat (length small_archive)) ! i = small_archive ! i"
    using i unfolding small_archive_length by (subst nth_memory_object) simp_all
qed

lemma small_filesystem_ok: "heap_inv small_filesystem small_blocks" "console_ok small_filesystem"
proof -
  show "heap_inv small_filesystem small_blocks" using small_scheduler_heap
    by (simp add: heap_inv_def heap_blocks_def small_filesystem_def scheduler.defs filesystem.defs)
  show "console_ok small_filesystem" using small_console_ok(1)
    by (simp add: console_ok_def transmit_ready_def small_filesystem_def small_scheduler_def small_arch_def small_console_def
        filesystem.defs scheduler.defs arch.defs console.defs devices.defs small_devices_def)
qed

lemma small_file_ok: "cpio_ok small_file"
  by (simp add: cpio_ok_def small_file_def bytes_def)

lemma FSCPIOMount_correct_witness:
  "case FSCPIOMount small_base 244 small_filesystem of
      Inl e \<Rightarrow> e \<in> {Panic ''CPIO: Failed to allocate memory for root node'', Panic ''CPIO: Failed to allocate memory for new node''}
    | Inr (root, t) \<Rightarrow> \<exists>as. listing (nodes t) root as [(small_file, 0xFFFF888000200074)]"
proof -
  have "unat small_base + length small_archive < 2 ^ 64" unfolding small_archive_length by simp
  from FSCPIOMount_correct [OF small_filesystem_ok _ small_archive_object refl this] small_file_ok
  have "case FSCPIOMount small_base (of_nat (length small_archive)) small_filesystem of
      Inl e \<Rightarrow> e \<in> {Panic ''CPIO: Failed to allocate memory for root node'', Panic ''CPIO: Failed to allocate memory for new node''}
    | Inr (root, t) \<Rightarrow> \<exists>as. listing (nodes t) root as (located small_base [small_file])"
    by (auto split: sum.splits)
  moreover have "located small_base [small_file] = [(small_file, 0xFFFF888000200074)]"
    by (simp add: data_offset_def up4_def small_file_def bytes_def)
  ultimately show ?thesis unfolding small_archive_length by (simp only: of_nat_numeral)
qed

lemma file_system_roundtrip_witness:
  "case FSCPIOMount small_base 244 small_filesystem of
      Inl e \<Rightarrow> e \<in> {Panic ''CPIO: Failed to allocate memory for root node'', Panic ''CPIO: Failed to allocate memory for new node''}
    | Inr (root, t) \<Rightarrow> \<exists>node u. FSVNodeRead node 0 4 0xFFFFFFFFC0001000 (FSVirtualFileSystemInitialize root t) = (4, u) \<and>
        memory_object u 0xFFFFFFFFC0001000 4 = bytes ''HOT!''"
proof -
  have len: "length (cpioData small_file) = 4" "cpioData small_file = bytes ''HOT!''" "cpioName small_file \<noteq> []"
    by (simp_all add: small_file_def bytes_def)
  have files: "\<forall>f \<in> set ([] @ small_file # []). cpio_ok f" "\<forall>g \<in> set []. cpioName g \<noteq> cpioName small_file"
    using small_file_ok by simp_all
  have fits: "unat small_base + length small_archive < 2 ^ 64" unfolding small_archive_length by simp
  have apart: "unat (0xFFFFFFFFC0001000 :: UInt64) + length (cpioData small_file) \<le> unat small_base \<or>
      unat small_base + length small_archive \<le> unat (0xFFFFFFFFC0001000 :: UInt64)"
    unfolding small_archive_length len(1) by simp
  have archive: "small_archive = cpio_archive ([] @ small_file # []) @ []" by simp
  have n: "of_nat (length small_archive) = (244 :: UInt64)" and m: "of_nat (length (cpioData small_file)) = (4 :: UInt64)"
    unfolding small_archive_length len(1) by simp_all
  note mounted = file_system_roundtrip [OF small_filesystem_ok files len(3) small_archive_object archive fits apart, of "\<lambda>_ _. Inr",
      unfolded n m, unfolded len(2)]
  then show ?thesis
    by (cases "FSCPIOMount small_base 244 small_filesystem") (simp, fastforce simp: Let_def)
qed

lemma mount_loop_terminates_witness:
  "\<exists>r. sFSCPIOMountLoop [0x30, 0x37] small_base (small_base + 2) 0x1000 small_base 0 small_filesystem = Some r"
  by (rule mount_loop_terminates) simp

lemma FSCPIORead_correct_witness:
  "\<exists>t. FSCPIORead 0x5000 2 100 0x1000 (update_node 0x5000 (\<lambda>n. n\<lparr>dataLength := 5, implementationData := 0x9000\<rparr>) small_filesystem) = (3, t)"
  using FSCPIORead_correct [of 2 100 "0x1000" "update_node 0x5000 (\<lambda>n. n\<lparr>dataLength := 5, implementationData := 0x9000\<rparr>) small_filesystem" "0x5000"]
  by (simp add: update_node_def) blast

end
