(* ===== verification/Loader.thy ===== *)
theory Loader
  imports FileSystem
begin

text \<open>
  Starting programs: the image loader \<^verbatim>\<open>kernel/src/OS/Exec/HOTLoader.c\<close> with the format of
  \<^verbatim>\<open>common/hot_header.h\<close>, and the spawning of a process from a file in \<^verbatim>\<open>kernel/src/OS/Exec/OSLoader.c\<close>.
  The property is about the body of the loader's loop: what one loaded page holds and where it appears.
\<close>

unbundle bit_operations_syntax

section \<open>The image format\<close>

abbreviation HOT_MAGIC :: UInt32 where
  "HOT_MAGIC \<equiv> 0x21544F48"

record HOTSegment =
  segmentType :: UInt64
  segmentAddress :: UInt64
  segmentOffset :: UInt64
  segmentFileSize :: UInt64
  segmentMemorySize :: UInt64

record HOTHeader =
  imageMagic :: UInt32
  imageVersion :: UInt8
  imageEntryPoint :: UInt64
  imageSegmentsCount :: UInt64
  imageReserved :: UInt64

abbreviation sizeof_HOTHeader :: UInt64 where "sizeof_HOTHeader \<equiv> 32"
abbreviation sizeof_HOTSegment :: UInt64 where "sizeof_HOTSegment \<equiv> 40"

text \<open>The structures as they lie in memory.\<close>

definition header_in :: "memory \<Rightarrow> UInt64 \<Rightarrow> HOTHeader" where
  "header_in m a = \<lparr>imageMagic = ucast (load64 m a), imageVersion = m (a + 4), imageEntryPoint = load64 m (a + 8),
     imageSegmentsCount = load64 m (a + 16), imageReserved = load64 m (a + 24)\<rparr>"

definition segment_in :: "memory \<Rightarrow> UInt64 \<Rightarrow> HOTSegment" where
  "segment_in m a = \<lparr>segmentType = load64 m a, segmentAddress = load64 m (a + 8), segmentOffset = load64 m (a + 16),
     segmentFileSize = load64 m (a + 24), segmentMemorySize = load64 m (a + 32)\<rparr>"

section \<open>Loading\<close>

definition update_process :: "UInt64 \<Rightarrow> (OSProcess \<Rightarrow> OSProcess) \<Rightarrow> 'a scheduler_scheme \<Rightarrow> 'a scheduler_scheme" where
  "update_process a f s = s\<lparr>processes := (processes s)(a := f (processes s a))\<rparr>"

abbreviation image_flags :: UInt64 where
  "image_flags \<equiv> PTE_USER OR PTE_RW OR PTE_PRESENT"

text \<open>One page of a segment; the results of allocating and mapping are not checked.\<close>

definition sHOTLoadPage :: "UInt64 \<Rightarrow> UInt64 \<Rightarrow> UInt64 \<Rightarrow> UInt64 \<Rightarrow> 'a filesystem_scheme \<Rightarrow> fault + 'a filesystem_scheme" where
  "sHOTLoadPage process data segmentPointer address s =
     bindE (VMPhysicalMemoryAllocatePage s) (\<lambda>(physicalPage, s).
     bindE (VMVirtualMemoryMapPage (physicalPML4 (processes s process)) physicalPage address image_flags s) (\<lambda>(_, s).
       let kernelVirtAddress = physicalPage + HHDM_OFFSET;
           s = set_kernel_memory (MemorySet (kernel_memory s) kernelVirtAddress 0 kVMPageSize) s;
           segment = segment_in (kernel_memory s) segmentPointer;
           fileEnd = segmentAddress segment + segmentFileSize segment;
           pageOverleapStart = (if address > segmentAddress segment then address else segmentAddress segment);
           pageOverleapEnd = (if address + kVMPageSize < fileEnd then address + kVMPageSize else fileEnd)
       in if pageOverleapStart < pageOverleapEnd
          then let copySize = pageOverleapEnd - pageOverleapStart;
                   sourceOffset = segmentOffset segment + (pageOverleapStart - segmentAddress segment);
                   destinationOffset = pageOverleapStart - address
               in Inr (set_kernel_memory (MemoryCopy (kernel_memory s) (kernelVirtAddress + destinationOffset)
                         (data + sourceOffset) copySize) s)
          else Inr s))"

definition sHOTLoadSegment :: "UInt64 \<Rightarrow> UInt64 \<Rightarrow> UInt64 \<Rightarrow> 'a filesystem_scheme \<Rightarrow> fault + 'a filesystem_scheme" where
  "sHOTLoadSegment process data segmentPointer s =
     (let segment = segment_in (kernel_memory s) segmentPointer
      in if segmentMemorySize segment = 0 then Inr s
         else let start = segmentAddress segment AND NOT 0xFFF;
                  limit = (segmentAddress segment + segmentMemorySize segment + 0xFFF) AND NOT 0xFFF
              in for_range start limit kVMPageSize (sHOTLoadPage process data segmentPointer) s)"

partial_function (option) sHOTLoadSegments ::
  "UInt64 \<Rightarrow> UInt64 \<Rightarrow> UInt64 \<Rightarrow> 'a filesystem_scheme \<Rightarrow> (fault + 'a filesystem_scheme) option" where
  "sHOTLoadSegments process data i s =
     (if i < imageSegmentsCount (header_in (kernel_memory s) data)
      then case sHOTLoadSegment process data (data + sizeof_HOTHeader + i * sizeof_HOTSegment) s of
             Inl e \<Rightarrow> Some (Inl e)
           | Inr s \<Rightarrow> sHOTLoadSegments process data (i + 1) s
      else Some (Inr s))"

definition HOTLoad :: "UInt64 \<Rightarrow> UInt64 \<Rightarrow> 'a filesystem_scheme \<Rightarrow> fault + UInt64 \<times> 'a filesystem_scheme" where
  "HOTLoad process data s =
     (if imageMagic (header_in (kernel_memory s) data) \<noteq> HOT_MAGIC then Inr (- 1, s)
      else bindE (returns (sHOTLoadSegments process data 0 s)) (\<lambda>s.
             Inr (imageEntryPoint (header_in (kernel_memory s) data), s)))"

section \<open>Spawning a process\<close>

abbreviation kOSUserStackTop :: UInt64 where "kOSUserStackTop \<equiv> 0x70000000"
abbreviation kOSHeapStart :: UInt64 where "kOSHeapStart \<equiv> 0x40000000"

text \<open>
  \<open>call\<close> opens a node through its table, \<open>interrupt32\<close> is the scheduler's software interrupt. The first
  half finds the file and makes the process; the second loads the image and starts it.
\<close>

definition sOSLoaderStart ::
  "('a filesystem_scheme \<Rightarrow> fault + 'a filesystem_scheme) \<Rightarrow> UInt64 \<Rightarrow> UInt64 \<Rightarrow> UInt64 \<Rightarrow> 'a filesystem_scheme \<Rightarrow>
   fault + Int32 \<times> 'a filesystem_scheme" where
  "sOSLoaderStart interrupt32 executableFile newProcess fileBuffer s =
     (let (_, s) = FSVNodeRead executableFile 0 (dataLength (nodes s executableFile)) fileBuffer s
      in bindE (HOTLoad newProcess fileBuffer s) (\<lambda>(entryPoint, s).
         if entryPoint = 0
         then bindE (VMHeapFree fileBuffer s) (\<lambda>(_, s). bindE (VMHeapFree newProcess s) (\<lambda>(_, s). Inr (- 4, s)))
         else bindE (VMHeapFree fileBuffer s) (\<lambda>(_, s).
              bindE (VMVirtualMemorySetupUserStack (physicalPML4 (processes s newProcess)) s) (\<lambda>s.
              bindE (OSSchedulerSpawn interrupt32 entryPoint newProcess True kOSUserStackTop s) (\<lambda>(task, s).
                if task = 0 then bindE (VMHeapFree newProcess s) (\<lambda>(_, s). Inr (- 5, s))
                else Inr (ucast (processId (processes s newProcess)), s))))))"

definition OSLoaderProcessSpawn ::
  "(UInt64 \<Rightarrow> UInt64 \<Rightarrow> 'a filesystem_scheme \<Rightarrow> fault + 'a filesystem_scheme) \<Rightarrow>
   ('a filesystem_scheme \<Rightarrow> fault + 'a filesystem_scheme) \<Rightarrow> UInt8 list \<Rightarrow> UInt8 list \<Rightarrow> 'a filesystem_scheme \<Rightarrow>
   fault + Int32 \<times> 'a filesystem_scheme" where
  "OSLoaderProcessSpawn call interrupt32 executablePath theName s =
     bindE (FSVirtualFileSystemOpenPath call executablePath s) (\<lambda>(executableFile, s).
       if executableFile = 0 then Inr (- 1, s)
       else bindE (VMHeapAllocate sizeof_OSProcess s) (\<lambda>(newProcess, s).
         if newProcess = 0 then Inr (- 2, s)
         else let s = update_process newProcess (\<lambda>_. zero_process\<lparr>processId := ucast (gOSSchedulerNextProcessID s),
                        processState := kOSProcessStateRunning\<rparr>) s;
                  s = s\<lparr>gOSSchedulerNextProcessID := gOSSchedulerNextProcessID s + 1\<rparr>
         in bindE (VMVirtualMemoryCreateAddressSpace s) (\<lambda>(space, s).
            let s = update_process newProcess (\<lambda>p. p\<lparr>physicalPML4 := space, heapStartPointer := kOSHeapStart,
                      heapCurrentPointer := kOSHeapStart\<rparr>) s
            in bindE (StringCopyWithLimit (processName (processes s newProcess)) theName 31) (\<lambda>copied.
               let s = update_process newProcess (\<lambda>p. p\<lparr>processName := copied\<rparr>) s
               in bindE (VMHeapAllocate (dataLength (nodes s executableFile)) s) (\<lambda>(fileBuffer, s).
                  if fileBuffer = 0 then bindE (VMHeapFree newProcess s) (\<lambda>(_, s). Inr (- 3, s))
                  else sOSLoaderStart interrupt32 executableFile newProcess fileBuffer s)))))"

text \<open>The first task of the user side; afterwards it idles.\<close>

definition init_task_entry ::
  "(UInt64 \<Rightarrow> UInt64 \<Rightarrow> 'a filesystem_scheme \<Rightarrow> fault + 'a filesystem_scheme) \<Rightarrow>
   ('a filesystem_scheme \<Rightarrow> fault + 'a filesystem_scheme) \<Rightarrow> 'a filesystem_scheme \<Rightarrow> fault + 'a filesystem_scheme" where
  "init_task_entry call interrupt32 s =
     bindE (OSLoaderProcessSpawn call interrupt32 (literal ''/System/CoreServices/init'') (literal ''init'') s) (\<lambda>(pid, s).
       if pid <s 0 then Inl (Panic ''FATAL: Failed to spawn /System/CoreServices/init'')
       else Inr (s\<lparr>interruptFlag := True\<rparr>))"

section \<open>Writing to a frame\<close>

lemma heap_apart:
  assumes "p < 2 ^ 34" "x < 4096"
  shows "\<not> in_heap (frame_address p + HHDM_OFFSET + x)"
proof -
  have f: "unat (frame_address p) = 4096 * p" using assms(1) by (simp add: unat_frame_address)
  have x: "unat x < 4096" using assms(2) by (simp add: word_less_nat_alt)
  have h: "HHDM_OFFSET - kVMKernelHeapStart = (0xFFFF888040000000 :: UInt64)" by simp
  have "frame_address p + HHDM_OFFSET + x - kVMKernelHeapStart = (HHDM_OFFSET - kVMKernelHeapStart) + (frame_address p + x)"
    by (simp only: algebra_simps)
  then have e: "frame_address p + HHDM_OFFSET + x - kVMKernelHeapStart = 0xFFFF888040000000 + (frame_address p + x)"
    unfolding h .
  have "unat (frame_address p + x) = 4096 * p + unat x" using f x assms(1) by (simp add: unat_word_ariths)
  then have "unat (0xFFFF888040000000 + (frame_address p + x)) = 0xFFFF888040000000 + 4096 * p + unat x"
    using x assms(1) by (simp add: unat_word_ariths)
  then show ?thesis unfolding in_heap_def e word_less_nat_alt by simp
qed

text \<open>A write through the direct map that stays in one frame changes just that frame.\<close>

lemma set_frame:
  assumes p: "p < 2 ^ 34" and outside: "\<And>a. \<not> a - (frame_address p + HHDM_OFFSET) < 4096 \<Longrightarrow> m a = kernel_memory s a"
  shows "set_kernel_memory m s = s\<lparr>mem := \<lambda>a. if a - frame_address p < 4096 then m (a + HHDM_OFFSET) else mem s a\<rparr>"
proof -
  let ?k = "frame_address p + HHDM_OFFSET"
  have heap: "\<not> a - ?k < 4096" if "in_heap a" for a
    using heap_apart [OF p, of "a - ?k"] that by auto
  have bytes: "(\<lambda>a. if in_heap a then m a else heapBytes s a) = heapBytes s"
    using heap outside by (auto simp: fun_eq_iff kernel_memory_def)
  have frame: "(\<lambda>a. if in_heap (PHYS_TO_HHDM a) then mem s a else m (PHYS_TO_HHDM a)) =
      (\<lambda>a. if a - frame_address p < 4096 then m (a + HHDM_OFFSET) else mem s a)"
  proof
    fix a
    have e: "a + HHDM_OFFSET - ?k = a - frame_address p" by simp
    show "(if in_heap (PHYS_TO_HHDM a) then mem s a else m (PHYS_TO_HHDM a)) =
        (if a - frame_address p < 4096 then m (a + HHDM_OFFSET) else mem s a)"
      using heap [of "a + HHDM_OFFSET"] outside [of "a + HHDM_OFFSET"] unfolding e
      by (auto simp: PHYS_TO_HHDM_def HHDM_TO_PHYS_def kernel_memory_def)
  qed
  show ?thesis unfolding set_kernel_memory_def bytes frame by simp
qed

lemma table_entry_other_frame:
  assumes "frame_aligned g" "frame_aligned n" "g \<noteq> n" "j < 512" "\<And>a. \<not> a - n < 4096 \<Longrightarrow> m' a = m a"
  shows "table_entry m' g j = table_entry m g j"
  unfolding table_entry_def
proof (rule load64_cong)
  fix i :: nat assume "i < 8"
  then have u: "unat (of_nat i :: UInt64) < 8" by (simp add: unsigned_of_nat take_bit_nat_eq_self)
  let ?x = "g + 8 * j + of_nat i"
  have "?x - (g + 8 * j) < 8" using u by (simp add: word_less_nat_alt)
  then have "unat ?x div 4096 = unat g div 4096" by (rule entry_byte_frame [OF assms(1,4)])
  then have "\<not> ?x - n < 4096" using near_frame [OF assms(2)] frame_eqI [OF assms(1,2)] assms(3) by metis
  then show "m' ?x = m ?x" by (rule assms(5))
qed

text \<open>Writing to a frame that is no table changes no translation.\<close>

lemma write_user_frame:
  fixes u :: "'a vmm_scheme"
  assumes ready: "vmm_ready u root" and no_table: "\<And>q f. valid_path q \<Longrightarrow> resolve (mem u) root q = Some f \<Longrightarrow> f \<noteq> n"
    and n: "frame_aligned n" and m: "\<And>a. \<not> a - n < 4096 \<Longrightarrow> m a = mem u a"
  shows "vmm_ready (u\<lparr>mem := m\<rparr>) root" "translate m root v = translate (mem u) root v"
proof -
  have tab: "tables_ok (mem u) root (used_frames u)" using ready by (simp add: vmm_ready_def address_space_ok_def)
  then have tab': "tables_ok (mem u) root (used_frames u - {n})" using no_table unfolding tables_ok_def by blast
  have same: "table_entry m g j = table_entry (mem u) g j" if "frame_aligned g" "g \<noteq> n" "j < 512" for g j
    by (rule table_entry_other_frame [OF that(1) n that(2,3) m])
  have "tables_ok m root (used_frames u)" by (rule tables_ok_outside [OF tab' _ same]) auto
  then show "vmm_ready (u\<lparr>mem := m\<rparr>) root" using ready by (simp add: vmm_ready_def address_space_ok_def)
  show "translate m root v = translate (mem u) root v" by (rule walk_outside(2) [OF tab' _ same]) auto
qed

text \<open>What the image says of an address of a segment.\<close>

definition segment_byte :: "memory \<Rightarrow> UInt64 \<Rightarrow> HOTSegment \<Rightarrow> UInt64 \<Rightarrow> UInt8" where
  "segment_byte m data segment a =
     (if segmentAddress segment \<le> a \<and> a < segmentAddress segment + segmentFileSize segment
      then m (data + (segmentOffset segment + (a - segmentAddress segment))) else 0)"

lemma segment_in_heap:
  assumes "\<And>i. i < 40 \<Longrightarrow> m' (a + of_nat i) = m (a + of_nat i)"
  shows "segment_in m' a = segment_in m a"
proof -
  have "load64 m' (a + of_nat k) = load64 m (a + of_nat k)" if "k \<le> 32" for k
    by (rule load64_cong) (use assms [of "k + _"] that in \<open>simp add: add.assoc\<close>)
  from this [of 0] this [of 8] this [of 16] this [of 24] this [of 32] show ?thesis by (simp add: segment_in_def)
qed

lemma nat_overlap:
  fixes A V E X S F :: nat
  assumes "S = max A V" "F = min (A + 4096) E" "S < F" "X < 4096" "S - A \<le> X"
  shows "X - (S - A) < F - S \<longleftrightarrow> V \<le> A + X \<and> A + X < E"
proof -
  have "A \<le> S" "V \<le> S" using assms(1) by simp_all
  then have "X - (S - A) < F - S \<longleftrightarrow> A + X < F" using assms(3,5) by arith
  also have "\<dots> \<longleftrightarrow> A + X < E" using assms(2,4) by simp
  finally show ?thesis using \<open>V \<le> S\<close> \<open>A \<le> S\<close> assms(5) by arith
qed

lemma overlap_position:
  fixes address vaddr filesz x :: UInt64
  defines "fileEnd \<equiv> vaddr + filesz"
  defines "start \<equiv> if address > vaddr then address else vaddr"
  defines "finish \<equiv> if address + 4096 < fileEnd then address + 4096 else fileEnd"
  assumes nowrap: "unat address + 4096 < 2 ^ 64" "unat vaddr + unat filesz < 2 ^ 64" and x: "x < 4096"
  shows "start < finish \<Longrightarrow> x - (start - address) < finish - start \<longleftrightarrow> vaddr \<le> address + x \<and> address + x < fileEnd"
    "start < finish \<Longrightarrow> start - address < 4096"
    "\<not> start < finish \<Longrightarrow> \<not> (vaddr \<le> address + x \<and> address + x < fileEnd)"
proof -
  have X: "unat x < 4096" using x by (simp add: word_less_nat_alt)
  have a: "unat (address + x) = unat address + unat x" "unat (address + 4096) = unat address + 4096"
    using nowrap(1) X by (simp_all add: unat_word_ariths)
  have e: "unat fileEnd = unat vaddr + unat filesz" using nowrap(2) by (simp add: fileEnd_def unat_word_ariths)
  have s: "unat start = max (unat address) (unat vaddr)" by (simp add: start_def word_less_nat_alt max_def)
  have f: "unat finish = min (unat address + 4096) (unat fileEnd)" using a(2) by (simp add: finish_def word_less_nat_alt min_def)
  have sa: "unat (start - address) = unat start - unat address" using s by (simp add: unat_sub word_le_nat_alt)
  {
    assume lt: "start < finish"
    then have lt': "unat start < unat finish" by (simp add: word_less_nat_alt)
    then have fs: "unat (finish - start) = unat finish - unat start" by (simp add: unat_sub word_le_nat_alt)
    have small: "unat start - unat address < 4096" using lt' s f by linarith
    then show "start - address < 4096" using sa by (simp add: word_less_nat_alt)
    show "x - (start - address) < finish - start \<longleftrightarrow> vaddr \<le> address + x \<and> address + x < fileEnd"
    proof (cases "unat (start - address) \<le> unat x")
      case True
      then have "unat (x - (start - address)) = unat x - (unat start - unat address)" using sa by (simp add: unat_sub word_le_nat_alt)
      then show ?thesis using nat_overlap [OF s f lt' X] True unfolding word_less_nat_alt word_le_nat_alt sa fs a(1) by simp
    next
      case False
      then have "unat (x - (start - address)) = unat x + 2 ^ 64 - unat (start - address)" by (simp add: unat_sub_if' word_le_nat_alt)
      then have "unat (x - (start - address)) \<ge> 2 ^ 64 - 4096" using small sa by simp
      moreover have "unat (finish - start) \<le> 4096" using fs f s by linarith
      ultimately have "\<not> x - (start - address) < finish - start" by (simp add: word_less_nat_alt)
      moreover have "\<not> vaddr \<le> address + x" using False sa s a unfolding word_le_nat_alt by linarith
      ultimately show ?thesis by blast
    qed
  }
  assume "\<not> start < finish"
  then show "\<not> (vaddr \<le> address + x \<and> address + x < fileEnd)"
    using s f a(1) X unfolding word_less_nat_alt word_le_nat_alt by linarith
qed

section \<open>One page of an image\<close>

lemma set_kernel_memory_twice [simp]: "set_kernel_memory m' (set_kernel_memory m s) = set_kernel_memory m' s"
  by (simp add: set_kernel_memory_def fun_eq_iff)

text \<open>The page's bytes after clearing it and copying what the file has for it.\<close>

definition loaded_page :: "memory \<Rightarrow> UInt64 \<Rightarrow> UInt64 \<Rightarrow> HOTSegment \<Rightarrow> UInt64 \<Rightarrow> memory" where
  "loaded_page m data kernelAddress segment address =
     (let m = MemorySet m kernelAddress 0 4096;
          fileEnd = segmentAddress segment + segmentFileSize segment;
          start = (if address > segmentAddress segment then address else segmentAddress segment);
          finish = (if address + 4096 < fileEnd then address + 4096 else fileEnd)
      in if start < finish
         then MemoryCopy m (kernelAddress + (start - address)) (data + (segmentOffset segment + (start - segmentAddress segment)))
                (finish - start)
         else m)"

lemma loaded_page_bytes:
  assumes nowrap: "unat address + 4096 < 2 ^ 64" "unat (segmentAddress segment) + unat (segmentFileSize segment) < 2 ^ 64"
    and source: "\<And>a x. segmentAddress segment \<le> a \<Longrightarrow> a < segmentAddress segment + segmentFileSize segment \<Longrightarrow> x < 4096 \<Longrightarrow>
      data + (segmentOffset segment + (a - segmentAddress segment)) \<noteq> k + x"
  shows "loaded_page m data k segment address =
    (\<lambda>y. if y - k < 4096 then segment_byte m data segment (address + (y - k)) else m y)"
proof
  fix y
  let ?v = "segmentAddress segment" and ?fs = "segmentFileSize segment" and ?o = "segmentOffset segment"
  let ?e = "?v + ?fs"
  define start where "start = (if address > ?v then address else ?v)"
  define finish where "finish = (if address + 4096 < ?e then address + 4096 else ?e)"
  let ?m = "MemorySet m k 0 4096"
  let ?src = "data + (?o + (start - ?v))"
  let ?d = "k + (start - address)"
  have page: "loaded_page m data k segment address = (if start < finish then MemoryCopy ?m ?d ?src (finish - start) else ?m)"
    by (simp add: loaded_page_def start_def finish_def Let_def)
  have clear: "?m z = (if z - k < 4096 then 0 else m z)" for z by (simp add: MemorySet_effect)
  note pos = overlap_position [OF nowrap, folded start_def finish_def]
  show "loaded_page m data k segment address y = (if y - k < 4096 then segment_byte m data segment (address + (y - k)) else m y)"
  proof (cases "start < finish")
    case False
    have "\<not> (?v \<le> address + (y - k) \<and> address + (y - k) < ?e)" if "y - k < 4096" using pos(3) [OF that False] .
    then show ?thesis unfolding segment_byte_def page clear using False by (simp only: if_False) auto
  next
    case True
    have v_start: "?v \<le> start" by (simp add: start_def less_imp_le)
    have end_finish: "finish \<le> ?e" by (simp add: finish_def less_imp_le)
    have infile: "?v \<le> start + j \<and> start + j < ?e" if "j < finish - start" for j
    proof -
      have u: "unat start + unat j < unat finish"
        using that True by (simp add: word_less_nat_alt unat_sub word_le_nat_alt)
      moreover have "unat finish < 2 ^ 64" using unsigned_less [of finish] by simp
      ultimately have "unat (start + j) = unat start + unat j" by (simp add: unat_word_ariths)
      then show ?thesis using u v_start end_finish by (simp add: word_less_nat_alt word_le_nat_alt)
    qed
    have src: "?src + j = data + (?o + (start + j - ?v))" for j by (simp add: algebra_simps)
    have "\<not> (0 < ?d - ?src \<and> ?d - ?src < finish - start)"
    proof
      assume "0 < ?d - ?src \<and> ?d - ?src < finish - start"
      then have "?v \<le> start + (?d - ?src)" "start + (?d - ?src) < ?e" using infile by blast+
      from source [OF this pos(2) [OF _ True]] show False
        using src [of "?d - ?src"] True pos(2) [of 0] by simp
    qed
    note copy = MemoryCopy_effect [OF this, of ?m]
    have inside: "y - ?d < finish - start \<Longrightarrow> y - k < 4096"
    proof -
      assume "y - ?d < finish - start"
      then have "unat (y - ?d) < unat finish - unat start" using True by (simp add: word_less_nat_alt unat_sub word_le_nat_alt)
      moreover have "unat (start - address) = unat start - unat address" "unat address \<le> unat start"
        by (auto simp: start_def unat_sub word_le_nat_alt word_less_nat_alt)
      moreover have "unat finish \<le> unat address + 4096"
        using nowrap(1) by (auto simp: finish_def unat_word_ariths word_less_nat_alt)
      ultimately have "unat (y - ?d) + unat (start - address) < 4096" by linarith
      moreover have "y - k = (y - ?d) + (start - address)" by simp
      moreover from calculation(1) have "unat ((y - ?d) + (start - address)) = unat (y - ?d) + unat (start - address)"
        by (intro unat_add_lem [THEN iffD1]) simp
      ultimately show ?thesis by (simp only: word_less_nat_alt) simp
    qed
    show ?thesis
    proof (cases "y - k < 4096")
      case False
      then show ?thesis using inside unfolding page copy clear using True by auto
    next
      case near: True
      have a: "y - ?d = (y - k) - (start - address)" by simp
      have here: "?src + (y - ?d) = data + (?o + (address + (y - k) - ?v))" by (simp add: algebra_simps)
      show ?thesis
      proof (cases "y - ?d < finish - start")
        case False
        then have "\<not> (?v \<le> address + (y - k) \<and> address + (y - k) < ?e)" using pos(1) [OF near True] unfolding a by blast
        then show ?thesis unfolding page copy clear segment_byte_def using True False near by auto
      next
        case hit: True
        then have infile: "?v \<le> address + (y - k) \<and> address + (y - k) < ?e" using pos(1) [OF near True] unfolding a by blast
        have "\<not> ?src + (y - ?d) - k < 4096"
          using source [of "address + (y - k)" "?src + (y - ?d) - k"] infile unfolding here by auto
        then show ?thesis unfolding page copy clear segment_byte_def using True hit near infile by (simp only: if_True if_False here simp_thms)
      qed
    qed
  qed
qed


lemma segment_in_cong:
  assumes "\<And>i. i < 40 \<Longrightarrow> in_heap (sp + of_nat i)" "\<And>a. in_heap a \<Longrightarrow> m' a = m a"
  shows "segment_in m' sp = segment_in m sp"
  by (rule segment_in_heap) (rule assms(2), rule assms(1))

text \<open>
  Taking a frame and mapping it: the frame was free and is no table, so the kernel may write it through
  the direct map without changing a translation.
\<close>

lemma map_fresh_frame:
  fixes s :: "'a heap_scheme"
  assumes ready: "vmm_ready s root" and some: "free_frames s \<noteq> {}" and window: "\<forall>p \<in> free_frames s. p < 2 ^ 34"
  shows "\<exists>bm r u p. VMPhysicalMemoryAllocatePage s = Inr (frame_address p, s\<lparr>gVMPhycalMemoryBitmap := bm\<rparr>) \<and>
    frame_address p \<noteq> 0 \<and> p < 2 ^ 34 \<and> p \<in> free_frames s \<and> p \<notin> free_frames u \<and> free_frames u \<subseteq> free_frames s \<and>
    VMVirtualMemoryMapPage root (frame_address p) address image_flags (s\<lparr>gVMPhycalMemoryBitmap := bm\<rparr>) = Inr (r, u) \<and>
    vmm_frame s u \<and>
    ((\<forall>v. translate (mem u) root v = (if same_page v address then Some (frame_address p OR image_flags) else translate (mem s) root v)) \<or>
     free_frames u = {} \<and> (\<forall>v. translate (mem u) root v = translate (mem s) root v)) \<and>
    (\<forall>m. (\<forall>a. \<not> a - (frame_address p + HHDM_OFFSET) < 4096 \<longrightarrow> m a = kernel_memory u a) \<longrightarrow>
      (\<exists>n. set_kernel_memory m u = u\<lparr>mem := n\<rparr> \<and> vmm_ready (u\<lparr>mem := n\<rparr>) root \<and> (\<forall>v. translate n root v = translate (mem u) root v) \<and>
        (\<forall>x < 4096. n (frame_address p + x) = m (frame_address p + HHDM_OFFSET + x))))"
proof -
  let ?p = "Min (free_frames s)"
  let ?f = "frame_address ?p"
  let ?k = "?f + HHDM_OFFSET"
  have p: "?p \<in> free_frames s" using some by simp
  have p34: "?p < 2 ^ 34" using window p by blast
  have tab: "tables_ok (mem s) root (used_frames s)" and pmm: "pmm_inv s"
    using ready by (simp_all add: vmm_ready_def address_space_ok_def)
  from AllocatePage_takes_least [OF pmm some] obtain bm where
    alloc: "VMPhysicalMemoryAllocatePage s = Inr (?f, s\<lparr>gVMPhycalMemoryBitmap := bm\<rparr>)"
    and bm: "length bm = length (gVMPhycalMemoryBitmap s)" "bitmap_free bm = free_frames s - {?p}"
    by blast
  have nz: "?f \<noteq> 0" using pmm.alloc_null_iff [OF pmm alloc] some by simp
  let ?s1 = "s\<lparr>gVMPhycalMemoryBitmap := bm\<rparr>"
  have p40: "?p < 2 ^ 40" by (rule free_frames_bound [OF pmm p])
  have fresh: "?f \<notin> used_frames s" using p p40 by (simp add: used_frames_def)
  have used: "used_frames ?s1 = insert ?f (used_frames s)" by (rule used_frames_insert [OF bm(2) p40])
  have free1: "free_frames ?s1 = free_frames s - {?p}" using bm(2) by (simp add: free_frames_def)
  have "tables_ok (mem ?s1) root (used_frames ?s1)" using tab used by (auto simp: tables_ok_def)
  moreover have "pmm_inv ?s1" using pmm bm by (auto simp: pmm_inv_def free_frames_def)
  ultimately have ready1: "vmm_ready ?s1 root" using ready by (simp add: vmm_ready_def address_space_ok_def)
  have pres: "present (?f OR image_flags)" using present_stack [of ?f] by simp
  from MapPage_effect [OF ready1 pres, of address] obtain r u where
    map: "VMVirtualMemoryMapPage root ?f address image_flags ?s1 = Inr (r, u)"
    and u: "vmm_ready u root" "vmm_frame ?s1 u" "free_frames u \<subseteq> free_frames ?s1"
    and tr: "r = 0 \<and> free_frames u = {} \<and> (\<forall>v. translate (mem u) root v = translate (mem ?s1) root v) \<or>
      r = address \<and> (\<forall>v. translate (mem u) root v =
       (if same_page v address then Some (?f OR image_flags) else translate (mem ?s1) root v))" by blast
  have no_table: "g \<noteq> ?f" if "valid_path q" "resolve (mem u) root q = Some g" for q g
  proof
    assume g: "g = ?f"
    from MapPage_tables [OF ready1 pres map that] show False
    proof
      assume "resolve (mem ?s1) root q = Some g"
      then show False using tables_okD(2) [OF tab that(1), of g] fresh g by simp
    next
      assume "page_of g \<in> free_frames ?s1"
      then show False using free1 g p40 by simp
    qed
  qed
  have "vmm_frame s ?s1" unfolding vmm_frame_def
    by (intro exI [of _ bm] exI [of _ "mem s"] exI [of _ "invalidated s"]) simp
  then have frame: "vmm_frame s u" using u(2) by (rule vmm_frame_trans)
  have upd: "\<exists>n. set_kernel_memory m u = u\<lparr>mem := n\<rparr> \<and> vmm_ready (u\<lparr>mem := n\<rparr>) root \<and>
      (\<forall>v. translate n root v = translate (mem u) root v) \<and> (\<forall>x < 4096. n (?f + x) = m (?k + x))"
    if out: "\<forall>a. \<not> a - ?k < 4096 \<longrightarrow> m a = kernel_memory u a" for m
  proof -
    let ?n = "\<lambda>a. if a - ?f < 4096 then m (a + HHDM_OFFSET) else mem u a"
    have "set_kernel_memory m u = u\<lparr>mem := ?n\<rparr>" by (rule set_frame [OF p34]) (use out in blast)
    moreover have "vmm_ready (u\<lparr>mem := ?n\<rparr>) root" "\<And>v. translate ?n root v = translate (mem u) root v"
      by (rule write_user_frame [OF u(1) no_table], assumption+, simp, simp)+
    moreover have "?n (?f + x) = m (?k + x)" if "x < 4096" for x using that by (simp add: add.assoc add.commute)
    ultimately show ?thesis by blast
  qed
  have "?p \<notin> free_frames u" "free_frames u \<subseteq> free_frames s" using u(3) free1 by auto
  moreover have "(\<forall>v. translate (mem u) root v = (if same_page v address then Some (?f OR image_flags) else translate (mem s) root v)) \<or>
     free_frames u = {} \<and> (\<forall>v. translate (mem u) root v = translate (mem s) root v)"
    using tr by auto
  ultimately show ?thesis using alloc nz p34 p map frame upd
    by (intro exI [of _ bm] exI [of _ r] exI [of _ u] exI [of _ ?p] conjI) blast+
qed

text \<open>
  Loading a page whose frame can be had: the page of the address is mapped to a frame that was free, the
  frame holds what the image says, and nothing else of the memory or the address space changes.
\<close>

lemma LoadPage_effect:
  fixes s :: "'a filesystem_scheme" and process sp :: UInt64
  defines "root \<equiv> physicalPML4 (processes s process)" and "segment \<equiv> segment_in (kernel_memory s) sp"
  assumes ready: "vmm_ready s root" and some: "free_frames s \<noteq> {}" and window: "\<forall>p \<in> free_frames s. p < 2 ^ 34"
    and sp: "\<And>i. i < 40 \<Longrightarrow> in_heap (sp + of_nat i)"
    and source: "\<And>a. segmentAddress segment \<le> a \<Longrightarrow> a < segmentAddress segment + segmentFileSize segment \<Longrightarrow>
      in_heap (data + (segmentOffset segment + (a - segmentAddress segment)))"
    and nowrap: "unat address + 4096 < 2 ^ 64" "unat (segmentAddress segment) + unat (segmentFileSize segment) < 2 ^ 64"
  shows "\<exists>t p. sHOTLoadPage process data sp address s = Inr t \<and> p \<in> free_frames s \<and> p \<notin> free_frames t \<and>
    free_frames t \<subseteq> free_frames s \<and> vmm_ready t root \<and> vmm_frame s t \<and>
    (\<forall>x < 4096. mem t (frame_address p + x) = segment_byte (kernel_memory s) data segment (address + x)) \<and>
    ((\<forall>v. translate (mem t) root v = (if same_page v address then Some (frame_address p OR image_flags) else translate (mem s) root v)) \<or>
     free_frames t = {} \<and> (\<forall>v. translate (mem t) root v = translate (mem s) root v))"
proof -
  from map_fresh_frame [OF ready some window, of address] obtain bm r u p where
    alloc: "VMPhysicalMemoryAllocatePage s = Inr (frame_address p, s\<lparr>gVMPhycalMemoryBitmap := bm\<rparr>)"
    and p34: "p < 2 ^ 34" and p: "p \<in> free_frames s" "p \<notin> free_frames u" "free_frames u \<subseteq> free_frames s"
    and map: "VMVirtualMemoryMapPage root (frame_address p) address image_flags (s\<lparr>gVMPhycalMemoryBitmap := bm\<rparr>) = Inr (r, u)"
    and frame: "vmm_frame s u"
    and tr: "(\<forall>v. translate (mem u) root v = (if same_page v address then Some (frame_address p OR image_flags) else translate (mem s) root v)) \<or>
      free_frames u = {} \<and> (\<forall>v. translate (mem u) root v = translate (mem s) root v)"
    and upd: "\<And>m. (\<forall>a. \<not> a - (frame_address p + HHDM_OFFSET) < 4096 \<longrightarrow> m a = kernel_memory u a) \<Longrightarrow>
      \<exists>n. set_kernel_memory m u = u\<lparr>mem := n\<rparr> \<and> vmm_ready (u\<lparr>mem := n\<rparr>) root \<and> (\<forall>v. translate n root v = translate (mem u) root v) \<and>
        (\<forall>x < 4096. n (frame_address p + x) = m (frame_address p + HHDM_OFFSET + x))"
    by (elim exE conjE) blast
  let ?k = "frame_address p + HHDM_OFFSET"
  have u': "heapBytes u = heapBytes s" using frame unfolding vmm_frame_def by (elim exE) simp
  have heap: "kernel_memory u a = kernel_memory s a" if "in_heap a" for a using that u' by (simp add: kernel_memory_def)
  have seg: "segment_in (MemorySet (kernel_memory u) ?k 0 4096) sp = segment"
    unfolding segment_def
  proof (rule segment_in_cong [OF sp])
    fix a assume "in_heap a"
    then show "MemorySet (kernel_memory u) ?k 0 4096 a = kernel_memory s a"
      using heap_apart [OF p34, of "a - ?k"] heap by (auto simp: MemorySet_effect)
  qed
  let ?m = "loaded_page (kernel_memory u) data ?k segment address"
  have run: "sHOTLoadPage process data sp address s = Inr (set_kernel_memory ?m u)"
    using alloc map seg unfolding sHOTLoadPage_def root_def
    by (simp add: Let_def loaded_page_def)
  have apart: "data + (segmentOffset segment + (a - segmentAddress segment)) \<noteq> ?k + x"
    if "segmentAddress segment \<le> a" "a < segmentAddress segment + segmentFileSize segment" "x < 4096" for a x
    using source [OF that(1,2)] heap_apart [OF p34 that(3)] by metis
  have page: "?m = (\<lambda>y. if y - ?k < 4096 then segment_byte (kernel_memory u) data segment (address + (y - ?k)) else kernel_memory u y)"
    by (rule loaded_page_bytes [OF nowrap apart])
  have same_byte: "segment_byte (kernel_memory u) data segment a = segment_byte (kernel_memory s) data segment a" for a
    using source heap by (auto simp: segment_byte_def)
  from upd [of ?m] obtain n where n: "set_kernel_memory ?m u = u\<lparr>mem := n\<rparr>" "vmm_ready (u\<lparr>mem := n\<rparr>) root"
    "\<And>v. translate n root v = translate (mem u) root v" "\<And>x. x < 4096 \<Longrightarrow> n (frame_address p + x) = ?m (?k + x)"
    using page by auto
  have "n (frame_address p + x) = segment_byte (kernel_memory s) data segment (address + x)" if "x < 4096" for x
    using n(4) [OF that] page same_byte that by simp
  moreover have "vmm_frame u (u\<lparr>mem := n\<rparr>)" unfolding vmm_frame_def
    by (intro exI [of _ "gVMPhycalMemoryBitmap u"] exI [of _ n] exI [of _ "invalidated u"]) simp
  then have "vmm_frame s (u\<lparr>mem := n\<rparr>)" by (rule vmm_frame_trans [OF frame])
  moreover have "(\<forall>v. translate n root v = (if same_page v address then Some (frame_address p OR image_flags) else translate (mem s) root v)) \<or>
     free_frames u = {} \<and> (\<forall>v. translate n root v = translate (mem s) root v)"
    using tr n(3) by auto
  ultimately show ?thesis using run p n(1,2) by (intro exI [of _ "u\<lparr>mem := n\<rparr>"] exI [of _ p]) simp
qed

section \<open>Properties\<close>

text \<open>
  An image without the magic number is not refused: the loader answers all ones, which the caller, testing
  for zero, takes for an entry point.
\<close>

lemma HOTLoad_bad_magic:
  "imageMagic (header_in (kernel_memory s) data) \<noteq> HOT_MAGIC \<Longrightarrow>
     HOTLoad process data s = Inr (0xFFFFFFFFFFFFFFFF, s) \<and> (0xFFFFFFFFFFFFFFFF :: UInt64) \<noteq> 0"
  by (simp add: HOTLoad_def)

text \<open>C18: Loading a page of an image's segment while a frame is free maps the page of that address, user accessible
  and writable, to a frame that was free, and the frame then holds exactly what the file says of each of
  its addresses, with zeros outside the file's part. No other translation changes, and the tables stay
  well formed; when the frames run out on the way, the address space is unchanged.\<close>

theorem loader_page_correct:
  fixes s :: "'a filesystem_scheme"
  assumes "vmm_ready s (physicalPML4 (processes s process))" "free_frames s \<noteq> {}" "\<forall>p \<in> free_frames s. p < 2 ^ 34"
    "\<And>i. i < 40 \<Longrightarrow> in_heap (sp + of_nat i)" "segment = segment_in (kernel_memory s) sp"
    "\<And>a. segmentAddress segment \<le> a \<Longrightarrow> a < segmentAddress segment + segmentFileSize segment \<Longrightarrow>
      in_heap (data + (segmentOffset segment + (a - segmentAddress segment)))"
    "unat address + 4096 < 2 ^ 64" "unat (segmentAddress segment) + unat (segmentFileSize segment) < 2 ^ 64"
  shows "\<exists>t p. let root = physicalPML4 (processes s process) in
    sHOTLoadPage process data sp address s = Inr t \<and> p \<in> free_frames s \<and> p \<notin> free_frames t \<and>
    free_frames t \<subseteq> free_frames s \<and> vmm_ready t root \<and> vmm_frame s t \<and>
    (\<forall>x < 4096. mem t (frame_address p + x) = segment_byte (kernel_memory s) data segment (address + x)) \<and>
    ((\<forall>v. translate (mem t) root v = (if same_page v address then Some (frame_address p OR image_flags) else translate (mem s) root v)) \<or>
     free_frames t = {} \<and> (\<forall>v. translate (mem t) root v = translate (mem s) root v))"
  using LoadPage_effect [OF assms(1-4), of data address] assms(5-8) by (simp add: Let_def)

text \<open>A segment of four bytes at address 0 of a process whose page table is empty.\<close>

definition small_loader :: filesystem where
  "small_loader = small_filesystem\<lparr>mem := \<lambda>_. 0, processes := \<lambda>_. zero_process\<lparr>physicalPML4 := 0x1000\<rparr>,
     heapBytes := \<lambda>a. if a = 0xFFFFFFFFC0002018 then 4 else if a - 0xFFFFFFFFC0001000 < 4 then 0x41 else 0\<rparr>"

lemma small_loader_ready: "vmm_ready small_loader 0x1000" "free_frames small_loader = {8..<16}"
proof -
  have same: "mem small_loader = mem small_vmm" "gVMPhycalMemoryBitmap small_loader = gVMPhycalMemoryBitmap small_vmm"
    "gVMPhycalMemoryBitmapSize small_loader = gVMPhycalMemoryBitmapSize small_vmm" "sVMPMMLock small_loader = sVMPMMLock small_vmm"
    "sVMVMMlock small_loader = sVMVMMlock small_vmm"
    by (simp_all add: small_loader_def small_filesystem_def small_scheduler_def small_arch_def small_console_def small_devices_def
        small_vmm_def filesystem.defs scheduler.defs arch.defs console.defs devices.defs)
  show "vmm_ready small_loader 0x1000" using small_vmm_ready
    by (simp add: vmm_ready_def address_space_ok_def pmm_inv_def used_frames_def free_frames_def same)
  show "free_frames small_loader = {8..<16}" using small_vmm_free by (simp add: free_frames_def same)
qed

lemma small_loader_heap: "in_heap a \<Longrightarrow> kernel_memory small_loader a =
    (if a = 0xFFFFFFFFC0002018 then 4 else if a - 0xFFFFFFFFC0001000 < 4 then 0x41 else 0)"
  by (simp add: kernel_memory_def small_loader_def)

lemma small_heap_window: "x < 0x4000 \<Longrightarrow> in_heap (0xFFFFFFFFC0000000 + x)"
  by (simp add: in_heap_def word_less_nat_alt)

lemma small_segment:
  "segment_in (kernel_memory small_loader) 0xFFFFFFFFC0002000 = \<lparr>segmentType = 0, segmentAddress = 0, segmentOffset = 0,
     segmentFileSize = 4, segmentMemorySize = 0\<rparr>"
  by (simp add: segment_in_def load64_def upt_rec small_loader_heap in_heap_def)

lemma loader_page_correct_witness:
  "\<exists>t p. sHOTLoadPage 0x5000 0xFFFFFFFFC0001000 0xFFFFFFFFC0002000 0 small_loader = Inr t \<and> p \<in> {8..<16} \<and>
     mem t (frame_address p + 3) = 0x41 \<and> mem t (frame_address p + 4) = 0"
proof -
  have heap: "in_heap (0xFFFFFFFFC0002000 + of_nat i)" if "i < 40" for i
  proof -
    have "unat (of_nat i :: UInt64) = i" using that by (simp add: unsigned_of_nat take_bit_nat_eq_self)
    then show ?thesis using that small_heap_window [of "0x2000 + of_nat i"]
      by (simp add: word_less_nat_alt unat_word_ariths)
  qed
  have source: "in_heap (0xFFFFFFFFC0001000 + (0 + (a - 0)))" if "a < 0 + 4" for a
    using small_heap_window [of "0x1000 + a"] that by (simp add: word_less_nat_alt unat_word_ariths)
  have byte: "segment_byte (kernel_memory small_loader) 0xFFFFFFFFC0001000
      \<lparr>segmentType = 0, segmentAddress = 0, segmentOffset = 0, segmentFileSize = 4, segmentMemorySize = 0\<rparr> a =
      (if a < 4 then 0x41 else 0)" for a
    using source [of a] by (auto simp: segment_byte_def small_loader_heap)
  have root: "physicalPML4 (processes small_loader 0x5000) = 0x1000" by (simp add: small_loader_def)
  note page = loader_page_correct [where s = small_loader and process = "0x5000" and sp = "0xFFFFFFFFC0002000" and
      data = "0xFFFFFFFFC0001000" and address = 0, OF _ _ _ heap small_segment [symmetric], unfolded root Let_def byte small_loader_ready(2)]
  from page [OF small_loader_ready(1)] source obtain t p where
    "sHOTLoadPage 0x5000 0xFFFFFFFFC0001000 0xFFFFFFFFC0002000 0 small_loader = Inr t" "p \<in> {8..<16}"
    "\<forall>x < 4096. mem t (frame_address p + x) = (if 0 + x < 4 then 0x41 else 0)"
    by simp blast
  then show ?thesis by (intro exI [of _ t] exI [of _ p]) simp
qed

end
