(* ===== verification/Services.thy ===== *)
theory Services
  imports Loader
begin

text \<open>
  The system calls: \<^verbatim>\<open>kernel/src/OS/Services\<close> and the dispatcher of
  \<^verbatim>\<open>kernel/src/arch/x86_64/syscall.c\<close>. Pointers of a process go through the page tables in force. The
  properties are about the growth of a process's heap, writing to the console and refused calls.
\<close>

unbundle bit_operations_syntax

section \<open>Pointers of a process\<close>

text \<open>
  A system call follows the pointers it is handed without looking at them: an address in the heap's window
  is the kernel's own heap, any other goes through the page tables in force; without a translation the
  access is a page fault of the kernel.
\<close>

definition virtual_physical :: "'a heap_scheme \<Rightarrow> UInt64 \<Rightarrow> fault + UInt64" where
  "virtual_physical s a =
     (case translate (mem s) (cr3 s) a of None \<Rightarrow> Inl OutOfBounds | Some e \<Rightarrow> Inr (PTE_GET_ADDR e + (a AND 0xFFF)))"

definition load_virtual :: "'a heap_scheme \<Rightarrow> UInt64 \<Rightarrow> fault + UInt8" where
  "load_virtual s a =
     (if in_heap a then Inr (heapBytes s a) else bindE (virtual_physical s a) (\<lambda>p. Inr (mem s p)))"

definition store_virtual :: "UInt64 \<Rightarrow> UInt8 \<Rightarrow> 'a heap_scheme \<Rightarrow> fault + 'a heap_scheme" where
  "store_virtual a v s =
     (if in_heap a then Inr (s\<lparr>heapBytes := (heapBytes s)(a := v)\<rparr>)
      else bindE (virtual_physical s a) (\<lambda>p. Inr (s\<lparr>mem := (mem s)(p := v)\<rparr>)))"

section \<open>Input and output\<close>

definition OSServiceIOWrite :: "UInt64 \<Rightarrow> UInt64 \<Rightarrow> UInt64 \<Rightarrow> 'a console_scheme \<Rightarrow> fault + UInt64 \<times> 'a console_scheme" where
  "OSServiceIOWrite fileDescriptor buffer count s =
     (if fileDescriptor = 1 \<or> fileDescriptor = 2
      then bindE (for_range 0 count 1 (\<lambda>i s. bindE (load_virtual s (buffer + i)) (\<lambda>c. IOConsolePutcharacter c s)) s) (\<lambda>s.
             Inr (count, s))
      else Inr (0, s))"

definition OSServiceIORead ::
  "('a console_scheme \<Rightarrow> fault + 'a console_scheme) \<Rightarrow> UInt64 \<Rightarrow> UInt64 \<Rightarrow> UInt64 \<Rightarrow> 'a console_scheme \<Rightarrow>
   fault + UInt64 \<times> 'a console_scheme" where
  "OSServiceIORead yield fileDescriptor buffer count s =
     (if fileDescriptor = 0
      then bindE (for_range 0 count 1 (\<lambda>i s.
             bindE (IOKeyboardGetCharacter yield s) (\<lambda>(character, s). store_virtual (buffer + i) character s)) s) (\<lambda>s.
             Inr (count, s))
      else Inr (0, s))"

section \<open>Memory\<close>

text \<open>The loop that adds pages to the heap of a process; \<open>False\<close> is the early return.\<close>

fun sOSServiceMemoryPages :: "UInt64 \<Rightarrow> nat \<Rightarrow> 'a filesystem_scheme \<Rightarrow> fault + bool \<times> 'a filesystem_scheme" where
  "sOSServiceMemoryPages currentProcess 0 s = Inr (True, s)"
| "sOSServiceMemoryPages currentProcess (Suc pages) s =
     bindE (VMPhysicalMemoryAllocatePage s) (\<lambda>(physicalAddress, s).
       if physicalAddress = 0 then Inr (False, s)
       else bindE (VMVirtualMemoryMapPage (physicalPML4 (processes s currentProcess)) physicalAddress
                     (heapCurrentPointer (processes s currentProcess)) (PTE_PRESENT OR PTE_RW OR PTE_USER) s) (\<lambda>(_, s).
            let s = set_kernel_memory (MemorySet (kernel_memory s) (PHYS_TO_HHDM physicalAddress) 0 kVMPageSize) s;
                s = update_process currentProcess (\<lambda>p. p\<lparr>heapCurrentPointer := heapCurrentPointer p + kVMPageSize\<rparr>) s
            in sOSServiceMemoryPages currentProcess pages s))"

definition OSServiceMemoryAllocate :: "UInt64 \<Rightarrow> 'a filesystem_scheme \<Rightarrow> fault + UInt64 \<times> 'a filesystem_scheme" where
  "OSServiceMemoryAllocate count s =
     (if count = 0 then Inr (0, s)
      else let currentProcess = taskProcess (current_task s);
               addressToReturn = heapCurrentPointer (processes s currentProcess);
               pages_needed = (count + (kVMPageSize - 1)) div kVMPageSize
           in bindE (sOSServiceMemoryPages currentProcess (unat pages_needed) s) (\<lambda>(done, s).
                Inr (if done then addressToReturn else 0, s)))"

section \<open>Processes\<close>

definition OSServiceProcessExit ::
  "('a scheduler_scheme \<Rightarrow> fault + 'a scheduler_scheme) \<Rightarrow> Int32 \<Rightarrow> 'a scheduler_scheme \<Rightarrow> fault + Int32 \<times> 'a scheduler_scheme" where
  "OSServiceProcessExit interrupt32 code s =
     bindE (IOConsoleLog ([0x0A] @ bytes ''[Dewar] process '' @ [0x22] @ bytes ''%s'' @ [0x22] @ bytes '' exited with code %d'' @ [0x0A, 0])
              [VAString (Some (processName (processes s (taskProcess (current_task s))))), VANumber (scast code)] s) (\<lambda>s.
     bindE (OSSchedulerTerminate interrupt32 s) (\<lambda>s. Inr (code, s)))"

text \<open>The object a string pointer refers to: the mapped bytes from its address on, up to the terminator.\<close>

partial_function (option) string_from :: "'a heap_scheme \<Rightarrow> UInt64 \<Rightarrow> UInt8 list \<Rightarrow> (fault + UInt8 list) option" where
  "string_from s a cs =
     (case load_virtual s a of
        Inl e \<Rightarrow> Some (Inl e)
      | Inr c \<Rightarrow> if c = 0 then Some (Inr (cs @ [0])) else string_from s (a + 1) (cs @ [c]))"

definition string_at :: "'a heap_scheme \<Rightarrow> UInt64 \<Rightarrow> fault + UInt8 list" where
  "string_at s a = returns (string_from s a [])"

definition OSServiceProcessSpawn ::
  "(UInt64 \<Rightarrow> UInt64 \<Rightarrow> 'a filesystem_scheme \<Rightarrow> fault + 'a filesystem_scheme) \<Rightarrow>
   ('a filesystem_scheme \<Rightarrow> fault + 'a filesystem_scheme) \<Rightarrow> UInt8 list \<Rightarrow> 'a filesystem_scheme \<Rightarrow>
   fault + Int32 \<times> 'a filesystem_scheme" where
  "OSServiceProcessSpawn call interrupt32 executablePath s =
     bindE (StringFindLastOccurrenceOfCharacter executablePath (asc CHR ''/'')) (\<lambda>name.
       OSLoaderProcessSpawn call interrupt32 executablePath
         (case name of Some i \<Rightarrow> drop (unat i + 1) executablePath | None \<Rightarrow> executablePath) s)"

definition OSServiceProcessWait ::
  "('a scheduler_scheme \<Rightarrow> fault + 'a scheduler_scheme) \<Rightarrow> UInt64 \<Rightarrow> 'a scheduler_scheme \<Rightarrow> fault + Int32 \<times> 'a scheduler_scheme" where
  "OSServiceProcessWait interrupt32 processID s =
     bindE (OSSchedulerBlock interrupt32 (ucast processID) s) (\<lambda>s. Inr (ucast processID, s))"

section \<open>The dispatcher\<close>

datatype Services = SYS_EXIT | SYS_SPAWN | SYS_MEM | SYS_WRITE | SYS_READ | SYS_WAIT

definition service_of :: "UInt64 \<Rightarrow> Services option" where
  "service_of number = map_of [(0, SYS_EXIT), (1, SYS_SPAWN), (2, SYS_MEM), (3, SYS_WRITE), (4, SYS_READ), (5, SYS_WAIT)] number"

text \<open>\<open>yield\<close> is what the keyboard reader does while it waits.\<close>

definition syscall_dispatch ::
  "(UInt64 \<Rightarrow> UInt64 \<Rightarrow> 'a filesystem_scheme \<Rightarrow> fault + 'a filesystem_scheme) \<Rightarrow>
   ('a filesystem_scheme \<Rightarrow> fault + 'a filesystem_scheme) \<Rightarrow> ('a filesystem_scheme \<Rightarrow> fault + 'a filesystem_scheme) \<Rightarrow>
   UInt64 \<Rightarrow> UInt64 \<Rightarrow> UInt64 \<Rightarrow> UInt64 \<Rightarrow> 'a filesystem_scheme \<Rightarrow> fault + UInt64 \<times> 'a filesystem_scheme" where
  "syscall_dispatch call interrupt32 yield number arg1 arg2 arg3 s =
     (case service_of number of
        Some SYS_EXIT \<Rightarrow> bindE (OSServiceProcessExit interrupt32 (ucast arg1) s) (\<lambda>(r, s). Inr (scast r, s))
      | Some SYS_SPAWN \<Rightarrow> bindE (string_at s arg1) (\<lambda>executablePath.
          bindE (OSServiceProcessSpawn call interrupt32 executablePath s) (\<lambda>(r, s). Inr (scast r, s)))
      | Some SYS_MEM \<Rightarrow> OSServiceMemoryAllocate arg1 s
      | Some SYS_WRITE \<Rightarrow> OSServiceIOWrite arg1 arg2 arg3 s
      | Some SYS_READ \<Rightarrow> OSServiceIORead yield arg1 arg2 arg3 s
      | Some SYS_WAIT \<Rightarrow> bindE (OSServiceProcessWait interrupt32 arg1 s) (\<lambda>(r, s). Inr (scast r, s))
      | None \<Rightarrow> bindE (IOConsoleLog (bytes ''[Dewar] Unknown syscall %d'' @ [0x0A, 0]) [VANumber number] s) (\<lambda>s. Inr (- 1, s)))"

section \<open>Growing the heap of a process\<close>

text \<open>The state with other frames, memory and translation buffer, and a moved heap pointer.\<close>

definition heap_grown :: "UInt64 \<Rightarrow> UInt64 \<Rightarrow> 'a scheduler_scheme \<Rightarrow> 'a scheduler_scheme \<Rightarrow> bool" where
  "heap_grown cp h s t \<longleftrightarrow> (\<exists>b m i. t = s\<lparr>gVMPhycalMemoryBitmap := b, mem := m, invalidated := i,
     processes := (processes s)(cp := (processes s cp)\<lparr>heapCurrentPointer := h\<rparr>)\<rparr>)"

lemma heap_grown_refl: "heap_grown cp (heapCurrentPointer (processes s cp)) s s"
  unfolding heap_grown_def
  by (intro exI [of _ "gVMPhycalMemoryBitmap s"] exI [of _ "mem s"] exI [of _ "invalidated s"]) simp

lemma heap_grown_trans: "heap_grown cp h s t \<Longrightarrow> heap_grown cp k t u \<Longrightarrow> heap_grown cp k s u"
  unfolding heap_grown_def by (elim exE) (simp, blast)

lemma MemoryPage_effect:
  fixes s :: "'a filesystem_scheme" and cp :: UInt64
  defines "root \<equiv> physicalPML4 (processes s cp)" and "h \<equiv> heapCurrentPointer (processes s cp)"
  assumes ready: "vmm_ready s root" and some: "free_frames s \<noteq> {}" and window: "\<forall>p \<in> free_frames s. p < 2 ^ 34"
  shows "\<exists>v p. (\<forall>n. sOSServiceMemoryPages cp (Suc n) s = sOSServiceMemoryPages cp n v) \<and> p < 2 ^ 34 \<and>
    vmm_ready v root \<and> heap_grown cp (h + 4096) s v \<and> free_frames v \<subset> free_frames s \<and>
    (\<forall>x < 4096. mem v (frame_address p + x) = 0) \<and>
    (free_frames v \<noteq> {} \<longrightarrow> (\<forall>a. translate (mem v) root a =
       (if same_page a h then Some (frame_address p OR image_flags) else translate (mem s) root a)))"
proof -
  from map_fresh_frame [OF ready some window, of h] obtain bm r u p where
    alloc: "VMPhysicalMemoryAllocatePage s = Inr (frame_address p, s\<lparr>gVMPhycalMemoryBitmap := bm\<rparr>)" "frame_address p \<noteq> 0"
    and p: "p < 2 ^ 34" "p \<in> free_frames s" "p \<notin> free_frames u" "free_frames u \<subseteq> free_frames s"
    and map: "VMVirtualMemoryMapPage root (frame_address p) h image_flags (s\<lparr>gVMPhycalMemoryBitmap := bm\<rparr>) = Inr (r, u)"
    and frame: "vmm_frame s u"
    and tr: "(\<forall>v. translate (mem u) root v = (if same_page v h then Some (frame_address p OR image_flags) else translate (mem s) root v)) \<or>
      free_frames u = {} \<and> (\<forall>v. translate (mem u) root v = translate (mem s) root v)"
    and upd: "\<And>m. (\<forall>a. \<not> a - (frame_address p + HHDM_OFFSET) < 4096 \<longrightarrow> m a = kernel_memory u a) \<Longrightarrow>
      \<exists>n. set_kernel_memory m u = u\<lparr>mem := n\<rparr> \<and> vmm_ready (u\<lparr>mem := n\<rparr>) root \<and> (\<forall>v. translate n root v = translate (mem u) root v) \<and>
        (\<forall>x < 4096. n (frame_address p + x) = m (frame_address p + HHDM_OFFSET + x))"
    by (elim exE conjE) blast
  let ?m = "MemorySet (kernel_memory u) (frame_address p + HHDM_OFFSET) 0 4096"
  from upd [of ?m] obtain n where n: "set_kernel_memory ?m u = u\<lparr>mem := n\<rparr>" "vmm_ready (u\<lparr>mem := n\<rparr>) root"
    "\<And>v. translate n root v = translate (mem u) root v" "\<And>x. x < 4096 \<Longrightarrow> n (frame_address p + x) = 0"
    by (auto simp: MemorySet_effect)
  let ?v = "update_process cp (\<lambda>p. p\<lparr>heapCurrentPointer := heapCurrentPointer p + 4096\<rparr>) (u\<lparr>mem := n\<rparr>)"
  have flags: "PTE_PRESENT OR PTE_RW OR PTE_USER = image_flags" by simp
  have run: "sOSServiceMemoryPages cp (Suc k) s = sOSServiceMemoryPages cp k ?v" for k
    using alloc map n(1) by (simp add: root_def h_def PHYS_TO_HHDM_def)
  from frame obtain b m i where ueq: "u = s\<lparr>gVMPhycalMemoryBitmap := b, mem := m, invalidated := i\<rparr>"
    unfolding vmm_frame_def by blast
  have "?v = s\<lparr>gVMPhycalMemoryBitmap := b, mem := n, invalidated := i,
      processes := (processes s)(cp := (processes s cp)\<lparr>heapCurrentPointer := h + 4096\<rparr>)\<rparr>"
    by (simp add: ueq update_process_def h_def)
  then have grown: "heap_grown cp (h + 4096) s ?v" unfolding heap_grown_def by blast
  have same: "mem ?v = n" "free_frames ?v = free_frames u" by (simp_all add: update_process_def free_frames_def)
  have "vmm_ready ?v root" using n(2)
    by (simp add: vmm_ready_def address_space_ok_def pmm_inv_def used_frames_def free_frames_def update_process_def)
  moreover have "free_frames ?v \<subset> free_frames s" unfolding same using p by blast
  moreover have "free_frames ?v \<noteq> {} \<longrightarrow> (\<forall>a. translate (mem ?v) root a =
       (if same_page a h then Some (frame_address p OR image_flags) else translate (mem s) root a))"
    unfolding same using tr n(3) by auto
  ultimately show ?thesis using run p(1) grown n(4) unfolding same by (intro exI [of _ ?v] exI [of _ p]) (simp only: same, blast)
qed

lemma MemoryPages_effect:
  fixes s s0 :: "'a filesystem_scheme" and cp :: UInt64
  defines "root \<equiv> physicalPML4 (processes s cp)" and "h \<equiv> heapCurrentPointer (processes s cp)"
  assumes ready: "vmm_ready s root" and window: "\<forall>p \<in> free_frames s. p < 2 ^ 34"
    and h: "frame_aligned h" "start \<le> h" "unat h + 4096 * n < 2 ^ 64"
    and before: "free_frames s \<noteq> {} \<longrightarrow> region_mapped start s0 root h s"
  shows "\<exists>t k. sOSServiceMemoryPages cp n s = Inr (k = n, t) \<and> k \<le> n \<and> (k < n \<longrightarrow> free_frames t = {}) \<and>
    heap_grown cp (h + 4096 * of_nat k) s t \<and> vmm_ready t root \<and> free_frames t \<subseteq> free_frames s \<and>
    (free_frames t \<noteq> {} \<longrightarrow> region_mapped start s0 root (h + 4096 * of_nat n) t)"
  using assms(3-) unfolding root_def h_def
proof (induction n arbitrary: s)
  case 0
  then show ?case using heap_grown_refl [of cp s] by (intro exI [of _ s] exI [of _ 0]) simp
next
  case (Suc n)
  let ?root = "physicalPML4 (processes s cp)" and ?h = "heapCurrentPointer (processes s cp)"
  show ?case
  proof (cases "free_frames s = {}")
    case True
    then have "VMPhysicalMemoryAllocatePage s = Inr (0, s)"
      using Suc.prems(1) AllocatePage_exhausted by (auto simp: vmm_ready_def address_space_ok_def)
    then show ?thesis using True heap_grown_refl [of cp s] Suc.prems(1)
      by (intro exI [of _ s] exI [of _ 0]) simp
  next
    case False
    from MemoryPage_effect [OF Suc.prems(1) False Suc.prems(2)] obtain v p where
      run: "\<And>n. sOSServiceMemoryPages cp (Suc n) s = sOSServiceMemoryPages cp n v" and p: "p < 2 ^ 34"
      and v: "vmm_ready v ?root" "heap_grown cp (?h + 4096) s v" "free_frames v \<subset> free_frames s"
        "free_frames v \<noteq> {} \<longrightarrow> (\<forall>a. translate (mem v) ?root a =
          (if same_page a ?h then Some (frame_address p OR image_flags) else translate (mem s) ?root a))"
      by blast
    have vp: "physicalPML4 (processes v cp) = ?root" "heapCurrentPointer (processes v cp) = ?h + 4096"
      using v(2) by (auto simp: heap_grown_def)
    obtain k where k: "unat ?h = 4096 * k" using Suc.prems(3) by (auto simp: frame_aligned_def)
    have up: "unat (?h + 4096) = unat ?h + 4096" using Suc.prems(5) by (simp add: unat_word_ariths)
    have "free_frames v \<noteq> {} \<longrightarrow> region_mapped start s0 ?root (?h + 4096) v"
    proof
      assume some: "free_frames v \<noteq> {}"
      have flags: "image_flags = stack_flags" by simp
      show "region_mapped start s0 ?root (?h + 4096) v"
        by (rule region_mapped_step [of start s0 ?root ?h s p])
          (use Suc.prems p some v(4) False in \<open>simp_all add: flags\<close>)
    qed
    then have "\<exists>t k. sOSServiceMemoryPages cp n v = Inr (k = n, t) \<and> k \<le> n \<and> (k < n \<longrightarrow> free_frames t = {}) \<and>
      heap_grown cp (?h + 4096 + 4096 * of_nat k) v t \<and> vmm_ready t ?root \<and> free_frames t \<subseteq> free_frames v \<and>
      (free_frames t \<noteq> {} \<longrightarrow> region_mapped start s0 ?root (?h + 4096 + 4096 * of_nat n) t)"
      using Suc.IH [of v] unfolding vp
      using v(1,3) Suc.prems(2-5) up k by (simp add: frame_aligned_def word_le_nat_alt psubset_eq subset_iff)
    then obtain t k where t: "sOSServiceMemoryPages cp n v = Inr (k = n, t)" "k \<le> n" "k < n \<longrightarrow> free_frames t = {}"
      "heap_grown cp (?h + 4096 + 4096 * of_nat k) v t" "vmm_ready t ?root" "free_frames t \<subseteq> free_frames v"
      "free_frames t \<noteq> {} \<longrightarrow> region_mapped start s0 ?root (?h + 4096 + 4096 * of_nat n) t" by blast
    have e: "?h + 4096 + 4096 * of_nat j = ?h + 4096 * of_nat (Suc j)" for j by (simp add: algebra_simps)
    have "heap_grown cp (?h + 4096 * of_nat (Suc k)) s t" using heap_grown_trans [OF v(2) t(4)] unfolding e .
    then show ?thesis using run t v(3) unfolding e by (intro exI [of _ t] exI [of _ "Suc k"]) auto
  qed
qed

section \<open>Reading the user's buffer\<close>

lemma load_virtual_console: "console_only s t \<Longrightarrow> load_virtual t a = load_virtual s a"
  unfolding console_only_def by (elim exE) (simp add: load_virtual_def virtual_physical_def)

lemma Write_effect:
  fixes s :: "'a console_scheme"
  assumes "console_ok s" "\<And>k. k < length cs \<Longrightarrow> load_virtual s (buffer + (i + of_nat k)) = Inr (cs ! k)" "ascii cs"
    "unat i + length cs = unat count"
  shows "\<exists>t. for_range i count 1 (\<lambda>i s. bindE (load_virtual s (buffer + i)) (\<lambda>c. IOConsolePutcharacter c s)) s = Inr t \<and> printed s cs t"
  using assms
proof (induction cs arbitrary: i s)
  case Nil
  then have "i = count" by (simp add: word_unat_eq_iff)
  then show ?case using printed_nothing [OF Nil.prems(1)] by simp
next
  case (Cons c cs)
  let ?body = "\<lambda>i s. bindE (load_virtual s (buffer + i)) (\<lambda>c. IOConsolePutcharacter c s)"
  have lt: "i < count" using Cons.prems(4) by (simp add: word_less_nat_alt)
  have up: "unat (i + 1) = Suc (unat i)" by (rule unat_Suc_below [OF lt])
  have first: "load_virtual s (buffer + i) = Inr c" using Cons.prems(2) [of 0] by simp
  from Putcharacter_printed [OF Cons.prems(1), of c] Cons.prems(3) obtain u where
    u: "IOConsolePutcharacter c s = Inr u" "printed s [c] u" by auto
  then have only: "console_only s u" by (simp add: printed_def)
  have "load_virtual u (buffer + (i + 1 + of_nat k)) = Inr (cs ! k)" if "k < length cs" for k
    using Cons.prems(2) [of "Suc k"] that unfolding load_virtual_console [OF only] by (simp add: add.assoc)
  then obtain t where t: "for_range (i + 1) count 1 ?body u = Inr t" "printed u cs t"
    using Cons.IH [of u "i + 1"] printed_ok [OF u(2)] Cons.prems(3,4) up by auto
  have "for_range i count 1 ?body s = for_range (i + 1) count 1 ?body u"
    by (rule for_range_step [OF lt]) (use first u(1) up in \<open>simp_all add: word_less_nat_alt\<close>)
  then show ?case using t printed_trans [OF u(2) t(2)] by simp
qed

section \<open>Properties\<close>

text \<open>
  A request so large that rounding it up to pages wraps is granted with no page at all.
\<close>

lemma MemoryAllocate_wraps:
  "OSServiceMemoryAllocate 0xFFFFFFFFFFFFF001 s = Inr (heapCurrentPointer (processes s (taskProcess (current_task s))), s)"
  by (simp add: OSServiceMemoryAllocate_def)


text \<open>C20: A system call that asks for nothing the kernel offers is refused without a trace: an unknown number
  logs one line and answers all ones, writing to a descriptor other than 1 and 2 and reading from one
  other than 0 answer zero; in each case memory, tasks and heap are untouched.\<close>

theorem syscall_errors:
  fixes s :: "'a filesystem_scheme"
  assumes "console_ok s" "5 < number" "(ucast number :: Int32) \<noteq> 0x80000000" "descriptor \<notin> {1, 2}" "source \<noteq> 0"
  shows "(\<exists>t. syscall_dispatch call interrupt32 yield number a b c s = Inr (0xFFFFFFFFFFFFFFFF, t) \<and> console_only s t \<and>
      serial_output t = serial_output s @ bytes ''[Dewar] Unknown syscall '' @ decimal (sint (ucast number :: Int32)) @ [0x0A]) \<and>
    syscall_dispatch call interrupt32 yield 3 descriptor b c s = Inr (0, s) \<and>
    syscall_dispatch call interrupt32 yield 4 source b c s = Inr (0, s)"
proof -
  let ?ps = "map (Plain \<circ> asc) ''[Dewar] Unknown syscall '' @ [Decimal (ucast number) number, Plain 0x0A]"
  have ok: "\<forall>p \<in> set ?ps. piece_ok p" using assms(3) by simp
  have "concat (map piece_format ?ps) @ [0] = bytes ''[Dewar] Unknown syscall %d'' @ [0x0A, 0]"
    "concat (map piece_args ?ps) @ [] = [VANumber number]"
    "concat (map piece_text ?ps) = bytes ''[Dewar] Unknown syscall '' @ decimal (sint (ucast number :: Int32)) @ [0x0A]"
    by (simp_all add: bytes_def)
  with Log_effect [OF assms(1) ok, of "[]" "[]"] obtain t where
    t: "IOConsoleLog (bytes ''[Dewar] Unknown syscall %d'' @ [0x0A, 0]) [VANumber number] s = Inr t"
    "printed s (bytes ''[Dewar] Unknown syscall '' @ decimal (sint (ucast number :: Int32)) @ [0x0A]) t"
    by (metis append_Cons append_Nil2 append_self_conv)
  have "service_of number = None" using assms(2) by (auto simp: service_of_def)
  then have "syscall_dispatch call interrupt32 yield number a b c s = Inr (0xFFFFFFFFFFFFFFFF, t)"
    using t(1) by (simp add: syscall_dispatch_def)
  moreover have "service_of 3 = Some SYS_WRITE" "service_of 4 = Some SYS_READ" by (simp_all add: service_of_def)
  ultimately show ?thesis using t(2) assms(4,5)
    by (simp add: syscall_dispatch_def OSServiceIOWrite_def OSServiceIORead_def printed_def)
qed

text \<open>C21: Writing to the console from a process prints exactly the bytes its address space holds from the
  buffer on, as many as asked for, returns their number, and touches neither memory nor tasks.\<close>

theorem syscall_write:
  fixes s :: "'a filesystem_scheme"
  assumes "console_ok s" "\<And>k. k < length cs \<Longrightarrow> load_virtual s (buffer + of_nat k) = Inr (cs ! k)" "ascii cs"
    "unat count = length cs" "descriptor \<in> {1, 2}"
  shows "\<exists>t. syscall_dispatch call interrupt32 yield 3 descriptor buffer count s = Inr (count, t) \<and> console_only s t \<and>
    console_ok t \<and> serial_output t = serial_output s @ cs"
proof -
  have "service_of 3 = Some SYS_WRITE" by (simp add: service_of_def)
  with Write_effect [OF assms(1), of cs buffer 0 count] assms(2-5) show ?thesis
    by (auto simp: syscall_dispatch_def OSServiceIOWrite_def printed_def)
qed

text \<open>A process whose heap is empty and starts at one gigabyte.\<close>

definition small_process :: filesystem where
  "small_process = small_loader\<lparr>processes := \<lambda>_. zero_process\<lparr>physicalPML4 := 0x1000, heapCurrentPointer := 0x40000000\<rparr>\<rparr>"

lemma console_ok_same:
  assumes "console_ok s" "portInput t = portInput s" "sIOConsoleFont t = sIOConsoleFont s"
    "sIOGraphicsContextPointer t = sIOGraphicsContextPointer s" "sIOConsoleCursorPosition t = sIOConsoleCursorPosition s"
  shows "console_ok t"
  using assms(1) unfolding console_ok_def transmit_ready_def assms(2-5) .

lemma small_process_ok: "vmm_ready small_process 0x1000" "free_frames small_process = {8..<16}" "console_ok small_process"
proof -
  show "vmm_ready small_process 0x1000" using small_loader_ready(1)
    by (simp add: vmm_ready_def address_space_ok_def pmm_inv_def used_frames_def free_frames_def small_process_def)
  show "free_frames small_process = {8..<16}" using small_loader_ready(2) by (simp add: free_frames_def small_process_def)
  show "console_ok small_process" by (rule console_ok_same [OF small_filesystem_ok(2)]) (simp_all add: small_process_def small_loader_def)
qed


lemma syscall_errors_witness:
  "\<exists>t. syscall_dispatch (\<lambda>_ _. Inr) Inr Inr 77 1 2 3 small_process = Inr (0xFFFFFFFFFFFFFFFF, t) \<and>
     serial_output t = serial_output small_process @ bytes ''[Dewar] Unknown syscall '' @ decimal 77 @ [0x0A]"
proof -
  have d: "sint (ucast (77 :: UInt64) :: Int32) = 77" by simp
  show ?thesis
    using syscall_errors [OF small_process_ok(3), of 77 9 9 "\<lambda>_ _. Inr" Inr Inr 1 2 3] unfolding d by auto
qed

lemma syscall_write_witness:
  "\<exists>t. syscall_dispatch (\<lambda>_ _. Inr) Inr Inr 3 1 0xFFFFFFFFC0001000 3 small_process = Inr (3, t) \<and>
     serial_output t = serial_output small_process @ [0x41, 0x41, 0x41]"
proof -
  have "load_virtual small_process (0xFFFFFFFFC0001000 + of_nat k) = Inr ([0x41, 0x41, 0x41] ! k)" if "k < 3" for k
  proof -
    have "k = 0 \<or> k = 1 \<or> k = 2" using that by arith
    then show ?thesis by (elim disjE) (simp_all add: load_virtual_def in_heap_def small_process_def small_loader_def)
  qed
  then show ?thesis
    using syscall_write [OF small_process_ok(3), of "[0x41, 0x41, 0x41]" "0xFFFFFFFFC0001000" 3 1 "\<lambda>_ _. Inr" Inr Inr] by auto
qed

end
