(* ===== verification/PanicScreen.thy ===== *)
theory PanicScreen
  imports Services
begin

text \<open>
  What the kernel does when it cannot go on: the panic screen of \<^verbatim>\<open>kernel/src/OS/OSPanic.c\<close> with all its
  messages, and the exception handler of \<^verbatim>\<open>kernel/src/arch/x86_64/interrupts.c\<close>. Log lines are shown to
  print what their format says by splitting the format into pieces, which simplification evaluates.
\<close>

unbundle bit_operations_syntax

section \<open>Lines of the log\<close>

text \<open>A sequence of calls of \<^verbatim>\<open>IOConsoleLog\<close>: a format and its arguments each.\<close>

type_synonym log_line = "UInt8 list \<times> va_arg list"

fun log_lines :: "log_line list \<Rightarrow> 'a console_scheme \<Rightarrow> fault + 'a console_scheme" where
  "log_lines [] s = Inr s"
| "log_lines ((fmt, args) # ls) s = bindE (IOConsoleLog fmt args s) (log_lines ls)"

section \<open>The messages\<close>

definition sOSPanicFunMessages :: "UInt8 list list" where
  "sOSPanicFunMessages =
    [literal ''Execution finished abnormally with code: 0x_x'',
     bytes ''It'' @ [0x27] @ bytes ''s definitely your fault.'' @ [0],
     literal ''No more Roblox!'',
     literal ''Call your mom 4 help!'',
     literal ''2bad4u'',
     literal ''Touch grass'',
     literal ''Skill issue'',
     literal ''You should just go outside actually'',
     literal ''Perfect opportunity to take a shower'',
     literal ''404 not found'',
     literal ''Windows is locked! Password:___ Time left: 5:45:41'',
     literal ''GOOOOOAL'',
     [0x22] @ bytes ''NAM PIZDA'' @ [0x22] @ bytes '': hackers dropped our registry'' @ [0],
     literal ''geeked vs locked in'',
     literal ''HEEEELP!'',
     literal ''LET ME GO!'',
     literal ''You little asshole, make it better'',
     literal ''Go and read books for programming u idiot'',
     literal ''TIME TO BRAKE! :3 Take a tea and try again later cutie'',
     literal ''Code have been eaten by Aliens'',
     bytes ''That'' @ [0x27] @ bytes ''s all, folks!'' @ [0],
     literal ''Raiden, answer me, Raiden, respond! Raiden?! RAIDEEEEEEEEEN!'',
     bytes ''I'' @ [0x27] @ bytes ''ll be back'' @ [0],
     literal ''Hastla la vista, baby'',
     literal ''Ti chego mne tut nagovoril...'',
     literal ''Have you tried turning it off and on again?'',
     literal ''Put it in rice maybe?'',
     literal ''Just hit the monitor, it usually helps'',
     literal ''I think it needs a rest. Come back tomorrow'',
     bytes ''You clicked something wrong, didn'' @ [0x27] @ bytes ''t you?'' @ [0],
     literal ''You hacked it too hard, bro'',
     literal ''I think you deleted the internet'',
     literal ''Stop downloading RAM'',
     literal ''Pro tip: dont crash'',
     literal ''Stop ricing the kernel you loonixtard, TermOS is NOT Loonix'',
     bytes ''Attaboy, Jack. He'' @ [0x27] @ bytes ''s good. Really good.'' @ [0],
     literal ''Zhenih priehal'',
     literal ''YOUR PC WAS BLOCKED BY FBI FOR WATCHING PORNOGRAPHY SEND 20 US DOLLARS'',
     literal ''fuck off'',
     literal ''Your GPU is now mining Ethereum for me. Thanks.'',
     bytes ''Your PC is locked!'' @ [0x0A, 0x09, 0x09, 0x09, 0x09] @ bytes ''Pay a fee of 0.019082006 bitcoins to a wallet 1KtoProchitalTotSosal to get decryption key!'' @ [0]]"

definition sOSPanicExceptionMessages :: "UInt8 list list" where
  "sOSPanicExceptionMessages =
    [literal ''Division By Zero'',
     literal ''Debug'',
     literal ''Non Maskable Interrupt'',
     literal ''Breakpoint'',
     literal ''Into Detected Overflow'',
     literal ''Out of Bounds'',
     literal ''Invalid Opcode'',
     literal ''Device Not Available'',
     literal ''Double Fault'',
     literal ''Coprocessor Segment Overrun'',
     literal ''Bad TSS'',
     literal ''Segment Not Present'',
     literal ''Stack Fault'',
     literal ''General Protection Fault'',
     literal ''Page Fault'',
     literal ''Reserved'',
     literal ''x87 Floating-Point Exception'',
     literal ''Alignment Check'',
     literal ''Machine Check'',
     literal ''SIMD Floating-Point Exception'',
     literal ''Virtualization Exception'',
     literal ''Control Protection Exception'',
     literal ''Reserved'',
     literal ''Reserved'',
     literal ''Reserved'',
     literal ''Reserved'',
     literal ''Reserved'',
     literal ''Reserved'',
     literal ''Hypervisor Injection Exception'',
     literal ''VMM Communication Exception'',
     literal ''Security Exception'',
     literal ''Reserved'']"

section \<open>The panic screen\<close>

text \<open>
  \<^verbatim>\<open>die\<close> halts with interrupts off for ever; the result is the state the processor stays in.
\<close>

definition die :: "'a machine_scheme \<Rightarrow> 'a machine_scheme" where
  "die s = s\<lparr>interruptFlag := False\<rparr>"

definition sOSPanicDrawPanicBackground :: "'a arch_scheme \<Rightarrow> fault + 'a arch_scheme" where
  "sOSPanicDrawPanicBackground s =
     bindE (IOConsoleClear 0x000000 s) (\<lambda>s.
       let s = IOConsoleSetForegroundColor 0xFFFFFF s;
           s = IOConsoleSetDefaultForegroundColor 0xFFFFFF s;
           funMessagesCount = of_nat (length sOSPanicFunMessages);
           (random, s) = Rand s;
           randNum = (ucast (random mod funMessagesCount) :: UInt8)
       in bindE (array_get sOSPanicFunMessages (unat randNum)) (\<lambda>message.
            log_lines
              [([0x0A, 0x0A, 0], []),
               ([0x09, 0x09, 0x09, 0x09] @ bytes ''^bKERNEL PANIC^!  :( '' @ [0x0A, 0], []),
               ([0x09, 0x09] @ bytes ''--------------------------------'' @ [0x0A, 0], []),
               ([0x09, 0x09] @ bytes ''^y%s^!'' @ [0x0A, 0], [VAString (Some message)]),
               ([0x09, 0x09] @ bytes ''--------------------------------'' @ [0x0A, 0], [])] s))"

definition OSPanic :: "UInt8 list \<Rightarrow> 'a arch_scheme \<Rightarrow> fault + 'a arch_scheme" where
  "OSPanic message s =
     bindE (sOSPanicDrawPanicBackground s) (\<lambda>s.
     bindE (log_lines
              [([0x09, 0x09] @ bytes ''^yReason^!: %s'' @ [0x0A, 0], [VAString (Some message)]),
               ([0x09, 0x09] @ bytes ''--------------------------------'' @ [0x0A, 0], []),
               ([0x09, 0x09, 0x09, 0x09] @ bytes ''^bSystem halted.^!'' @ [0x0A, 0], [])] s) (\<lambda>s. Inr (die s)))"

text \<open>The report of an exception, in the order it is printed. \<open>cr2\<close> is the processor's fault address.\<close>

definition exception_lines :: "CPURegisters \<Rightarrow> UInt8 list \<Rightarrow> log_line list" where
  "exception_lines frame name =
     [([0x09, 0x09] @ bytes ''^yCPU EXCEPTION^!: ^b%s^! (%d)'' @ [0x0A, 0], [VAString (Some name), VANumber (regInterruptNumber frame)])] @
     (if regErrorCode frame \<noteq> 0 then [([0x09, 0x09] @ bytes ''^yError Code^!: %X'' @ [0x0A, 0], [VANumber (regErrorCode frame)])] else []) @
     [([0x09, 0x09] @ bytes ''^yInstruction Pointer^! (^yRIP^!): %X'' @ [0x0A, 0], [VANumber (regRip frame)]),
      ([0x09, 0x09] @ bytes ''^yCode Segment^! (^yCS^!): %X'' @ [0x0A, 0], [VANumber (regCs frame)]),
      ([0x09, 0x09] @ bytes ''^yFlags^! (^yRFLAGS^!): %X'' @ [0x0A, 0], [VANumber (regRflags frame)]),
      ([0x09, 0x09] @ bytes ''^yStack Pointer^! (^yRSP^!): %X'' @ [0x0A, 0], [VANumber (regRsp frame)])]"

definition page_fault_lines :: "UInt64 \<Rightarrow> CPURegisters \<Rightarrow> log_line list" where
  "page_fault_lines cr2 frame =
     (let flag = (\<lambda>i. regErrorCode frame AND push_bit i 1 \<noteq> 0)
      in [([0x09, 0x09] @ bytes ''--------------------------------'' @ [0x0A, 0], []),
          ([0x09, 0x09] @ bytes ''       ^yPage Fault Helper^!        '' @ [0x0A, 0], []),
          ([0x09, 0x09] @ bytes ''--------------------------------'' @ [0x0A, 0], []),
          ([0x09, 0x09] @ bytes ''^yFaulting Address^! (^yCR2^!): %X'' @ [0x0A, 0], [VANumber cr2]),
          ([0x09, 0x09] @ bytes ''^yERRCode^!: %X'' @ [0x0A, 0], [VANumber (regErrorCode frame)])] @
         [([0x09, 0x09, 0x09] @ bytes ''[^bP^!] ^yReason^!: %s'' @ [0x0A, 0], [VAString (Some (if flag 0 then literal ''Page Protection violation'' else literal ''Non-present page''))]),
          ([0x09, 0x09, 0x09] @ bytes ''[^bW^!] ^yCaused by^! %s'' @ [0x0A, 0], [VAString (Some (if flag 1 then literal ''WRITE'' else literal ''READ''))]),
          ([0x09, 0x09, 0x09] @ bytes ''[^bU^!] ^yRing^! %s'' @ [0x0A, 0], [VAString (Some (if flag 2 then literal ''3'' else literal ''0''))])] @
         (if flag 3 then [([0x09, 0x09, 0x09] @ bytes ''[^bR^!] CPU Wrote 1 to a reserved field in page table entry. ^rCorrupt page table?^!'' @ [0x0A, 0], [])] else []) @
         (if flag 4 then [([0x09, 0x09, 0x09] @ bytes ''[^bI^!] ^yTried to^! execute ^ycode from^! NX ^ymemory^!'' @ [0x0A, 0], [])] else []))"

definition register_lines :: "CPURegisters \<Rightarrow> log_line list" where
  "register_lines frame =
     [([0x09, 0x09] @ bytes ''--------------------------------'' @ [0x0A, 0], []),
      ([0x09, 0x09, 0x09, 0x09] @ bytes ''^yREGISTERS^!'' @ [0x0A, 0], []),
      ([0x09, 0x09] @ bytes ''--------------------------------'' @ [0x0A, 0], []),
      ([0x09, 0x09] @ bytes ''^yRAX^!=%X, ^yRBX^!=%X'' @ [0x0A, 0], [VANumber (regRax frame), VANumber (regRbx frame)]),
      ([0x09, 0x09] @ bytes ''^yRCX^!=%X, ^yRDX^!=%X'' @ [0x0A, 0], [VANumber (regRcx frame), VANumber (regRdx frame)]),
      ([0x09, 0x09] @ bytes ''^yRSI^!=%X, ^yRDI^!=%X'' @ [0x0A, 0], [VANumber (regRsi frame), VANumber (regRdi frame)]),
      ([0x09, 0x09] @ bytes ''^yRBP^!=%X, ^yR8^! =%X'' @ [0x0A, 0], [VANumber (regRbp frame), VANumber (regR8 frame)]),
      ([0x09, 0x09] @ bytes ''^yR9^! =%X, ^yR10^!=%X '' @ [0x0A, 0], [VANumber (regR9 frame), VANumber (regR10 frame)]),
      ([0x09, 0x09] @ bytes ''^yR11^!=%X, ^yR12^!=%X'' @ [0x0A, 0], [VANumber (regR11 frame), VANumber (regR12 frame)]),
      ([0x09, 0x09] @ bytes ''^yR13^!=%X, ^yR14^!=%X'' @ [0x0A, 0], [VANumber (regR13 frame), VANumber (regR14 frame)]),
      ([0x09, 0x09] @ bytes ''^yR15^!=%X'' @ [0x0A, 0], [VANumber (regR15 frame)]),
      ([0x09, 0x09] @ bytes ''--------------------------------'' @ [0x0A, 0], []),
      ([0x09, 0x09, 0x09, 0x09] @ bytes ''^bSystem halted.^!'' @ [0x0A, 0], [])]"

definition OSPanicException :: "UInt64 \<Rightarrow> CPURegisters \<Rightarrow> 'a arch_scheme \<Rightarrow> fault + 'a arch_scheme" where
  "OSPanicException cr2 frame s =
     bindE (sOSPanicDrawPanicBackground s) (\<lambda>s.
     bindE (array_get sOSPanicExceptionMessages (unat (regInterruptNumber frame))) (\<lambda>name.
     bindE (log_lines (exception_lines frame name @
              (if regInterruptNumber frame = 14 then page_fault_lines cr2 frame else []) @
              register_lines frame) s) (\<lambda>s. Inr (die s))))"

section \<open>Exceptions of the processor\<close>

definition breakpoint_lines :: "CPURegisters \<Rightarrow> log_line list" where
  "breakpoint_lines frame =
     [(bytes ''--------------------------------'' @ [0x0A, 0], []),
      ([0x09, 0x09] @ bytes ''^gREGISTERS^!'' @ [0x0A, 0], []),
      (bytes ''--------------------------------'' @ [0x0A, 0], []),
      (bytes ''^gRAX^!=%X, ^gRBX^!=%X'' @ [0x0A, 0], [VANumber (regRax frame), VANumber (regRbx frame)]),
      (bytes ''^gRCX^!=%X, ^gRDX^!=%X'' @ [0x0A, 0], [VANumber (regRcx frame), VANumber (regRdx frame)]),
      (bytes ''^gRSI^!=%X, ^gRDI^!=%X'' @ [0x0A, 0], [VANumber (regRsi frame), VANumber (regRdi frame)]),
      (bytes ''^gRBP^!=%X, ^gR8^! =%X'' @ [0x0A, 0], [VANumber (regRbp frame), VANumber (regR8 frame)]),
      (bytes ''^gR9^! =%X, ^gR10^!=%X '' @ [0x0A, 0], [VANumber (regR9 frame), VANumber (regR10 frame)]),
      (bytes ''^gR11^!=%X, ^gR12^!=%X'' @ [0x0A, 0], [VANumber (regR11 frame), VANumber (regR12 frame)]),
      (bytes ''^gR13^!=%X, ^gR14^!=%X'' @ [0x0A, 0], [VANumber (regR13 frame), VANumber (regR14 frame)]),
      (bytes ''^gR15^!=%X'' @ [0x0A, 0], [VANumber (regR15 frame)]),
      (bytes ''--------------------------------'' @ [0x0A, 0], [])]"

definition segmentation_fault_line :: "CPURegisters \<Rightarrow> OSProcess \<Rightarrow> log_line" where
  "segmentation_fault_line frame process =
     ([0x0A] @ bytes ''[Dewar] Process '' @ [0x27] @ bytes ''%s'' @ [0x27] @ bytes '' (PID %d) Segmentation Fault at %X'' @ [0x0A, 0], [VAString (Some (processName process)), VANumber (processId process), VANumber (regRip frame)])"

text \<open>\<open>frame\<close> is the address of the saved registers.\<close>

definition isr_handler_c ::
  "('a scheduler_scheme \<Rightarrow> fault + 'a scheduler_scheme) \<Rightarrow> UInt64 \<Rightarrow> UInt64 \<Rightarrow> CPURegisters \<Rightarrow> 'a scheduler_scheme \<Rightarrow>
   fault + 'a scheduler_scheme" where
  "isr_handler_c interrupt32 cr2 frame registers s =
     (if regInterruptNumber registers = 3 then log_lines (breakpoint_lines registers) s
      else if regCs registers AND 3 \<noteq> 0
      then bindE (log_lines [segmentation_fault_line registers (processes s (taskProcess (current_task s)))] s) (\<lambda>s.
           let s = update_task (gOSSchedulerCurrentTask s) (\<lambda>t. t\<lparr>taskState := kOSProcessStateDead\<rparr>) s
           in bindE (OSServiceProcessExit interrupt32 (- 1) s) (\<lambda>(_, s).
              bindE (OSSchedulerNext frame s) (\<lambda>(_, s). Inr s)))
      else OSPanicException cr2 registers s)"

section \<open>What a log line prints\<close>

text \<open>The pieces of a format with its arguments, when every directive finds an argument of its kind.\<close>

definition directive_piece :: "UInt8 \<Rightarrow> va_arg list \<Rightarrow> (piece \<times> va_arg list) option" where
  "directive_piece d args =
     (case args of
        VAString (Some buf) # args \<Rightarrow>
          if d = asc CHR ''s'' \<and> 0 \<in> set buf \<and> ascii (takeWhile (\<lambda>c. c \<noteq> 0) buf)
          then Some (Text buf (takeWhile (\<lambda>c. c \<noteq> 0) buf), args) else None
      | VANumber n # args \<Rightarrow>
          if d = asc CHR ''d'' \<and> (ucast n :: Int32) \<noteq> 0x80000000 then Some (Decimal (ucast n) n, args)
          else if d = asc CHR ''x'' then Some (Hexadecimal n, args)
          else if d = asc CHR ''X'' then Some (Padded n, args)
          else None
      | _ \<Rightarrow> None)"

fun pieces :: "UInt8 list \<Rightarrow> va_arg list \<Rightarrow> piece list option" where
  "pieces [] args = None"
| "pieces (c # fmt) args =
     (if c = 0 then Some []
      else if c = asc CHR ''%''
      then (case fmt of
              [] \<Rightarrow> None
            | d # fmt \<Rightarrow> (case directive_piece d args of
                             None \<Rightarrow> None
                           | Some (p, args) \<Rightarrow> map_option (Cons p) (pieces fmt args)))
      else if c = asc CHR ''^''
      then (case fmt of
              [] \<Rightarrow> None
            | d # fmt \<Rightarrow> if d \<in> set (bytes ''rRgGtbBlycmp0w!~'') then map_option (Cons (Color d)) (pieces fmt args) else None)
      else if c < 0x80 then map_option (Cons (Plain c)) (pieces fmt args) else None)"

lemma directive_piece_ok:
  assumes "directive_piece d args = Some (p, args')"
  shows "piece_ok p \<and> piece_format p = [asc CHR ''%'', d] \<and> args = piece_args p @ args'"
proof -
  have cs: "0 \<in> set buf \<Longrightarrow> c_string buf (takeWhile (\<lambda>c. c \<noteq> 0) buf)" for buf :: "UInt8 list"
  proof -
    assume z: "0 \<in> set buf"
    then obtain rest where r: "dropWhile (\<lambda>c. c \<noteq> 0) buf = 0 # rest"
      using hd_dropWhile [of "\<lambda>c. c \<noteq> 0" buf] by (cases "dropWhile (\<lambda>c. c \<noteq> 0) buf") auto
    have "buf = takeWhile (\<lambda>c. c \<noteq> 0) buf @ 0 # rest" by (subst takeWhile_dropWhile_id [of "\<lambda>c. c \<noteq> 0" buf, symmetric]) (simp only: r)
    then show "c_string buf (takeWhile (\<lambda>c. c \<noteq> 0) buf)" unfolding c_string_def by (auto dest: set_takeWhileD)
  qed
  show ?thesis using assms cs
    by (auto simp: directive_piece_def bytes_def split: list.splits va_arg.splits option.splits if_splits)
qed

lemma pieces_ok:
  "pieces fmt args = Some ps \<Longrightarrow> (\<forall>p \<in> set ps. piece_ok p) \<and>
     (\<exists>rest args'. fmt = concat (map piece_format ps) @ 0 # rest \<and> args = concat (map piece_args ps) @ args')"
proof (induction fmt args arbitrary: ps rule: pieces.induct)
  case (2 c fmt args)
  consider "c = 0" | "c = asc CHR ''%''" | "c = asc CHR ''^''" | "c \<noteq> 0" "c \<noteq> asc CHR ''%''" "c \<noteq> asc CHR ''^''" by blast
  then show ?case
  proof cases
    case 1
    then show ?thesis using 2(4) by simp
  next
    case 2
    then obtain d fmt' p args' qs where d: "fmt = d # fmt'" "directive_piece d args = Some (p, args')"
      "pieces fmt' args' = Some qs" "ps = p # qs"
      using "2.prems" by (auto split: list.splits option.splits)
    have nz: "c \<noteq> 0" using 2 by simp
    note IH = "2.IH"(1) [OF nz 2 d(1) d(2) refl d(3)]
    then show ?thesis using directive_piece_ok [OF d(2)] d 2 by auto
  next
    case 3
    then obtain d fmt' qs where d: "fmt = d # fmt'" "d \<in> set (bytes ''rRgGtbBlycmp0w!~'')"
      "pieces fmt' args = Some qs" "ps = Color d # qs"
      using "2.prems" by (auto split: list.splits if_splits)
    have nz: "c \<noteq> 0" "c \<noteq> asc CHR ''%''" using 3 by simp_all
    note IH = "2.IH"(2) [OF nz 3 d(1) d(2) d(3)]
    have "bytes ''^'' = [c]" using 3 by (simp add: bytes_def)
    then show ?thesis using IH d by auto
  next
    case 4
    then obtain qs where d: "c < 0x80" "pieces fmt args = Some qs" "ps = Plain c # qs"
      using "2.prems" by (auto split: if_splits)
    note IH = "2.IH"(3) [OF 4 d(1) d(2)]
    then show ?thesis using d 4 by auto
  qed
qed simp

definition line_text :: "log_line \<Rightarrow> UInt8 list" where
  "line_text l = (case pieces (fst l) (snd l) of None \<Rightarrow> [] | Some ps \<Rightarrow> concat (map piece_text ps))"

definition line_ok :: "log_line \<Rightarrow> bool" where
  "line_ok l \<longleftrightarrow> pieces (fst l) (snd l) \<noteq> None"

lemma log_line_effect:
  assumes "console_ok s" "line_ok (fmt, args)"
  shows "\<exists>t. IOConsoleLog fmt args s = Inr t \<and> printed s (line_text (fmt, args)) t"
proof -
  obtain ps where ps: "pieces fmt args = Some ps" using assms(2) by (auto simp: line_ok_def)
  from pieces_ok [OF ps] obtain rest args' where "fmt = concat (map piece_format ps) @ 0 # rest"
    "args = concat (map piece_args ps) @ args'" "\<forall>p \<in> set ps. piece_ok p" by blast
  with Log_effect [OF assms(1), of ps rest args'] ps show ?thesis by (simp add: line_text_def)
qed

lemma log_lines_effect:
  "console_ok s \<Longrightarrow> list_all line_ok ls \<Longrightarrow> \<exists>t. log_lines ls s = Inr t \<and> printed s (concat (map line_text ls)) t"
proof (induction ls arbitrary: s)
  case Nil
  then show ?case using printed_nothing by fastforce
next
  case (Cons l ls)
  obtain fmt args where l: "l = (fmt, args)" by (cases l)
  from log_line_effect [of s fmt args] Cons.prems l obtain u where
    u: "IOConsoleLog fmt args s = Inr u" "printed s (line_text l) u" by auto
  from Cons.IH [OF printed_ok [OF u(2)]] Cons.prems obtain t where
    "log_lines ls u = Inr t" "printed u (concat (map line_text ls)) t" by auto
  then show ?case using u printed_trans [OF u(2)] l by auto
qed

section \<open>The panic screen never fails\<close>

lemma Clear_effect:
  assumes ok: "console_ok s"
  shows "\<exists>t. IOConsoleClear color s = Inr t \<and> console_ok t \<and> serial_output t = serial_output s"
proof (cases "sIOGraphicsContextPointer s")
  case None
  then show ?thesis using ok by (simp add: IOConsoleClear_def)
next
  case (Some c)
  then have c: "context_ok c" "unat (sizeWidth (dimensions c)) + 32 \<le> 2 ^ 32" "unat (sizeHeight (dimensions c)) + 16 \<le> 2 ^ 32"
    "0 < sizeWidth (dimensions c)" "0 < sizeHeight (dimensions c)"
    using ok by (auto simp: console_ok_def word_less_nat_alt)
  from DrawRectangle_effect [OF c(1), of "\<lparr>pointX = 0, pointY = 0\<rparr>" "dimensions c" color] c(2,3) obtain d where
    d: "IOGraphicsDrawRectangle c \<lparr>pointX = 0, pointY = 0\<rparr> (dimensions c) color = Inr d"
    "drawn c \<lparr>pointX = 0, pointY = 0\<rparr> (dimensions c) (\<lambda>_ _. Some color) d" by auto
  have "dimensions d = dimensions c" "context_ok d" using drawn_ok [OF d(2) c(1)] d(2) by (simp_all add: drawn_def)
  then show ?thesis using Some d(1) ok c
    by (simp add: IOConsoleClear_def console_ok_def transmit_ready_def serial_output_def)
qed

lemma Rand_console:
  "\<exists>x a b. Rand s = (x, s\<lparr>hardwareRandomReads := a, sPseudorandState := b\<rparr>)"
proof (cases "OSCPUHasFeature kCPUFeatureRDRAND s")
  case True
  obtain v ok where hr: "hardwareRandom s (hardwareRandomReads s) = (v, ok)" by (cases "hardwareRandom s (hardwareRandomReads s)")
  let ?s = "s\<lparr>hardwareRandomReads := hardwareRandomReads s + 1\<rparr>"
  show ?thesis
  proof (cases "ok = 0")
    case False
    then show ?thesis using True hr
      by (intro exI [of _ v] exI [of _ "hardwareRandomReads s + 1"] exI [of _ "sPseudorandState s"])
        (simp add: Rand_def RandHardware_def Let_def)
  next
    case zero: True
    then show ?thesis using True hr
      by (intro exI [of _ "fst (RandXorshift ?s)"] exI [of _ "hardwareRandomReads s + 1"] exI [of _ "fst (RandXorshift ?s)"])
        (simp add: Rand_def RandHardware_def RandXorshift_def Let_def)
  qed
next
  case False
  then show ?thesis
    by (intro exI [of _ "fst (RandXorshift s)"] exI [of _ "hardwareRandomReads s"] exI [of _ "fst (RandXorshift s)"])
      (simp add: Rand_def RandXorshift_def Let_def)
qed

definition message_ok :: "UInt8 list \<Rightarrow> bool" where
  "message_ok buf \<longleftrightarrow> 0 \<in> set buf \<and> ascii (takeWhile (\<lambda>c. c \<noteq> 0) buf)"

lemma fun_messages_ok: "list_all message_ok sOSPanicFunMessages"
  by (simp add: sOSPanicFunMessages_def message_ok_def literal_def bytes_def)

lemma exception_messages_ok: "list_all message_ok sOSPanicExceptionMessages"
  by (simp add: sOSPanicExceptionMessages_def message_ok_def literal_def bytes_def)

lemma register_lines_ok: "list_all line_ok (register_lines frame)"
  by (simp add: register_lines_def line_ok_def bytes_def directive_piece_def)

lemma page_fault_lines_ok: "list_all line_ok (page_fault_lines cr2 frame)"
  by (simp add: page_fault_lines_def line_ok_def bytes_def directive_piece_def literal_def Let_def)

lemma exception_lines_ok:
  assumes name: "message_ok name" and n: "regInterruptNumber frame < 32"
  shows "list_all line_ok (exception_lines frame name)"
proof -
  have "unat (ucast (regInterruptNumber frame) :: Int32) < 32"
    using n by (simp add: unsigned_ucast_eq word_less_nat_alt take_bit_nat_eq_self)
  then have "(ucast (regInterruptNumber frame) :: Int32) \<noteq> 0x80000000" by auto
  then show ?thesis using name
    by (simp add: exception_lines_def line_ok_def bytes_def directive_piece_def message_ok_def)
qed

section \<open>The report of an exception\<close>

text \<open>What the report of an exception has to read, line by line, in terms of the saved registers: numbers are
  written with sixteen hexadecimal digits, colours leave no trace in the text.\<close>

definition report_line :: "nat \<Rightarrow> UInt8 list list \<Rightarrow> UInt8 list" where
  "report_line tabs parts = replicate tabs 0x09 @ concat parts @ [0x0A]"

abbreviation padded :: "UInt64 \<Rightarrow> UInt8 list" where
  "padded w \<equiv> hexadecimal 16 (unat w)"

abbreviation rule_line :: "UInt8 list" where
  "rule_line \<equiv> report_line 2 [bytes ''--------------------------------'']"

definition exception_names :: "string list" where
  "exception_names = [''Division By Zero'', ''Debug'', ''Non Maskable Interrupt'', ''Breakpoint'', ''Into Detected Overflow'',
     ''Out of Bounds'', ''Invalid Opcode'', ''Device Not Available'', ''Double Fault'', ''Coprocessor Segment Overrun'', ''Bad TSS'',
     ''Segment Not Present'', ''Stack Fault'', ''General Protection Fault'', ''Page Fault'', ''Reserved'', ''x87 Floating-Point Exception'',
     ''Alignment Check'', ''Machine Check'', ''SIMD Floating-Point Exception'', ''Virtualization Exception'',
     ''Control Protection Exception'', ''Reserved'', ''Reserved'', ''Reserved'', ''Reserved'', ''Reserved'', ''Reserved'',
     ''Hypervisor Injection Exception'', ''VMM Communication Exception'', ''Security Exception'', ''Reserved'']"

definition fault_report :: "CPURegisters \<Rightarrow> UInt8 list" where
  "fault_report frame =
     report_line 2 [bytes ''CPU EXCEPTION: '', bytes (exception_names ! unat (regInterruptNumber frame)), bytes '' ('',
       decimal (uint (regInterruptNumber frame)), bytes '')''] @
     (if regErrorCode frame = 0 then [] else report_line 2 [bytes ''Error Code: '', padded (regErrorCode frame)]) @
     report_line 2 [bytes ''Instruction Pointer (RIP): '', padded (regRip frame)] @
     report_line 2 [bytes ''Code Segment (CS): '', padded (regCs frame)] @
     report_line 2 [bytes ''Flags (RFLAGS): '', padded (regRflags frame)] @
     report_line 2 [bytes ''Stack Pointer (RSP): '', padded (regRsp frame)]"

definition page_fault_report :: "UInt64 \<Rightarrow> UInt64 \<Rightarrow> UInt8 list" where
  "page_fault_report cr2 code =
     rule_line @ report_line 2 [bytes ''       Page Fault Helper        ''] @ rule_line @
     report_line 2 [bytes ''Faulting Address (CR2): '', padded cr2] @
     report_line 2 [bytes ''ERRCode: '', padded code] @
     report_line 3 [bytes ''[P] Reason: '', bytes (if bit code 0 then ''Page Protection violation'' else ''Non-present page'')] @
     report_line 3 [bytes ''[W] Caused by '', bytes (if bit code 1 then ''WRITE'' else ''READ'')] @
     report_line 3 [bytes ''[U] Ring '', bytes (if bit code 2 then ''3'' else ''0'')] @
     (if bit code 3 then report_line 3 [bytes ''[R] CPU Wrote 1 to a reserved field in page table entry. Corrupt page table?''] else []) @
     (if bit code 4 then report_line 3 [bytes ''[I] Tried to execute code from NX memory''] else [])"

definition register_report :: "CPURegisters \<Rightarrow> UInt8 list" where
  "register_report frame =
     rule_line @ report_line 4 [bytes ''REGISTERS''] @ rule_line @
     report_line 2 [bytes ''RAX='', padded (regRax frame), bytes '', RBX='', padded (regRbx frame)] @
     report_line 2 [bytes ''RCX='', padded (regRcx frame), bytes '', RDX='', padded (regRdx frame)] @
     report_line 2 [bytes ''RSI='', padded (regRsi frame), bytes '', RDI='', padded (regRdi frame)] @
     report_line 2 [bytes ''RBP='', padded (regRbp frame), bytes '', R8 ='', padded (regR8 frame)] @
     report_line 2 [bytes ''R9 ='', padded (regR9 frame), bytes '', R10='', padded (regR10 frame), bytes '' ''] @
     report_line 2 [bytes ''R11='', padded (regR11 frame), bytes '', R12='', padded (regR12 frame)] @
     report_line 2 [bytes ''R13='', padded (regR13 frame), bytes '', R14='', padded (regR14 frame)] @
     report_line 2 [bytes ''R15='', padded (regR15 frame)] @
     rule_line @ report_line 4 [bytes ''System halted.'']"

text \<open>The head of every panic screen, with the message that was drawn by lot.\<close>

definition panic_head :: "UInt8 list \<Rightarrow> UInt8 list" where
  "panic_head message = [0x0A, 0x0A] @ report_line 4 [bytes ''KERNEL PANIC  :( ''] @ rule_line @ report_line 2 [message] @ rule_line"

lemma report_line_simps:
  "report_line 2 ps = 0x09 # 0x09 # concat ps @ [0x0A]" "report_line 3 ps = 0x09 # 0x09 # 0x09 # concat ps @ [0x0A]"
  "report_line 4 ps = 0x09 # 0x09 # 0x09 # 0x09 # concat ps @ [0x0A]"
  by (simp_all add: report_line_def numeral_eq_Suc)

lemma replicate_numeral: "replicate (numeral k) x = x # replicate (pred_numeral k) x"
  by (simp add: numeral_eq_Suc)

lemma exception_names: "sOSPanicExceptionMessages = map literal exception_names"
  by (simp add: sOSPanicExceptionMessages_def exception_names_def)

lemma register_text: "concat (map line_text (register_lines frame)) = register_report frame"
  by (simp add: register_lines_def register_report_def line_text_def bytes_def directive_piece_def report_line_simps)

lemma error_bit: "(code AND push_bit n 1 = 0) = (\<not> bit code n)" for code :: UInt64
  by (auto simp: bit_iff_and_push_bit_not_eq_0)

lemma page_fault_text: "concat (map line_text (page_fault_lines cr2 frame)) = page_fault_report cr2 (regErrorCode frame)"
  by (simp add: page_fault_lines_def page_fault_report_def line_text_def bytes_def literal_def directive_piece_def report_line_simps error_bit Let_def
      del: push_bit_of_1)

lemma exception_names_ascii: "list_all (\<lambda>n. 0 \<notin> set (bytes n)) exception_names"
  by (simp add: exception_names_def bytes_def)

lemma exception_text:
  assumes n: "regInterruptNumber frame < 32"
  shows "concat (map line_text (exception_lines frame (sOSPanicExceptionMessages ! unat (regInterruptNumber frame)))) = fault_report frame"
proof -
  let ?n = "unat (regInterruptNumber frame)"
  have k: "?n < 32" using n by (simp add: word_less_nat_alt)
  have len: "length exception_names = 32" by (simp add: exception_names_def)
  have name: "sOSPanicExceptionMessages ! ?n = literal (exception_names ! ?n)"
    using k len by (simp add: exception_names)
  have ok: "message_ok (literal (exception_names ! ?n))" "0 \<notin> set (bytes (exception_names ! ?n))"
    using exception_messages_ok exception_names_ascii k len unfolding exception_names by (simp_all add: list_all_length)
  have took: "takeWhile (\<lambda>c. c \<noteq> 0) (literal (exception_names ! ?n)) = bytes (exception_names ! ?n)"
    using ok(2) by (simp add: literal_def takeWhile_append takeWhile_eq_all_conv)
  have w: "uint (ucast (regInterruptNumber frame) :: Int32) = uint (regInterruptNumber frame)"
    using n by (simp add: unsigned_ucast_eq word_less_def take_bit_int_eq_self)
  then have small: "sint (ucast (regInterruptNumber frame) :: Int32) = uint (regInterruptNumber frame)"
    unfolding sint_uint w
    by (intro signed_take_bit_int_eq_self order_trans [OF _ uint_ge_0 [of "regInterruptNumber frame"]])
      (use n in \<open>simp_all add: word_less_def\<close>)
  have "(ucast (regInterruptNumber frame) :: Int32) \<noteq> 0x80000000"
  proof
    assume "(ucast (regInterruptNumber frame) :: Int32) = 0x80000000"
    then have "uint (regInterruptNumber frame) = 0x80000000" using w by simp
    then show False using n by (simp add: word_less_def)
  qed
  with ok(1) took small show ?thesis
    by (simp add: name exception_lines_def fault_report_def line_text_def message_ok_def directive_piece_def report_line_simps bytes_def)
qed

definition c_bytes :: "UInt8 list \<Rightarrow> UInt8 list" where
  "c_bytes buf = takeWhile (\<lambda>c. c \<noteq> 0) buf"

lemma background_effect:
  assumes ok: "console_ok s"
  shows "\<exists>t message. sOSPanicDrawPanicBackground s = Inr t \<and> console_ok t \<and> message \<in> set sOSPanicFunMessages \<and>
    serial_output t = serial_output s @ panic_head (c_bytes message)"
proof -
  from Clear_effect [OF ok, of 0] obtain u where
    u: "IOConsoleClear 0 s = Inr u" "console_ok u" "serial_output u = serial_output s" by blast
  let ?u = "IOConsoleSetDefaultForegroundColor 0xFFFFFF (IOConsoleSetForegroundColor 0xFFFFFF u)"
  from Rand_console [of ?u] obtain x a b where r: "Rand ?u = (x, ?u\<lparr>hardwareRandomReads := a, sPseudorandState := b\<rparr>)" by blast
  let ?v = "?u\<lparr>hardwareRandomReads := a, sPseudorandState := b\<rparr>"
  have v: "console_ok ?v" "serial_output ?v = serial_output s"
  proof -
    show "console_ok ?v"
      by (rule console_ok_same [OF u(2)]) (simp_all add: IOConsoleSetDefaultForegroundColor_def IOConsoleSetForegroundColor_def)
    show "serial_output ?v = serial_output s"
      using u(3) by (simp add: serial_output_def IOConsoleSetDefaultForegroundColor_def IOConsoleSetForegroundColor_def)
  qed
  let ?k = "unat (ucast (x mod of_nat (length sOSPanicFunMessages)) :: UInt8)"
  have len: "length sOSPanicFunMessages = 41" by (simp add: sOSPanicFunMessages_def)
  have "unat (x mod 41) < 41" by (simp add: unat_mod)
  then have "?k < 41" unfolding len by (simp add: unsigned_ucast_eq take_bit_nat_eq_self)
  then have k: "array_get sOSPanicFunMessages ?k = Inr (sOSPanicFunMessages ! ?k)" "message_ok (sOSPanicFunMessages ! ?k)"
    "sOSPanicFunMessages ! ?k \<in> set sOSPanicFunMessages"
    using fun_messages_ok len by (simp_all add: array_get_def list_all_length)
  let ?lines = "\<lambda>message. [([0x0A, 0x0A, 0], []),
    ([0x09, 0x09, 0x09, 0x09] @ bytes ''^bKERNEL PANIC^!  :( '' @ [0x0A, 0], []),
    ([0x09, 0x09] @ bytes ''--------------------------------'' @ [0x0A, 0], []),
    ([0x09, 0x09] @ bytes ''^y%s^!'' @ [0x0A, 0], [VAString (Some message)]),
    ([0x09, 0x09] @ bytes ''--------------------------------'' @ [0x0A, 0], [])] :: log_line list"
  have "list_all line_ok (?lines (sOSPanicFunMessages ! ?k))"
    using k(2) by (simp add: line_ok_def bytes_def directive_piece_def message_ok_def)
  from log_lines_effect [OF v(1) this] obtain t where
    t: "log_lines (?lines (sOSPanicFunMessages ! ?k)) ?v = Inr t" "printed ?v (concat (map line_text (?lines (sOSPanicFunMessages ! ?k)))) t"
    by blast
  have said: "concat (map line_text (?lines (sOSPanicFunMessages ! ?k))) = panic_head (c_bytes (sOSPanicFunMessages ! ?k))"
    using k(2) by (simp add: line_text_def bytes_def directive_piece_def message_ok_def panic_head_def report_line_simps c_bytes_def)
  have "sOSPanicDrawPanicBackground s = Inr t"
    unfolding sOSPanicDrawPanicBackground_def u(1) bindE_Inr Let_def r prod.case k(1) by (rule t(1))
  then show ?thesis using t(2) v(2) k(3) unfolding printed_def said by auto
qed

lemma exception_report_effect:
  fixes s :: "'a arch_scheme"
  assumes "console_ok s" "regInterruptNumber frame < 32"
  shows "\<exists>t message. OSPanicException cr2 frame s = Inr t \<and> \<not> interruptFlag t \<and> message \<in> set sOSPanicFunMessages \<and>
    serial_output t = serial_output s @ panic_head (c_bytes message) @ fault_report frame @
      (if regInterruptNumber frame = 14 then page_fault_report cr2 (regErrorCode frame) else []) @ register_report frame"
proof -
  from background_effect [OF assms(1)] obtain u message where
    u: "sOSPanicDrawPanicBackground s = Inr u" "console_ok u" "message \<in> set sOSPanicFunMessages"
      "serial_output u = serial_output s @ panic_head (c_bytes message)" by blast
  let ?n = "unat (regInterruptNumber frame)" and ?e = "sOSPanicExceptionMessages ! unat (regInterruptNumber frame)"
  let ?ls = "exception_lines frame ?e @ (if regInterruptNumber frame = 14 then page_fault_lines cr2 frame else []) @ register_lines frame"
  have "?n < 32" using assms(2) by (simp add: word_less_nat_alt)
  moreover have "length sOSPanicExceptionMessages = 32" by (simp add: sOSPanicExceptionMessages_def)
  ultimately have e: "array_get sOSPanicExceptionMessages ?n = Inr ?e" "message_ok ?e"
    using exception_messages_ok by (simp_all add: array_get_def list_all_length)
  have "list_all line_ok ?ls"
    using exception_lines_ok [OF e(2) assms(2)] page_fault_lines_ok register_lines_ok by simp
  from log_lines_effect [OF u(2) this] obtain t where t: "log_lines ?ls u = Inr t" "printed u (concat (map line_text ?ls)) t" by blast
  have said: "concat (map line_text ?ls) = fault_report frame @
      (if regInterruptNumber frame = 14 then page_fault_report cr2 (regErrorCode frame) else []) @ register_report frame"
    using exception_text [OF assms(2)] page_fault_text register_text by simp
  have "OSPanicException cr2 frame s = Inr (die t)" using u(1) e(1) t(1) by (simp add: OSPanicException_def)
  moreover have "serial_output (die t) = serial_output t" "\<not> interruptFlag (die t)" by (simp_all add: die_def serial_output_def)
  ultimately show ?thesis
    using t(2) u(3,4) unfolding printed_def said by (intro exI [of _ "die t"] exI [of _ message]) simp
qed

lemma panic_effect:
  fixes s :: "'a arch_scheme"
  assumes "console_ok s" "c_string message reason" "ascii reason"
  shows "\<exists>t joke. OSPanic message s = Inr t \<and> \<not> interruptFlag t \<and> joke \<in> set sOSPanicFunMessages \<and>
    serial_output t = serial_output s @ panic_head (c_bytes joke) @
      report_line 2 [bytes ''Reason: '', reason] @ rule_line @ report_line 4 [bytes ''System halted.'']"
proof -
  from background_effect [OF assms(1)] obtain u joke where
    u: "sOSPanicDrawPanicBackground s = Inr u" "console_ok u" "joke \<in> set sOSPanicFunMessages"
      "serial_output u = serial_output s @ panic_head (c_bytes joke)" by blast
  let ?ls = "[([0x09, 0x09] @ bytes ''^yReason^!: %s'' @ [0x0A, 0], [VAString (Some message)]),
    ([0x09, 0x09] @ bytes ''--------------------------------'' @ [0x0A, 0], []),
    ([0x09, 0x09, 0x09, 0x09] @ bytes ''^bSystem halted.^!'' @ [0x0A, 0], [])] :: log_line list"
  have m: "0 \<in> set message" "takeWhile (\<lambda>c. c \<noteq> 0) message = reason"
    using assms(2) by (auto simp: c_string_def takeWhile_eq_all_conv takeWhile_append)
  have ok: "list_all line_ok ?ls" using m assms(3) by (simp add: line_ok_def bytes_def directive_piece_def)
  have said: "concat (map line_text ?ls) = report_line 2 [bytes ''Reason: '', reason] @ rule_line @ report_line 4 [bytes ''System halted.'']"
    using m assms(3) by (simp add: line_text_def bytes_def directive_piece_def report_line_simps)
  from log_lines_effect [OF u(2) ok] obtain t where t: "log_lines ?ls u = Inr t" "printed u (concat (map line_text ?ls)) t" by blast
  then have "OSPanic message s = Inr (die t)" using u(1) by (simp add: OSPanic_def)
  moreover have "serial_output (die t) = serial_output t" "\<not> interruptFlag (die t)" by (simp_all add: die_def serial_output_def)
  ultimately show ?thesis
    using t(2) u(3,4) unfolding printed_def said by (intro exI [of _ "die t"] exI [of _ joke]) simp
qed

section \<open>Properties\<close>

text \<open>C35: A panic always gets to its end: whatever the message drawn by lot, the screen is drawn without an
  access outside the frame buffer or the tables, the reason is printed in full, and the processor is left
  halted with interrupts off. The same holds of every exception of the processor: the report has its name and
  number, the error code when there is one, the instruction pointer, code segment, flags and stack pointer, for
  a page fault the faulting address with the meaning of each bit of the error code, and then every register
  under its own name.\<close>

theorem panics_halt:
  fixes s :: "'a arch_scheme"
  assumes "console_ok s" "c_string message reason" "ascii reason" "regInterruptNumber frame < 32"
  shows "(\<exists>t joke. OSPanic message s = Inr t \<and> \<not> interruptFlag t \<and> joke \<in> set sOSPanicFunMessages \<and>
      serial_output t = serial_output s @ panic_head (c_bytes joke) @
        report_line 2 [bytes ''Reason: '', reason] @ rule_line @ report_line 4 [bytes ''System halted.'']) \<and>
    (\<exists>t joke. OSPanicException cr2 frame s = Inr t \<and> \<not> interruptFlag t \<and> joke \<in> set sOSPanicFunMessages \<and>
      serial_output t = serial_output s @ panic_head (c_bytes joke) @ fault_report frame @
        (if regInterruptNumber frame = 14 then page_fault_report cr2 (regErrorCode frame) else []) @ register_report frame)"
  using panic_effect [OF assms(1-3)] exception_report_effect [OF assms(1,4)] by blast

text \<open>A write of the kernel to address 16 that no page maps.\<close>

lemma panics_halt_witness:
  "(\<exists>t. OSPanic (literal ''no running tasks'') small_arch = Inr t \<and> \<not> interruptFlag t) \<and>
   (\<exists>t before behind. OSPanicException 0x10 ((frame_registers 0x400123 False 0 0)\<lparr>regInterruptNumber := 14, regErrorCode := 2\<rparr>) small_arch = Inr t \<and>
      serial_output t = before @ report_line 2 [bytes ''CPU EXCEPTION: Page Fault (14)''] @ report_line 2 [bytes ''Error Code: 0x0000000000000002''] @
        report_line 2 [bytes ''Instruction Pointer (RIP): 0x0000000000400123''] @ behind)"
proof -
  let ?f = "(frame_registers 0x400123 False 0 0)\<lparr>regInterruptNumber := 14, regErrorCode := 2\<rparr>"
  have c: "console_ok small_arch"
    by (rule console_ok_same [OF small_console_ok(1)]) (simp_all add: small_arch_def small_console_def small_devices_def arch.defs console.defs devices.defs)
  have m: "c_string (literal ''no running tasks'') (bytes ''no running tasks'')" "ascii (bytes ''no running tasks'')"
    by (simp_all add: literal_def bytes_def)
  have n: "regInterruptNumber ?f < 32" by simp
  have report: "fault_report ?f = report_line 2 [bytes ''CPU EXCEPTION: Page Fault (14)''] @ report_line 2 [bytes ''Error Code: 0x0000000000000002''] @
      report_line 2 [bytes ''Instruction Pointer (RIP): 0x0000000000400123''] @ report_line 2 [bytes ''Code Segment (CS): '', padded 8] @
     report_line 2 [bytes ''Flags (RFLAGS): '', padded 0x202] @ report_line 2 [bytes ''Stack Pointer (RSP): '', padded 0]"
  proof -
    have "decimal 14 = bytes ''14''" "padded 2 = bytes ''0x0000000000000002''" "padded 0x400123 = bytes ''0x0000000000400123''"
      by (simp_all add: bytes_def hexadecimal_def decimal_def number_digits.simps digit_char_def replicate_numeral)
    then show ?thesis by (simp add: fault_report_def frame_registers_def exception_names_def report_line_simps bytes_def)
  qed
  let ?rest = "report_line 2 [bytes ''Code Segment (CS): '', padded 8] @ report_line 2 [bytes ''Flags (RFLAGS): '', padded 0x202] @
    report_line 2 [bytes ''Stack Pointer (RSP): '', padded 0] @
    (if regInterruptNumber ?f = 14 then page_fault_report 0x10 (regErrorCode ?f) else []) @ register_report ?f"
  from panics_halt [OF c m n, of "0x10"] obtain t joke where
    panic: "\<exists>t. OSPanic (literal ''no running tasks'') small_arch = Inr t \<and> \<not> interruptFlag t"
    and t: "OSPanicException 0x10 ?f small_arch = Inr t" "serial_output t = serial_output small_arch @ panic_head (c_bytes joke) @ fault_report ?f @
      (if regInterruptNumber ?f = 14 then page_fault_report 0x10 (regErrorCode ?f) else []) @ register_report ?f" by blast
  have "serial_output t = (serial_output small_arch @ panic_head (c_bytes joke)) @ report_line 2 [bytes ''CPU EXCEPTION: Page Fault (14)''] @
      report_line 2 [bytes ''Error Code: 0x0000000000000002''] @ report_line 2 [bytes ''Instruction Pointer (RIP): 0x0000000000400123''] @ ?rest"
    unfolding t(2) report by (simp only: append_assoc)
  with panic t(1) show ?thesis by blast
qed

end
