(* ===== verification/Logo.thy ===== *)
theory Logo
  imports Graphics
begin

text \<open>
  The picture of the splash screen, \<^verbatim>\<open>kernel/inc/Data/logo.h\<close>: the array of pixels, run by run, ten rows
  to a definition, and the image that refers to it.
\<close>

unbundle bit_operations_syntax

section \<open>The picture\<close>

text \<open>
  The pixels of \<^verbatim>\<open>logo_data\<close>, a hundred rows of a hundred, written as runs of equal pixels: a
  pair stands for a pixel repeated that many times. A definition holds ten rows.
\<close>

definition unpack :: "(nat \<times> UInt32) list \<Rightarrow> UInt32 list" where
  "unpack runs = concat (map (\<lambda>(n, color). replicate n color) runs)"

definition logo_rows_0 :: "(nat \<times> UInt32) list" where
  "logo_rows_0 =
    [(236, 0xFF00FF), (24, 0x3F2832), (75, 0xFF00FF), (1, 0x3F2832), (24, 0xF6AE87), (1, 0x3F2832), (73, 0xFF00FF),
     (1, 0x3F2832), (3, 0xF6AE87), (20, 0xF68F57), (3, 0xF6AE87), (1, 0x3F2832), (71, 0xFF00FF), (1, 0x3F2832),
     (3, 0xF6AE87), (1, 0xF68F57), (20, 0xF7817A), (1, 0xF68F57), (3, 0xF6AE87), (1, 0x3F2832), (69, 0xFF00FF),
     (1, 0x3F2832), (3, 0xF6AE87), (1, 0xF68F57), (22, 0xF7817A), (1, 0xF68F57), (3, 0xF6AE87), (1, 0x3F2832),
     (68, 0xFF00FF), (1, 0x3F2832), (2, 0xF6AE87), (1, 0xF68F57), (4, 0xF7817A), (1, 0xB273A2), (3, 0xF7817A),
     (1, 0xB273A2), (3, 0xF7817A), (1, 0xB273A2), (3, 0xF7817A), (1, 0xB273A2), (3, 0xF7817A), (1, 0xB273A2),
     (3, 0xF7817A), (1, 0xF68F57), (2, 0xF6AE87), (1, 0x3F2832), (68, 0xFF00FF), (1, 0x3F2832), (2, 0xF6AE87),
     (1, 0xF68F57), (24, 0xF7817A), (1, 0xF68F57), (2, 0xF6AE87), (1, 0x3F2832), (68, 0xFF00FF), (1, 0x3F2832),
     (2, 0xF6AE87), (1, 0xF68F57), (2, 0xF7817A), (1, 0xB273A2), (3, 0xF7817A), (1, 0xB273A2), (3, 0xF7817A),
     (1, 0xB273A2), (3, 0xF7817A), (1, 0xB273A2), (3, 0xF7817A), (1, 0xB273A2), (3, 0xF7817A), (1, 0xB273A2),
     (1, 0xF7817A), (1, 0xF68F57), (2, 0xF6AE87), (1, 0x3F2832), (36, 0xFF00FF)]"

definition logo_rows_10 :: "(nat \<times> UInt32) list" where
  "logo_rows_10 =
    [(32, 0xFF00FF), (1, 0x3F2832), (2, 0xF6AE87), (1, 0xF68F57), (1, 0xF7817A), (1, 0xB273A2), (22, 0xF7817A),
     (1, 0xF68F57), (2, 0xF6AE87), (1, 0x3F2832), (68, 0xFF00FF), (1, 0x3F2832), (2, 0xF6AE87), (1, 0xF68F57),
     (2, 0xF7817A), (1, 0xB273A2), (1, 0xF7817A), (1, 0xB273A2), (1, 0xF7817A), (1, 0xB273A2), (1, 0xF7817A),
     (1, 0xB273A2), (1, 0xF7817A), (1, 0xB273A2), (1, 0xF7817A), (1, 0xB273A2), (1, 0xF7817A), (1, 0xB273A2),
     (1, 0xF7817A), (1, 0xB273A2), (1, 0xF7817A), (1, 0xB273A2), (1, 0xF7817A), (1, 0xB273A2), (1, 0xF7817A),
     (1, 0xB273A2), (1, 0xF7817A), (1, 0xF68F57), (2, 0xF6AE87), (1, 0x3F2832), (68, 0xFF00FF), (1, 0x3F2832),
     (2, 0xF6AE87), (1, 0xF68F57), (3, 0xF7817A), (1, 0xB273A2), (3, 0xF7817A), (1, 0xB273A2), (3, 0xF7817A),
     (1, 0xB273A2), (3, 0xF7817A), (1, 0xB273A2), (8, 0xF7817A), (1, 0xF68F57), (2, 0xF6AE87), (1, 0x3F2832),
     (68, 0xFF00FF), (1, 0x3F2832), (2, 0xF6AE87), (1, 0xF68F57), (2, 0xF7817A), (1, 0xB273A2), (1, 0xF7817A),
     (1, 0xB273A2), (1, 0xF7817A), (1, 0xB273A2), (1, 0xF7817A), (1, 0xB273A2), (1, 0xF7817A), (1, 0xB273A2),
     (1, 0xF7817A), (1, 0xB273A2), (1, 0xF7817A), (1, 0xB273A2), (1, 0xF7817A), (1, 0xB273A2), (1, 0xF7817A),
     (1, 0xB273A2), (1, 0xF7817A), (1, 0xB273A2), (1, 0xF7817A), (1, 0xB273A2), (1, 0xF7817A), (1, 0xF68F57),
     (2, 0xF6AE87), (1, 0x3F2832), (68, 0xFF00FF), (1, 0x3F2832), (2, 0xF6AE87), (1, 0xF68F57), (1, 0xF7817A),
     (1, 0xB273A2), (1, 0xF7817A), (1, 0xB273A2), (1, 0xF7817A), (1, 0xB273A2), (1, 0xF7817A), (1, 0xB273A2),
     (1, 0xF7817A), (1, 0xB273A2), (1, 0xF7817A), (1, 0xB273A2), (1, 0xF7817A), (1, 0xB273A2), (1, 0xF7817A),
     (1, 0xB273A2), (1, 0xF7817A), (1, 0xB273A2), (1, 0xF7817A), (1, 0xB273A2), (1, 0xF7817A), (1, 0xB273A2),
     (2, 0xF7817A), (1, 0xF68F57), (2, 0xF6AE87), (1, 0x3F2832), (68, 0xFF00FF), (1, 0x3F2832), (2, 0xF6AE87),
     (1, 0xF68F57), (1, 0xF7817A), (2, 0xB273A2), (1, 0xF7817A), (3, 0xB273A2), (1, 0xF7817A), (3, 0xB273A2),
     (1, 0xF7817A), (3, 0xB273A2), (1, 0xF7817A), (3, 0xB273A2), (1, 0xF7817A), (3, 0xB273A2), (1, 0xF7817A),
     (1, 0xF68F57), (2, 0xF6AE87), (1, 0x3F2832), (68, 0xFF00FF), (1, 0x3F2832), (2, 0xF6AE87), (1, 0xF68F57),
     (1, 0xF7817A), (1, 0xB273A2), (1, 0xF7817A), (1, 0xB273A2), (1, 0xF7817A), (1, 0xB273A2), (1, 0xF7817A),
     (1, 0xB273A2), (1, 0xF7817A), (1, 0xB273A2), (1, 0xF7817A), (1, 0xB273A2), (1, 0xF7817A), (1, 0xB273A2),
     (1, 0xF7817A), (1, 0xB273A2), (1, 0xF7817A), (1, 0xB273A2), (1, 0xF7817A), (1, 0xB273A2), (1, 0xF7817A),
     (1, 0xB273A2), (2, 0xF7817A), (1, 0xF68F57), (2, 0xF6AE87), (1, 0x3F2832), (68, 0xFF00FF), (1, 0x3F2832),
     (2, 0xF6AE87), (1, 0xF68F57), (1, 0xF7817A), (4, 0xB273A2), (1, 0xF7817A), (3, 0xB273A2), (1, 0xF7817A),
     (3, 0xB273A2), (1, 0xF7817A), (3, 0xB273A2), (1, 0xF7817A), (3, 0xB273A2), (1, 0xF7817A), (1, 0xB273A2),
     (1, 0xF7817A), (1, 0xF68F57), (2, 0xF6AE87), (1, 0x3F2832), (68, 0xFF00FF), (1, 0x3F2832), (2, 0xF6AE87),
     (1, 0xF68F57), (1, 0xF7817A), (1, 0xB273A2), (1, 0xF7817A), (1, 0xB273A2), (1, 0xF7817A), (1, 0xB273A2),
     (1, 0xF7817A), (1, 0xB273A2), (1, 0xF7817A), (1, 0xB273A2), (1, 0xF7817A), (1, 0xB273A2), (1, 0xF7817A),
     (1, 0xB273A2), (1, 0xF7817A), (1, 0xB273A2), (1, 0xF7817A), (1, 0xB273A2), (1, 0xF7817A), (1, 0xB273A2),
     (1, 0xF7817A), (1, 0xB273A2), (2, 0xF7817A), (1, 0xF68F57), (2, 0xF6AE87), (1, 0x3F2832), (68, 0xFF00FF),
     (1, 0x3F2832), (2, 0xF6AE87), (1, 0xF68F57), (1, 0xF7817A), (1, 0xB273A2), (1, 0x8573B2), (1, 0xB273A2),
     (1, 0x8573B2), (1, 0xB273A2), (1, 0x8573B2), (1, 0xB273A2), (1, 0x8573B2), (1, 0xB273A2), (1, 0x8573B2),
     (1, 0xB273A2), (1, 0x8573B2), (1, 0xB273A2), (1, 0x8573B2), (1, 0xB273A2), (1, 0x8573B2), (1, 0xB273A2),
     (1, 0x8573B2), (1, 0xB273A2), (1, 0x8573B2), (1, 0xB273A2), (1, 0x8573B2), (1, 0xF7817A), (1, 0xF68F57),
     (2, 0xF6AE87), (1, 0x3F2832), (36, 0xFF00FF)]"

definition logo_rows_20 :: "(nat \<times> UInt32) list" where
  "logo_rows_20 =
    [(32, 0xFF00FF), (1, 0x3F2832), (2, 0xF6AE87), (1, 0xF68F57), (1, 0xF7817A), (1, 0x8573B2), (1, 0xB273A2),
     (1, 0x8573B2), (1, 0xF7817A), (1, 0x8573B2), (1, 0xB273A2), (1, 0x8573B2), (1, 0xF7817A), (1, 0x8573B2),
     (1, 0xB273A2), (1, 0x8573B2), (1, 0xF7817A), (1, 0x8573B2), (1, 0xB273A2), (1, 0x8573B2), (1, 0xF7817A),
     (1, 0x8573B2), (1, 0xB273A2), (1, 0x8573B2), (1, 0xF7817A), (1, 0x8573B2), (1, 0xB273A2), (1, 0xF7817A),
     (1, 0xF68F57), (2, 0xF6AE87), (1, 0x3F2832), (68, 0xFF00FF), (1, 0x3F2832), (2, 0xF6AE87), (1, 0xF68F57),
     (1, 0xF7817A), (22, 0x8573B2), (1, 0xF7817A), (1, 0xF68F57), (2, 0xF6AE87), (1, 0x3F2832), (68, 0xFF00FF),
     (1, 0x3F2832), (2, 0xF6AE87), (1, 0xF68F57), (2, 0xF7817A), (20, 0x8573B2), (2, 0xF7817A), (1, 0xF68F57),
     (2, 0xF6AE87), (1, 0x3F2832), (67, 0xFF00FF), (34, 0x3F2832), (66, 0xFF00FF), (1, 0x3F2832), (4, 0xA66F7C),
     (24, 0x7A5179), (4, 0xA66F7C), (1, 0x3F2832), (66, 0xFF00FF), (1, 0x3F2832), (3, 0xA66F7C), (27, 0x7A5179),
     (2, 0xA66F7C), (1, 0x3F2832), (65, 0xFF00FF), (36, 0x3F2832), (62, 0xFF00FF), (2, 0x3F2832), (4, 0xF6AE87),
     (1, 0xF68F57), (3, 0xF7817A), (20, 0x8573B2), (3, 0xF7817A), (1, 0xF68F57), (4, 0xF6AE87), (1, 0x3F2832),
     (61, 0xFF00FF), (1, 0x3F2832), (4, 0xF6AE87), (1, 0xF68F57), (3, 0xF7817A), (7, 0x8573B2), (1, 0xB273A2),
     (7, 0x8573B2), (1, 0xB273A2), (3, 0x8573B2), (1, 0xB273A2), (2, 0x8573B2), (3, 0xF7817A), (1, 0xF68F57),
     (4, 0xF6AE87), (1, 0x3F2832), (59, 0xFF00FF), (1, 0x3F2832), (4, 0xF6AE87), (1, 0xF68F57), (3, 0xF7817A),
     (24, 0x8573B2), (3, 0xF7817A), (1, 0xF68F57), (4, 0xF6AE87), (1, 0x3F2832), (31, 0xFF00FF)]"

definition logo_rows_30 :: "(nat \<times> UInt32) list" where
  "logo_rows_30 =
    [(26, 0xFF00FF), (1, 0x3F2832), (4, 0xF6AE87), (1, 0xF68F57), (4, 0xF7817A), (2, 0x8573B2), (1, 0xB273A2),
     (3, 0x8573B2), (1, 0xB273A2), (3, 0x8573B2), (1, 0xB273A2), (3, 0x8573B2), (1, 0xB273A2), (3, 0x8573B2),
     (1, 0xB273A2), (3, 0x8573B2), (1, 0xB273A2), (1, 0x8573B2), (4, 0xF7817A), (1, 0xF68F57), (4, 0xF6AE87),
     (1, 0x3F2832), (56, 0xFF00FF), (1, 0x3F2832), (4, 0xF6AE87), (1, 0xF68F57), (4, 0xF7817A), (24, 0x8573B2),
     (4, 0xF7817A), (1, 0xF68F57), (4, 0xF6AE87), (1, 0x3F2832), (56, 0xFF00FF), (1, 0x3F2832), (4, 0xF6AE87),
     (1, 0xF68F57), (5, 0xF7817A), (1, 0x8573B2), (1, 0xB273A2), (1, 0x8573B2), (1, 0xF7817A), (1, 0x8573B2),
     (1, 0xB273A2), (1, 0x8573B2), (1, 0xF7817A), (1, 0x8573B2), (1, 0xB273A2), (1, 0x8573B2), (1, 0xF7817A),
     (1, 0x8573B2), (1, 0xB273A2), (1, 0x8573B2), (1, 0xB273A2), (1, 0x8573B2), (1, 0xB273A2), (1, 0x8573B2),
     (1, 0xF7817A), (1, 0x8573B2), (1, 0xB273A2), (1, 0x8573B2), (4, 0xF7817A), (1, 0xF68F57), (4, 0xF6AE87),
     (1, 0x3F2832), (56, 0xFF00FF), (1, 0x3F2832), (4, 0xF6AE87), (1, 0xF68F57), (4, 0xF7817A), (5, 0x8573B2),
     (1, 0xB273A2), (3, 0x8573B2), (1, 0xB273A2), (3, 0x8573B2), (1, 0xB273A2), (3, 0x8573B2), (1, 0xB273A2),
     (3, 0x8573B2), (1, 0xB273A2), (2, 0x8573B2), (4, 0xF7817A), (1, 0xF68F57), (4, 0xF6AE87), (1, 0x3F2832),
     (56, 0xFF00FF), (1, 0x3F2832), (4, 0xF6AE87), (1, 0xF68F57), (4, 0xF7817A), (1, 0xB273A2), (1, 0x8573B2),
     (1, 0xB273A2), (1, 0x8573B2), (1, 0xB273A2), (1, 0x8573B2), (1, 0xF7817A), (1, 0x8573B2), (1, 0xB273A2),
     (1, 0x8573B2), (1, 0xB273A2), (1, 0x8573B2), (1, 0xB273A2), (1, 0x8573B2), (1, 0xB273A2), (1, 0x8573B2),
     (1, 0xB273A2), (1, 0x8573B2), (1, 0xB273A2), (1, 0x8573B2), (1, 0xB273A2), (1, 0x8573B2), (1, 0xB273A2),
     (1, 0x8573B2), (4, 0xF7817A), (1, 0xF68F57), (4, 0xF6AE87), (1, 0x3F2832), (56, 0xFF00FF), (1, 0x3F2832),
     (4, 0xF6AE87), (1, 0xF68F57), (4, 0xF7817A), (3, 0x8573B2), (1, 0xB273A2), (3, 0x8573B2), (1, 0xB273A2),
     (3, 0x8573B2), (1, 0xB273A2), (3, 0x8573B2), (1, 0xB273A2), (3, 0x8573B2), (1, 0xB273A2), (1, 0x8573B2),
     (1, 0xB273A2), (1, 0x8573B2), (1, 0xB273A2), (4, 0xF7817A), (1, 0xF68F57), (4, 0xF6AE87), (1, 0x3F2832),
     (56, 0xFF00FF), (1, 0x3F2832), (4, 0xF6AE87), (1, 0xF68F57), (5, 0xF7817A), (1, 0x8573B2), (1, 0xB273A2),
     (1, 0x8573B2), (1, 0xF7817A), (1, 0x8573B2), (1, 0xB273A2), (1, 0x8573B2), (1, 0xF7817A), (1, 0x8573B2),
     (1, 0xB273A2), (1, 0x8573B2), (1, 0xF7817A), (1, 0x8573B2), (1, 0xB273A2), (1, 0x8573B2), (1, 0xF7817A),
     (1, 0x8573B2), (1, 0xB273A2), (1, 0x8573B2), (1, 0xF7817A), (1, 0x8573B2), (1, 0xB273A2), (1, 0x8573B2),
     (4, 0xF7817A), (1, 0xF68F57), (4, 0xF6AE87), (1, 0x3F2832), (56, 0xFF00FF), (1, 0x3F2832), (4, 0xF6AE87),
     (1, 0xF68F57), (4, 0xF7817A), (1, 0x8573B2), (1, 0xB273A2), (1, 0x8573B2), (1, 0xB273A2), (1, 0x8573B2),
     (1, 0xB273A2), (1, 0x8573B2), (1, 0xB273A2), (1, 0x8573B2), (1, 0xB273A2), (1, 0x8573B2), (1, 0xB273A2),
     (1, 0x8573B2), (1, 0xB273A2), (1, 0x8573B2), (1, 0xB273A2), (1, 0x8573B2), (1, 0xB273A2), (1, 0x8573B2),
     (1, 0xB273A2), (1, 0x8573B2), (1, 0xB273A2), (1, 0x8573B2), (1, 0xB273A2), (4, 0xF7817A), (1, 0xF68F57),
     (4, 0xF6AE87), (1, 0x3F2832), (56, 0xFF00FF), (1, 0x3F2832), (4, 0xF6AE87), (1, 0xF68F57), (4, 0xF7817A),
     (1, 0xB273A2), (1, 0x8573B2), (1, 0xF7817A), (1, 0x8573B2), (1, 0xB273A2), (1, 0x8573B2), (1, 0xF7817A),
     (1, 0x8573B2), (1, 0xB273A2), (1, 0x8573B2), (1, 0xF7817A), (1, 0x8573B2), (1, 0xB273A2), (1, 0x8573B2),
     (1, 0xF7817A), (1, 0x8573B2), (1, 0xB273A2), (1, 0x8573B2), (1, 0xF7817A), (2, 0xB273A2), (1, 0x8573B2),
     (1, 0xF7817A), (1, 0x8573B2), (4, 0xF7817A), (1, 0xF68F57), (4, 0xF6AE87), (1, 0x3F2832), (56, 0xFF00FF),
     (1, 0x3F2832), (4, 0xF6AE87), (1, 0xF68F57), (4, 0xF7817A), (1, 0x8573B2), (1, 0xB273A2), (1, 0x8573B2),
     (1, 0xB273A2), (1, 0x8573B2), (1, 0xB273A2), (1, 0x8573B2), (1, 0xB273A2), (1, 0x8573B2), (1, 0xB273A2),
     (1, 0x8573B2), (1, 0xB273A2), (1, 0x8573B2), (1, 0xB273A2), (1, 0x8573B2), (1, 0xB273A2), (1, 0x8573B2),
     (1, 0xB273A2), (1, 0x8573B2), (1, 0xB273A2), (1, 0x8573B2), (1, 0xB273A2), (1, 0x8573B2), (1, 0xB273A2),
     (4, 0xF7817A), (1, 0xF68F57), (4, 0xF6AE87), (1, 0x3F2832), (30, 0xFF00FF)]"

definition logo_rows_40 :: "(nat \<times> UInt32) list" where
  "logo_rows_40 =
    [(26, 0xFF00FF), (1, 0x3F2832), (4, 0xF6AE87), (1, 0xF68F57), (5, 0xF7817A), (1, 0xB273A2), (1, 0xF7817A),
     (1, 0x8573B2), (1, 0xF7817A), (1, 0xB273A2), (1, 0xF7817A), (1, 0xB273A2), (1, 0xF7817A), (1, 0xB273A2),
     (1, 0xF7817A), (1, 0xB273A2), (1, 0xF7817A), (1, 0xB273A2), (1, 0xF7817A), (1, 0xB273A2), (1, 0xF7817A),
     (3, 0xB273A2), (1, 0xF7817A), (1, 0xB273A2), (1, 0xF7817A), (1, 0xB273A2), (4, 0xF7817A), (1, 0xF68F57),
     (4, 0xF6AE87), (1, 0x3F2832), (56, 0xFF00FF), (1, 0x3F2832), (4, 0xF6AE87), (1, 0xF68F57), (4, 0xF7817A),
     (1, 0x8573B2), (1, 0xB273A2), (1, 0x8573B2), (1, 0xB273A2), (1, 0x8573B2), (1, 0xB273A2), (1, 0x8573B2),
     (1, 0xB273A2), (1, 0x8573B2), (1, 0xB273A2), (1, 0x8573B2), (1, 0xB273A2), (1, 0x8573B2), (1, 0xB273A2),
     (1, 0x8573B2), (1, 0xB273A2), (1, 0x8573B2), (1, 0xB273A2), (1, 0x8573B2), (3, 0xB273A2), (1, 0x8573B2),
     (1, 0xB273A2), (4, 0xF7817A), (1, 0xF68F57), (4, 0xF6AE87), (1, 0x3F2832), (56, 0xFF00FF), (1, 0x3F2832),
     (1, 0x3F2D28), (3, 0xF6AE87), (1, 0xF68F57), (4, 0xF7817A), (2, 0xB273A2), (1, 0xF7817A), (1, 0xB273A2),
     (1, 0xF7817A), (1, 0xB273A2), (1, 0xF7817A), (3, 0xB273A2), (1, 0xF7817A), (1, 0xB273A2), (1, 0xF7817A),
     (1, 0xB273A2), (1, 0xF7817A), (3, 0xB273A2), (1, 0xF7817A), (3, 0xB273A2), (1, 0xF7817A), (1, 0xB273A2),
     (4, 0xF7817A), (1, 0xF68F57), (3, 0xF6AE87), (1, 0x3F2D28), (1, 0x3F2832), (56, 0xFF00FF), (1, 0x3F2832),
     (1, 0x4D3A66), (40, 0x3F2D28), (1, 0x4D3A66), (1, 0x3F2832), (56, 0xFF00FF), (1, 0x3F2832), (10, 0x4D3A66),
     (1, 0xC8C0DC), (20, 0x4D3A66), (1, 0xC8C0DC), (10, 0x4D3A66), (1, 0x3F2832), (56, 0xFF00FF), (1, 0x3F2832),
     (9, 0x4D3A66), (1, 0xC8C0DC), (1, 0x4D3A66), (1, 0xC8C0DC), (18, 0x4D3A66), (1, 0xC8C0DC), (1, 0x4D3A66),
     (1, 0xC8C0DC), (9, 0x4D3A66), (1, 0x3F2832), (56, 0xFF00FF), (1, 0x3F2832), (8, 0x4D3A66), (1, 0xC8C0DC),
     (3, 0x4D3A66), (1, 0xC8C0DC), (16, 0x4D3A66), (1, 0xC8C0DC), (3, 0x4D3A66), (1, 0xC8C0DC), (8, 0x4D3A66),
     (1, 0x3F2832), (56, 0xFF00FF), (1, 0x3F2832), (8, 0x4D3A66), (1, 0xC8C0DC), (3, 0x4D3A66), (1, 0xC8C0DC),
     (16, 0x4D3A66), (1, 0xC8C0DC), (3, 0x4D3A66), (1, 0xC8C0DC), (8, 0x4D3A66), (1, 0x3F2832), (56, 0xFF00FF),
     (1, 0x3F2832), (7, 0x4D3A66), (1, 0xC8C0DC), (5, 0x4D3A66), (1, 0xC8C0DC), (14, 0x4D3A66), (1, 0xC8C0DC),
     (5, 0x4D3A66), (1, 0xC8C0DC), (7, 0x4D3A66), (1, 0x3F2832), (56, 0xFF00FF), (1, 0x3F2832), (42, 0x4D3A66),
     (1, 0x3F2832), (30, 0xFF00FF)]"

definition logo_rows_50 :: "(nat \<times> UInt32) list" where
  "logo_rows_50 =
    [(26, 0xFF00FF), (1, 0x3F2832), (42, 0x4D3A66), (1, 0x3F2832), (56, 0xFF00FF), (1, 0x3F2832), (6, 0x4D3A66),
     (1, 0xE45717), (20, 0x4D3A66), (3, 0xE45717), (3, 0x4D3A66), (3, 0xE45717), (6, 0x4D3A66), (1, 0x3F2832),
     (56, 0xFF00FF), (1, 0x3F2832), (1, 0x4D3A66), (2, 0xC8C0DC), (3, 0x4D3A66), (2, 0xE45717), (2, 0x4D3A66),
     (2, 0xE45717), (2, 0x4D3A66), (1, 0xE45717), (1, 0x4D3A66), (1, 0xE45717), (1, 0x4D3A66), (6, 0xE45717),
     (2, 0x4D3A66), (1, 0xE45717), (3, 0x4D3A66), (1, 0xE45717), (1, 0x4D3A66), (1, 0xE45717), (6, 0x4D3A66),
     (2, 0xC8C0DC), (1, 0x4D3A66), (1, 0x3F2832), (56, 0xFF00FF), (1, 0x3F2832), (3, 0x4D3A66), (1, 0xC8C0DC),
     (2, 0x4D3A66), (1, 0xE45717), (2, 0x4D3A66), (1, 0xE45717), (2, 0x4D3A66), (1, 0xE45717), (1, 0x4D3A66),
     (2, 0xE45717), (2, 0x4D3A66), (1, 0xE45717), (2, 0x4D3A66), (1, 0xE45717), (2, 0x4D3A66), (1, 0xE45717),
     (1, 0x4D3A66), (1, 0xE45717), (3, 0x4D3A66), (1, 0xE45717), (2, 0x4D3A66), (2, 0xE45717), (3, 0x4D3A66),
     (1, 0xC8C0DC), (3, 0x4D3A66), (1, 0x3F2832), (56, 0xFF00FF), (1, 0x3F2832), (1, 0x4D3A66), (2, 0xC8C0DC),
     (3, 0x4D3A66), (1, 0xE45717), (2, 0x4D3A66), (4, 0xE45717), (1, 0x4D3A66), (1, 0xE45717), (3, 0x4D3A66),
     (1, 0xE45717), (2, 0x4D3A66), (1, 0xE45717), (2, 0x4D3A66), (1, 0xE45717), (1, 0x4D3A66), (1, 0xE45717),
     (3, 0x4D3A66), (1, 0xE45717), (4, 0x4D3A66), (1, 0xE45717), (3, 0x4D3A66), (2, 0xC8C0DC), (1, 0x4D3A66),
     (1, 0x3F2832), (56, 0xFF00FF), (1, 0x3F2832), (3, 0x4D3A66), (1, 0xC8C0DC), (2, 0x4D3A66), (1, 0xE45717),
     (2, 0x4D3A66), (1, 0xE45717), (4, 0x4D3A66), (1, 0xE45717), (3, 0x4D3A66), (1, 0xE45717), (2, 0x4D3A66),
     (1, 0xE45717), (2, 0x4D3A66), (1, 0xE45717), (1, 0x4D3A66), (1, 0xE45717), (3, 0x4D3A66), (1, 0xE45717),
     (4, 0x4D3A66), (1, 0xE45717), (2, 0x4D3A66), (1, 0xC8C0DC), (3, 0x4D3A66), (1, 0x3F2832), (56, 0xFF00FF),
     (1, 0x3F2832), (1, 0x4D3A66), (2, 0xC8C0DC), (4, 0x4D3A66), (1, 0xE45717), (2, 0x4D3A66), (2, 0xE45717),
     (2, 0x4D3A66), (1, 0xE45717), (3, 0x4D3A66), (1, 0xE45717), (2, 0x4D3A66), (1, 0xE45717), (2, 0x4D3A66),
     (1, 0xE45717), (2, 0x4D3A66), (3, 0xE45717), (2, 0x4D3A66), (3, 0xE45717), (4, 0x4D3A66), (2, 0xC8C0DC),
     (1, 0x4D3A66), (1, 0x3F2832), (56, 0xFF00FF), (1, 0x3F2832), (42, 0x4D3A66), (1, 0x3F2832), (56, 0xFF00FF),
     (1, 0x3F2832), (42, 0x4D3A66), (1, 0x3F2832), (56, 0xFF00FF), (1, 0x3F2832), (1, 0x3F2D28), (40, 0x4D3A66),
     (1, 0x3F2D28), (1, 0x3F2832), (30, 0xFF00FF)]"

definition logo_rows_60 :: "(nat \<times> UInt32) list" where
  "logo_rows_60 =
    [(26, 0xFF00FF), (1, 0x3F2832), (1, 0xF6AE87), (40, 0x3F2D28), (1, 0xF6AE87), (1, 0x3F2832), (56, 0xFF00FF),
     (1, 0x3F2832), (4, 0xF6AE87), (1, 0xF68F57), (4, 0xF7817A), (1, 0xB273A2), (1, 0xF7817A), (1, 0xB273A2),
     (1, 0xF7817A), (1, 0xB273A2), (1, 0xF7817A), (1, 0xB273A2), (1, 0xF7817A), (1, 0xB273A2), (1, 0xF7817A),
     (1, 0xB273A2), (1, 0xF7817A), (1, 0xB273A2), (1, 0xF7817A), (1, 0xB273A2), (1, 0xF7817A), (1, 0xB273A2),
     (1, 0xF7817A), (1, 0xB273A2), (1, 0xF7817A), (1, 0xB273A2), (1, 0xF7817A), (1, 0xB273A2), (5, 0xF7817A),
     (1, 0xF68F57), (4, 0xF6AE87), (1, 0x3F2832), (56, 0xFF00FF), (1, 0x3F2832), (4, 0xF6AE87), (1, 0xF68F57),
     (5, 0xF7817A), (1, 0xB273A2), (1, 0xF7817A), (1, 0xB273A2), (1, 0xF7817A), (1, 0xB273A2), (1, 0xF7817A),
     (1, 0xB273A2), (1, 0xF7817A), (1, 0xB273A2), (1, 0xF7817A), (1, 0xB273A2), (1, 0xF7817A), (1, 0xB273A2),
     (1, 0xF7817A), (1, 0xB273A2), (1, 0xF7817A), (1, 0xB273A2), (1, 0xF7817A), (1, 0xB273A2), (1, 0xF7817A),
     (1, 0xB273A2), (1, 0xF7817A), (1, 0xB273A2), (4, 0xF7817A), (1, 0xF68F57), (4, 0xF6AE87), (1, 0x3F2832),
     (56, 0xFF00FF), (1, 0x3F2832), (4, 0xF6AE87), (1, 0xF68F57), (4, 0xF7817A), (1, 0xB273A2), (1, 0xF7817A),
     (1, 0xB273A2), (1, 0xF7817A), (1, 0xB273A2), (1, 0xF7817A), (1, 0xB273A2), (1, 0xF7817A), (1, 0xB273A2),
     (1, 0xF7817A), (1, 0xB273A2), (1, 0xF7817A), (1, 0xB273A2), (1, 0xF7817A), (1, 0xB273A2), (1, 0xF7817A),
     (1, 0xB273A2), (1, 0xF7817A), (1, 0xB273A2), (1, 0xF7817A), (1, 0xB273A2), (1, 0xF7817A), (1, 0xB273A2),
     (5, 0xF7817A), (1, 0xF68F57), (4, 0xF6AE87), (1, 0x3F2832), (56, 0xFF00FF), (1, 0x3F2832), (4, 0xF6AE87),
     (1, 0xF68F57), (7, 0xF7817A), (1, 0xB273A2), (3, 0xF7817A), (1, 0xB273A2), (3, 0xF7817A), (1, 0xB273A2),
     (3, 0xF7817A), (1, 0xB273A2), (3, 0xF7817A), (1, 0xB273A2), (3, 0xF7817A), (1, 0xB273A2), (4, 0xF7817A),
     (1, 0xF68F57), (4, 0xF6AE87), (1, 0x3F2832), (56, 0xFF00FF), (1, 0x3F2832), (4, 0xF6AE87), (1, 0xF68F57),
     (4, 0xF7817A), (1, 0xB273A2), (1, 0xF7817A), (1, 0xB273A2), (1, 0xF7817A), (1, 0xB273A2), (1, 0xF7817A),
     (1, 0xB273A2), (1, 0xF7817A), (1, 0xB273A2), (1, 0xF7817A), (1, 0xB273A2), (1, 0xF7817A), (1, 0xB273A2),
     (1, 0xF7817A), (1, 0xB273A2), (1, 0xF7817A), (1, 0xB273A2), (1, 0xF7817A), (1, 0xB273A2), (1, 0xF7817A),
     (1, 0xB273A2), (1, 0xF7817A), (1, 0xB273A2), (5, 0xF7817A), (1, 0xF68F57), (4, 0xF6AE87), (1, 0x3F2832),
     (56, 0xFF00FF), (1, 0x3F2832), (4, 0xF6AE87), (1, 0xF68F57), (5, 0xF7817A), (1, 0xB273A2), (1, 0xF7817A),
     (1, 0xB273A2), (1, 0xF7817A), (1, 0xB273A2), (3, 0xF7817A), (1, 0xB273A2), (1, 0xF7817A), (1, 0xB273A2),
     (1, 0xF7817A), (1, 0xB273A2), (3, 0xF7817A), (1, 0xB273A2), (1, 0xF7817A), (1, 0xB273A2), (1, 0xF7817A),
     (1, 0xB273A2), (6, 0xF7817A), (1, 0xF68F57), (4, 0xF6AE87), (1, 0x3F2832), (56, 0xFF00FF), (1, 0x3F2832),
     (4, 0xF6AE87), (1, 0xF68F57), (4, 0xF7817A), (1, 0xB273A2), (1, 0xF7817A), (1, 0xB273A2), (1, 0xF7817A),
     (1, 0xB273A2), (1, 0xF7817A), (1, 0xB273A2), (1, 0xF7817A), (1, 0xB273A2), (1, 0xF7817A), (1, 0xB273A2),
     (1, 0xF7817A), (1, 0xB273A2), (1, 0xF7817A), (1, 0xB273A2), (1, 0xF7817A), (1, 0xB273A2), (1, 0xF7817A),
     (1, 0xB273A2), (1, 0xF7817A), (1, 0xB273A2), (1, 0xF7817A), (1, 0xB273A2), (5, 0xF7817A), (1, 0xF68F57),
     (4, 0xF6AE87), (1, 0x3F2832), (56, 0xFF00FF), (1, 0x3F2832), (4, 0xF6AE87), (1, 0xF68F57), (7, 0xF7817A),
     (1, 0xB273A2), (3, 0xF7817A), (1, 0xB273A2), (3, 0xF7817A), (1, 0xB273A2), (3, 0xF7817A), (1, 0xB273A2),
     (3, 0xF7817A), (1, 0xB273A2), (3, 0xF7817A), (1, 0xB273A2), (4, 0xF7817A), (1, 0xF68F57), (4, 0xF6AE87),
     (1, 0x3F2832), (56, 0xFF00FF), (1, 0x3F2832), (4, 0xF6AE87), (1, 0xF68F57), (4, 0xF7817A), (1, 0xB273A2),
     (1, 0xF7817A), (1, 0xB273A2), (1, 0xF7817A), (1, 0xB273A2), (1, 0xF7817A), (1, 0xB273A2), (1, 0xF7817A),
     (1, 0xB273A2), (1, 0xF7817A), (1, 0xB273A2), (1, 0xF7817A), (1, 0xB273A2), (1, 0xF7817A), (1, 0xB273A2),
     (1, 0xF7817A), (1, 0xB273A2), (1, 0xF7817A), (1, 0xB273A2), (1, 0xF7817A), (1, 0xB273A2), (1, 0xF7817A),
     (1, 0xB273A2), (5, 0xF7817A), (1, 0xF68F57), (4, 0xF6AE87), (1, 0x3F2832), (30, 0xFF00FF)]"

definition logo_rows_70 :: "(nat \<times> UInt32) list" where
  "logo_rows_70 =
    [(26, 0xFF00FF), (1, 0x3F2832), (4, 0xF6AE87), (1, 0xF68F57), (5, 0xF7817A), (1, 0xB273A2), (3, 0xF7817A),
     (1, 0xB273A2), (3, 0xF7817A), (1, 0xB273A2), (3, 0xF7817A), (1, 0xB273A2), (3, 0xF7817A), (1, 0xB273A2),
     (3, 0xF7817A), (1, 0xB273A2), (6, 0xF7817A), (1, 0xF68F57), (4, 0xF6AE87), (1, 0x3F2832), (56, 0xFF00FF),
     (1, 0x3F2832), (4, 0xF6AE87), (1, 0xF68F57), (4, 0xF7817A), (1, 0xB273A2), (1, 0xF7817A), (1, 0xB273A2),
     (1, 0xF7817A), (1, 0xB273A2), (1, 0xF7817A), (1, 0xB273A2), (1, 0xF7817A), (1, 0xB273A2), (1, 0xF7817A),
     (1, 0xB273A2), (1, 0xF7817A), (1, 0xB273A2), (1, 0xF7817A), (1, 0xB273A2), (1, 0xF7817A), (1, 0xB273A2),
     (1, 0xF7817A), (1, 0xB273A2), (1, 0xF7817A), (1, 0xB273A2), (1, 0xF7817A), (1, 0xB273A2), (5, 0xF7817A),
     (1, 0xF68F57), (4, 0xF6AE87), (1, 0x3F2832), (56, 0xFF00FF), (1, 0x3F2832), (4, 0xF6AE87), (1, 0xF68F57),
     (32, 0xF7817A), (1, 0xF68F57), (4, 0xF6AE87), (1, 0x3F2832), (56, 0xFF00FF), (1, 0x3F2832), (4, 0xF6AE87),
     (1, 0xF68F57), (4, 0xF7817A), (1, 0xB273A2), (1, 0xF7817A), (1, 0xB273A2), (1, 0xF7817A), (1, 0xB273A2),
     (1, 0xF7817A), (1, 0xB273A2), (1, 0xF7817A), (1, 0xB273A2), (1, 0xF7817A), (1, 0xB273A2), (1, 0xF7817A),
     (1, 0xB273A2), (1, 0xF7817A), (1, 0xB273A2), (1, 0xF7817A), (1, 0xB273A2), (1, 0xF7817A), (1, 0xB273A2),
     (1, 0xF7817A), (1, 0xB273A2), (1, 0xF7817A), (1, 0xB273A2), (5, 0xF7817A), (1, 0xF68F57), (4, 0xF6AE87),
     (1, 0x3F2832), (56, 0xFF00FF), (1, 0x3F2832), (4, 0xF6AE87), (1, 0xF68F57), (5, 0xF7817A), (1, 0xB273A2),
     (7, 0xF7817A), (1, 0xB273A2), (7, 0xF7817A), (1, 0xB273A2), (10, 0xF7817A), (1, 0xF68F57), (4, 0xF6AE87),
     (1, 0x3F2832), (56, 0xFF00FF), (1, 0x3F2832), (4, 0xF6AE87), (1, 0xF68F57), (4, 0xF7817A), (1, 0xB273A2),
     (1, 0xF7817A), (1, 0xB273A2), (1, 0xF7817A), (1, 0xB273A2), (1, 0xF7817A), (1, 0xB273A2), (1, 0xF7817A),
     (1, 0xB273A2), (1, 0xF7817A), (1, 0xB273A2), (1, 0xF7817A), (1, 0xB273A2), (1, 0xF7817A), (1, 0xB273A2),
     (1, 0xF7817A), (1, 0xB273A2), (1, 0xF7817A), (1, 0xB273A2), (1, 0xF7817A), (1, 0xB273A2), (1, 0xF7817A),
     (1, 0xB273A2), (5, 0xF7817A), (1, 0xF68F57), (4, 0xF6AE87), (1, 0x3F2832), (56, 0xFF00FF), (1, 0x3F2832),
     (4, 0xF6AE87), (1, 0xF68F57), (32, 0xF7817A), (1, 0xF68F57), (4, 0xF6AE87), (1, 0x3F2832), (56, 0xFF00FF),
     (1, 0x3F2832), (4, 0xF6AE87), (1, 0xF68F57), (4, 0xF7817A), (1, 0xB273A2), (1, 0xF7817A), (1, 0xB273A2),
     (1, 0xF7817A), (1, 0xB273A2), (1, 0xF7817A), (1, 0xB273A2), (1, 0xF7817A), (1, 0xB273A2), (1, 0xF7817A),
     (1, 0xB273A2), (1, 0xF7817A), (1, 0xB273A2), (1, 0xF7817A), (1, 0xB273A2), (1, 0xF7817A), (1, 0xB273A2),
     (1, 0xF7817A), (1, 0xB273A2), (1, 0xF7817A), (1, 0xB273A2), (1, 0xF7817A), (1, 0xB273A2), (5, 0xF7817A),
     (1, 0xF68F57), (4, 0xF6AE87), (1, 0x3F2832), (56, 0xFF00FF), (1, 0x3F2832), (4, 0xF6AE87), (1, 0xF68F57),
     (32, 0xF7817A), (1, 0xF68F57), (4, 0xF6AE87), (1, 0x3F2832), (56, 0xFF00FF), (1, 0x3F2832), (4, 0xF6AE87),
     (1, 0xF68F57), (4, 0xF7817A), (1, 0xB273A2), (1, 0xF7817A), (1, 0xB273A2), (1, 0xF7817A), (1, 0xB273A2),
     (1, 0xF7817A), (1, 0xB273A2), (1, 0xF7817A), (1, 0xB273A2), (1, 0xF7817A), (1, 0xB273A2), (1, 0xF7817A),
     (1, 0xB273A2), (1, 0xF7817A), (1, 0xB273A2), (1, 0xF7817A), (1, 0xB273A2), (1, 0xF7817A), (1, 0xB273A2),
     (1, 0xF7817A), (1, 0xB273A2), (1, 0xF7817A), (1, 0xB273A2), (5, 0xF7817A), (1, 0xF68F57), (4, 0xF6AE87),
     (1, 0x3F2832), (30, 0xFF00FF)]"

definition logo_rows_80 :: "(nat \<times> UInt32) list" where
  "logo_rows_80 =
    [(26, 0xFF00FF), (1, 0x3F2832), (4, 0xF6AE87), (1, 0xF68F57), (32, 0xF7817A), (1, 0xF68F57), (4, 0xF6AE87),
     (1, 0x3F2832), (56, 0xFF00FF), (1, 0x3F2832), (4, 0xF6AE87), (1, 0xF68F57), (6, 0xF7817A), (1, 0xB273A2),
     (3, 0xF7817A), (1, 0xB273A2), (3, 0xF7817A), (1, 0xB273A2), (3, 0xF7817A), (1, 0xB273A2), (3, 0xF7817A),
     (1, 0xB273A2), (3, 0xF7817A), (1, 0xB273A2), (5, 0xF7817A), (1, 0xF68F57), (4, 0xF6AE87), (1, 0x3F2832),
     (56, 0xFF00FF), (1, 0x3F2832), (4, 0xF6AE87), (1, 0xF68F57), (32, 0xF7817A), (1, 0xF68F57), (4, 0xF6AE87),
     (1, 0x3F2832), (56, 0xFF00FF), (1, 0x3F2832), (4, 0xF6AE87), (1, 0xF68F57), (4, 0xF7817A), (1, 0xB273A2),
     (3, 0xF7817A), (1, 0xB273A2), (3, 0xF7817A), (1, 0xB273A2), (1, 0xF7817A), (1, 0xB273A2), (1, 0xF7817A),
     (1, 0xB273A2), (3, 0xF7817A), (1, 0xB273A2), (1, 0xF7817A), (1, 0xB273A2), (1, 0xF7817A), (1, 0xB273A2),
     (7, 0xF7817A), (1, 0xF68F57), (4, 0xF6AE87), (1, 0x3F2832), (56, 0xFF00FF), (1, 0x3F2832), (4, 0xF6AE87),
     (1, 0xF68F57), (32, 0xF7817A), (1, 0xF68F57), (4, 0xF6AE87), (1, 0x3F2832), (56, 0xFF00FF), (1, 0x3F2832),
     (4, 0xF6AE87), (1, 0xF68F57), (6, 0xF7817A), (1, 0xB273A2), (3, 0xF7817A), (1, 0xB273A2), (3, 0xF7817A),
     (1, 0xB273A2), (3, 0xF7817A), (1, 0xB273A2), (3, 0xF7817A), (1, 0xB273A2), (3, 0xF7817A), (1, 0xB273A2),
     (5, 0xF7817A), (1, 0xF68F57), (4, 0xF6AE87), (1, 0x3F2832), (56, 0xFF00FF), (1, 0x3F2832), (4, 0xF6AE87),
     (1, 0xF68F57), (32, 0xF7817A), (1, 0xF68F57), (4, 0xF6AE87), (1, 0x3F2832), (56, 0xFF00FF), (1, 0x3F2832),
     (4, 0xF6AE87), (1, 0xF68F57), (4, 0xF7817A), (1, 0xB273A2), (3, 0xF7817A), (1, 0xB273A2), (3, 0xF7817A),
     (1, 0xB273A2), (3, 0xF7817A), (1, 0xB273A2), (3, 0xF7817A), (1, 0xB273A2), (3, 0xF7817A), (1, 0xB273A2),
     (7, 0xF7817A), (1, 0xF68F57), (4, 0xF6AE87), (1, 0x3F2832), (56, 0xFF00FF), (1, 0x3F2832), (4, 0xF6AE87),
     (1, 0xF68F57), (32, 0xF7817A), (1, 0xF68F57), (4, 0xF6AE87), (1, 0x3F2832), (56, 0xFF00FF), (1, 0x3F2832),
     (4, 0xF6AE87), (1, 0xF68F57), (32, 0xF7817A), (1, 0xF68F57), (4, 0xF6AE87), (1, 0x3F2832), (30, 0xFF00FF)]"

definition logo_rows_90 :: "(nat \<times> UInt32) list" where
  "logo_rows_90 =
    [(26, 0xFF00FF), (1, 0x3F2832), (4, 0xF6AE87), (1, 0xF68F57), (32, 0xF7817A), (1, 0xF68F57), (4, 0xF6AE87),
     (1, 0x3F2832), (56, 0xFF00FF), (1, 0x3F2832), (4, 0xF6AE87), (1, 0xF68F57), (12, 0xF7817A), (1, 0xB273A2),
     (7, 0xF7817A), (1, 0xB273A2), (11, 0xF7817A), (1, 0xF68F57), (4, 0xF6AE87), (1, 0x3F2832), (56, 0xFF00FF),
     (1, 0x3F2832), (4, 0xF6AE87), (1, 0xF68F57), (32, 0xF7817A), (1, 0xF68F57), (4, 0xF6AE87), (1, 0x3F2832),
     (56, 0xFF00FF), (1, 0x3F2832), (4, 0xF6AE87), (1, 0xF68F57), (32, 0xF7817A), (1, 0xF68F57), (4, 0xF6AE87),
     (1, 0x3F2832), (57, 0xFF00FF), (1, 0x3F2832), (4, 0xF6AE87), (1, 0xF68F57), (30, 0xF7817A), (1, 0xF68F57),
     (4, 0xF6AE87), (1, 0x3F2832), (59, 0xFF00FF), (1, 0x3F2832), (4, 0xF6AE87), (30, 0xF68F57), (4, 0xF6AE87),
     (1, 0x3F2832), (60, 0xFF00FF), (2, 0x3F2832), (36, 0xF6AE87), (2, 0x3F2832), (62, 0xFF00FF), (36, 0x3F2832),
     (234, 0xFF00FF)]"

definition logo_data :: "UInt32 list" where
  "logo_data = concat (map unpack
     [logo_rows_0, logo_rows_10, logo_rows_20, logo_rows_30, logo_rows_40,
      logo_rows_50, logo_rows_60, logo_rows_70, logo_rows_80, logo_rows_90])"

definition logoImage :: IOGraphicsImage where
  "logoImage = \<lparr>imageBuffer = logo_data, imageSize = \<lparr>sizeWidth = 100, sizeHeight = 100\<rparr>\<rparr>"

lemma length_unpack: "length (unpack runs) = sum_list (map fst runs)"
  by (induction runs) (auto simp: unpack_def)

lemma length_logo_rows_0: "length (unpack logo_rows_0) = 1000"
  by (simp add: length_unpack logo_rows_0_def)

lemma length_logo_rows_10: "length (unpack logo_rows_10) = 1000"
  by (simp add: length_unpack logo_rows_10_def)

lemma length_logo_rows_20: "length (unpack logo_rows_20) = 1000"
  by (simp add: length_unpack logo_rows_20_def)

lemma length_logo_rows_30: "length (unpack logo_rows_30) = 1000"
  by (simp add: length_unpack logo_rows_30_def)

lemma length_logo_rows_40: "length (unpack logo_rows_40) = 1000"
  by (simp add: length_unpack logo_rows_40_def)

lemma length_logo_rows_50: "length (unpack logo_rows_50) = 1000"
  by (simp add: length_unpack logo_rows_50_def)

lemma length_logo_rows_60: "length (unpack logo_rows_60) = 1000"
  by (simp add: length_unpack logo_rows_60_def)

lemma length_logo_rows_70: "length (unpack logo_rows_70) = 1000"
  by (simp add: length_unpack logo_rows_70_def)

lemma length_logo_rows_80: "length (unpack logo_rows_80) = 1000"
  by (simp add: length_unpack logo_rows_80_def)

lemma length_logo_rows_90: "length (unpack logo_rows_90) = 1000"
  by (simp add: length_unpack logo_rows_90_def)

lemma length_logo_data: "length logo_data = 10000"
  by (simp add: logo_data_def length_logo_rows_0 length_logo_rows_10 length_logo_rows_20 length_logo_rows_30 length_logo_rows_40
      length_logo_rows_50 length_logo_rows_60 length_logo_rows_70 length_logo_rows_80 length_logo_rows_90)

end
