(* ===== verification/Shell.thy ===== *)
theory Shell
  imports PanicScreen Logo
begin

text \<open>
  The kernel's rescue shell, \<^verbatim>\<open>kernel/src/KSH\<close>, with the splash screen, \<^verbatim>\<open>kernel/src/lib/Splash.c\<close>, and the
  cats of \<^verbatim>\<open>kernel/inc/Data/cats.h\<close>. Its commands print with the console of Console and Panic screen; the
  ones that raise an exception run the handler, which never comes back. The texts the build puts in (the
  version, the date and the time) are a parameter of the model.
\<close>

unbundle bit_operations_syntax

section \<open>Data\<close>

definition cats :: "UInt8 list list" where
  "cats =
    [bytes ''                        _'' @ [0x0A] @
      bytes ''                       | '' @ [0x5C, 0x0A] @
      bytes ''                       | |'' @ [0x0A] @
      bytes ''                       | |'' @ [0x0A] @
      bytes ''  |'' @ [0x5C] @ bytes ''                   | |'' @ [0x0A] @
      bytes '' /, ~'' @ [0x5C] @ bytes ''                / /'' @ [0x0A] @
      bytes ''X     `-.....-------./ /'' @ [0x0A] @
      bytes '' ~-. ~  ~              |'' @ [0x0A] @
      bytes ''    '' @ [0x5C] @ bytes ''             /    |'' @ [0x0A] @
      bytes ''     '' @ [0x5C] @ bytes ''  /_     ___'' @ [0x5C] @ bytes ''   /'' @ [0x0A] @
      bytes ''     | /'' @ [0x5C] @ bytes '' ~~~~~   '' @ [0x5C] @ bytes '' |'' @ [0x0A] @
      bytes ''     | | '' @ [0x5C] @ bytes ''        || |'' @ [0x0A] @
      bytes ''     | |'' @ [0x5C] @ bytes '' '' @ [0x5C] @ bytes ''       || )'' @ [0x0A] @
      bytes ''    (_/ (_/      ((_/'' @ [0x0A] @ [0],
     bytes '' _._     _,-'' @ [0x27, 0x22, 0x22] @ bytes ''`-._'' @ [0x0A] @
      bytes ''(,-.`._,'' @ [0x27] @ bytes ''(       |'' @ [0x5C] @ bytes ''`-/|'' @ [0x0A] @
      bytes ''    `-.-'' @ [0x27] @ bytes '' '' @ [0x5C] @ bytes '' )-`( , o o)'' @ [0x0A] @
      bytes ''          `-    '' @ [0x5C] @ bytes ''`_`'' @ [0x22, 0x27] @ bytes ''-'' @ [0x0A] @ [0],
     bytes '' /'' @ [0x5C] @ bytes ''_/'' @ [0x5C, 0x0A] @
      bytes ''( o.o )'' @ [0x0A] @
      bytes '' > ^ <'' @ [0x0A] @ [0],
     bytes ''    /'' @ [0x5C] @ bytes ''_____/'' @ [0x5C, 0x0A] @
      bytes ''   /  o   o  '' @ [0x5C, 0x0A] @
      bytes ''  ( ==  ^  == )'' @ [0x0A] @
      bytes ''   )         ('' @ [0x0A] @
      bytes ''  (           )'' @ [0x0A] @
      bytes '' ( (  )   (  ) )'' @ [0x0A] @
      bytes ''(___(__)___(__)__)'' @ [0x0A] @ [0]]"

definition asciiLogo :: "UInt8 list list" where
  "asciiLogo =
    [bytes ''      /'' @ [0x5C] @ bytes ''___/'' @ [0x5C] @ bytes ''     '' @ [0],
     literal ''     |  > <  |     '',
     literal ''     |   w   |     '',
     literal ''     |=======|__   '',
     literal ''     |       |  |  '',
     literal ''     |TERMOS |  |  '',
     literal ''     |       |__|  '',
     literal ''     |_______|     '']"

text \<open>What the build puts in: version, date and time.\<close>

record build_info =
  buildVersion :: "UInt8 list"
  buildDate :: "UInt8 list"
  buildTime :: "UInt8 list"

section \<open>The splash screen\<close>

definition SplashShow :: "'a console_scheme \<Rightarrow> fault + 'a console_scheme" where
  "SplashShow s =
     (let logoPoint = \<lparr>pointX = 0, pointY = 10\<rparr>;
          startPoint = \<lparr>pointX = 75, pointY = 55\<rparr>;
          normalTextPoint = \<lparr>pointX = 0, pointY = 120\<rparr>
      in bindE (case IOConsoleGetGraphicsContext s of
                  None \<Rightarrow> Inr s
                | Some context \<Rightarrow> bindE (IOGraphicsDrawImage context logoPoint (Some logoImage)) (\<lambda>context.
                    Inr (s\<lparr>sIOGraphicsContextPointer := Some context\<rparr>))) (\<lambda>s.
         bindE (IOConsoleLog (bytes ''Welcome to ^ptermOS^!!!!'' @ [0x0A, 0]) [] (IOConsoleSetCursorPosition (Some startPoint) s)) (\<lambda>s.
           Inr (IOConsoleSetCursorPosition (Some normalTextPoint) s))))"

section \<open>Commands\<close>

definition fetch_lines :: "build_info \<Rightarrow> 'a arch_scheme \<Rightarrow> log_line list" where
  "fetch_lines b s =
     [([0x0A, 0x0A, 0], []),
       (bytes ''^p %s ^!'' @ [0x09, 0x09] @ bytes ''^g kernel^!@^gtermos'' @ [0x0A] @ bytes ''^0'' @ [0], [VAString (Some (asciiLogo ! 0))]),
       (bytes ''^p %s ^!'' @ [0x09, 0x09] @ bytes ''^!-------------'' @ [0x0A] @ bytes ''^!'' @ [0], [VAString (Some (asciiLogo ! 1))]),
       (bytes ''^p %s ^!'' @ [0x09, 0x09] @ bytes ''^gOS^!: termOS %s'' @ [0x0A] @ bytes ''^!'' @ [0], [VAString (Some (asciiLogo ! 2)), VAString (Some (buildVersion b))]),
       (bytes ''^p %s ^!'' @ [0x09, 0x09] @ bytes ''^gKernel^!: Dewar (x86_64), build: %s %s'' @ [0x0A] @ bytes ''^!'' @ [0],
        [VAString (Some (asciiLogo ! 3)), VAString (Some (buildDate b)), VAString (Some (buildTime b))]),
       (bytes ''^p %s ^!'' @ [0x09, 0x09] @ bytes ''^gUptime^!: %d seconds'' @ [0x0A] @ bytes ''^!'' @ [0], [VAString (Some (asciiLogo ! 4)), VANumber (IOTimerGetTicks s div 1000)]),
       (bytes ''^p %s ^!'' @ [0x09, 0x09] @ bytes ''^gShell^!: ksh'' @ [0x0A] @ bytes ''^!'' @ [0], [VAString (Some (asciiLogo ! 5))]),
       (bytes ''^p %s ^!'' @ [0x09, 0x09] @ bytes ''^gDE^!: shitgui'' @ [0x0A] @ bytes ''^!'' @ [0], [VAString (Some (asciiLogo ! 6))]),
       (bytes ''^p %s ^!'' @ [0x09, 0x09] @ bytes ''^gCPU^!: %s (^yFamily^!: %d; ^yModel^!: %d)'' @ [0x0A] @ bytes ''^!'' @ [0],
        [VAString (Some (asciiLogo ! 7)), VAString (Some (vendorID (gOSBootCPU s))), VANumber (ucast (family (gOSBootCPU s))), VANumber (ucast (model (gOSBootCPU s)))]),
       ([0x0A, 0x0A, 0], [])]"

definition KSHCommandKernelFetch :: "build_info \<Rightarrow> 'a arch_scheme \<Rightarrow> fault + 'a arch_scheme" where
  "KSHCommandKernelFetch b s = log_lines (fetch_lines b s) s"

definition KSHCommandMeow :: "'a arch_scheme \<Rightarrow> fault + 'a arch_scheme" where
  "KSHCommandMeow s =
     (let catsCount = of_nat (length cats);
          (random, s) = Rand s;
          randomNumber = (ucast (random mod catsCount) :: UInt8)
      in bindE (array_get cats (unat randomNumber)) (\<lambda>cat.
           log_lines [(bytes ''Nyaaa!!'' @ [0x0A, 0x0A] @ bytes ''%s'' @ [0x0A, 0x0A, 0], [VAString (Some cat)])] s))"

definition help_lines :: "log_line list" where
  "help_lines =
     [(bytes ''Welcome to ^ptermOS^!'' @ [0x27] @ bytes ''s ^gk^!ernel ^gsh^!ell!'' @ [0x0A, 0], []),
      (bytes ''It loads when userspace is failed to load and acts as a basic rescue environment'' @ [0x0A, 0], []),
      (bytes ''Available commands:'' @ [0x0A, 0], []),
      ([0x09] @ bytes ''^rDebug^!:'' @ [0x0A, 0], []),
      ([0x09, 0x09] @ bytes ''^ysleep^!       '' @ [0x09, 0x09] @ bytes ''Sleep for 3seconds'' @ [0x0A, 0], []),
      ([0x09, 0x09] @ bytes ''^ydbg^!         '' @ [0x09, 0x09] @ bytes ''Test new stuff'' @ [0x0A, 0], []),
      ([0x09, 0x09] @ bytes ''^yregs^!        '' @ [0x09, 0x09] @ bytes ''Print current regs'' @ [0x0A, 0], []),
      ([0x09, 0x09] @ bytes ''^ypanic^!       '' @ [0x09, 0x09] @ bytes ''Panics (lol)'' @ [0x0A, 0], []),
      ([0x09, 0x09] @ bytes ''^yud2^!         '' @ [0x09, 0x09] @ bytes ''Panics with #UD'' @ [0x0A, 0], []),
      ([0x09, 0x09] @ bytes ''^ypf^!          '' @ [0x09, 0x09] @ bytes ''Panics with #PF'' @ [0x0A, 0], []),
      ([0x09] @ bytes ''^pFun^!:'' @ [0x0A, 0], []),
      ([0x09, 0x09] @ bytes ''^ysplash^!      '' @ [0x09, 0x09] @ bytes ''Shows splash (works kinda unstable)'' @ [0x0A, 0], []),
      ([0x09, 0x09] @ bytes ''^ymeow^!        '' @ [0x09, 0x09] @ bytes ''cats!!!'' @ [0x0A, 0], []),
      ([0x09, 0x09] @ bytes ''^ykfetch^!      '' @ [0x09, 0x09] @ bytes ''r/unixporn compatible'' @ [0x0A, 0], []),
      ([0x09] @ bytes ''^bMisc^!:'' @ [0x0A, 0], []),
      ([0x09, 0x09] @ bytes ''^yclear^!       '' @ [0x09, 0x09] @ bytes ''Clear console'' @ [0x0A, 0], []),
      ([0x09, 0x09] @ bytes ''^yhelp^!        '' @ [0x09, 0x09] @ bytes ''Show this menu'' @ [0x0A, 0], []),
      ([0x09, 0x09] @ bytes ''^yrand^!        '' @ [0x09, 0x09] @ bytes ''Get a random number'' @ [0x0A, 0], []),
      ([0x09, 0x09] @ bytes ''^yver^!         '' @ [0x09, 0x09] @ bytes ''Displays termOS'' @ [0x27] @ bytes ''s version'' @ [0x0A, 0], [])]"

definition KSHCommandHelp :: "'a console_scheme \<Rightarrow> fault + 'a console_scheme" where
  "KSHCommandHelp s = log_lines help_lines s"

definition KSHCommandRand :: "'a arch_scheme \<Rightarrow> fault + 'a arch_scheme" where
  "KSHCommandRand s = (let (random, s) = Rand s
     in log_lines [(bytes ''Your rand number (0..100) is ... ^y%d^!!'' @ [0x0A, 0], [VANumber (random mod 100)])] s)"

definition KSHDebug :: UInt64 where
  "KSHDebug = 0"

definition KSHCommandDebug :: "'a console_scheme \<Rightarrow> fault + 'a console_scheme" where
  "KSHCommandDebug s = log_lines [([0x0A] @ bytes ''Debug ended with code %d'' @ [0x0A, 0], [VANumber KSHDebug])] s"

definition KSHCommandVer :: "build_info \<Rightarrow> 'a console_scheme \<Rightarrow> fault + 'a console_scheme" where
  "KSHCommandVer b s =
     log_lines
       [(bytes ''termOS version %s'' @ [0x0A, 0], [VAString (Some (buildVersion b))]),
        (bytes ''Dewar Kernel (x86_64), build: %s %s'' @ [0x0A, 0], [VAString (Some (buildDate b)), VAString (Some (buildTime b))]),
        (bytes ''License: GPL-3.0-or-later'' @ [0x0A, 0], [])] s"

definition cmd_userspace :: "'a console_scheme \<Rightarrow> fault + 'a console_scheme" where
  "cmd_userspace s = log_lines [(bytes ''Command disabled due to be really broken'' @ [0x0A, 0], [])] s"

definition KSHCommandSleep ::
  "('a scheduler_scheme \<Rightarrow> fault + 'a scheduler_scheme) \<Rightarrow> 'a scheduler_scheme \<Rightarrow> fault + 'a scheduler_scheme" where
  "KSHCommandSleep interrupt32 s = OSSchedulerYield interrupt32 3000 s"

text \<open>
  An exception the shell provokes: the handler finds the registers saved at \<open>frame\<close>, with the number of the
  exception and the kernel's code segment.
\<close>

definition kernel_exception ::
  "('a scheduler_scheme \<Rightarrow> fault + 'a scheduler_scheme) \<Rightarrow> UInt64 \<Rightarrow> CPURegisters \<Rightarrow> UInt64 \<Rightarrow> UInt64 \<Rightarrow> 'a scheduler_scheme \<Rightarrow>
   fault + 'a scheduler_scheme" where
  "kernel_exception interrupt32 frame registers cr2 number s =
     isr_handler_c interrupt32 cr2 frame (registers\<lparr>regInterruptNumber := number, regCs := 0x08\<rparr>) s"

definition KSHCommandRegisters ::
  "('a scheduler_scheme \<Rightarrow> fault + 'a scheduler_scheme) \<Rightarrow> UInt64 \<Rightarrow> CPURegisters \<Rightarrow> 'a scheduler_scheme \<Rightarrow> fault + 'a scheduler_scheme" where
  "KSHCommandRegisters interrupt32 frame registers s = kernel_exception interrupt32 frame registers 0 3 s"

section \<open>The shell\<close>

datatype KSHToken = TOKEN_EMPTY | TOKEN_NULL | TOKEN_ILLEGAL | TOKEN_HELP | TOKEN_SPLASH | TOKEN_KFETCH
  | TOKEN_MEOW | TOKEN_SLEEP | TOKEN_REGS | TOKEN_DEBUG | TOKEN_RECTEST | TOKEN_PANIC
  | TOKEN_PANIC_UD2 | TOKEN_PANIC_PF | TOKEN_CLEAR | TOKEN_RAND | TOKEN_VER | TOKEN_BACK
  | TOKEN_FORWARD

text \<open>The table; its last entry, with a null name, ends the search.\<close>

definition CommandMap :: "(UInt8 list option \<times> KSHToken) list" where
  "CommandMap =
    [(Some ([0]), TOKEN_EMPTY),
     (Some (literal ''sleep''), TOKEN_SLEEP),
     (Some (literal ''dbg''), TOKEN_DEBUG),
     (Some (literal ''regs''), TOKEN_REGS),
     (Some (literal ''panic''), TOKEN_PANIC),
     (Some (literal ''ud2''), TOKEN_PANIC_UD2),
     (Some (literal ''pf''), TOKEN_PANIC_PF),
     (Some (literal ''meow''), TOKEN_MEOW),
     (Some (literal ''splash''), TOKEN_SPLASH),
     (Some (literal ''kfetch''), TOKEN_KFETCH),
     (Some (literal ''help''), TOKEN_HELP),
     (Some (literal ''clear''), TOKEN_CLEAR),
     (Some (literal ''rand''), TOKEN_RAND),
     (Some (literal ''ver''), TOKEN_VER),
     (None, TOKEN_NULL)]"

fun sKSHFindCommand :: "(UInt8 list option \<times> KSHToken) list \<Rightarrow> UInt8 list \<Rightarrow> fault + KSHToken" where
  "sKSHFindCommand [] string = Inl OutOfBounds"
| "sKSHFindCommand ((None, token) # commands) string = Inr TOKEN_ILLEGAL"
| "sKSHFindCommand ((Some name, token) # commands) string =
     bindE (StringCompare string name) (\<lambda>different.
       if different = 0 then Inr token else sKSHFindCommand commands string)"

definition KSHCharacter2Token :: "UInt8 list \<Rightarrow> fault + KSHToken" where
  "KSHCharacter2Token string = sKSHFindCommand CommandMap string"

text \<open>
  The commands of a turn. \<open>TOKEN_PANIC_UD2\<close> and \<open>TOKEN_PANIC_PF\<close> have no \<^verbatim>\<open>break\<close>: when the handler comes
  back, or the address is mapped, the turn falls through to the next case. A kernel exception halts, so what
  is after it is reached only through a mapped address.
\<close>

definition sKSHPageFault ::
  "('a scheduler_scheme \<Rightarrow> fault + 'a scheduler_scheme) \<Rightarrow> UInt64 \<Rightarrow> CPURegisters \<Rightarrow> 'a scheduler_scheme \<Rightarrow> fault + 'a scheduler_scheme" where
  "sKSHPageFault interrupt32 frame registers s =
     (case translate (mem s) (cr3 s) 0xDEADBEEF of
        None \<Rightarrow> bindE (kernel_exception interrupt32 frame registers 0xDEADBEEF 14 s) (\<lambda>_. Inl Diverges)
      | Some e \<Rightarrow> SplashShow (s\<lparr>mem := store64 (mem s) (PTE_GET_ADDR e + (0xDEADBEEF AND 0xFFF)) 666\<rparr>))"

definition sKSHExecute ::
  "build_info \<Rightarrow> ('a scheduler_scheme \<Rightarrow> fault + 'a scheduler_scheme) \<Rightarrow> UInt64 \<Rightarrow> CPURegisters \<Rightarrow> KSHToken \<Rightarrow>
   'a scheduler_scheme \<Rightarrow> fault + 'a scheduler_scheme" where
  "sKSHExecute b interrupt32 frame registers token s =
     (case token of
        TOKEN_EMPTY \<Rightarrow> Inr s
      | TOKEN_CLEAR \<Rightarrow> IOConsoleClear (ucast (IOConsoleGetColors s) AND 0xFFFFFFFF) s
      | TOKEN_RAND \<Rightarrow> KSHCommandRand s
      | TOKEN_VER \<Rightarrow> KSHCommandVer b s
      | TOKEN_SLEEP \<Rightarrow> KSHCommandSleep interrupt32 s
      | TOKEN_DEBUG \<Rightarrow> KSHCommandDebug s
      | TOKEN_REGS \<Rightarrow> KSHCommandRegisters interrupt32 frame registers s
      | TOKEN_PANIC \<Rightarrow> Inl (Panic ''Manually initiated panic'')
      | TOKEN_PANIC_UD2 \<Rightarrow> bindE (kernel_exception interrupt32 frame registers 0 6 s) (\<lambda>_. Inl Diverges)
      | TOKEN_PANIC_PF \<Rightarrow> sKSHPageFault interrupt32 frame registers s
      | TOKEN_SPLASH \<Rightarrow> SplashShow s
      | TOKEN_KFETCH \<Rightarrow> KSHCommandKernelFetch b s
      | TOKEN_MEOW \<Rightarrow> KSHCommandMeow s
      | TOKEN_HELP \<Rightarrow> KSHCommandHelp s
      | _ \<Rightarrow> log_lines [(bytes ''Unknown command!!'' @ [0x0A, 0], [])] s)"

text \<open>The shell for a number of turns; \<open>cmdbuff\<close> is the buffer on its stack, as the last turn left it.\<close>

fun KSHEntry ::
  "build_info \<Rightarrow> ('a scheduler_scheme \<Rightarrow> fault + 'a scheduler_scheme) \<Rightarrow> ('a scheduler_scheme \<Rightarrow> fault + 'a scheduler_scheme) \<Rightarrow>
   UInt64 \<Rightarrow> CPURegisters \<Rightarrow> nat \<Rightarrow> UInt8 list \<Rightarrow> 'a scheduler_scheme \<Rightarrow> fault + 'a scheduler_scheme" where
  "KSHEntry b interrupt32 yield frame registers 0 cmdbuff s = Inr s"
| "KSHEntry b interrupt32 yield frame registers (Suc turns) cmdbuff s =
     bindE (IOConsoleLog (literal ''ksh_> '') [] s) (\<lambda>s.
     bindE (IOConsoleReadLine yield cmdbuff 256 s) (\<lambda>(cmdbuff, s).
     bindE (KSHCharacter2Token cmdbuff) (\<lambda>token.
     bindE (sKSHExecute b interrupt32 frame registers token s) (\<lambda>s.
       KSHEntry b interrupt32 yield frame registers turns cmdbuff s))))"

section \<open>The command table\<close>

definition commands :: "(UInt8 list \<times> KSHToken) list" where
  "commands = [([], TOKEN_EMPTY), (bytes ''sleep'', TOKEN_SLEEP), (bytes ''dbg'', TOKEN_DEBUG), (bytes ''regs'', TOKEN_REGS),
     (bytes ''panic'', TOKEN_PANIC), (bytes ''ud2'', TOKEN_PANIC_UD2), (bytes ''pf'', TOKEN_PANIC_PF), (bytes ''meow'', TOKEN_MEOW),
     (bytes ''splash'', TOKEN_SPLASH), (bytes ''kfetch'', TOKEN_KFETCH), (bytes ''help'', TOKEN_HELP), (bytes ''clear'', TOKEN_CLEAR),
     (bytes ''rand'', TOKEN_RAND), (bytes ''ver'', TOKEN_VER)]"

lemma CommandMap_commands:
  "CommandMap = map (\<lambda>(name, token). (Some (name @ [0]), token)) commands @ [(None, TOKEN_NULL)]"
  by (simp add: CommandMap_def commands_def literal_def)

lemma FindCommand_effect:
  assumes buf: "c_string buf string" and names: "\<forall>(name, token) \<in> set cs. 0 \<notin> set name"
  shows "sKSHFindCommand (map (\<lambda>(name, token). (Some (name @ [0]), token)) cs @ [(None, TOKEN_NULL)]) buf =
    Inr (case map_of cs string of Some token \<Rightarrow> token | None \<Rightarrow> TOKEN_ILLEGAL)"
  using names
proof (induction cs)
  case (Cons c cs)
  obtain name token where c: "c = (name, token)" by (cases c)
  then have "0 \<notin> set name" using Cons.prems by simp
  then have "c_string (name @ [0]) name" by (rule c_string_buffer)
  from StringCompare_effect [OF buf this] obtain r where
    r: "StringCompare buf (name @ [0]) = Inr r" "r = 0 \<longleftrightarrow> string = name" by blast
  then show ?case using Cons c by auto
qed simp


section \<open>Commands that only print\<close>

lemma cats_ok: "list_all message_ok cats"
  by (simp add: cats_def message_ok_def bytes_def)

lemma help_lines_ok: "list_all line_ok help_lines"
  by (simp add: help_lines_def line_ok_def bytes_def)

lemma asciiLogo_ok: "list_all message_ok asciiLogo"
  by (simp add: asciiLogo_def message_ok_def literal_def bytes_def)

text \<open>What the lines of \<^verbatim>\<open>kfetch\<close> and \<^verbatim>\<open>ver\<close> take from outside is printable.\<close>

definition build_ok :: "build_info \<Rightarrow> bool" where
  "build_ok b \<longleftrightarrow> message_ok (buildVersion b) \<and> message_ok (buildDate b) \<and> message_ok (buildTime b)"

definition processor_ok :: "'a arch_scheme \<Rightarrow> bool" where
  "processor_ok s \<longleftrightarrow> message_ok (vendorID (gOSBootCPU s)) \<and> family (gOSBootCPU s) \<noteq> 0x80000000 \<and> model (gOSBootCPU s) \<noteq> 0x80000000 \<and>
     (ucast (IOTimerGetTicks s div 1000) :: Int32) \<noteq> 0x80000000"

lemma small_decimal: "unat n < 2 ^ 31 \<Longrightarrow> (ucast (n :: UInt64) :: Int32) \<noteq> 0x80000000"
proof
  assume n: "unat n < 2 ^ 31" and e: "(ucast n :: Int32) = 0x80000000"
  have "unat (ucast n :: Int32) = unat n" using n by (simp add: unsigned_ucast_eq take_bit_nat_eq_self)
  then show False using n unfolding e by simp
qed

lemma ucast_decimal: "(ucast (ucast (n :: UInt32) :: UInt64) :: Int32) = n"
  by (rule bit_word_eqI) (auto simp: bit_simps)

lemma fetch_lines_ok:
  assumes b: "build_ok b" and p: "processor_ok s"
  shows "list_all line_ok (fetch_lines b s)"
proof -
  have logo: "0 \<in> set (asciiLogo ! i) \<and> ascii (takeWhile (\<lambda>c. c \<noteq> 0) (asciiLogo ! i))" if "i < 8" for i
    using asciiLogo_ok that by (simp add: list_all_length asciiLogo_def message_ok_def)
  show ?thesis
    using b p logo [of 0] logo [of 1] logo [of 2] logo [of 3] logo [of 4] logo [of 5] logo [of 6] logo [of 7]
    by (simp add: fetch_lines_def line_ok_def bytes_def directive_piece_def build_ok_def processor_ok_def message_ok_def ucast_decimal)
qed

lemma remainder_decimal: "(ucast ((n :: UInt64) mod 100) :: Int32) \<noteq> 0x80000000"
proof (rule small_decimal)
  have "unat (n mod 100) < 100" by (simp add: unat_mod)
  then show "unat (n mod 100) < 2 ^ 31" by simp
qed

text \<open>The splash screen puts the cursor at fixed places, which a screen must have.\<close>

definition splash_fits :: "'a console_scheme \<Rightarrow> bool" where
  "splash_fits s \<longleftrightarrow> (case sIOGraphicsContextPointer s of None \<Rightarrow> True
     | Some c \<Rightarrow> 75 < sizeWidth (dimensions c) \<and> 120 < sizeHeight (dimensions c))"

lemma splash_fits_printed: "printed s xs t \<Longrightarrow> splash_fits t = splash_fits s"
  by (auto simp: printed_def splash_fits_def split: option.splits)

section \<open>The shell understands its commands\<close>

lemma commands_names: "\<forall>(name, token) \<in> set commands. 0 \<notin> set name"
  by (simp add: commands_def bytes_def)

section \<open>What the commands answer\<close>

text \<open>The text every command has to print, in terms of what was typed; of a text from outside, up to its terminator.\<close>

definition help_answer :: "UInt8 list" where
  "help_answer = concat (map (report_line 0) [[bytes ''Welcome to termOS'', [0x27], bytes ''s kernel shell!''],
       [bytes ''It loads when userspace is failed to load and acts as a basic rescue environment''], [bytes ''Available commands:'']]) @
     concat (map (\<lambda>(group, entries). report_line 1 [bytes group, bytes '':''] @
         concat (map (\<lambda>(command, use). report_line 2 [bytes command, [0x09, 0x09], use]) entries))
       [(''Debug'', [(''sleep       '', bytes ''Sleep for 3seconds''), (''dbg         '', bytes ''Test new stuff''),
           (''regs        '', bytes ''Print current regs''), (''panic       '', bytes ''Panics (lol)''),
           (''ud2         '', bytes ''Panics with #UD''), (''pf          '', bytes ''Panics with #PF'')]),
        (''Fun'', [(''splash      '', bytes ''Shows splash (works kinda unstable)''), (''meow        '', bytes ''cats!!!''),
           (''kfetch      '', bytes ''r/unixporn compatible'')]),
        (''Misc'', [(''clear       '', bytes ''Clear console''), (''help        '', bytes ''Show this menu''),
           (''rand        '', bytes ''Get a random number''), (''ver         '', bytes ''Displays termOS'' @ [0x27] @ bytes ''s version'')])])"

definition fetch_answer :: "build_info \<Rightarrow> 'a arch_scheme \<Rightarrow> UInt8 list" where
  "fetch_answer b s =
     (let row = (\<lambda>cat parts. report_line 0 (bytes '' '' # cat # bytes '' '' # [0x09, 0x09] # parts))
      in [0x0A, 0x0A] @
       row (bytes ''      /'' @ [0x5C] @ bytes ''___/'' @ [0x5C] @ bytes ''     '') [bytes '' kernel@termos''] @
       row (bytes ''     |  > <  |     '') [bytes ''-------------''] @
       row (bytes ''     |   w   |     '') [bytes ''OS: termOS '', c_bytes (buildVersion b)] @
       row (bytes ''     |=======|__   '') [bytes ''Kernel: Dewar (x86_64), build: '', c_bytes (buildDate b), bytes '' '', c_bytes (buildTime b)] @
       row (bytes ''     |       |  |  '') [bytes ''Uptime: '', decimal (sint (ucast (IOTimerGetTicks s div 1000) :: Int32)), bytes '' seconds''] @
       row (bytes ''     |TERMOS |  |  '') [bytes ''Shell: ksh''] @
       row (bytes ''     |       |__|  '') [bytes ''DE: shitgui''] @
       row (bytes ''     |_______|     '') [bytes ''CPU: '', c_bytes (vendorID (gOSBootCPU s)), bytes '' (Family: '',
         decimal (sint (family (gOSBootCPU s))), bytes ''; Model: '', decimal (sint (model (gOSBootCPU s))), bytes '')''] @
       [0x0A, 0x0A])"

definition version_answer :: "build_info \<Rightarrow> UInt8 list" where
  "version_answer b = report_line 0 [bytes ''termOS version '', c_bytes (buildVersion b)] @
     report_line 0 [bytes ''Dewar Kernel (x86_64), build: '', c_bytes (buildDate b), bytes '' '', c_bytes (buildTime b)] @
     report_line 0 [bytes ''License: GPL-3.0-or-later'']"

definition register_answer :: "CPURegisters \<Rightarrow> UInt8 list" where
  "register_answer frame =
     (let rule = report_line 0 [bytes ''--------------------------------'']
      in rule @ report_line 2 [bytes ''REGISTERS''] @ rule @
       report_line 0 [bytes ''RAX='', padded (regRax frame), bytes '', RBX='', padded (regRbx frame)] @
       report_line 0 [bytes ''RCX='', padded (regRcx frame), bytes '', RDX='', padded (regRdx frame)] @
       report_line 0 [bytes ''RSI='', padded (regRsi frame), bytes '', RDI='', padded (regRdi frame)] @
       report_line 0 [bytes ''RBP='', padded (regRbp frame), bytes '', R8 ='', padded (regR8 frame)] @
       report_line 0 [bytes ''R9 ='', padded (regR9 frame), bytes '', R10='', padded (regR10 frame), bytes '' ''] @
       report_line 0 [bytes ''R11='', padded (regR11 frame), bytes '', R12='', padded (regR12 frame)] @
       report_line 0 [bytes ''R13='', padded (regR13 frame), bytes '', R14='', padded (regR14 frame)] @
       report_line 0 [bytes ''R15='', padded (regR15 frame)] @ rule)"

text \<open>A random command draws its number from the generator in the state it starts in.\<close>

definition command_answer :: "build_info \<Rightarrow> CPURegisters \<Rightarrow> 'a arch_scheme \<Rightarrow> UInt8 list \<Rightarrow> UInt8 list" where
  "command_answer b frame s typed =
     (if typed = [] \<or> typed = bytes ''clear'' then []
      else if typed = bytes ''dbg'' then [0x0A] @ report_line 0 [bytes ''Debug ended with code 0'']
      else if typed = bytes ''regs'' then register_answer frame
      else if typed = bytes ''meow''
      then report_line 0 [bytes ''Nyaaa!!''] @ [0x0A] @ c_bytes (cats ! (unat (fst (Rand s)) mod 4)) @ [0x0A, 0x0A]
      else if typed = bytes ''splash'' then report_line 0 [bytes ''Welcome to termOS!!!'']
      else if typed = bytes ''kfetch'' then fetch_answer b s
      else if typed = bytes ''help'' then help_answer
      else if typed = bytes ''rand''
      then report_line 0 [bytes ''Your rand number (0..100) is ... '', decimal (int (unat (fst (Rand s)) mod 100)), bytes ''!'']
      else if typed = bytes ''ver'' then version_answer b
      else report_line 0 [bytes ''Unknown command!!''])"

lemma report_line_low: "report_line 0 ps = concat ps @ [0x0A]" "report_line 1 ps = 0x09 # concat ps @ [0x0A]"
  "report_line (Suc 0) ps = 0x09 # concat ps @ [0x0A]"
  by (simp_all add: report_line_def)

lemma help_text: "concat (map line_text help_lines) = help_answer"
  by (simp add: help_lines_def help_answer_def line_text_def bytes_def report_line_simps report_line_low)

lemma line_text_argument:
  "message_ok buf \<Longrightarrow> takeWhile (\<lambda>c. c \<noteq> 0) buf = c_bytes buf \<and> 0 \<in> set buf \<and> ascii (c_bytes buf)"
  by (simp add: message_ok_def c_bytes_def)

lemma version_text:
  assumes "build_ok b"
  shows "concat (map line_text [(bytes ''termOS version %s'' @ [0x0A, 0], [VAString (Some (buildVersion b))]),
        (bytes ''Dewar Kernel (x86_64), build: %s %s'' @ [0x0A, 0], [VAString (Some (buildDate b)), VAString (Some (buildTime b))]),
        (bytes ''License: GPL-3.0-or-later'' @ [0x0A, 0], [])]) = version_answer b"
  using assms by (simp add: version_answer_def line_text_def bytes_def report_line_low directive_piece_def build_ok_def message_ok_def c_bytes_def)

lemma register_answer_text: "concat (map line_text (breakpoint_lines frame)) = register_answer frame"
  by (simp add: breakpoint_lines_def register_answer_def line_text_def bytes_def directive_piece_def report_line_simps report_line_low Let_def)

lemma fetch_text:
  assumes b: "build_ok b" and p: "processor_ok s"
  shows "concat (map line_text (fetch_lines b s)) = fetch_answer b s"
proof -
  have logo: "asciiLogo ! 0 = bytes ''      /'' @ [0x5C] @ bytes ''___/'' @ [0x5C] @ bytes ''     '' @ [0]"
    "asciiLogo ! 1 = literal ''     |  > <  |     ''" "asciiLogo ! 2 = literal ''     |   w   |     ''"
    "asciiLogo ! 3 = literal ''     |=======|__   ''" "asciiLogo ! 4 = literal ''     |       |  |  ''"
    "asciiLogo ! 5 = literal ''     |TERMOS |  |  ''" "asciiLogo ! 6 = literal ''     |       |__|  ''"
    "asciiLogo ! 7 = literal ''     |_______|     ''" by (simp_all add: asciiLogo_def)
  show ?thesis
    using b p unfolding fetch_lines_def logo
    by (simp add: fetch_answer_def line_text_def bytes_def literal_def directive_piece_def build_ok_def processor_ok_def message_ok_def ucast_decimal
      report_line_low c_bytes_def Let_def)
qed

section \<open>How the commands answer\<close>

lemma Rand_same:
  assumes "console_ok s"
  obtains x t where "Rand s = (x, t)" "fst (Rand s) = x" "console_ok t" "serial_output t = serial_output s"
proof -
  from Rand_console obtain x a b where r: "Rand s = (x, s\<lparr>hardwareRandomReads := a, sPseudorandState := b\<rparr>)" by blast
  have "console_ok (s\<lparr>hardwareRandomReads := a, sPseudorandState := b\<rparr>)" by (rule console_ok_same [OF assms]) simp_all
  with r show ?thesis by (intro that [of x "s\<lparr>hardwareRandomReads := a, sPseudorandState := b\<rparr>"]) (simp_all add: serial_output_def)
qed

definition answered :: "'a console_scheme \<Rightarrow> UInt8 list \<Rightarrow> 'a console_scheme \<Rightarrow> bool" where
  "answered s out t \<longleftrightarrow> console_ok t \<and> serial_output t = serial_output s @ out"

lemma printed_answered: "printed s out t \<Longrightarrow> answered s out t"
  by (simp add: printed_def answered_def)

lemma small_sint: "unat (n :: UInt64) < 2 ^ 31 \<Longrightarrow> sint (ucast n :: Int32) = int (unat n)"
proof -
  assume n: "unat n < 2 ^ 31"
  have u: "unat (ucast n :: Int32) = unat n" using n by (simp add: unsigned_ucast_eq take_bit_nat_eq_self)
  have "signed_take_bit 31 (int (unat n)) = int (unat n)"
    by (rule signed_take_bit_int_eq_self) (use n in \<open>simp_all del: of_nat_unat\<close>)
  then show ?thesis unfolding sint_uint uint_nat u by simp
qed

lemma KSHCommandRand_answers:
  assumes "console_ok s"
  shows "\<exists>t. KSHCommandRand s = Inr t \<and> answered s (report_line 0 [bytes ''Your rand number (0..100) is ... '',
    decimal (int (unat (fst (Rand s)) mod 100)), bytes ''!'']) t"
proof -
  from Rand_same [OF assms] obtain x u where u: "Rand s = (x, u)" "console_ok u" "serial_output u = serial_output s"
    and x: "fst (Rand s) = x" by blast
  let ?l = "(bytes ''Your rand number (0..100) is ... ^y%d^!!'' @ [0x0A, 0], [VANumber (x mod 100)]) :: log_line"
  have ok: "list_all line_ok [?l]" using remainder_decimal [of x] by (simp add: line_ok_def bytes_def directive_piece_def)
  have small: "unat (x mod 100) < 100" by (simp add: unat_mod)
  then have "sint (ucast (x mod 100) :: Int32) = int (unat x mod 100)"
    using small_sint [of "x mod 100"] by (simp add: unat_mod del: of_nat_unat)
  then have "concat (map line_text [?l]) = report_line 0 [bytes ''Your rand number (0..100) is ... '',
    decimal (int (unat x mod 100)), bytes ''!'']"
    using remainder_decimal [of x] by (simp add: line_text_def bytes_def directive_piece_def report_line_low)
  with log_lines_effect [OF u(2) ok] u(1,3) show ?thesis
    unfolding x KSHCommandRand_def by (auto simp: answered_def printed_def)
qed

lemma KSHCommandMeow_answers:
  assumes "console_ok s"
  shows "\<exists>t. KSHCommandMeow s = Inr t \<and> answered s (report_line 0 [bytes ''Nyaaa!!''] @ [0x0A] @
    c_bytes (cats ! (unat (fst (Rand s)) mod 4)) @ [0x0A, 0x0A]) t"
proof -
  from Rand_same [OF assms] obtain x u where u: "Rand s = (x, u)" "console_ok u" "serial_output u = serial_output s"
    and x: "fst (Rand s) = x" by blast
  have n: "length cats = 4" by (simp add: cats_def)
  have small: "unat (x mod 4) < 4" by (simp add: unat_mod)
  then have k: "unat (ucast (x mod 4) :: UInt8) = unat x mod 4"
    by (simp add: unsigned_ucast_eq take_bit_nat_eq_self unat_mod)
  let ?cat = "cats ! (unat x mod 4)"
  have c: "message_ok ?cat" using cats_ok n by (simp add: list_all_length)
  let ?l = "(bytes ''Nyaaa!!'' @ [0x0A, 0x0A] @ bytes ''%s'' @ [0x0A, 0x0A, 0], [VAString (Some ?cat)]) :: log_line"
  have ok: "list_all line_ok [?l]" using c by (simp add: line_ok_def bytes_def directive_piece_def message_ok_def)
  have "concat (map line_text [?l]) = report_line 0 [bytes ''Nyaaa!!''] @ [0x0A] @ c_bytes ?cat @ [0x0A, 0x0A]"
    using c by (simp add: line_text_def bytes_def directive_piece_def report_line_low message_ok_def c_bytes_def)
  with log_lines_effect [OF u(2) ok] u(1,3) have "\<exists>t. log_lines [?l] u = Inr t \<and> answered s (report_line 0 [bytes ''Nyaaa!!''] @ [0x0A] @
    c_bytes ?cat @ [0x0A, 0x0A]) t" by (auto simp: answered_def printed_def)
  moreover have "KSHCommandMeow s = log_lines [?l] u"
    by (simp add: KSHCommandMeow_def u(1) Let_def k array_get_def n split: prod.split)
  ultimately show ?thesis unfolding x by simp
qed

text \<open>Clearing paints the whole screen in the background colour and sends the cursor home; the splash screen
  draws the logo and leaves the cursor below it.\<close>

definition cleared :: "'a console_scheme \<Rightarrow> 'a console_scheme \<Rightarrow> bool" where
  "cleared s t \<longleftrightarrow> (case sIOGraphicsContextPointer s of None \<Rightarrow> t = s
     | Some c \<Rightarrow> \<exists>d. drawn c \<lparr>pointX = 0, pointY = 0\<rparr> (dimensions c) (\<lambda>_ _. Some (sIOConsoleBackgroundColor s)) d \<and>
         t = s\<lparr>sIOGraphicsContextPointer := Some d, sIOConsoleCursorPosition := \<lparr>pointX = 0, pointY = 0\<rparr>\<rparr>)"

definition splashed :: "'a console_scheme \<Rightarrow> 'a console_scheme \<Rightarrow> bool" where
  "splashed s t \<longleftrightarrow> (\<exists>u w.
     (case sIOGraphicsContextPointer s of None \<Rightarrow> u = s
      | Some c \<Rightarrow> \<exists>d. drawn c \<lparr>pointX = 0, pointY = 10\<rparr> (imageSize logoImage) (picture_pixel logoImage) d \<and>
          u = s\<lparr>sIOGraphicsContextPointer := Some d\<rparr>) \<and>
     printed (u\<lparr>sIOConsoleCursorPosition := \<lparr>pointX = 75, pointY = 55\<rparr>\<rparr>) (report_line 0 [bytes ''Welcome to termOS!!!'']) w \<and>
     t = w\<lparr>sIOConsoleCursorPosition := \<lparr>pointX = 0, pointY = 120\<rparr>\<rparr>)"

lemma background_color: "(ucast (IOConsoleGetColors s) AND 0xFFFFFFFF :: UInt32) = sIOConsoleBackgroundColor s"
proof -
  have m: "(0xFFFFFFFF :: UInt32) = mask 32" by (simp add: mask_eq_exp_minus_1)
  show ?thesis unfolding m by (rule bit_word_eqI) (auto simp: bit_simps IOConsoleGetColors_def)
qed

lemma Clear_command:
  assumes ok: "console_ok s"
  shows "\<exists>t. IOConsoleClear (ucast (IOConsoleGetColors s) AND 0xFFFFFFFF) s = Inr t \<and> answered s [] t \<and> cleared s t"
proof (cases "sIOGraphicsContextPointer s")
  case None
  then show ?thesis using ok by (simp add: IOConsoleClear_def answered_def cleared_def)
next
  case (Some c)
  let ?color = "ucast (IOConsoleGetColors s) AND 0xFFFFFFFF :: UInt32"
  have c: "context_ok c" "unat (sizeWidth (dimensions c)) + 32 \<le> 2 ^ 32" "unat (sizeHeight (dimensions c)) + 16 \<le> 2 ^ 32"
    using ok Some by (auto simp: console_ok_def)
  from DrawRectangle_effect [OF c(1), of "\<lparr>pointX = 0, pointY = 0\<rparr>" "dimensions c" ?color] c(2,3) obtain d where
    d: "IOGraphicsDrawRectangle c \<lparr>pointX = 0, pointY = 0\<rparr> (dimensions c) ?color = Inr d"
    "drawn c \<lparr>pointX = 0, pointY = 0\<rparr> (dimensions c) (\<lambda>_ _. Some ?color) d" by auto
  let ?t = "s\<lparr>sIOGraphicsContextPointer := Some d, sIOConsoleCursorPosition := \<lparr>pointX = 0, pointY = 0\<rparr>\<rparr>"
  have "?t = s\<lparr>sIOGraphicsContextPointer := Some d, sIOConsoleCursorPosition := \<lparr>pointX = 0, pointY = 0\<rparr>,
      sIOConsoleBackgroundColor := ?color\<rparr>" unfolding background_color by (rule console.equality) simp_all
  then have run: "IOConsoleClear ?color s = Inr ?t" using Some d(1) by (simp add: IOConsoleClear_def)
  moreover have "cleared s ?t" using Some d(2) unfolding background_color by (auto simp: cleared_def)
  moreover have "answered s [] ?t" using Clear_effect [OF ok, of ?color] run by (auto simp: answered_def)
  ultimately show ?thesis by blast
qed

lemma SplashShow_effect:
  assumes ok: "console_ok s" and fits: "splash_fits s"
  shows "\<exists>t. SplashShow s = Inr t \<and> answered s (report_line 0 [bytes ''Welcome to termOS!!!'']) t \<and> splashed s t"
proof -
  let ?point = "\<lparr>pointX = 0, pointY = 10\<rparr> :: IOGraphicsPoint"
  let ?draw = "case sIOGraphicsContextPointer s of None \<Rightarrow> Inr s
      | Some context \<Rightarrow> bindE (IOGraphicsDrawImage context ?point (Some logoImage)) (\<lambda>context. Inr (s\<lparr>sIOGraphicsContextPointer := Some context\<rparr>))"
  let ?logo = "\<lambda>u. case sIOGraphicsContextPointer s of None \<Rightarrow> u = s
      | Some c \<Rightarrow> \<exists>d. drawn c ?point (imageSize logoImage) (picture_pixel logoImage) d \<and> u = s\<lparr>sIOGraphicsContextPointer := Some d\<rparr>"
  have "\<exists>u. ?draw = Inr u \<and> ?logo u \<and> console_ok u \<and> splash_fits u \<and> serial_output u = serial_output s"
  proof (cases "sIOGraphicsContextPointer s")
    case None then show ?thesis using ok fits by simp
  next
    case (Some c)
    then have c: "context_ok c" using ok by (simp add: console_ok_def)
    have "\<exists>d. IOGraphicsDrawImage c ?point (Some logoImage) = Inr d \<and> drawn c ?point (imageSize logoImage) (picture_pixel logoImage) d"
      by (rule DrawImage_effect [OF c]) (simp_all add: logoImage_def length_logo_data)
    then obtain d where d: "IOGraphicsDrawImage c ?point (Some logoImage) = Inr d"
      "drawn c ?point (imageSize logoImage) (picture_pixel logoImage) d" by blast
    have "dimensions d = dimensions c" "context_ok d" using drawn_ok [OF d(2) c] d(2) by (simp_all add: drawn_def)
    then show ?thesis using Some d ok fits by (auto simp: console_ok_def splash_fits_def transmit_ready_def serial_output_def)
  qed
  then obtain u where u: "?draw = Inr u" "?logo u" "console_ok u" "splash_fits u" "serial_output u = serial_output s" by blast
  let ?v = "u\<lparr>sIOConsoleCursorPosition := \<lparr>pointX = 75, pointY = 55\<rparr>\<rparr>"
  have v: "console_ok ?v" "splash_fits ?v" "serial_output ?v = serial_output s"
    using u(3-5) by (auto simp: console_ok_def splash_fits_def transmit_ready_def serial_output_def word_less_nat_alt split: option.splits)
  let ?l = "(bytes ''Welcome to ^ptermOS^!!!!'' @ [0x0A, 0], []) :: log_line"
  have "line_ok ?l" by (simp add: line_ok_def bytes_def)
  moreover have "line_text ?l = report_line 0 [bytes ''Welcome to termOS!!!'']"
    by (simp add: line_text_def bytes_def report_line_low)
  ultimately obtain w where w: "IOConsoleLog (bytes ''Welcome to ^ptermOS^!!!!'' @ [0x0A, 0]) [] ?v = Inr w"
      "printed ?v (report_line 0 [bytes ''Welcome to termOS!!!'']) w"
    using log_line_effect [OF v(1)] by metis
  let ?t = "w\<lparr>sIOConsoleCursorPosition := \<lparr>pointX = 0, pointY = 120\<rparr>\<rparr>"
  have "console_ok w" "splash_fits w" using printed_ok [OF w(2)] splash_fits_printed [OF w(2)] v(2) by simp_all
  then have "console_ok ?t"
    by (auto simp: console_ok_def splash_fits_def transmit_ready_def word_less_nat_alt split: option.splits)
  moreover have "serial_output ?t = serial_output s @ report_line 0 [bytes ''Welcome to termOS!!!'']"
    using w(2) v(3) by (simp add: printed_def serial_output_def)
  moreover have "SplashShow s = Inr ?t"
    using u(1) w(1) by (simp add: SplashShow_def IOConsoleGetGraphicsContext_def IOConsoleSetCursorPosition_def)
  moreover have "splashed s ?t" unfolding splashed_def using u(2) w(2) by blast
  ultimately show ?thesis by (auto simp: answered_def)
qed

lemma log_answers:
  "console_ok s \<Longrightarrow> list_all line_ok ls \<Longrightarrow> concat (map line_text ls) = out \<Longrightarrow> \<exists>t. log_lines ls s = Inr t \<and> printed s out t"
  using log_lines_effect by blast

lemma text_commands:
  assumes ok: "console_ok s" and env: "build_ok b" "processor_ok s"
  shows "\<exists>t. KSHCommandHelp s = Inr t \<and> printed s help_answer t"
    "\<exists>t. KSHCommandKernelFetch b s = Inr t \<and> printed s (fetch_answer b s) t"
    "\<exists>t. KSHCommandVer b s = Inr t \<and> printed s (version_answer b) t"
    "\<exists>t. KSHCommandDebug s = Inr t \<and> printed s ([0x0A] @ report_line 0 [bytes ''Debug ended with code 0'']) t"
    "\<exists>t. log_lines [(bytes ''Unknown command!!'' @ [0x0A, 0], [])] s = Inr t \<and> printed s (report_line 0 [bytes ''Unknown command!!'']) t"
proof -
  show "\<exists>t. KSHCommandHelp s = Inr t \<and> printed s help_answer t"
    unfolding KSHCommandHelp_def by (rule log_answers [OF ok help_lines_ok help_text])
  show "\<exists>t. KSHCommandKernelFetch b s = Inr t \<and> printed s (fetch_answer b s) t"
    unfolding KSHCommandKernelFetch_def by (rule log_answers [OF ok fetch_lines_ok [OF env] fetch_text [OF env]])
  show "\<exists>t. KSHCommandVer b s = Inr t \<and> printed s (version_answer b) t"
    unfolding KSHCommandVer_def using env(1)
    by (intro log_answers [OF ok _ version_text [OF env(1)]]) (simp add: line_ok_def bytes_def directive_piece_def build_ok_def message_ok_def)
  have zero: "decimal 0 = [0x30]" by (simp add: decimal_def number_digits.simps digit_char_def)
  show "\<exists>t. KSHCommandDebug s = Inr t \<and> printed s ([0x0A] @ report_line 0 [bytes ''Debug ended with code 0'']) t"
    unfolding KSHCommandDebug_def
    by (rule log_answers [OF ok]) (simp_all add: KSHDebug_def line_ok_def line_text_def bytes_def directive_piece_def report_line_low zero)
  show "\<exists>t. log_lines [(bytes ''Unknown command!!'' @ [0x0A, 0], [])] s = Inr t \<and> printed s (report_line 0 [bytes ''Unknown command!!'']) t"
    by (rule log_answers [OF ok]) (simp_all add: line_ok_def line_text_def bytes_def report_line_low)
qed

lemma breakpoint_lines_ok: "list_all line_ok (breakpoint_lines frame)"
  by (simp add: breakpoint_lines_def line_ok_def bytes_def directive_piece_def)

lemma KSHCommandRegisters_answers:
  fixes s :: "'a scheduler_scheme"
  assumes ok: "console_ok s"
  shows "\<exists>t. KSHCommandRegisters interrupt32 frame registers s = Inr t \<and> printed s (register_answer registers) t"
proof -
  have "register_answer (registers\<lparr>regInterruptNumber := 3, regCs := 0x08\<rparr>) = register_answer registers"
    by (simp add: register_answer_def)
  then show ?thesis
    using log_answers [OF ok breakpoint_lines_ok register_answer_text, of "registers\<lparr>regInterruptNumber := 3, regCs := 0x08\<rparr>"]
    by (simp add: KSHCommandRegisters_def kernel_exception_def isr_handler_c_def)
qed

text \<open>The exceptions a command can raise end in the report of the exception.\<close>

lemma kernel_exception_reports:
  fixes s :: "'a scheduler_scheme" and registers :: CPURegisters
  assumes ok: "console_ok s" and n: "n < 32" "n \<noteq> 3"
  defines "r \<equiv> registers\<lparr>regInterruptNumber := n, regCs := 0x08\<rparr>"
  shows "\<exists>t joke. kernel_exception interrupt32 frame registers cr2 n s = Inr t \<and> \<not> interruptFlag t \<and> joke \<in> set sOSPanicFunMessages \<and>
    serial_output t = serial_output s @ panic_head (c_bytes joke) @ fault_report r @
      (if n = 14 then page_fault_report cr2 (regErrorCode registers) else []) @ register_report r"
proof -
  have r: "regInterruptNumber r = n" "regErrorCode r = regErrorCode registers" "regCs r = 8" by (simp_all add: r_def)
  have "kernel_exception interrupt32 frame registers cr2 n s = OSPanicException cr2 r s"
    using n(2) r by (simp add: kernel_exception_def isr_handler_c_def r_def)
  then show ?thesis using exception_report_effect [OF ok, of r cr2] n(1) unfolding r(1,2) by simp
qed

text \<open>The token of what was typed, and what it makes the shell do.\<close>

definition typed_token :: "UInt8 list \<Rightarrow> KSHToken" where
  "typed_token typed = (case map_of commands typed of Some token \<Rightarrow> token | None \<Rightarrow> TOKEN_ILLEGAL)"

lemma typed_tokens:
  "typed_token [] = TOKEN_EMPTY" "typed_token (bytes ''sleep'') = TOKEN_SLEEP" "typed_token (bytes ''dbg'') = TOKEN_DEBUG"
  "typed_token (bytes ''regs'') = TOKEN_REGS" "typed_token (bytes ''panic'') = TOKEN_PANIC" "typed_token (bytes ''ud2'') = TOKEN_PANIC_UD2"
  "typed_token (bytes ''pf'') = TOKEN_PANIC_PF" "typed_token (bytes ''meow'') = TOKEN_MEOW" "typed_token (bytes ''splash'') = TOKEN_SPLASH"
  "typed_token (bytes ''kfetch'') = TOKEN_KFETCH" "typed_token (bytes ''help'') = TOKEN_HELP" "typed_token (bytes ''clear'') = TOKEN_CLEAR"
  "typed_token (bytes ''rand'') = TOKEN_RAND" "typed_token (bytes ''ver'') = TOKEN_VER"
  by (simp_all add: typed_token_def commands_def bytes_def)

lemma typed_unknown: "typed \<notin> fst ` set commands \<Longrightarrow> typed_token typed = TOKEN_ILLEGAL"
  by (simp add: typed_token_def map_of_eq_None_iff [symmetric])

lemma typed_cases:
  obtains "typed = []" | "typed = bytes ''sleep''" | "typed = bytes ''dbg''" | "typed = bytes ''regs''" | "typed = bytes ''panic''"
    | "typed = bytes ''ud2''" | "typed = bytes ''pf''" | "typed = bytes ''meow''" | "typed = bytes ''splash''" | "typed = bytes ''kfetch''"
    | "typed = bytes ''help''" | "typed = bytes ''clear''" | "typed = bytes ''rand''" | "typed = bytes ''ver''" | "typed \<notin> fst ` set commands"
  by (simp add: commands_def) blast

lemma bytes_distinct: "bytes a = bytes b \<longleftrightarrow> map of_char a = (map of_char b :: UInt8 list)" "bytes a = [] \<longleftrightarrow> a = []"
  by (simp_all add: bytes_def)

lemma command_answers:
  "command_answer b frame s [] = []"
  "command_answer b frame s (bytes ''clear'') = []"
  "command_answer b frame s (bytes ''dbg'') = [0x0A] @ report_line 0 [bytes ''Debug ended with code 0'']"
  "command_answer b frame s (bytes ''regs'') = register_answer frame"
  "command_answer b frame s (bytes ''meow'') =
     report_line 0 [bytes ''Nyaaa!!''] @ [0x0A] @ c_bytes (cats ! (unat (fst (Rand s)) mod 4)) @ [0x0A, 0x0A]"
  "command_answer b frame s (bytes ''splash'') = report_line 0 [bytes ''Welcome to termOS!!!'']"
  "command_answer b frame s (bytes ''kfetch'') = fetch_answer b s"
  "command_answer b frame s (bytes ''help'') = help_answer"
  "command_answer b frame s (bytes ''rand'') =
     report_line 0 [bytes ''Your rand number (0..100) is ... '', decimal (int (unat (fst (Rand s)) mod 100)), bytes ''!'']"
  "command_answer b frame s (bytes ''ver'') = version_answer b"
  "typed \<notin> fst ` set commands \<Longrightarrow> command_answer b frame s typed = report_line 0 [bytes ''Unknown command!!'']"
  by (simp_all add: command_answer_def bytes_distinct commands_def)

lemma execute_answers:
  fixes s :: "'a scheduler_scheme"
  assumes ok: "console_ok s" and env: "build_ok b" "processor_ok s" "splash_fits s"
    and quiet: "typed \<notin> bytes ` {''sleep'', ''panic'', ''ud2'', ''pf''}"
  shows "\<exists>t. sKSHExecute b interrupt32 frame registers (typed_token typed) s = Inr t \<and>
    answered s (command_answer b registers s typed) t \<and>
    (typed \<notin> bytes ` {''clear'', ''splash'', ''meow'', ''rand''} \<longrightarrow> printed s (command_answer b registers s typed) t) \<and>
    (typed = bytes ''clear'' \<longrightarrow> cleared s t) \<and> (typed = bytes ''splash'' \<longrightarrow> splashed s t)"
proof -
  note texts = text_commands [OF ok env(1,2)] and ans = command_answers [where b = b and frame = registers and s = s]
  have answer: "\<exists>t. run = Inr t \<and> answered s out t \<and> (A \<longrightarrow> printed s out t) \<and> (B \<longrightarrow> cleared s t) \<and> (C \<longrightarrow> splashed s t)"
    if "\<exists>t. run = Inr t \<and> printed s out t" "\<not> B" "\<not> C" for run :: "fault + 'a scheduler_scheme" and out A B C
    using that printed_answered by blast
  show ?thesis
  proof (cases rule: typed_cases [of typed])
    case 1
    have "\<exists>t. Inr s = (Inr t :: fault + 'a scheduler_scheme) \<and> printed s [] t" using ok printed_nothing by blast
    then show ?thesis unfolding 1 typed_tokens ans sKSHExecute_def KSHToken.case by (rule answer) (simp_all add: bytes_def)
  next
    case 2
    with quiet show ?thesis by simp
  next
    case 3
    show ?thesis unfolding 3 typed_tokens ans sKSHExecute_def KSHToken.case by (rule answer [OF texts(4)]) (simp_all add: bytes_distinct)
  next
    case 4
    show ?thesis unfolding 4 typed_tokens ans sKSHExecute_def KSHToken.case by (rule answer [OF KSHCommandRegisters_answers [OF ok]]) (simp_all add: bytes_distinct)
  next
    case 5
    with quiet show ?thesis by simp
  next
    case 6
    with quiet show ?thesis by simp
  next
    case 7
    with quiet show ?thesis by simp
  next
    case 8
    show ?thesis unfolding 8 typed_tokens ans sKSHExecute_def KSHToken.case using KSHCommandMeow_answers [OF ok] by (simp add: bytes_distinct)
  next
    case 9
    show ?thesis unfolding 9 typed_tokens ans sKSHExecute_def KSHToken.case using SplashShow_effect [OF ok env(3)] by (simp add: bytes_distinct)
  next
    case 10
    show ?thesis unfolding 10 typed_tokens ans sKSHExecute_def KSHToken.case by (rule answer [OF texts(2)]) (simp_all add: bytes_distinct)
  next
    case 11
    show ?thesis unfolding 11 typed_tokens ans sKSHExecute_def KSHToken.case by (rule answer [OF texts(1)]) (simp_all add: bytes_distinct)
  next
    case 12
    show ?thesis unfolding 12 typed_tokens ans sKSHExecute_def KSHToken.case using Clear_command [OF ok] by (simp add: bytes_distinct)
  next
    case 13
    show ?thesis unfolding 13 typed_tokens ans sKSHExecute_def KSHToken.case using KSHCommandRand_answers [OF ok] by (simp add: bytes_distinct)
  next
    case 14
    show ?thesis unfolding 14 typed_tokens ans sKSHExecute_def KSHToken.case by (rule answer [OF texts(3)]) (simp_all add: bytes_distinct)
  next
    case 15
    have "typed \<noteq> bytes ''clear''" "typed \<noteq> bytes ''splash''" using 15 by (auto simp: commands_def)
    then show ?thesis unfolding typed_unknown [OF 15] ans(11) [OF 15] sKSHExecute_def KSHToken.case by (intro answer [OF texts(5)]) simp_all
  qed
qed

section \<open>Properties\<close>

text \<open>C36: What is typed into the rescue shell selects the command of that name, anything else is an unknown
  command. Every command but \<open>sleep\<close>, \<open>panic\<close>, \<open>ud2\<close> and \<open>pf\<close> returns to the shell with the console in order, having
  printed exactly its answer: the help, the version, the system's data, the cat or the number the generator
  draws, the registers, nothing for an empty line. \<open>clear\<close> paints the screen in the background colour and homes
  the cursor, \<open>splash\<close> draws the logo. \<open>sleep\<close> yields for three thousand ticks, \<open>panic\<close> panics, and \<open>ud2\<close>, and \<open>pf\<close>
  where the address it writes is not mapped, never come back: the handler reports exception 6, or 14 with that
  address, and halts.\<close>

theorem shell_command_correct:
  fixes s :: "'a scheduler_scheme"
  assumes buf: "c_string buf typed"
    and env: "console_ok s" "build_ok b" "processor_ok s" "splash_fits s"
  shows "\<exists>token. KSHCharacter2Token buf = Inr token \<and>
    token = (case map_of commands typed of Some token \<Rightarrow> token | None \<Rightarrow> TOKEN_ILLEGAL) \<and>
    (typed \<notin> bytes ` {''sleep'', ''panic'', ''ud2'', ''pf''} \<longrightarrow>
      (\<exists>t. sKSHExecute b interrupt32 frame registers token s = Inr t \<and>
         console_ok t \<and> serial_output t = serial_output s @ command_answer b registers s typed \<and>
         (typed \<notin> bytes ` {''clear'', ''splash'', ''meow'', ''rand''} \<longrightarrow> printed s (command_answer b registers s typed) t) \<and>
         (typed = bytes ''clear'' \<longrightarrow> cleared s t) \<and> (typed = bytes ''splash'' \<longrightarrow> splashed s t))) \<and>
    (typed = bytes ''sleep'' \<longrightarrow> sKSHExecute b interrupt32 frame registers token s = OSSchedulerYield interrupt32 3000 s) \<and>
    (typed = bytes ''panic'' \<longrightarrow> sKSHExecute b interrupt32 frame registers token s = Inl (Panic ''Manually initiated panic'')) \<and>
    (typed = bytes ''ud2'' \<longrightarrow> sKSHExecute b interrupt32 frame registers token s = Inl Diverges \<and>
      (\<exists>t joke. kernel_exception interrupt32 frame registers 0 6 s = Inr t \<and> \<not> interruptFlag t \<and> joke \<in> set sOSPanicFunMessages \<and>
         serial_output t = serial_output s @ panic_head (c_bytes joke) @ fault_report (registers\<lparr>regInterruptNumber := 6, regCs := 0x08\<rparr>) @
           register_report (registers\<lparr>regInterruptNumber := 6, regCs := 0x08\<rparr>))) \<and>
    (typed = bytes ''pf'' \<and> translate (mem s) (cr3 s) 0xDEADBEEF = None \<longrightarrow>
      sKSHExecute b interrupt32 frame registers token s = Inl Diverges \<and>
      (\<exists>t joke. kernel_exception interrupt32 frame registers 0xDEADBEEF 14 s = Inr t \<and> \<not> interruptFlag t \<and> joke \<in> set sOSPanicFunMessages \<and>
         serial_output t = serial_output s @ panic_head (c_bytes joke) @ fault_report (registers\<lparr>regInterruptNumber := 14, regCs := 0x08\<rparr>) @
           page_fault_report 0xDEADBEEF (regErrorCode registers) @ register_report (registers\<lparr>regInterruptNumber := 14, regCs := 0x08\<rparr>)))"
proof (intro exI [of _ "typed_token typed"] conjI impI)
  show "KSHCharacter2Token buf = Inr (typed_token typed)"
    using FindCommand_effect [OF buf commands_names] by (simp add: KSHCharacter2Token_def CommandMap_commands typed_token_def)
  show "typed_token typed = (case map_of commands typed of Some token \<Rightarrow> token | None \<Rightarrow> TOKEN_ILLEGAL)" by (rule typed_token_def)
next
  assume "typed \<notin> bytes ` {''sleep'', ''panic'', ''ud2'', ''pf''}"
  from execute_answers [OF env this] show "\<exists>t. sKSHExecute b interrupt32 frame registers (typed_token typed) s = Inr t \<and>
         console_ok t \<and> serial_output t = serial_output s @ command_answer b registers s typed \<and>
         (typed \<notin> bytes ` {''clear'', ''splash'', ''meow'', ''rand''} \<longrightarrow> printed s (command_answer b registers s typed) t) \<and>
         (typed = bytes ''clear'' \<longrightarrow> cleared s t) \<and> (typed = bytes ''splash'' \<longrightarrow> splashed s t)"
    unfolding answered_def by (simp only: conj_assoc)
next
  assume "typed = bytes ''sleep''"
  then show "sKSHExecute b interrupt32 frame registers (typed_token typed) s = OSSchedulerYield interrupt32 3000 s"
    by (simp add: typed_tokens sKSHExecute_def KSHCommandSleep_def)
next
  assume "typed = bytes ''panic''"
  then show "sKSHExecute b interrupt32 frame registers (typed_token typed) s = Inl (Panic ''Manually initiated panic'')"
    by (simp add: typed_tokens sKSHExecute_def)
next
  assume u: "typed = bytes ''ud2''"
  from kernel_exception_reports [OF env(1), where n = 6 and ?interrupt32.0 = interrupt32 and frame = frame and registers = registers and ?cr2.0 = 0]
  show r: "\<exists>t joke. kernel_exception interrupt32 frame registers 0 6 s = Inr t \<and> \<not> interruptFlag t \<and> joke \<in> set sOSPanicFunMessages \<and>
         serial_output t = serial_output s @ panic_head (c_bytes joke) @ fault_report (registers\<lparr>regInterruptNumber := 6, regCs := 0x08\<rparr>) @
           register_report (registers\<lparr>regInterruptNumber := 6, regCs := 0x08\<rparr>)" by simp
  then show "sKSHExecute b interrupt32 frame registers (typed_token typed) s = Inl Diverges"
    unfolding u typed_tokens sKSHExecute_def KSHToken.case by (elim exE conjE) (simp only: bindE_Inr)
next
  assume u: "typed = bytes ''pf'' \<and> translate (mem s) (cr3 s) 0xDEADBEEF = None"
  from kernel_exception_reports [OF env(1), where n = 14 and ?interrupt32.0 = interrupt32 and frame = frame and registers = registers and ?cr2.0 = "0xDEADBEEF"]
  show r: "\<exists>t joke. kernel_exception interrupt32 frame registers 0xDEADBEEF 14 s = Inr t \<and> \<not> interruptFlag t \<and> joke \<in> set sOSPanicFunMessages \<and>
         serial_output t = serial_output s @ panic_head (c_bytes joke) @ fault_report (registers\<lparr>regInterruptNumber := 14, regCs := 0x08\<rparr>) @
           page_fault_report 0xDEADBEEF (regErrorCode registers) @ register_report (registers\<lparr>regInterruptNumber := 14, regCs := 0x08\<rparr>)" by simp
  have n: "translate (mem s) (cr3 s) 0xDEADBEEF = None" using u by simp
  from r show "sKSHExecute b interrupt32 frame registers (typed_token typed) s = Inl Diverges"
    unfolding conjunct1 [OF u] typed_tokens sKSHExecute_def KSHToken.case sKSHPageFault_def n option.case
    by (elim exE conjE) (simp only: bindE_Inr)
qed

definition small_build :: build_info where
  "small_build = \<lparr>buildVersion = literal ''1'', buildDate = literal ''d'', buildTime = literal ''t''\<rparr>"

definition small_shell :: filesystem where
  "small_shell = small_process
     \<lparr>sIOGraphicsContextPointer := Some \<lparr>framebuffer = Some (replicate 16384 0), dimensions = \<lparr>sizeWidth = 128, sizeHeight = 128\<rparr>,
        pixelsPerScanLine = 128\<rparr>\<rparr>"

lemma small_shell_ok: "console_ok small_shell" "build_ok small_build" "processor_ok small_shell" "splash_fits small_shell"
proof -
  show "build_ok small_build" by (simp add: build_ok_def small_build_def message_ok_def literal_def bytes_def)
  show "processor_ok small_shell"
    by (simp add: processor_ok_def message_ok_def IOTimerGetTicks_def small_shell_def small_process_def small_loader_def small_filesystem_def
        small_scheduler_def small_arch_def small_console_def small_devices_def filesystem.defs scheduler.defs arch.defs console.defs devices.defs)
  show "splash_fits small_shell" by (simp add: splash_fits_def small_shell_def)
  show "console_ok small_shell"
    by (auto simp: console_ok_def transmit_ready_def small_shell_def small_process_def small_loader_def small_filesystem_def context_ok_def
        small_scheduler_def small_arch_def small_console_def small_devices_def filesystem.defs scheduler.defs arch.defs console.defs devices.defs)
qed

lemma shell_command_correct_witness:
  "KSHCharacter2Token (literal ''ver'') = Inr TOKEN_VER \<and>
   (\<exists>t. sKSHExecute small_build Inr 0 (frame_registers 0 False 0 0) TOKEN_VER small_shell = Inr t \<and>
      serial_output t = serial_output small_shell @ bytes ''termOS version 1'' @ [0x0A] @
        bytes ''Dewar Kernel (x86_64), build: d t'' @ [0x0A] @ bytes ''License: GPL-3.0-or-later'' @ [0x0A])"
proof -
  have "c_string (bytes ''ver'' @ [0]) (bytes ''ver'')" by (rule c_string_buffer) (simp add: bytes_def)
  from shell_command_correct [OF this small_shell_ok, where ?interrupt32.0 = Inr and frame = 0 and registers = "frame_registers 0 False 0 0"]
  have "KSHCharacter2Token (bytes ''ver'' @ [0]) = Inr TOKEN_VER" "\<exists>t. sKSHExecute small_build Inr 0 (frame_registers 0 False 0 0) TOKEN_VER small_shell = Inr t \<and>
      serial_output t = serial_output small_shell @ command_answer small_build (frame_registers 0 False 0 0) small_shell (bytes ''ver'')"
    unfolding typed_token_def [symmetric] typed_tokens by (auto simp: bytes_distinct)
  moreover have "version_answer small_build = bytes ''termOS version 1'' @ [0x0A] @
        bytes ''Dewar Kernel (x86_64), build: d t'' @ [0x0A] @ bytes ''License: GPL-3.0-or-later'' @ [0x0A]"
    by (simp add: version_answer_def small_build_def report_line_low c_bytes_def literal_def bytes_def)
  ultimately show ?thesis unfolding command_answers literal_def by simp
qed

end
