(* ===== verification/Boot.thy ===== *)
theory Boot
  imports Shell
begin

text \<open>
  The start of the kernel, \<^verbatim>\<open>kernel/src/kmain.c\<close>, from what the boot loader hands over (\<^verbatim>\<open>common/bootinfo.h\<close>) to
  the first task. \<open>kmain\<close> is split into its stages; each calls the components in the order of the code. What the
  linker decides and what the frame buffer shows at first are arguments.
\<close>

unbundle bit_operations_syntax

section \<open>What the boot loader hands over\<close>

record BIInitramfs =
  initramfsAddress :: UInt64
  initramfsSize :: UInt64

record Bootinfo =
  bootMagic :: UInt64
  bootFramebuffer :: BIFramebuffer
  bootMemoryMap :: BIMemoryMap
  bootInitramfs :: BIInitramfs

text \<open>Where the linker script puts the kernel and the page under its stack.\<close>

record linker_symbols =
  kernelStart :: UInt64
  kernelEnd :: UInt64
  stackGuard :: UInt64

abbreviation kDefaultConsoleForegroundColor :: UInt32 where
  "kDefaultConsoleForegroundColor \<equiv> 0xFFFFFF"

abbreviation kDefaultConsoleBackgroundColor :: UInt32 where
  "kDefaultConsoleBackgroundColor \<equiv> 0x111111"

section \<open>The stages of \<^verbatim>\<open>kmain\<close>\<close>

text \<open>A line of the log without arguments.\<close>

definition report :: "string \<Rightarrow> 'a console_scheme \<Rightarrow> fault + 'a console_scheme" where
  "report message s = IOConsoleLog (bytes message @ [0x0A, 0]) [] s"

text \<open>The static context of the screen, which the console refers to before there is a frame buffer.\<close>

definition blank_context :: IOGraphicsContext where
  "blank_context = \<lparr>framebuffer = None, dimensions = \<lparr>sizeWidth = 0, sizeHeight = 0\<rparr>, pixelsPerScanLine = 0\<rparr>"

definition kmain_console :: "Bootinfo \<Rightarrow> 'a console_scheme \<Rightarrow> fault + 'a console_scheme" where
  "kmain_console info s =
     (let s = IOSerialInit s
      in bindE (IOSerialWrite (bytes ''Kernel started'' @ [0x0A, 0]) s) (\<lambda>s.
         let s = IOConsoleInit (Some blank_context) s
         in if bootMagic info \<noteq> BOOTINFO_MAGIC then Inl (Panic ''Corrupt bootinfo!'') else Inr s))"

definition kmain_processor :: "'a arch_scheme \<Rightarrow> fault + 'a arch_scheme" where
  "kmain_processor s =
     bindE (report ''Got CPUINFO'' (OSCPUInitialize (kernelSymbol s SymStackTop) s)) (\<lambda>s.
     bindE (report ''Random initialized'' (RandInitialize s)) (\<lambda>s.
     bindE (HALGlobalDescriptorTableInitialize s) (\<lambda>s.
     bindE (report ''GDT initialized'' s) (\<lambda>s.
     bindE (HALInterruptsDescriptorTableInitialize s) (\<lambda>s.
     bindE (report ''IDT initialized'' s) (\<lambda>s.
       report ''PIC remapped'' (snd (HALLegacyInterruptControllerRemap s))))))))"

text \<open>The boot information is returned with the frame buffer where \<^verbatim>\<open>VMVirtualMemoryInitialize\<close> mapped it.\<close>

definition kmain_memory ::
  "linker_symbols \<Rightarrow> ('a scheduler_scheme \<Rightarrow> fault + 'a scheduler_scheme) \<Rightarrow> Bootinfo \<Rightarrow> 'a scheduler_scheme \<Rightarrow>
   fault + Bootinfo \<times> 'a scheduler_scheme" where
  "kmain_memory l interrupt32 info s =
     bindE (VMPhysicalMemoryInitialize (kernelStart l) (kernelEnd l) (bootMemoryMap info) s) (\<lambda>s.
     bindE (report ''PMM initialized'' s) (\<lambda>s.
     bindE (VMVirtualMemoryInitialize (kernelStart l) (kernelEnd l) (stackGuard l) (bootFramebuffer info) s) (\<lambda>(fb, s).
     let info = info\<lparr>bootFramebuffer := fb\<rparr>
     in bindE (report ''VMM initialized'' s) (\<lambda>s.
        bindE (IOTimerInitialize 1000 s) (\<lambda>s.
        bindE (report ''Timer initialized'' s) (\<lambda>s.
        bindE (VMHeapInitialize s) (\<lambda>s.
        bindE (report ''Heap initialized'' s) (\<lambda>s.
        bindE (OSSchedulerInitialize interrupt32 s) (\<lambda>s.
        bindE (report ''Scheduler initialized'' s) (\<lambda>s.
        bindE (OSServicesInitialize s) (\<lambda>s.
        bindE (IOConsoleLog (literal ''Syscalls initialized'') [] s) (\<lambda>s.
          Inr (info, s)))))))))))))"

definition kmain_volume :: "Bootinfo \<Rightarrow> 'a filesystem_scheme \<Rightarrow> fault + 'a filesystem_scheme" where
  "kmain_volume info s =
     bindE (FSCPIOMount (PHYS_TO_HHDM (initramfsAddress (bootInitramfs info))) (initramfsSize (bootInitramfs info)) s) (\<lambda>(root, s).
       report ''VFS initialized'' (FSVirtualFileSystemInitialize root s))"

text \<open>\<open>pixels\<close> is what the frame buffer shows when the kernel gets it.\<close>

definition kmain_screen :: "UInt32 list \<Rightarrow> Bootinfo \<Rightarrow> 'a console_scheme \<Rightarrow> fault + 'a console_scheme" where
  "kmain_screen pixels info s =
     (let fb = bootFramebuffer info
      in if framebufferBase fb = 0 then Inl (Panic ''No framebuffer found!!'')
         else
           let s = s\<lparr>sIOGraphicsContextPointer := Some
                 \<lparr>framebuffer = Some pixels,
                  dimensions = \<lparr>sizeWidth = ucast (framebufferWidth fb), sizeHeight = ucast (framebufferHeight fb)\<rparr>,
                  pixelsPerScanLine = ucast (framebufferPitch fb)\<rparr>\<rparr>
           in bindE (IOConsoleClear kDefaultConsoleBackgroundColor s) (\<lambda>s.
                SplashShow (IOConsoleSetDefaultForegroundColor kDefaultConsoleForegroundColor
                  (IOConsoleSetForegroundColor kDefaultConsoleForegroundColor s))))"

text \<open>Whether to stay in the kernel's shell: without a volume, or when the key pressed is \<^verbatim>\<open>q\<close>.\<close>

definition kmain_rescue ::
  "('a console_scheme \<Rightarrow> fault + 'a console_scheme) \<Rightarrow> Bootinfo \<Rightarrow> 'a console_scheme \<Rightarrow> fault + bool \<times> 'a console_scheme" where
  "kmain_rescue yield info s =
     (if initramfsAddress (bootInitramfs info) = 0
      then bindE (IOConsoleLog (bytes ''^rWARNING^!: Failed to load ^yStartupVolume^!! Staying in kernel rescue shell!'' @ [0x0A, 0x0A, 0]) [] s)
             (\<lambda>s. Inr (True, s))
      else bindE (IOConsoleLog (bytes ''Press any key to continue booting. '' @ [0x0A] @ bytes ''Press ^yq^! to stay in ^gksh^!'' @ [0x0A, 0]) [] s) (\<lambda>s.
           bindE (IOKeyboardGetCharacter yield s) (\<lambda>(c, s). Inr (c = asc CHR ''q'', s))))"

text \<open>The processor then halts with interrupts on, and the timer starts the tasks.\<close>

definition kmain_start ::
  "('a scheduler_scheme \<Rightarrow> fault + 'a scheduler_scheme) \<Rightarrow> bool \<Rightarrow> 'a scheduler_scheme \<Rightarrow> fault + 'a scheduler_scheme" where
  "kmain_start interrupt32 rescueMode s =
     bindE (OSSchedulerSpawn interrupt32 (kernelSymbol s (if rescueMode then SymShellEntry else SymInitTask)) 0 False 0 s) (\<lambda>(_, s).
       Inr (s\<lparr>interruptFlag := True\<rparr>))"

definition kmain ::
  "linker_symbols \<Rightarrow> UInt32 list \<Rightarrow> ('a filesystem_scheme \<Rightarrow> fault + 'a filesystem_scheme) \<Rightarrow>
   ('a filesystem_scheme \<Rightarrow> fault + 'a filesystem_scheme) \<Rightarrow> Bootinfo \<Rightarrow> 'a filesystem_scheme \<Rightarrow> fault + 'a filesystem_scheme" where
  "kmain l pixels interrupt32 yield info s =
     bindE (kmain_console info s) (\<lambda>s.
     bindE (kmain_processor s) (\<lambda>s.
     bindE (kmain_memory l interrupt32 info s) (\<lambda>(info, s).
     bindE (kmain_volume info s) (\<lambda>s.
     bindE (kmain_screen pixels info s) (\<lambda>s.
     bindE (kmain_rescue yield info s) (\<lambda>(rescueMode, s).
       kmain_start interrupt32 rescueMode s))))))"

section \<open>The console before there is a screen\<close>

definition early_ok :: "'a console_scheme \<Rightarrow> bool" where
  "early_ok s \<longleftrightarrow> transmit_ready s \<and> sIOGraphicsContextPointer s = Some blank_context"

definition early_printed :: "'a console_scheme \<Rightarrow> UInt8 list \<Rightarrow> 'a console_scheme \<Rightarrow> bool" where
  "early_printed s out t \<longleftrightarrow> (\<exists>r w c p b. c = Some blank_context \<and> w = portWrites s @ map (Pair kIOCom1Port) out \<and>
     t = s\<lparr>portReads := r, portWrites := w, sIOGraphicsContextPointer := c, sIOConsoleCursorPosition := p, sIOConsoleBackgroundColor := b\<rparr>)"

lemma early_printed_nothing: "early_ok s \<Longrightarrow> early_printed s [] s"
  unfolding early_printed_def early_ok_def
  by (intro exI [of _ "portReads s"] exI [of _ "portWrites s"] exI [of _ "sIOGraphicsContextPointer s"]
      exI [of _ "sIOConsoleCursorPosition s"] exI [of _ "sIOConsoleBackgroundColor s"]) simp

lemma early_printed_trans:
  assumes "early_printed s xs t" "early_printed t ys u" shows "early_printed s (xs @ ys) u"
proof -
  from assms(1) obtain r w c p b where t: "c = Some blank_context" "w = portWrites s @ map (Pair kIOCom1Port) xs"
    "t = s\<lparr>portReads := r, portWrites := w, sIOGraphicsContextPointer := c, sIOConsoleCursorPosition := p, sIOConsoleBackgroundColor := b\<rparr>"
    unfolding early_printed_def by blast
  from assms(2) obtain r' w' c' p' b' where "c' = Some blank_context" "w' = portWrites t @ map (Pair kIOCom1Port) ys"
    "u = t\<lparr>portReads := r', portWrites := w', sIOGraphicsContextPointer := c', sIOConsoleCursorPosition := p', sIOConsoleBackgroundColor := b'\<rparr>"
    unfolding early_printed_def by blast
  with t show ?thesis unfolding early_printed_def
    by (intro exI [of _ r'] exI [of _ w'] exI [of _ c'] exI [of _ p'] exI [of _ b']) simp
qed

lemma early_printed_ok: "early_printed s xs t \<Longrightarrow> early_ok s \<Longrightarrow> early_ok t"
  unfolding early_printed_def by (elim exE conjE) (simp add: early_ok_def transmit_ready_def)

lemma early_putcharacter:
  assumes "early_ok s"
  shows "\<exists>t. IOConsolePutcharacter ch s = Inr t \<and> early_printed s [ch] t"
proof -
  have "transmit_ready s" and screen: "sIOGraphicsContextPointer s = Some blank_context" using assms by (simp_all add: early_ok_def)
  from SerialWriteChar_effect [OF this(1), of ch] obtain r where
    w: "IOSerialWriteChar ch s = Inr (s\<lparr>portReads := r, portWrites := portWrites s @ [(kIOCom1Port, ch)]\<rparr>)" ..
  let ?w = "portWrites s @ map (Pair kIOCom1Port) [ch]"
  have "\<exists>p. sIOConsoleDraw ch blank_context (s\<lparr>portReads := r, portWrites := ?w\<rparr>) = Inr (blank_context, p)"
    by (auto simp: sIOConsoleDraw_def Let_def IOGraphicsDrawRectangle_def IOGraphicsDrawCharacter_def blank_context_def)
  then obtain p where p: "sIOConsoleDraw ch blank_context (s\<lparr>portReads := r, portWrites := ?w\<rparr>) = Inr (blank_context, p)" ..
  have "IOConsolePutcharacter ch s = Inr (s\<lparr>portReads := r, portWrites := ?w, sIOGraphicsContextPointer := Some blank_context,
      sIOConsoleCursorPosition := \<lparr>pointX = 0, pointY = 0\<rparr>, sIOConsoleBackgroundColor := sIOConsoleBackgroundColor s\<rparr>)"
    using p by (simp add: IOConsolePutcharacter_def w screen Let_def IOConsoleClear_def IOGraphicsDrawRectangle_def blank_context_def)
  then show ?thesis unfolding early_printed_def by blast
qed

lemma early_log:
  assumes "early_ok s" "0 \<notin> set string" "asc CHR ''%'' \<notin> set string" "asc CHR ''^'' \<notin> set string"
  shows "\<exists>t. IOConsoleLog (string @ [0]) [] s = Inr t \<and> early_printed s string t"
  using assms
proof (induction string arbitrary: s)
  case Nil
  then show ?case using early_printed_nothing by simp
next
  case (Cons c string)
  from early_putcharacter [OF Cons.prems(1), of c] obtain t where t: "IOConsolePutcharacter c s = Inr t" "early_printed s [c] t" by blast
  with Cons.IH [of t] Cons.prems early_printed_ok obtain u where "IOConsoleLog (string @ [0]) [] t = Inr u" "early_printed t string u"
    by fastforce
  with t early_printed_trans [OF t(2)] show ?case using Cons.prems by auto
qed

lemma report_effect:
  assumes "early_ok s" "0 \<notin> set (bytes message)" "asc CHR ''%'' \<notin> set (bytes message)" "asc CHR ''^'' \<notin> set (bytes message)"
  shows "\<exists>t. report message s = Inr t \<and> early_printed s (bytes message @ [0x0A]) t"
  using early_log [OF assms(1), of "bytes message @ [0x0A]"] assms by (simp add: report_def)

lemma serial_write_effect:
  "transmit_ready s \<Longrightarrow> 0 \<notin> set string \<Longrightarrow>
   \<exists>r. IOSerialWrite (string @ [0]) s = Inr (s\<lparr>portReads := r, portWrites := portWrites s @ map (Pair kIOCom1Port) string\<rparr>)"
proof (induction string arbitrary: s)
  case Nil
  then show ?case by (intro exI [of _ "portReads s"]) simp
next
  case (Cons c string)
  from SerialWriteChar_effect [OF Cons.prems(1), of c] obtain r where
    w: "IOSerialWriteChar c s = Inr (s\<lparr>portReads := r, portWrites := portWrites s @ [(kIOCom1Port, c)]\<rparr>)" ..
  have "transmit_ready (s\<lparr>portReads := r, portWrites := portWrites s @ [(kIOCom1Port, c)]\<rparr>)" using Cons.prems(1) by (simp add: transmit_ready_def)
  from Cons.IH [OF this] Cons.prems(2) w show ?case by auto
qed

section \<open>The stages\<close>

text \<open>What the first stages need of the state, and what the initialisation of the processor leaves of it.\<close>

definition descriptor_tables :: "'a arch_scheme \<Rightarrow> bool" where
  "descriptor_tables s \<longleftrightarrow> length (gHALGlobalDescriptorTable s) = 7 \<and> length (gHALInterruptsDescriptorTable s) = 256"

definition keeps :: "'a arch_scheme \<Rightarrow> 'a arch_scheme \<Rightarrow> bool" where
  "keeps s t \<longleftrightarrow> sVMPMMLock t = sVMPMMLock s \<and> sVMVMMlock t = sVMVMMlock s \<and> sVMHeapLock t = sVMHeapLock s \<and>
     kernelSymbol t = kernelSymbol s \<and> arch.more t = arch.more s"

definition stack_set :: "'a arch_scheme \<Rightarrow> bool" where
  "stack_set s \<longleftrightarrow> kernelStackPointer (gOSBootCPU s) = kernelSymbol s SymStackTop"

lemma keeps_trans: "keeps s t \<Longrightarrow> keeps t u \<Longrightarrow> keeps s u"
  by (simp add: keeps_def)

definition quiet :: "'a arch_scheme \<Rightarrow> 'a arch_scheme \<Rightarrow> bool" where
  "quiet s t \<longleftrightarrow> portInput t = portInput s \<and> sIOGraphicsContextPointer t = sIOGraphicsContextPointer s \<and>
     serial_output t = serial_output s \<and> (descriptor_tables s \<longrightarrow> descriptor_tables t) \<and> keeps s t \<and> (stack_set s \<longrightarrow> stack_set t)"

lemma quiet_step: "quiet s t \<Longrightarrow> early_ok s \<Longrightarrow> early_ok t"
  by (simp add: quiet_def early_ok_def transmit_ready_def)

lemma quiet_CPU: "quiet s (OSCPUInitialize (kernelSymbol s SymStackTop) s)"
  by (simp add: quiet_def OSCPUInitialize_def WRMSR_eq CPUID_def Let_def serial_output_def descriptor_tables_def keeps_def stack_set_def split: prod.split)

lemma quiet_Rand: "quiet s (RandInitialize s)"
  by (cases "timeStamp s (timeStampReads s)") (simp add: quiet_def RandInitialize_def RDTSC_def Let_def serial_output_def descriptor_tables_def keeps_def stack_set_def)

lemma quiet_PIC: "quiet s (snd (HALLegacyInterruptControllerRemap s))"
  by (simp add: quiet_def HALLegacyInterruptControllerRemap_def IOPortWrite8WithWait_def IOSynchronizeBus_def IOPortWrite8_def IOPortRead8_def
      Let_def serial_output_def descriptor_tables_def keeps_def stack_set_def)

lemma SetGates_quiet: "sHALInterruptsDescriptorTableSetGates ns s = Inr t \<Longrightarrow> \<exists>table. t = s\<lparr>gHALInterruptsDescriptorTable := table\<rparr>"
proof (induction ns arbitrary: s)
  case Nil
  then show ?case by (intro exI [of _ "gHALInterruptsDescriptorTable s"]) simp
next
  case (Cons n ns)
  then obtain u where u: "sHALInterruptsDescriptorTableSetGate n (kernelSymbol s (SymISR n)) 0x08 0x8E s = Inr u"
    "sHALInterruptsDescriptorTableSetGates ns u = Inr t" by (auto simp: bindE_eq_Inr)
  from u(1) obtain table where "u = s\<lparr>gHALInterruptsDescriptorTable := table\<rparr>"
    by (auto simp: sHALInterruptsDescriptorTableSetGate_def bindE_eq_Inr)
  with Cons.IH [OF u(2)] show ?case by auto
qed

lemma quiet_IDT:
  assumes "HALInterruptsDescriptorTableInitialize s = Inr t" "length (gHALInterruptsDescriptorTable t) = 256"
  shows "quiet s t"
  using assms unfolding HALInterruptsDescriptorTableInitialize_def Let_def
  by (auto simp: quiet_def bindE_eq_Inr sHALInterruptsDescriptorTableSetGate_def sHALInterruptsDescriptorTableSetIST_def serial_output_def
      descriptor_tables_def keeps_def stack_set_def dest!: SetGates_quiet)

lemma quiet_GDT:
  assumes "HALGlobalDescriptorTableInitialize s = Inr t" "length (gHALGlobalDescriptorTable t) = 7"
  shows "quiet s t"
  using assms unfolding HALGlobalDescriptorTableInitialize_def Let_def
  by (auto simp: quiet_def bindE_eq_Inr sHALGlobalDescriptorTableSetGate_def sHALTaskStateSegmentWrite_def serial_output_def
      descriptor_tables_def keeps_def stack_set_def Let_def)


lemma serial_early: "early_printed s out t \<Longrightarrow> serial_output t = serial_output s @ out"
  unfolding early_printed_def by (elim exE conjE) (simp add: serial_output_def comp_def)

lemma descriptor_tables_early: "early_printed s out t \<Longrightarrow> descriptor_tables t = descriptor_tables (s :: 'a arch_scheme)"
  unfolding early_printed_def by (elim exE conjE) (simp add: descriptor_tables_def)

lemma keeps_early: "early_printed s out t \<Longrightarrow> keeps s (t :: 'a arch_scheme)"
  "early_printed s out t \<Longrightarrow> stack_set t = stack_set (s :: 'a arch_scheme)"
  unfolding early_printed_def by (elim exE conjE; simp add: keeps_def stack_set_def)+

text \<open>A stage runs quietly and reports.\<close>

lemma stage:
  assumes "early_ok s" "descriptor_tables s" "quiet s u"
    and "0 \<notin> set (bytes message)" "asc CHR ''%'' \<notin> set (bytes message)" "asc CHR ''^'' \<notin> set (bytes message)"
  obtains t where "report message u = Inr t" "early_ok t" "descriptor_tables t" "serial_output t = serial_output s @ bytes message @ [0x0A]"
    "keeps s t" "stack_set t = stack_set u"
proof -
  have u: "early_ok u" "descriptor_tables u" "serial_output u = serial_output s" using assms(1-3) quiet_step by (auto simp: quiet_def)
  from report_effect [OF u(1) assms(4-6)] obtain t where t: "report message u = Inr t" "early_printed u (bytes message @ [0x0A]) t" by blast
  have "keeps s t" using keeps_trans [OF _ keeps_early(1) [OF t(2)]] assms(3) by (simp add: quiet_def)
  with that t u show ?thesis
    using early_printed_ok [OF t(2) u(1)] serial_early [OF t(2)] descriptor_tables_early [OF t(2)] keeps_early(2) [OF t(2)] by simp
qed

lemma quiet_refl: "quiet s s"
  by (simp add: quiet_def keeps_def)

lemma kmain_processor_effect:
  assumes "early_ok s" "descriptor_tables s"
  shows "\<exists>t. kmain_processor s = Inr t \<and> early_ok t \<and> descriptor_tables t \<and> serial_output t = serial_output s @
    bytes ''Got CPUINFO'' @ [0x0A] @ bytes ''Random initialized'' @ [0x0A] @ bytes ''GDT initialized'' @ [0x0A] @
    bytes ''IDT initialized'' @ [0x0A] @ bytes ''PIC remapped'' @ [0x0A] \<and> keeps s t \<and> stack_set t"
proof -
  obtain a where a: "report ''Got CPUINFO'' (OSCPUInitialize (kernelSymbol s SymStackTop) s) = Inr a" "early_ok a" "descriptor_tables a"
      "serial_output a = serial_output s @ bytes ''Got CPUINFO'' @ [0x0A]"
      "keeps s a" "stack_set a = stack_set (OSCPUInitialize (kernelSymbol s SymStackTop) s)"
    by (rule stage [OF assms quiet_CPU, where message = "''Got CPUINFO''"]) (simp_all add: bytes_def)
  obtain b where b: "report ''Random initialized'' (RandInitialize a) = Inr b" "early_ok b" "descriptor_tables b"
      "serial_output b = serial_output a @ bytes ''Random initialized'' @ [0x0A]"
      "keeps a b" "stack_set b = stack_set (RandInitialize a)"
    by (rule stage [OF a(2,3) quiet_Rand, where message = "''Random initialized''"]) (simp_all add: bytes_def)
  from GDTInitialize_effect [of b] b(3) obtain c where c: "HALGlobalDescriptorTableInitialize b = Inr c" "length (gHALGlobalDescriptorTable c) = 7"
    by (auto simp: descriptor_tables_def)
  obtain d where d: "report ''GDT initialized'' c = Inr d" "early_ok d" "descriptor_tables d"
      "serial_output d = serial_output b @ bytes ''GDT initialized'' @ [0x0A]"
      "keeps b d" "stack_set d = stack_set (c)"
    by (rule stage [OF b(2,3) quiet_GDT [OF c], where message = "''GDT initialized''"]) (simp_all add: bytes_def)
  from IDTInitialize_effect [of d] d(3) obtain e where e: "HALInterruptsDescriptorTableInitialize d = Inr e"
      "length (gHALInterruptsDescriptorTable e) = 256"
    by (auto simp: descriptor_tables_def)
  obtain f where f: "report ''IDT initialized'' e = Inr f" "early_ok f" "descriptor_tables f"
      "serial_output f = serial_output d @ bytes ''IDT initialized'' @ [0x0A]"
      "keeps d f" "stack_set f = stack_set (e)"
    by (rule stage [OF d(2,3) quiet_IDT [OF e], where message = "''IDT initialized''"]) (simp_all add: bytes_def)
  obtain g where g: "report ''PIC remapped'' (snd (HALLegacyInterruptControllerRemap f)) = Inr g" "early_ok g" "descriptor_tables g"
      "serial_output g = serial_output f @ bytes ''PIC remapped'' @ [0x0A]"
      "keeps f g" "stack_set g = stack_set (snd (HALLegacyInterruptControllerRemap f))"
    by (rule stage [OF f(2,3) quiet_PIC, where message = "''PIC remapped''"]) (simp_all add: bytes_def)
  have "kmain_processor s = Inr g" by (simp add: kmain_processor_def a(1) b(1) c(1) d(1) e(1) f(1) g(1))
  moreover have "keeps s g" using keeps_trans a(5) b(5) d(5) f(5) g(5) by blast
  moreover have "stack_set (OSCPUInitialize (kernelSymbol s SymStackTop) s)"
    by (simp add: stack_set_def OSCPUInitialize_def WRMSR_eq CPUID_def Let_def split: prod.split)
  then have "stack_set g"
    using a(6) b(6) d(6) f(6) g(6) quiet_Rand [of a] quiet_GDT [OF c] quiet_IDT [OF e] quiet_PIC [of f] by (simp add: quiet_def)
  ultimately show ?thesis using g(2-4) a(4) b(4) d(4) f(4) by simp
qed

lemma kmain_console_effect:
  assumes ready: "transmit_ready s" and tables: "descriptor_tables s"
  shows "\<exists>t. kmain_console info s = (if bootMagic info \<noteq> BOOTINFO_MAGIC then Inl (Panic ''Corrupt bootinfo!'') else Inr t) \<and>
    early_ok t \<and> descriptor_tables t \<and> serial_output t = serial_output s @ [3] @ bytes ''Kernel started'' @ [0x0A] \<and> keeps s t"
proof -
  let ?string = "bytes ''Kernel started'' @ [0x0A]"
  have "transmit_ready (IOSerialInit s)" using ready by (simp add: transmit_ready_def IOSerialInit_def IOPortWrite8_def)
  from serial_write_effect [OF this, of ?string] obtain r where
    r: "IOSerialWrite (?string @ [0]) (IOSerialInit s) =
      Inr ((IOSerialInit s)\<lparr>portReads := r, portWrites := portWrites (IOSerialInit s) @ map (Pair kIOCom1Port) ?string\<rparr>)"
    by (auto simp: bytes_def)
  let ?u = "(IOSerialInit s)\<lparr>portReads := r, portWrites := portWrites (IOSerialInit s) @ map (Pair kIOCom1Port) ?string\<rparr>"
  have "early_ok (IOConsoleInit (Some blank_context) ?u)" "descriptor_tables (IOConsoleInit (Some blank_context) ?u)"
    "serial_output (IOConsoleInit (Some blank_context) ?u) = serial_output s @ [3] @ ?string" "keeps s (IOConsoleInit (Some blank_context) ?u)"
    using ready tables
    by (simp_all add: early_ok_def transmit_ready_def IOConsoleInit_def IOSerialInit_def IOPortWrite8_def descriptor_tables_def serial_output_def comp_def bytes_def keeps_def)
  moreover have "kmain_console info s = (if bootMagic info \<noteq> BOOTINFO_MAGIC then Inl (Panic ''Corrupt bootinfo!'')
      else Inr (IOConsoleInit (Some blank_context) ?u))" using r by (simp add: kmain_console_def)
  ultimately show ?thesis by (intro exI [of _ "IOConsoleInit (Some blank_context) ?u"]) simp
qed

lemma kmain_reaches_memory:
  assumes "transmit_ready s" "descriptor_tables s" "bootMagic info = BOOTINFO_MAGIC"
  obtains t where "kmain l pixels interrupt32 yield info s = bindE (kmain_memory l interrupt32 info t) (\<lambda>(info, s).
            bindE (kmain_volume info s) (\<lambda>s.
            bindE (kmain_screen pixels info s) (\<lambda>s.
            bindE (kmain_rescue yield info s) (\<lambda>(rescueMode, s). kmain_start interrupt32 rescueMode s))))"
    "early_ok t" "descriptor_tables t" "keeps s t" "stack_set t"
    "serial_output t = serial_output s @ [3] @ bytes ''Kernel started'' @ [0x0A] @ bytes ''Got CPUINFO'' @ [0x0A] @
      bytes ''Random initialized'' @ [0x0A] @ bytes ''GDT initialized'' @ [0x0A] @ bytes ''IDT initialized'' @ [0x0A] @
      bytes ''PIC remapped'' @ [0x0A]"
proof -
  from kmain_console_effect [OF assms(1,2), of info] obtain u where
    u: "kmain_console info s = (if bootMagic info \<noteq> BOOTINFO_MAGIC then Inl (Panic ''Corrupt bootinfo!'') else Inr u)"
    "early_ok u" "descriptor_tables u" "keeps s u" "serial_output u = serial_output s @ [3] @ bytes ''Kernel started'' @ [0x0A]" by blast
  from kmain_processor_effect [OF u(2,3)] obtain t where
    t: "kmain_processor u = Inr t" "early_ok t" "descriptor_tables t" "keeps u t" "stack_set t" "serial_output t = serial_output u @
    bytes ''Got CPUINFO'' @ [0x0A] @ bytes ''Random initialized'' @ [0x0A] @ bytes ''GDT initialized'' @ [0x0A] @
    bytes ''IDT initialized'' @ [0x0A] @ bytes ''PIC remapped'' @ [0x0A]" by blast
  show thesis
    by (rule that [OF _ t(2,3) keeps_trans [OF u(4) t(4)] t(5)]) (simp_all add: kmain_def u(1,5) assms(3) t(1,6))
qed

text \<open>The kernel refuses boot information without the magic number. Otherwise it brings up the processor, whatever the
  processor answers, saying so on the serial line step by step, and goes on to the memory with both descriptor tables in place.\<close>

theorem kmain_starts:
  assumes "transmit_ready s" "descriptor_tables s"
  shows "\<exists>t. early_ok t \<and> descriptor_tables t \<and>
    serial_output t = serial_output s @ [3] @ bytes ''Kernel started'' @ [0x0A] @ bytes ''Got CPUINFO'' @ [0x0A] @
      bytes ''Random initialized'' @ [0x0A] @ bytes ''GDT initialized'' @ [0x0A] @ bytes ''IDT initialized'' @ [0x0A] @
      bytes ''PIC remapped'' @ [0x0A] \<and>
    kmain l pixels interrupt32 yield info s =
      (if bootMagic info \<noteq> BOOTINFO_MAGIC then Inl (Panic ''Corrupt bootinfo!'')
       else bindE (kmain_memory l interrupt32 info t) (\<lambda>(info, s).
            bindE (kmain_volume info s) (\<lambda>s.
            bindE (kmain_screen pixels info s) (\<lambda>s.
            bindE (kmain_rescue yield info s) (\<lambda>(rescueMode, s). kmain_start interrupt32 rescueMode s)))))"
proof -
  from kmain_console_effect [OF assms, of info] obtain u where
    u: "kmain_console info s = (if bootMagic info \<noteq> BOOTINFO_MAGIC then Inl (Panic ''Corrupt bootinfo!'') else Inr u)"
    "early_ok u" "descriptor_tables u" "serial_output u = serial_output s @ [3] @ bytes ''Kernel started'' @ [0x0A]" by blast
  from kmain_processor_effect [OF u(2,3)] obtain t where
    t: "kmain_processor u = Inr t" "early_ok t" "descriptor_tables t" "serial_output t = serial_output u @
    bytes ''Got CPUINFO'' @ [0x0A] @ bytes ''Random initialized'' @ [0x0A] @ bytes ''GDT initialized'' @ [0x0A] @
    bytes ''IDT initialized'' @ [0x0A] @ bytes ''PIC remapped'' @ [0x0A]" by blast
  show ?thesis using t u(4) by (intro exI [of _ t]) (simp add: kmain_def u(1))
qed

text \<open>The frame buffer's base is where the virtual memory manager maps it, so \<open>kmain_screen\<close> never finds it null.\<close>

lemma framebuffer_always_found:
  "VMVirtualMemoryInitialize kernel_start kernel_end stack_guard fb s = Inr (fb', t) \<Longrightarrow> framebufferBase fb' \<noteq> 0"
  by (auto simp: VMVirtualMemoryInitialize_def bindE_eq_Inr Let_def split: prod.splits)

definition small_bootinfo :: Bootinfo where
  "small_bootinfo = \<lparr>bootMagic = 0, bootFramebuffer = \<lparr>framebufferBase = 0xE0000000, baseSize = 0x1000, framebufferWidth = 32,
     framebufferHeight = 32, framebufferPitch = 32\<rparr>, bootMemoryMap = \<lparr>memoryDescriptors = [], mapSize = 0, descriptorSize = 48,
       mapKey = 1, descriptorVersion = 1\<rparr>,
     bootInitramfs = \<lparr>initramfsAddress = 0, initramfsSize = 0\<rparr>\<rparr>"

lemma kmain_starts_witness:
  "kmain \<lparr>kernelStart = 0xFFFFFFFF80100000, kernelEnd = 0xFFFFFFFF80200000, stackGuard = 0xFFFFFFFF80180000\<rparr> [] Inr Inr small_bootinfo small_shell =
   Inl (Panic ''Corrupt bootinfo!'')"
proof -
  have "transmit_ready small_shell" "descriptor_tables small_shell"
    by (auto simp: transmit_ready_def descriptor_tables_def small_shell_def small_process_def small_loader_def small_filesystem_def
        small_scheduler_def small_arch_def small_console_def small_devices_def filesystem.defs scheduler.defs arch.defs console.defs devices.defs)
  moreover have "bootMagic small_bootinfo \<noteq> BOOTINFO_MAGIC" by (simp add: small_bootinfo_def)
  ultimately show ?thesis using kmain_starts [of small_shell "\<lparr>kernelStart = 0xFFFFFFFF80100000, kernelEnd = 0xFFFFFFFF80200000,
      stackGuard = 0xFFFFFFFF80180000\<rparr>" "[]" Inr Inr small_bootinfo] by auto
qed

end
