(* ===== verification/LibMemory.thy ===== *)
theory LibMemory
  imports Services
begin

text \<open>
  The heap of a process, \<^verbatim>\<open>userspace/libterm/src/Memory.c\<close>. A process is a record: its bytes, the headers of its
  blocks, the globals of the library, and the system as it sees it. The headers refine the lists of blocks of
  BlockList, as those of the kernel do. The locale \<open>memory_service\<close> states what the heap asks of the system call
  that hands out memory, and is interpreted on the kernel's \<^verbatim>\<open>OSServiceMemoryAllocate\<close>.
\<close>

unbundle bit_operations_syntax

section \<open>A user process\<close>

text \<open>
  The memory of a process as its code sees it: bytes, the headers of its heap (only ever written by the
  allocator), the library's static variables, and \<open>system\<close>, the rest of the machine, which only
  system calls change.
\<close>

record 'k user =
  userBytes :: memory
  memoryHeaders :: block_store
  sMemoryHeapListHead :: UInt64
  olds :: UInt64
  system :: 'k

abbreviation kMemoryBlockMagic :: UInt64 where
  "kMemoryBlockMagic \<equiv> 0x1CE1CE"

abbreviation kMemoryPageSize :: UInt64 where
  "kMemoryPageSize \<equiv> 4096"

abbreviation sizeof_MemoryBlockHeader :: UInt64 where
  "sizeof_MemoryBlockHeader \<equiv> 40"

abbreviation page_align :: "UInt64 \<Rightarrow> UInt64" where
  "page_align n \<equiv> (n + (kMemoryPageSize - 1)) AND NOT (kMemoryPageSize - 1)"

section \<open>Operations on headers\<close>

definition sMemoryCombineForward :: "UInt64 \<Rightarrow> block_store \<Rightarrow> block_store" where
  "sMemoryCombineForward current st =
     (if nextBlock (st current) = 0 \<or> \<not> isFree (st (nextBlock (st current))) then st
      else let st = st(current := (st current)\<lparr>blockSize := blockSize (st current) +
                        (sizeof_MemoryBlockHeader + blockSize (st (nextBlock (st current))))\<rparr>);
               st = st(current := (st current)\<lparr>nextBlock := nextBlock (st (nextBlock (st current)))\<rparr>)
           in if nextBlock (st current) \<noteq> 0
              then st(nextBlock (st current) := (st (nextBlock (st current)))\<lparr>previousBlock := current\<rparr>)
              else st)"

text \<open>The search for a block; without one it ends at null and the last block.\<close>

partial_function (option) sMemoryFirstFit :: "block_store \<Rightarrow> UInt64 \<Rightarrow> UInt64 \<Rightarrow> UInt64 \<Rightarrow> (UInt64 \<times> UInt64) option" where
  "sMemoryFirstFit st alignedSize current lastBlock =
     (if current = 0 then Some (0, lastBlock)
      else if isFree (st current) \<and> blockSize (st current) \<ge> alignedSize then Some (current, lastBlock)
      else sMemoryFirstFit st alignedSize (nextBlock (st current)) current)"

definition sMemoryTakeBlock :: "UInt64 \<Rightarrow> UInt64 \<Rightarrow> block_store \<Rightarrow> block_store" where
  "sMemoryTakeBlock alignedSize current st =
     (let st = (if blockSize (st current) > alignedSize + sizeof_MemoryBlockHeader + 16
                then let newBlock = current + sizeof_MemoryBlockHeader + alignedSize;
                         st = st(newBlock := \<lparr>blockMagic = kMemoryBlockMagic, nextBlock = nextBlock (st current),
                                previousBlock = current,
                                blockSize = blockSize (st current) - alignedSize - sizeof_MemoryBlockHeader,
                                isFree = True\<rparr>);
                         st = (if nextBlock (st current) \<noteq> 0
                               then st(nextBlock (st current) :=
                                      (st (nextBlock (st current)))\<lparr>previousBlock := newBlock\<rparr>)
                               else st);
                         st = st(current := (st current)\<lparr>nextBlock := newBlock\<rparr>)
                     in st(current := (st current)\<lparr>blockSize := alignedSize\<rparr>)
                else st)
      in st(current := (st current)\<lparr>isFree := False\<rparr>))"

text \<open>What the pages just got become: a free block at the end of the list.\<close>

definition sMemoryAddBlock :: "UInt64 \<Rightarrow> UInt64 \<Rightarrow> UInt64 \<Rightarrow> 'k user \<Rightarrow> 'k user" where
  "sMemoryAddBlock newBlock pageAlignedSize lastBlock s =
     (let s = s\<lparr>memoryHeaders := (memoryHeaders s)(newBlock :=
                \<lparr>blockMagic = kMemoryBlockMagic, nextBlock = 0, previousBlock = lastBlock,
                 blockSize = pageAlignedSize - sizeof_MemoryBlockHeader, isFree = True\<rparr>)\<rparr>
      in if lastBlock \<noteq> 0
         then s\<lparr>memoryHeaders := (memoryHeaders s)(lastBlock := (memoryHeaders s lastBlock)\<lparr>nextBlock := newBlock\<rparr>)\<rparr>
         else s\<lparr>sMemoryHeapListHead := newBlock\<rparr>)"

section \<open>The allocator\<close>

text \<open>\<open>grow\<close> is the system call \<^verbatim>\<open>OSServiceMemoryAllocate\<close>. With too little memory the function calls itself again.\<close>

partial_function (option) sMemoryAllocate ::
  "(UInt64 \<Rightarrow> 'k \<Rightarrow> fault + UInt64 \<times> 'k) \<Rightarrow> UInt64 \<Rightarrow> 'k user \<Rightarrow> (fault + UInt64 \<times> 'k user) option" where
  "sMemoryAllocate grow sz s =
     (if sz = 0 then Some (Inr (0, s))
      else case sMemoryFirstFit (memoryHeaders s) ((sz + 15) AND NOT 15) (sMemoryHeapListHead s) 0 of
        None \<Rightarrow> None
      | Some (current, lastBlock) \<Rightarrow>
          if current \<noteq> 0
          then Some (Inr (current + sizeof_MemoryBlockHeader,
                 s\<lparr>memoryHeaders := sMemoryTakeBlock ((sz + 15) AND NOT 15) current (memoryHeaders s)\<rparr>))
          else (case grow (page_align (((sz + 15) AND NOT 15) + sizeof_MemoryBlockHeader)) (system s) of
                  Inl e \<Rightarrow> Some (Inl e)
                | Inr (newMemoryAddress, k) \<Rightarrow>
                    if newMemoryAddress = 0 then Some (Inr (0, s\<lparr>system := k\<rparr>))
                    else sMemoryAllocate grow sz (sMemoryAddBlock newMemoryAddress
                           (page_align (((sz + 15) AND NOT 15) + sizeof_MemoryBlockHeader)) lastBlock (s\<lparr>system := k\<rparr>))))"

definition MemoryAllocate :: "(UInt64 \<Rightarrow> 'k \<Rightarrow> fault + UInt64 \<times> 'k) \<Rightarrow> UInt64 \<Rightarrow> 'k user \<Rightarrow> fault + UInt64 \<times> 'k user" where
  "MemoryAllocate grow sz s = returns (sMemoryAllocate grow sz s)"

definition MemoryFree :: "UInt64 \<Rightarrow> 'k user \<Rightarrow> 'k user" where
  "MemoryFree pointer s =
     (if pointer = 0 then s
      else let current = pointer - sizeof_MemoryBlockHeader
           in if blockMagic (memoryHeaders s current) \<noteq> kMemoryBlockMagic then s
              else let st = memoryHeaders s;
                       st = st(current := (st current)\<lparr>isFree := True\<rparr>);
                       st = (if nextBlock (st current) \<noteq> 0 \<and> isFree (st (nextBlock (st current)))
                             then sMemoryCombineForward current st else st);
                       st = (if previousBlock (st current) \<noteq> 0 \<and> isFree (st (previousBlock (st current)))
                             then sMemoryCombineForward (previousBlock (st current)) st else st)
                   in s\<lparr>memoryHeaders := st\<rparr>)"

definition MemoryReallocate ::
  "(UInt64 \<Rightarrow> 'k \<Rightarrow> fault + UInt64 \<times> 'k) \<Rightarrow> UInt64 \<Rightarrow> UInt64 \<Rightarrow> 'k user \<Rightarrow> fault + UInt64 \<times> 'k user" where
  "MemoryReallocate grow pointer newSize s =
     (if pointer = 0 then MemoryAllocate grow newSize s
      else if newSize = 0 then Inr (0, MemoryFree pointer s)
      else let current = pointer - sizeof_MemoryBlockHeader;
               h = memoryHeaders s current
           in if blockSize h \<ge> newSize then Inr (pointer, s)
              else if nextBlock h \<noteq> 0 \<and> isFree (memoryHeaders s (nextBlock h)) \<and>
                      blockSize h + sizeof_MemoryBlockHeader + blockSize (memoryHeaders s (nextBlock h)) \<ge> newSize
              then Inr (pointer, s\<lparr>memoryHeaders := sMemoryCombineForward current (memoryHeaders s)\<rparr>)
              else bindE (MemoryAllocate grow newSize s) (\<lambda>(newPointer, s).
                     if newPointer = 0 then Inr (0, s)
                     else let s = s\<lparr>userBytes := MemoryCopy (userBytes s) newPointer pointer (blockSize (memoryHeaders s current))\<rparr>
                          in Inr (newPointer, MemoryFree pointer s)))"

section \<open>The headers represent a block list\<close>

lemma Combine_same: "sMemoryCombineForward = sVMHeapCombineForward"
  by (intro ext) (simp add: sMemoryCombineForward_def sVMHeapCombineForward_def)

lemma TakeBlock_same: "sMemoryTakeBlock k a st = sVMHeapTakeBlock kMemoryBlockMagic k a st"
  by (simp add: sMemoryTakeBlock_def sVMHeapTakeBlock_def)

lemma MemoryFree_release:
  "pointer \<noteq> 0 \<Longrightarrow> blockMagic (memoryHeaders s (pointer - 40)) = kMemoryBlockMagic \<Longrightarrow>
   MemoryFree pointer s = s\<lparr>memoryHeaders := sVMHeapRelease (pointer - 40) (memoryHeaders s)\<rparr>"
  by (simp add: MemoryFree_def sVMHeapRelease_def Combine_same Let_def)

lemma FirstFit_refines:
  assumes "heap_seg M st p bs 0" "0 \<notin> addr ` set bs"
  shows "\<exists>l. sMemoryFirstFit st k (first_addr bs 0) p =
    Some (case alloc_blocks k bs of None \<Rightarrow> (0, last_addr p bs) | Some (a, _) \<Rightarrow> (a, l))"
  using assms
proof (induction bs arbitrary: p)
  case Nil
  show ?case by (subst sMemoryFirstFit.simps) simp
next
  case (Cons b bs)
  then obtain l where "sMemoryFirstFit st k (first_addr bs 0) (addr b) =
    Some (case alloc_blocks k bs of None \<Rightarrow> (0, last_addr (addr b) bs) | Some (a, _) \<Rightarrow> (a, l))" by auto
  then show ?case
    by (subst sMemoryFirstFit.simps) (use Cons.prems in \<open>auto split: option.splits\<close>)
qed

text \<open>The rounded sizes.\<close>

lemma and_not_le: "(x :: UInt64) AND NOT y \<le> x"
  by (rule word_and_le2)

lemma align16_le: "unat sz + 15 < 2 ^ 64 \<Longrightarrow> unat (align16 sz) \<le> unat sz + 15"
  using word_and_le2 [of "sz + 15" "NOT 15"] by (simp add: word_le_nat_alt unat_word_ariths)

lemma page_align_nat: "unat (page_align n) = unat (n + 4095) div 4096 * 4096"
proof -
  have m: "(4095 :: UInt64) = mask 12" by (simp add: mask_eq_exp_minus_1)
  have "x AND NOT 4095 = push_bit 12 (drop_bit 12 x)" for x :: UInt64
    unfolding m by (rule bit_word_eqI) (auto simp: bit_simps)
  moreover have "unat (push_bit 12 (drop_bit 12 x)) = unat x div 4096 * 4096" for x :: UInt64
  proof -
    have "unat x div 4096 * 4096 \<le> unat x" by (rule div_times_less_eq_dividend)
    then have "unat x div 4096 * 4096 < 2 ^ 64" using unsigned_less [of x, where ?'a = nat] by simp
    then show ?thesis
      by (simp add: push_bit_eq_mult drop_bit_eq_div unat_word_ariths unat_div)
  qed
  ultimately show ?thesis by simp
qed

lemma page_align_bounds:
  assumes "unat n + 4095 < 2 ^ 64"
  shows "unat n \<le> unat (page_align n)" "unat (page_align n) \<le> unat n + 4095"
    "page_align n = of_nat (4096 * ((unat n + 4095) div 4096))"
proof -
  have u: "unat (n + 4095) = unat n + 4095" using assms by (simp add: unat_word_ariths)
  show "unat n \<le> unat (page_align n)" "unat (page_align n) \<le> unat n + 4095"
    unfolding page_align_nat u using div_mult_mod_eq [of "unat n + 4095" 4096] mod_less_divisor [of 4096 "unat n + 4095"] by linarith+
  have "page_align n = of_nat (unat (page_align n))" by simp
  then show "page_align n = of_nat (4096 * ((unat n + 4095) div 4096))" unfolding page_align_nat u by (simp add: mult.commute)
qed

section \<open>The memory service\<close>

text \<open>
  What the allocator expects of the system call: it answers a request for whole pages with the old end of the
  process's heap, moved up by the request, or with null, the end moved by no more.
\<close>

lemma ordered_later: "ordered lo bs hi \<Longrightarrow> hi \<le> hi' \<Longrightarrow> ordered lo bs hi'"
  by (induction lo bs hi rule: ordered.induct) auto

locale memory_service =
  fixes grow :: "UInt64 \<Rightarrow> 'k \<Rightarrow> fault + UInt64 \<times> 'k"
    and heap_limit :: "'k \<Rightarrow> UInt64"
    and ready :: "'k \<Rightarrow> bool"
  assumes limit_positive: "ready k \<Longrightarrow> 4096 \<le> unat (heap_limit k)"
    and grow_law: "ready k \<Longrightarrow> 0 < n \<Longrightarrow> unat (heap_limit k) + 4096 * n < 2 ^ 64 \<Longrightarrow>
      \<exists>r k'. grow (of_nat (4096 * n)) k = Inr (r, k') \<and> ready k' \<and> unat (heap_limit k) \<le> unat (heap_limit k') \<and>
        (r = 0 \<or> r = heap_limit k \<and> heap_limit k' = heap_limit k + of_nat (4096 * n))"
begin

definition user_blocks :: "'k user \<Rightarrow> block list \<Rightarrow> bool" where
  "user_blocks s bs \<longleftrightarrow> ready (system s) \<and> heap_rep kMemoryBlockMagic (memoryHeaders s) (sMemoryHeapListHead s) bs \<and>
     ordered 4096 bs (unat (heap_limit (system s)))"

definition request :: "'k user \<Rightarrow> UInt64 \<Rightarrow> bool" where
  "request s sz \<longleftrightarrow> sz \<noteq> 0 \<and> unat (heap_limit (system s)) + unat sz + 8192 < 2 ^ 64"

lemma user_blocks_cong:
  "user_blocks s bs \<Longrightarrow> system t = system s \<Longrightarrow> memoryHeaders t = memoryHeaders s \<Longrightarrow> sMemoryHeapListHead t = sMemoryHeapListHead s \<Longrightarrow>
   user_blocks t bs"
  by (simp add: user_blocks_def)

text \<open>With a block that fits, the allocator takes the first one.\<close>

lemma take_first:
  assumes inv: "user_blocks s bs" and sz: "sz \<noteq> 0" and fit: "alloc_blocks (align16 sz) bs = Some (a, bs')"
  shows "\<exists>st. sMemoryAllocate grow sz s = Some (Inr (a + 40, s\<lparr>memoryHeaders := st\<rparr>)) \<and> user_blocks (s\<lparr>memoryHeaders := st\<rparr>) bs' \<and>
    a + 40 \<noteq> 0 \<and> (\<exists>n. align16 sz \<le> n \<and> live bs' = insert (a, n) (live bs) \<and> a \<notin> fst ` live bs)"
proof -
  let ?M = kMemoryBlockMagic and ?st = "memoryHeaders s" and ?k = "align16 sz" and ?hi = "unat (heap_limit (system s))"
  have rep: "heap_seg ?M ?st 0 bs 0" and head: "sMemoryHeapListHead s = first_addr bs 0" and ord: "ordered 4096 bs ?hi"
    using inv by (simp_all add: user_blocks_def heap_rep_def)
  have hi: "?hi \<le> 2 ^ 64" using unsigned_less [of "heap_limit (system s)", where ?'a = nat] by simp
  have nz: "0 \<notin> addr ` set bs" by (rule heap_no_null [OF ord])
  from FirstFit_refines [OF rep nz, of ?k] fit obtain l where
    l: "sMemoryFirstFit ?st ?k (sMemoryHeapListHead s) 0 = Some (a, l)" by (auto simp: head)
  from fit obtain xs b ys where split: "bs = xs @ b # ys" "bs' = xs @ take_block ?k b @ ys" "a = addr b" "free b" "?k \<le> len b"
    by (auto simp: alloc_blocks_split)
  from alloc_blocks_effect [OF ord hi _ fit] obtain n where
    eff: "ordered 4096 bs' ?hi" "?k \<le> n" "live bs' = insert (a, n) (live bs)" "a \<notin> fst ` live bs" by auto
  have a: "a \<noteq> 0" using nz split by auto
  have "Block a n False \<in> set bs'" using eff(3) by (force simp: live_def)
  from ordered_mem [OF eff(1) this] have "unat a + 40 + unat n < 2 ^ 64" "0 < unat a"
    using unsigned_less [of "heap_limit (system s)", where ?'a = nat] by simp_all
  then have "unat (a + 40) \<noteq> 0" by (simp add: unat_word_ariths)
  then have "a + 40 \<noteq> 0" by auto
  moreover have "heap_seg ?M (sMemoryTakeBlock ?k a ?st) 0 bs' 0"
    using take_refines [OF rep [unfolded split(1)] ord [unfolded split(1)] eff(1) [unfolded split(2)] split(4,5)] split(2,3)
    by (simp add: TakeBlock_same)
  moreover have "first_addr bs' 0 = first_addr bs 0" by (simp add: split take_block_def)
  ultimately show ?thesis using inv l a sz eff head
    by (intro exI [of _ "sMemoryTakeBlock ?k a ?st"]) (subst sMemoryAllocate.simps, simp add: user_blocks_def heap_rep_def, blast)
qed

text \<open>New pages become a free block at the end.\<close>

lemma add_block:
  assumes inv: "user_blocks s bs" and k: "ready k" "heap_limit k = heap_limit (system s) + n"
    and n: "40 \<le> unat n" "unat (heap_limit (system s)) + unat n < 2 ^ 64"
  shows "user_blocks (sMemoryAddBlock (heap_limit (system s)) n (last_addr 0 bs) (s\<lparr>system := k\<rparr>))
    (bs @ [Block (heap_limit (system s)) (n - 40) True])"
proof -
  let ?a = "heap_limit (system s)" and ?M = kMemoryBlockMagic
  have rep: "heap_seg ?M (memoryHeaders s) 0 bs 0" and head: "sMemoryHeapListHead s = first_addr bs 0" and ord: "ordered 4096 bs (unat ?a)"
    using inv by (simp_all add: user_blocks_def heap_rep_def)
  have pos: "4096 \<le> unat ?a" using inv limit_positive by (simp add: user_blocks_def)
  have "unat (n - 40) = unat n - 40" using n(1) by (simp add: unat_sub word_le_nat_alt)
  moreover have "unat (?a + n) = unat ?a + unat n" using n(2) by (simp add: unat_word_ariths)
  ultimately have "ordered 4096 (bs @ [Block ?a (n - 40) True]) (unat (heap_limit k))"
    using ord pos n(1) unfolding k(2) ordered_append by (intro exI [of _ "unat ?a"]) simp
  moreover have "?a \<notin> addr ` set bs"
    using ordered_mem [OF ord] by fastforce
  then have "heap_rep ?M (memoryHeaders (sMemoryAddBlock ?a n (last_addr 0 bs) (s\<lparr>system := k\<rparr>)))
     (sMemoryHeapListHead (sMemoryAddBlock ?a n (last_addr 0 bs) (s\<lparr>system := k\<rparr>))) (bs @ [Block ?a (n - 40) True])"
  proof (cases bs rule: rev_cases)
    case Nil
    then show ?thesis by (simp add: heap_rep_def sMemoryAddBlock_def Let_def)
  next
    case (snoc xs x)
    have d: "distinct (map addr bs)" by (rule ordered_distinct [OF ord])
    have "addr x \<noteq> 0" using heap_no_null [OF ord] snoc by auto
    then show ?thesis using rep head d \<open>?a \<notin> addr ` set bs\<close> snoc
      by (auto simp: heap_rep_def sMemoryAddBlock_def Let_def)
  qed
  ultimately show ?thesis using k(1) by (simp add: user_blocks_def) (simp add: sMemoryAddBlock_def Let_def)
qed

text \<open>The answer to a request, whether or not the heap has to grow for it.\<close>

lemma allocate_effect:
  assumes inv: "user_blocks s bs" and req: "request s sz"
  shows "\<exists>r t bs'. MemoryAllocate grow sz s = Inr (r, t) \<and> user_blocks t bs' \<and> userBytes t = userBytes s \<and> olds t = olds s \<and>
    (if r = 0 then live bs' = live bs else \<exists>n. sz \<le> n \<and> r - 40 \<notin> fst ` live bs \<and> live bs' = insert (r - 40, n) (live bs))"
proof -
  let ?k = "align16 sz" and ?hi = "heap_limit (system s)"
  have sz: "sz \<noteq> 0" and room: "unat ?hi + unat sz + 8192 < 2 ^ 64" using req by (simp_all add: request_def)
  have "sz \<le> - 16" using room by (simp add: word_le_nat_alt)
  note k = align16_ge [OF this] align16_le [of sz]
  have answer: ?thesis if run: "MemoryAllocate grow sz s = returns (sMemoryAllocate grow sz u)" and u: "user_blocks u cs" "live cs = live bs"
      "userBytes u = userBytes s" "olds u = olds s" and fit: "alloc_blocks ?k cs \<noteq> None" for u cs
  proof -
    from fit obtain a bs' where fit: "alloc_blocks ?k cs = Some (a, bs')" by auto
    from take_first [OF u(1) sz fit] obtain st n where
      st: "sMemoryAllocate grow sz u = Some (Inr (a + 40, u\<lparr>memoryHeaders := st\<rparr>))" "user_blocks (u\<lparr>memoryHeaders := st\<rparr>) bs'"
      "a + 40 \<noteq> 0" "?k \<le> n" "live bs' = insert (a, n) (live cs)" "a \<notin> fst ` live cs" by blast
    moreover have "sz \<le> n" using k(1) st(4) by (rule order_trans)
    ultimately show ?thesis using run u by (intro exI [of _ "a + 40"] exI [of _ "u\<lparr>memoryHeaders := st\<rparr>"] exI [of _ bs']) auto
  qed
  show ?thesis
  proof (cases "alloc_blocks ?k bs")
    case (Some p)
    then show ?thesis by (intro answer [of s bs]) (simp_all add: MemoryAllocate_def inv)
  next
    case None
    let ?n = "page_align (?k + 40)"
    have kn: "unat (?k + 40) = unat ?k + 40" "unat ?k \<le> unat sz + 15" using k(2) room by (simp_all add: unat_word_ariths)
    then have "unat (?k + 40) + 4095 < 2 ^ 64" using room by simp
    note n = page_align_bounds [OF this]
    let ?m = "(unat (?k + 40) + 4095) div 4096"
    have m: "?n = of_nat (4096 * ?m)" "unat ?n = 4096 * ?m" "0 < ?m" using n(3) kn(1) page_align_nat [of "?k + 40"] room kn
      by (simp_all add: unat_word_ariths)
    have up: "unat ?hi + unat ?n < 2 ^ 64" using n(2) kn room by simp
    have rd: "ready (system s)" using inv by (simp add: user_blocks_def)
    have "unat ?hi + 4096 * ?m < 2 ^ 64" using up unfolding m(2) .
    from grow_law [OF rd m(3) this, folded m(1)] obtain r k' where
      g: "grow ?n (system s) = Inr (r, k')" "ready k'" "unat ?hi \<le> unat (heap_limit k')" "r = 0 \<or> r = ?hi \<and> heap_limit k' = ?hi + ?n"
      by blast
    have rep: "heap_seg kMemoryBlockMagic (memoryHeaders s) 0 bs 0" and head: "sMemoryHeapListHead s = first_addr bs 0"
      and ord: "ordered 4096 bs (unat ?hi)"
      using inv by (simp_all add: user_blocks_def heap_rep_def)
    from FirstFit_refines [OF rep heap_no_null [OF ord], of ?k] None have
      fit: "sMemoryFirstFit (memoryHeaders s) ?k (sMemoryHeapListHead s) 0 = Some (0, last_addr 0 bs)" by (simp add: head)
    show ?thesis
    proof (cases "r = 0")
      case True
      have "sMemoryAllocate grow sz s = Some (Inr (0, s\<lparr>system := k'\<rparr>))"
        by (subst sMemoryAllocate.simps) (use sz fit g(1) True in simp)
      moreover have "user_blocks (s\<lparr>system := k'\<rparr>) bs"
        using inv g(2,3) ordered_later [of 4096 bs "unat ?hi"] by (simp add: user_blocks_def)
      ultimately show ?thesis
        by (intro exI [of _ 0] exI [of _ "s\<lparr>system := k'\<rparr>"] exI [of _ bs]) (simp add: MemoryAllocate_def)
    next
      case False
      then have r: "r = ?hi" "heap_limit k' = ?hi + ?n" using g(4) by auto
      let ?u = "sMemoryAddBlock ?hi ?n (last_addr 0 bs) (s\<lparr>system := k'\<rparr>)" and ?cs = "bs @ [Block ?hi (?n - 40) True]"
      have "sMemoryAllocate grow sz s = sMemoryAllocate grow sz ?u"
        by (subst sMemoryAllocate.simps) (use sz fit g(1) False r in simp)
      moreover have "user_blocks ?u ?cs" by (rule add_block [OF inv g(2) r(2) _ up]) (use n(1) kn in simp)
      moreover have "?k \<le> ?n - 40" using n(1) kn by (simp add: word_le_nat_alt unat_sub)
      then have "alloc_blocks ?k ?cs \<noteq> None" unfolding alloc_blocks_none by (auto simp: not_less)
      ultimately show ?thesis by (intro answer [of ?u ?cs]) (simp_all add: MemoryAllocate_def sMemoryAddBlock_def Let_def)
    qed
  qed
qed

lemma free_effect:
  assumes inv: "user_blocks s bs" and live: "(a, n) \<in> live bs"
  shows "\<exists>st bs'. MemoryFree (a + 40) s = s\<lparr>memoryHeaders := st\<rparr> \<and> user_blocks (s\<lparr>memoryHeaders := st\<rparr>) bs' \<and> live bs' = live bs - {(a, n)}"
proof -
  let ?st = "memoryHeaders s" and ?hi = "unat (heap_limit (system s))"
  have rep: "heap_seg kMemoryBlockMagic ?st 0 bs 0" and head: "sMemoryHeapListHead s = first_addr bs 0" and ord: "ordered 4096 bs ?hi"
    using inv by (simp_all add: user_blocks_def heap_rep_def)
  have hi: "?hi < 2 ^ 64" using unsigned_less [of "heap_limit (system s)", where ?'a = nat] by simp
  note free = live_release [OF ord live]
  obtain xs ys where bs: "bs = xs @ Block a n False # ys" using live by (auto simp: live_def in_set_conv_decomp)
  have "unat a + 40 + unat n < 2 ^ 64" using ordered_mem [OF ord, of "Block a n False"] bs hi by simp
  then have "unat (a + 40) \<noteq> 0" by (simp add: unat_word_ariths)
  then have "a + 40 \<noteq> 0" by auto
  moreover have "blockMagic (?st a) = kMemoryBlockMagic" using rep bs by simp
  moreover have "heap_seg kMemoryBlockMagic (sVMHeapRelease a ?st) 0 (free_blocks a bs) 0"
    using release_refines [OF rep [unfolded bs]] ordered_distinct [OF ord] heap_no_null [OF ord] unfolding bs by simp
  moreover have "ordered 4096 (free_blocks a bs) ?hi" by (rule free_blocks_ordered [OF ord]) (use hi in simp)
  moreover have "first_addr (free_blocks a bs) 0 = first_addr bs 0" by (cases bs) (auto simp: first_addr_def)
  ultimately show ?thesis using inv head free(2) MemoryFree_release [of "a + 40" s]
    by (intro exI [of _ "sVMHeapRelease a ?st"] exI [of _ "free_blocks a bs"]) (simp add: user_blocks_def heap_rep_def)
qed

end

sublocale memory_service \<subseteq> user_heap: block_allocator "MemoryAllocate grow" "\<lambda>p s. Inr ((), MemoryFree p s)" user_blocks request 4096 "2 ^ 64"
proof
  show "ordered 4096 bs (2 ^ 64)" if "user_blocks s bs" for s bs
    using that ordered_later [of 4096 bs _ "2 ^ 64"] unsigned_less [of "heap_limit (system s)", where ?'a = nat] by (auto simp: user_blocks_def)
  show "\<exists>r t. MemoryAllocate grow sz s = Inr (r, t)" if "user_blocks s bs" "request s sz" for s bs sz
    using allocate_effect [OF that] by blast
  show "\<exists>bs'. user_blocks t bs' \<and> (if r = 0 then live bs' = live bs
        else \<exists>n. sz \<le> n \<and> r - 40 \<notin> fst ` live bs \<and> live bs' = insert (r - 40, n) (live bs))"
    if "user_blocks s bs" "request s sz" "MemoryAllocate grow sz s = Inr (r, t)" for s bs sz r t
    using allocate_effect [OF that(1,2)] that(3) by fastforce
  show "\<exists>t bs'. Inr ((), MemoryFree (a + 40) s) = (Inr ((), t) :: fault + unit \<times> 'k user) \<and> user_blocks t bs' \<and> live bs' = live bs - {(a, n)}"
    if "user_blocks s bs" "(a, n) \<in> live bs" for s bs a n
    using free_effect [OF that] by auto
qed simp

section \<open>Resizing\<close>

context memory_service begin

lemma live_place:
  assumes inv: "user_blocks s bs" and live: "(a, n) \<in> live bs"
  obtains xs ys where "bs = xs @ Block a n False # ys" "blockSize (memoryHeaders s a) = n" "nextBlock (memoryHeaders s a) = first_addr ys 0"
    "unat (a + 40) = unat a + 40" "unat a + 40 + unat n < 2 ^ 64" "a + 40 \<noteq> 0"
proof -
  have rep: "heap_seg kMemoryBlockMagic (memoryHeaders s) 0 bs 0" and ord: "ordered 4096 bs (unat (heap_limit (system s)))"
    using inv by (simp_all add: user_blocks_def heap_rep_def)
  obtain xs ys where bs: "bs = xs @ Block a n False # ys" using live by (auto simp: live_def in_set_conv_decomp)
  have le: "unat a + 40 + unat n < 2 ^ 64"
    using ordered_mem [OF ord, of "Block a n False"] bs unsigned_less [of "heap_limit (system s)", where ?'a = nat] by simp
  then have u: "unat (a + 40) = unat a + 40" by (simp add: unat_word_ariths)
  then have "unat (a + 40) \<noteq> 0" by simp
  then have "a + 40 \<noteq> 0" by auto
  with that [OF bs live_header [OF rep bs] u le] show ?thesis .
qed

lemma join_effect:
  assumes inv: "user_blocks s bs" and bs: "bs = xs @ Block a n False # c # cs" and c: "free c"
  shows "user_blocks (s\<lparr>memoryHeaders := sMemoryCombineForward a (memoryHeaders s)\<rparr>) (xs @ join_next (Block a n False) (c # cs)) \<and>
    live (xs @ join_next (Block a n False) (c # cs)) = insert (a, n + 40 + len c) (live bs - {(a, n)})"
proof -
  have rep: "heap_seg kMemoryBlockMagic (memoryHeaders s) 0 bs 0" and head: "sMemoryHeapListHead s = first_addr bs 0"
    and ord: "ordered 4096 bs (unat (heap_limit (system s)))" using inv by (simp_all add: user_blocks_def heap_rep_def)
  have hi: "unat (heap_limit (system s)) \<le> 2 ^ 64" using unsigned_less [of "heap_limit (system s)", where ?'a = nat] by simp
  show ?thesis
    using inv combine_refines [OF rep [unfolded bs]] ordered_distinct [OF ord] heap_no_null [OF ord] head
      ordered_join_mid [OF ord [unfolded bs] hi] combine_live [of xs a n c cs] c
    by (simp add: user_blocks_def heap_rep_def bs first_addr_def hd_append Combine_same)
qed

lemma move_effect:
  assumes inv: "user_blocks s bs" and live: "(a, n) \<in> live bs" and req: "request s sz" and big: "n \<le> sz"
    and run: "MemoryReallocate grow (a + 40) sz s = bindE (MemoryAllocate grow sz s) (\<lambda>(newPointer, s).
       if newPointer = 0 then Inr (0, s)
       else Inr (newPointer, MemoryFree (a + 40) (s\<lparr>userBytes := MemoryCopy (userBytes s) newPointer (a + 40) (blockSize (memoryHeaders s a))\<rparr>)))"
  shows "\<exists>r t bs'. MemoryReallocate grow (a + 40) sz s = Inr (r, t) \<and> user_blocks t bs' \<and>
    (r = 0 \<and> live bs' = live bs \<and> userBytes t = userBytes s \<or>
     r \<noteq> 0 \<and> (\<exists>n'. sz \<le> n' \<and> live bs' = insert (r - 40, n') (live bs - {(a, n)}) \<and>
       userBytes t = (\<lambda>x. if x - r < n then userBytes s (a + 40 + (x - r)) else userBytes s x)))"
proof -
  from allocate_effect [OF inv req] obtain r u cs where
    u: "MemoryAllocate grow sz s = Inr (r, u)" "user_blocks u cs" "userBytes u = userBytes s"
    and cs: "if r = 0 then live cs = live bs else \<exists>n. sz \<le> n \<and> r - 40 \<notin> fst ` live bs \<and> live cs = insert (r - 40, n) (live bs)"
    by blast
  show ?thesis
  proof (cases "r = 0")
    case True
    then show ?thesis using u cs run by (intro exI [of _ 0] exI [of _ u] exI [of _ cs]) simp
  next
    case False
    with cs obtain n' where n': "sz \<le> n'" "r - 40 \<notin> fst ` live bs" "live cs = insert (r - 40, n') (live bs)" by auto
    have mem: "(a, n) \<in> live cs" "(r - 40, n') \<in> live cs" and ne: "r - 40 \<noteq> a" using n' live by (auto simp: image_iff)
    obtain xs ys where old: "cs = xs @ Block a n False # ys" "blockSize (memoryHeaders u a) = n"
      "unat (a + 40) = unat a + 40" "unat a + 40 + unat n < 2 ^ 64" by (rule live_place [OF u(2) mem(1)])
    obtain vs ws where new: "unat (r - 40 + 40) = unat (r - 40) + 40" "unat (r - 40) + 40 + unat n' < 2 ^ 64" by (rule live_place [OF u(2) mem(2)])
    have "unat a + 40 + unat n \<le> unat (r - 40) \<or> unat (r - 40) + 40 + unat n' \<le> unat a"
      by (rule user_heap.payloads_disjoint [OF u(2) mem]) (use ne in simp)
    moreover have "unat n \<le> unat n'" using big n'(1) unfolding word_le_nat_alt by simp
    ultimately have apart: "\<not> (0 < r - (a + 40) \<and> r - (a + 40) < n)" using old(3,4) new by (intro copy_apart) auto
    have copy: "MemoryCopy (userBytes u) r (a + 40) n = (\<lambda>x. if x - r < n then userBytes s (a + 40 + (x - r)) else userBytes s x)"
      using MemoryCopy_effect [OF apart] by (simp add: u(3))
    let ?v = "u\<lparr>userBytes := MemoryCopy (userBytes u) r (a + 40) n\<rparr>"
    have "user_blocks ?v cs" by (rule user_blocks_cong [OF u(2)]) simp_all
    from free_effect [OF this mem(1)] obtain st ds where
      st: "MemoryFree (a + 40) ?v = ?v\<lparr>memoryHeaders := st\<rparr>" "user_blocks (?v\<lparr>memoryHeaders := st\<rparr>) ds" "live ds = live cs - {(a, n)}" by blast
    have "MemoryReallocate grow (a + 40) sz s = Inr (r, ?v\<lparr>memoryHeaders := st\<rparr>)"
      unfolding run using u(1) False old(2) st(1) by simp
    moreover have "live ds = insert (r - 40, n') (live bs - {(a, n)})" using st(3) n'(3) ne by auto
    ultimately show ?thesis using False st(2) n'(1) copy
      by (intro exI [of _ r] exI [of _ "?v\<lparr>memoryHeaders := st\<rparr>"] exI [of _ ds]) auto
  qed
qed

lemma reallocate_effect:
  assumes inv: "user_blocks s bs" and live: "(a, n) \<in> live bs" and req: "request s sz"
  shows "\<exists>r t bs'. MemoryReallocate grow (a + 40) sz s = Inr (r, t) \<and> user_blocks t bs' \<and>
    (r = 0 \<and> live bs' = live bs \<and> userBytes t = userBytes s \<or>
     r \<noteq> 0 \<and> (\<exists>n'. sz \<le> n' \<and> live bs' = insert (r - 40, n') (live bs - {(a, n)}) \<and>
       (r = a + 40 \<and> userBytes t = userBytes s \<or>
        userBytes t = (\<lambda>x. if x - r < n then userBytes s (a + 40 + (x - r)) else userBytes s x))))"
proof -
  obtain xs ys where place: "bs = xs @ Block a n False # ys" "blockSize (memoryHeaders s a) = n" "nextBlock (memoryHeaders s a) = first_addr ys 0"
    "a + 40 \<noteq> 0" by (rule live_place [OF inv live])
  have rep: "heap_seg kMemoryBlockMagic (memoryHeaders s) 0 bs 0" and ord: "ordered 4096 bs (unat (heap_limit (system s)))"
    using inv by (simp_all add: user_blocks_def heap_rep_def)
  have self: "insert (a, n) (live bs - {(a, n)}) = live bs" using live by auto
  have sz: "sz \<noteq> 0" using req by (simp add: request_def)
  let ?joins = "first_addr ys 0 \<noteq> 0 \<and> isFree (memoryHeaders s (first_addr ys 0)) \<and> sz \<le> n + 40 + blockSize (memoryHeaders s (first_addr ys 0))"
  consider (fits) "sz \<le> n" | (joins) "\<not> sz \<le> n" ?joins | (moves) "\<not> sz \<le> n" "\<not> ?joins" by blast
  then show ?thesis
  proof cases
    case fits
    then have "MemoryReallocate grow (a + 40) sz s = Inr (a + 40, s)" using place sz by (simp add: MemoryReallocate_def Let_def)
    then show ?thesis using inv place(4) fits self
      by (intro exI [of _ "a + 40"] exI [of _ s] exI [of _ bs]) (auto intro!: exI [of _ n])
  next
    case joins
    then obtain c cs where c: "ys = c # cs" "free c" "sz \<le> n + 40 + len c" using rep place(1) by (cases ys) auto
    from join_effect [OF inv place(1) [unfolded c(1)] c(2)] have
      J: "user_blocks (s\<lparr>memoryHeaders := sMemoryCombineForward a (memoryHeaders s)\<rparr>) (xs @ join_next (Block a n False) (c # cs))"
      "live (xs @ join_next (Block a n False) (c # cs)) = insert (a, n + 40 + len c) (live bs - {(a, n)})" by blast+
    have "MemoryReallocate grow (a + 40) sz s = Inr (a + 40, s\<lparr>memoryHeaders := sMemoryCombineForward a (memoryHeaders s)\<rparr>)"
      using place joins sz by (simp add: MemoryReallocate_def Let_def)
    then show ?thesis using J place(4) c(3)
      by (intro exI [of _ "a + 40"] exI [of _ "s\<lparr>memoryHeaders := sMemoryCombineForward a (memoryHeaders s)\<rparr>"] exI [of _ "xs @ join_next (Block a n False) (c # cs)"]) auto
  next
    case moves
    then have "n \<le> sz" by simp
    moreover have "MemoryReallocate grow (a + 40) sz s = bindE (MemoryAllocate grow sz s) (\<lambda>(newPointer, s).
       if newPointer = 0 then Inr (0, s)
       else Inr (newPointer, MemoryFree (a + 40) (s\<lparr>userBytes := MemoryCopy (userBytes s) newPointer (a + 40) (blockSize (memoryHeaders s a))\<rparr>)))"
      using moves place sz unfolding MemoryReallocate_def Let_def add_diff_cancel by auto
    ultimately show ?thesis using move_effect [OF inv live req] by blast
  qed
qed

end

section \<open>The kernel provides the service\<close>

definition process_limit :: "'a filesystem_scheme \<Rightarrow> UInt64" where
  "process_limit s = heapCurrentPointer (processes s (taskProcess (current_task s)))"

definition process_ready :: "'a filesystem_scheme \<Rightarrow> bool" where
  "process_ready s \<longleftrightarrow> vmm_ready s (physicalPML4 (processes s (taskProcess (current_task s)))) \<and> (\<forall>p \<in> free_frames s. p < 2 ^ 34) \<and>
     frame_aligned (process_limit s) \<and> 4096 \<le> unat (process_limit s)"

lemma page_count:
  assumes "0 < n" "4096 * n + 4096 < 2 ^ 64"
  shows "unat ((of_nat (4096 * n) + (kVMPageSize - 1)) div kVMPageSize) = n" "of_nat (4096 * n) \<noteq> (0 :: UInt64)"
proof -
  have u: "unat (of_nat (4096 * n) :: UInt64) = 4096 * n" using assms(2) by (simp add: unsigned_of_nat take_bit_nat_eq_self del: of_nat_mult)
  then show "of_nat (4096 * n) \<noteq> (0 :: UInt64)" using assms(1) by force
  have "unat (of_nat (4096 * n) + 4095 :: UInt64) = 4096 * n + 4095" using assms(2) u by (simp add: unat_word_ariths del: of_nat_mult)
  then show "unat ((of_nat (4096 * n) + (kVMPageSize - 1)) div kVMPageSize) = n" by (simp add: unat_div del: of_nat_mult)
qed

interpretation process_memory: memory_service OSServiceMemoryAllocate process_limit process_ready
proof
  fix s :: "'a filesystem_scheme"
  assume ready: "process_ready s"
  show "4096 \<le> unat (process_limit s)" using ready by (simp add: process_ready_def)
  fix n :: nat
  assume n: "0 < n" "unat (process_limit s) + 4096 * n < 2 ^ 64"
  let ?cp = "taskProcess (current_task s)" and ?h = "process_limit s"
  have small: "4096 * n + 4096 < 2 ^ 64" using n(2) ready by (simp add: process_ready_def)
  note count = page_count [OF n(1) small]
  have "region_mapped ?h s (physicalPML4 (processes s ?cp)) ?h s" by (auto simp: region_mapped_def)
  then have "\<exists>t k. sOSServiceMemoryPages ?cp n s = Inr (k = n, t) \<and> k \<le> n \<and> (k < n \<longrightarrow> free_frames t = {}) \<and>
      heap_grown ?cp (?h + 4096 * of_nat k) s t \<and> vmm_ready t (physicalPML4 (processes s ?cp)) \<and> free_frames t \<subseteq> free_frames s \<and>
      (free_frames t \<noteq> {} \<longrightarrow> region_mapped ?h s (physicalPML4 (processes s ?cp)) (?h + 4096 * of_nat n) t)"
    using MemoryPages_effect [of s ?cp ?h n s] ready n by (simp add: process_ready_def process_limit_def)
  then obtain t k where t: "sOSServiceMemoryPages ?cp n s = Inr (k = n, t)" "k \<le> n" "heap_grown ?cp (?h + 4096 * of_nat k) s t"
    "vmm_ready t (physicalPML4 (processes s ?cp))" "free_frames t \<subseteq> free_frames s" by blast
  have cur: "current_task t = current_task s" "physicalPML4 (processes t ?cp) = physicalPML4 (processes s ?cp)"
    and limit: "process_limit t = ?h + 4096 * of_nat k"
    using t(3) by (auto simp: heap_grown_def process_limit_def)
  have "unat (of_nat (4096 * k) :: UInt64) = 4096 * k"
    using t(2) small by (simp add: unsigned_of_nat take_bit_nat_eq_self del: of_nat_mult)
  then have up: "unat (process_limit t) = unat ?h + 4096 * k" using t(2) n(2) unfolding limit by (simp add: unat_word_ariths)
  have "frame_aligned (process_limit t)" "4096 \<le> unat (process_limit t)"
    using ready unfolding process_ready_def frame_aligned_def up by simp_all
  moreover have "\<forall>p \<in> free_frames t. p < 2 ^ 34" using ready t(5) unfolding process_ready_def by blast
  moreover have "vmm_ready t (physicalPML4 (processes t (taskProcess (current_task t))))" using t(4) unfolding cur .
  ultimately have "process_ready t" unfolding process_ready_def by blast
  moreover have "OSServiceMemoryAllocate (of_nat (4096 * n)) s = Inr (if k = n then ?h else 0, t)"
    using count t(1) by (simp add: OSServiceMemoryAllocate_def Let_def process_limit_def del: of_nat_mult)
  ultimately show "\<exists>r k'. OSServiceMemoryAllocate (of_nat (4096 * n)) s = Inr (r, k') \<and> process_ready k' \<and>
      unat ?h \<le> unat (process_limit k') \<and> (r = 0 \<or> r = ?h \<and> process_limit k' = ?h + of_nat (4096 * n))"
    using up limit by (intro exI [of _ "if k = n then ?h else 0"] exI [of _ t]) simp
qed


section \<open>The heap of a process\<close>

text \<open>\<open>process_heap s bs\<close>: the headers of the process represent the blocks \<open>bs\<close>, in order and apart, below the end of its heap.\<close>

definition process_heap :: "'a filesystem_scheme user \<Rightarrow> block list \<Rightarrow> bool" where
  "process_heap s bs \<longleftrightarrow> process_ready (system s) \<and> heap_rep kMemoryBlockMagic (memoryHeaders s) (sMemoryHeapListHead s) bs \<and>
     ordered 4096 bs (unat (process_limit (system s)))"

lemma process_heap_blocks: "process_heap s bs \<longleftrightarrow> process_memory.user_blocks s bs"
  by (simp add: process_heap_def process_memory.user_blocks_def)


text \<open>A process with one block, which it uses, in the last page of its heap.\<close>

definition small_user :: "filesystem user" where
  "small_user = \<lparr>userBytes = \<lambda>_. 0,
     memoryHeaders = \<lambda>_. \<lparr>blockMagic = kMemoryBlockMagic, nextBlock = 0, previousBlock = 0, blockSize = 4056, isFree = False\<rparr>,
     sMemoryHeapListHead = 0x3FFFF000, olds = 0, system = small_process\<rparr>"


end
