(* ===== verification/LibString.thy ===== *)
theory LibString
  imports LibMemory
begin

text \<open>
  The routines of \<^verbatim>\<open>userspace/libterm/src/String.c\<close> that cut a string into tokens, over the bytes of the
  process, and the loop of \<^verbatim>\<open>userspace/termosh/src/modules/parser.c\<close> that collects them. They are compared
  with \<open>words\<close>, the maximal runs of other characters. The routines the library has in common with the
  kernel (\<^verbatim>\<open>MemorySet\<close>, \<^verbatim>\<open>StringCompare\<close> and so on) are in LibBytes.
\<close>

unbundle bit_operations_syntax

section \<open>Strings in memory\<close>

text \<open>The loops over a string in the memory of the process; without a terminator they would never end.\<close>

partial_function (option) sStringGetLength :: "memory \<Rightarrow> UInt64 \<Rightarrow> UInt64 \<Rightarrow> (fault + UInt64) option" where
  "sStringGetLength m string result =
     (if m (string + result) = 0 then Some (Inr result) else sStringGetLength m string (result + 1))"

fun sStringIsInSet :: "UInt8 \<Rightarrow> UInt8 list \<Rightarrow> fault + bool" where
  "sStringIsInSet character [] = Inl OutOfBounds"
| "sStringIsInSet character (c # characters) =
     (if c = 0 then Inr False else if c = character then Inr True else sStringIsInSet character characters)"

partial_function (option) sStringInitialSpan :: "memory \<Rightarrow> UInt64 \<Rightarrow> UInt8 list \<Rightarrow> UInt64 \<Rightarrow> (fault + UInt64) option" where
  "sStringInitialSpan m string characterSet count =
     (if m string = 0 then Some (Inr count)
      else case sStringIsInSet (m string) characterSet of
        Inl e \<Rightarrow> Some (Inl e)
      | Inr found \<Rightarrow> if found then sStringInitialSpan m (string + 1) characterSet (count + 1) else Some (Inr count))"

definition StringGetInitialSpan :: "memory \<Rightarrow> UInt64 \<Rightarrow> UInt8 list \<Rightarrow> fault + UInt64" where
  "StringGetInitialSpan m string characterSet = returns (sStringInitialSpan m string characterSet 0)"

partial_function (option) sStringFindFirst :: "memory \<Rightarrow> UInt64 \<Rightarrow> UInt8 list \<Rightarrow> (fault + UInt64) option" where
  "sStringFindFirst m string characterSet =
     (if m string = 0 then Some (Inr 0)
      else case sStringIsInSet (m string) characterSet of
        Inl e \<Rightarrow> Some (Inl e)
      | Inr found \<Rightarrow> if found then Some (Inr string) else sStringFindFirst m (string + 1) characterSet)"

definition StringFindFirstCharacterFromSet :: "memory \<Rightarrow> UInt64 \<Rightarrow> UInt8 list \<Rightarrow> fault + UInt64" where
  "StringFindFirstCharacterFromSet m string characterSet = returns (sStringFindFirst m string characterSet)"

text \<open>A null \<open>string\<close> goes on where the last call stopped.\<close>

definition StringTokenize :: "UInt64 \<Rightarrow> UInt8 list \<Rightarrow> 'k user \<Rightarrow> fault + UInt64 \<times> 'k user" where
  "StringTokenize string delimiters s =
     (let string = (if string = 0 then olds s else string)
      in bindE (StringGetInitialSpan (userBytes s) string delimiters) (\<lambda>span.
         let string = string + span
         in if userBytes s string = 0 then Inr (0, s\<lparr>olds := string\<rparr>)
            else let token = string
                 in bindE (StringFindFirstCharacterFromSet (userBytes s) token delimiters) (\<lambda>string.
                    if string = 0
                    then bindE (returns (sStringGetLength (userBytes s) token 0)) (\<lambda>n. Inr (token, s\<lparr>olds := token + n\<rparr>))
                    else Inr (token, s\<lparr>userBytes := (userBytes s)(string := 0), olds := string + 1\<rparr>))))"

section \<open>What is in memory\<close>

fun c_text :: "memory \<Rightarrow> UInt64 \<Rightarrow> UInt8 list \<Rightarrow> bool" where
  "c_text m a [] \<longleftrightarrow> m a = 0"
| "c_text m a (c # cs) \<longleftrightarrow> c \<noteq> 0 \<and> m a = c \<and> a + 1 \<noteq> 0 \<and> c_text m (a + 1) cs"

lemma unat_next: "(a :: UInt64) + 1 \<noteq> 0 \<Longrightarrow> unat (a + 1) = Suc (unat a)"
  by (metis add.commute unatSuc)

lemma c_text_bound: "c_text m a xs \<Longrightarrow> unat a + length xs < 2 ^ 64"
proof (induction xs arbitrary: a)
  case Nil
  show ?case using unsigned_less [of a, where ?'a = nat] by simp
next
  case (Cons c xs)
  then have step: "a + 1 \<noteq> 0" "c_text m (a + 1) xs" by auto
  from unat_next [OF step(1)] Cons.IH [OF step(2)] show ?case by simp
qed

lemma c_text_no_null: "c_text m a xs \<Longrightarrow> 0 \<notin> set xs"
  by (induction xs arbitrary: a) auto

lemma c_text_place: "c_text m a xs \<Longrightarrow> i \<le> length xs \<Longrightarrow> unat (a + of_nat i) = unat a + i"
proof -
  assume "c_text m a xs" "i \<le> length xs"
  then have "unat a + i < 2 ^ 64" using c_text_bound by fastforce
  moreover from this have "unat (of_nat i :: UInt64) = i" by (simp add: unsigned_of_nat take_bit_nat_eq_self)
  ultimately show ?thesis by (simp add: unat_word_ariths)
qed

lemma c_text_cong:
  "(\<And>i. i \<le> length xs \<Longrightarrow> m' (a + of_nat i) = m (a + of_nat i)) \<Longrightarrow> c_text m a xs \<Longrightarrow> c_text m' a xs"
proof (induction xs arbitrary: a)
  case (Cons c xs)
  have "m' (a + 1 + of_nat i) = m (a + 1 + of_nat i)" if "i \<le> length xs" for i
    using Cons.prems(1) [of "Suc i"] that by (simp add: algebra_simps)
  with Cons.IH [of "a + 1"] Cons.prems(1) [of 0] Cons.prems(2) show ?case by auto
qed force

lemma c_text_append: "c_text m a (xs @ ys) \<Longrightarrow> c_text m (a + of_nat (length xs)) ys"
proof (induction xs arbitrary: a)
  case (Cons c xs)
  from Cons.IH [of "a + 1"] Cons.prems show ?case by (simp add: add.assoc)
qed simp

text \<open>Cutting a string in two by a terminator.\<close>

lemma c_text_cut:
  assumes "c_text m a (xs @ c # ys)"
  shows "c_text (m(a + of_nat (length xs) := 0)) a xs" "c_text (m(a + of_nat (length xs) := 0)) (a + of_nat (length xs) + 1) ys"
proof -
  let ?q = "a + of_nat (length xs)"
  have q: "unat ?q = unat a + length xs" using c_text_place [OF assms, of "length xs"] by simp
  show "c_text (m(?q := 0)) a xs"
    using assms
  proof (induction xs arbitrary: a)
    case (Cons b xs)
    have "a \<noteq> a + of_nat (length (b # xs))"
    proof -
      have "unat (a + of_nat (length (b # xs))) = unat a + length (b # xs)" using c_text_place [OF Cons.prems, of "length (b # xs)"] by simp
      then show ?thesis by force
    qed
    then show ?case using Cons.IH [of "a + 1"] Cons.prems by (simp add: add.assoc)
  qed simp
  have rest: "c_text m (?q + 1) ys" "?q + 1 \<noteq> 0" using c_text_append [OF assms] by simp_all
  show "c_text (m(?q := 0)) (?q + 1) ys"
  proof (rule c_text_cong [OF _ rest(1)])
    fix i assume "i \<le> length ys"
    then have "unat (?q + 1 + of_nat i) = Suc (unat ?q) + i" using c_text_place [OF rest(1)] unat_next [OF rest(2)] by simp
    then have "?q + 1 + of_nat i \<noteq> ?q" by (intro notI) simp
    then show "(m(?q := 0)) (?q + 1 + of_nat i) = m (?q + 1 + of_nat i)" by simp
  qed
qed

section \<open>What the loops find\<close>

lemma IsInSet_effect: "0 \<notin> set ds \<Longrightarrow> sStringIsInSet c (ds @ [0]) = Inr (c \<in> set ds)"
  by (induction ds) auto

lemma GetLength_effect: "c_text m (a + n) xs \<Longrightarrow> sStringGetLength m a n = Some (Inr (n + of_nat (length xs)))"
proof (induction xs arbitrary: n)
  case Nil
  then show ?case by (subst sStringGetLength.simps) simp
next
  case (Cons c xs)
  then show ?case using Cons.IH [of "n + 1"] by (subst sStringGetLength.simps) (simp add: algebra_simps)
qed

lemma InitialSpan_effect:
  "c_text m a xs \<Longrightarrow> 0 \<notin> set ds \<Longrightarrow>
   sStringInitialSpan m a (ds @ [0]) n = Some (Inr (n + of_nat (length (takeWhile (\<lambda>c. c \<in> set ds) xs))))"
proof (induction xs arbitrary: a n)
  case Nil
  then show ?case by (subst sStringInitialSpan.simps) simp
next
  case (Cons c xs)
  then show ?case using Cons.IH [of "a + 1" "n + 1"]
    by (subst sStringInitialSpan.simps) (simp add: IsInSet_effect add.assoc)
qed

lemma FindFirst_effect:
  "c_text m a xs \<Longrightarrow> 0 \<notin> set ds \<Longrightarrow>
   sStringFindFirst m a (ds @ [0]) = Some (Inr (if \<exists>c \<in> set xs. c \<in> set ds then a + of_nat (length (takeWhile (\<lambda>c. c \<notin> set ds) xs)) else 0))"
proof (induction xs arbitrary: a)
  case Nil
  then show ?case by (subst sStringFindFirst.simps) simp
next
  case (Cons c xs)
  then show ?case using Cons.IH [of "a + 1"]
    by (subst sStringFindFirst.simps) (simp add: IsInSet_effect add.assoc)
qed

section \<open>Tokens are words\<close>

text \<open>The words of a text: what is left of it when it is broken at the delimiters.\<close>

function words :: "UInt8 set \<Rightarrow> UInt8 list \<Rightarrow> UInt8 list list" where
  "words ds xs =
     (let ys = dropWhile (\<lambda>c. c \<in> ds) xs
      in if ys = [] then [] else takeWhile (\<lambda>c. c \<notin> ds) ys # words ds (dropWhile (\<lambda>c. c \<notin> ds) ys))"
  by pat_completeness auto
termination
proof (relation "measure (\<lambda>(ds, xs). length xs)")
  fix ds :: "UInt8 set" and xs ys :: "UInt8 list"
  assume ys: "ys = dropWhile (\<lambda>c. c \<in> ds) xs" "ys \<noteq> []"
  then have "hd ys \<notin> ds" using hd_dropWhile by metis
  then have "length (dropWhile (\<lambda>c. c \<notin> ds) ys) < length ys"
    using ys(2) by (cases ys) (auto simp: length_dropWhile_le less_Suc_eq_le)
  then show "((ds, dropWhile (\<lambda>c. c \<notin> ds) ys), ds, xs) \<in> measure (\<lambda>(ds, xs). length xs)"
    using length_dropWhile_le [of "\<lambda>c. c \<in> ds" xs] ys(1) by simp
qed simp

declare words.simps [simp del]

lemma words_delimiter: "c \<in> ds \<Longrightarrow> words ds (c # xs) = words ds xs"
  by (subst (1 2) words.simps) simp

text \<open>What a call finds at \<open>p\<close>: the next word as a string of its own, and where the text goes on.\<close>

lemma Tokenize_effect:
  assumes str: "c_text (userBytes s) p xs" and p: "(if string = 0 then olds s else string) = p" "p \<noteq> 0" and ds: "0 \<notin> set ds"
  shows "\<exists>token t rest. StringTokenize string (ds @ [0]) s = Inr (token, t) \<and> system t = system s \<and> c_text (userBytes t) (olds t) rest \<and>
    unat p \<le> unat (olds t) \<and> unat (olds t) + length rest = unat p + length xs \<and>
    (\<forall>x. unat x < unat p \<or> unat p + length xs \<le> unat x \<longrightarrow> userBytes t x = userBytes s x) \<and>
    (case words (set ds) xs of [] \<Rightarrow> token = 0 \<and> words (set ds) rest = []
     | w # ws \<Rightarrow> token \<noteq> 0 \<and> c_text (userBytes t) token w \<and> words (set ds) rest = ws \<and>
         unat p \<le> unat token \<and> unat token + length w < unat (olds t) + (if rest = [] then 1 else 0))"
proof -
  let ?d = "\<lambda>c. c \<in> set ds" and ?m = "userBytes s"
  define sp where "sp = takeWhile ?d xs"
  define ys where "ys = dropWhile ?d xs"
  let ?q = "p + of_nat (length sp)"
  have xs: "xs = sp @ ys" by (simp add: sp_def ys_def)
  then have len: "length xs = length sp + length ys" by simp
  have q: "c_text ?m ?q ys" "unat ?q = unat p + length sp"
    using c_text_append [of ?m p sp ys] str c_text_place [OF str, of "length sp"] len unfolding xs by simp_all
  have span: "StringGetInitialSpan ?m p (ds @ [0]) = Inr (of_nat (length sp))"
    using InitialSpan_effect [OF str ds, of 0] by (simp add: StringGetInitialSpan_def sp_def)
  show ?thesis
  proof (cases "ys = []")
    case True
    have "StringTokenize string (ds @ [0]) s = Inr (0, s\<lparr>olds := ?q\<rparr>)"
      using span q(1) True by (simp add: StringTokenize_def p(1) Let_def)
    moreover have "words (set ds) xs = []" "words (set ds) [] = []" using True by (simp_all add: words.simps ys_def)
    ultimately show ?thesis using q True len
      by (intro exI [of _ 0] exI [of _ "s\<lparr>olds := ?q\<rparr>"] exI [of _ "[]"]) simp
  next
    case False
    define w where "w = takeWhile (\<lambda>c. c \<notin> set ds) ys"
    define rest where "rest = dropWhile (\<lambda>c. c \<notin> set ds) ys"
    have words: "words (set ds) xs = w # words (set ds) rest" using False unfolding w_def rest_def ys_def by (subst words.simps) (simp add: Let_def)
    have ys: "ys = w @ rest" by (simp add: w_def rest_def)
    have first: "?m ?q \<noteq> 0" using q(1) False by (cases ys) auto
    have "0 < unat p" using p(2) by (simp add: unat_gt_0)
    then have nz: "?q \<noteq> 0" using q(2) by auto
    have find: "StringFindFirstCharacterFromSet ?m ?q (ds @ [0]) =
        Inr (if \<exists>c \<in> set ys. c \<in> set ds then ?q + of_nat (length w) else 0)"
      using FindFirst_effect [OF q(1) ds] by (simp add: StringFindFirstCharacterFromSet_def w_def)
    show ?thesis
    proof (cases rest)
      case Nil
      have none: "\<not> (\<exists>c \<in> set ys. c \<in> set ds)" using Nil by (simp add: rest_def)
      have w: "ys = w" using ys Nil by simp
      have "returns (sStringGetLength ?m ?q 0) = Inr (of_nat (length ys))" using GetLength_effect [of ?m ?q 0 ys] q(1) by simp
      then have "StringTokenize string (ds @ [0]) s = Inr (?q, s\<lparr>olds := ?q + of_nat (length ys)\<rparr>)"
        using span find none first by (simp add: StringTokenize_def p(1) Let_def)
      moreover have "c_text ?m (?q + of_nat (length ys)) []" using c_text_append [of ?m ?q ys "[]"] q(1) by simp
      moreover have "unat (?q + of_nat (length ys)) = unat ?q + length ys" using c_text_place [OF q(1), of "length ys"] by simp
      ultimately show ?thesis using q len words w Nil nz
        by (intro exI [of _ ?q] exI [of _ "s\<lparr>olds := ?q + of_nat (length ys)\<rparr>"] exI [of _ "[]"]) (simp add: words.simps)
    next
      case (Cons z zs)
      have z: "z \<in> set ds" using Cons hd_dropWhile [of "\<lambda>c. c \<notin> set ds" ys] by (simp add: rest_def)
      have ys': "ys = w @ z # zs" using ys unfolding Cons .
      have some: "\<exists>c \<in> set ys. c \<in> set ds" using z by (subst ys') auto
      let ?e = "?q + of_nat (length w)"
      have len_ys: "length ys = length w + 1 + length zs" by (subst ys') simp
      have "c_text ?m ?q (w @ z # zs)" using q(1) ys' by metis
      note cut = c_text_cut [OF this]
      have "unat (?q + of_nat (length w)) = unat ?q + length w" "unat (?q + of_nat (Suc (length w))) = unat ?q + Suc (length w)"
        using c_text_place [OF q(1), of "length w"] c_text_place [OF q(1), of "Suc (length w)"] len_ys by simp_all
      then have e: "unat ?e = unat ?q + length w" "unat (?e + 1) = unat ?q + length w + 1" by (simp_all add: algebra_simps)
      then have "?e \<noteq> 0" using \<open>0 < unat p\<close> q(2) by auto
      then have "StringTokenize string (ds @ [0]) s = Inr (?q, s\<lparr>userBytes := ?m(?e := 0), olds := ?e + 1\<rparr>)"
        using span find some first by (simp add: StringTokenize_def p(1) Let_def)
      moreover have "words (set ds) rest = words (set ds) zs" using Cons z by (simp add: words_delimiter)
      ultimately show ?thesis using q len len_ys words nz e cut
        by (intro exI [of _ ?q] exI [of _ "s\<lparr>userBytes := ?m(?e := 0), olds := ?e + 1\<rparr>"] exI [of _ zs]) auto
    qed
  qed
qed

section \<open>The parser of \<^verbatim>\<open>termosh\<close>\<close>

definition delim :: "UInt8 list" where
  "delim = [0x20, 0x09, 0x0D, 0x0A, 0]"

text \<open>The loop that fills the array of tokens, for as many as are still allowed.\<close>

fun sTokens :: "nat \<Rightarrow> UInt64 \<Rightarrow> 'k user \<Rightarrow> fault + UInt64 list \<times> 'k user" where
  "sTokens 0 token s = Inr ([], s)"
| "sTokens (Suc n) token s =
     (if token = 0 then Inr ([], s)
      else bindE (StringTokenize 0 delim s) (\<lambda>(next_token, s).
           bindE (sTokens n next_token s) (\<lambda>(tokens, s). Inr (token # tokens, s))))"

definition tokenize :: "UInt64 \<Rightarrow> nat \<Rightarrow> 'k user \<Rightarrow> fault + UInt64 list \<times> 'k user" where
  "tokenize buffer max_tokens s =
     bindE (StringTokenize buffer delim s) (\<lambda>(token, s). sTokens max_tokens token s)"

lemma delim_set: "delim = [0x20, 0x09, 0x0D, 0x0A] @ [0]" "0 \<notin> set [0x20, 0x09, 0x0D, 0x0A :: UInt8]"
  by (simp_all add: delim_def)

abbreviation blanks :: "UInt8 set" where
  "blanks \<equiv> set [0x20, 0x09, 0x0D, 0x0A]"

text \<open>Between two calls: the token at hand is the next word, and the rest of the text starts at \<open>olds\<close>, after it.\<close>

definition between :: "UInt64 \<Rightarrow> 'k user \<Rightarrow> UInt8 list list \<Rightarrow> UInt8 list \<Rightarrow> bool" where
  "between token s ws rest \<longleftrightarrow> c_text (userBytes s) (olds s) rest \<and> olds s \<noteq> 0 \<and>
     (case ws of [] \<Rightarrow> token = 0 \<and> words blanks rest = []
      | w # ws \<Rightarrow> token \<noteq> 0 \<and> c_text (userBytes s) token w \<and> words blanks rest = ws \<and>
          unat token + length w < unat (olds s) + (if rest = [] then 1 else 0))"

lemma Tokens_effect:
  assumes "between token s ws rest"
  shows "\<exists>tokens t. sTokens n token s = Inr (tokens, t) \<and> system t = system s \<and> list_all2 (c_text (userBytes t)) tokens (take n ws) \<and>
    (\<forall>x. unat x < unat (olds s) \<or> unat (olds s) + length rest \<le> unat x \<longrightarrow> userBytes t x = userBytes s x)"
  using assms
proof (induction n arbitrary: token s ws rest)
  case 0
  then show ?case by simp
next
  case (Suc n)
  show ?case
  proof (cases ws)
    case Nil
    then show ?thesis using Suc.prems by (simp add: between_def)
  next
    case (Cons w ws')
    have str: "c_text (userBytes s) (olds s) rest" "olds s \<noteq> 0" and token: "token \<noteq> 0" "c_text (userBytes s) token w" "words blanks rest = ws'"
      "unat token + length w < unat (olds s) + (if rest = [] then 1 else 0)"
      using Suc.prems Cons by (simp_all add: between_def)
    from Tokenize_effect [OF str(1) _ str(2) delim_set(2), of 0, folded delim_set(1)] obtain token' t rest' where
      t: "StringTokenize 0 delim s = Inr (token', t)" "system t = system s" "c_text (userBytes t) (olds t) rest'"
        "unat (olds s) \<le> unat (olds t)" "unat (olds t) + length rest' = unat (olds s) + length rest"
        "\<And>x. unat x < unat (olds s) \<or> unat (olds s) + length rest \<le> unat x \<Longrightarrow> userBytes t x = userBytes s x"
      and next_word: "case words blanks rest of [] \<Rightarrow> token' = 0 \<and> words blanks rest' = []
       | w # ws \<Rightarrow> token' \<noteq> 0 \<and> c_text (userBytes t) token' w \<and> words blanks rest' = ws \<and>
           unat (olds s) \<le> unat token' \<and> unat token' + length w < unat (olds t) + (if rest' = [] then 1 else 0)"
      by auto
    have "olds t \<noteq> 0" using t(4) str(2) by (metis le_zero_eq unat_eq_zero)
    then have "between token' t ws' rest'" using t(3) next_word token(3) by (auto simp: between_def split: list.splits)
    from Suc.IH [OF this] obtain tokens u where
      u: "sTokens n token' t = Inr (tokens, u)" "system u = system t" "list_all2 (c_text (userBytes u)) tokens (take n ws')"
        "\<And>x. unat x < unat (olds t) \<or> unat (olds t) + length rest' \<le> unat x \<Longrightarrow> userBytes u x = userBytes t x" by blast
    have same: "userBytes u x = userBytes s x" if "unat x < unat (olds s) \<or> unat (olds s) + length rest \<le> unat x" for x
      using u(4) [of x] t(6) [OF that] t(4,5) that by auto
    have "c_text (userBytes u) token w"
    proof (rule c_text_cong [OF _ token(2)])
      fix i assume i: "i \<le> length w"
      have "unat (token + of_nat i) = unat token + i" by (rule c_text_place [OF token(2) i])
      then show "userBytes u (token + of_nat i) = userBytes s (token + of_nat i)"
        using token(4) i by (intro same) (auto split: if_splits)
    qed
    then have "list_all2 (c_text (userBytes u)) (token # tokens) (take (Suc n) ws)" using u(3) Cons by simp
    moreover have "sTokens (Suc n) token s = Inr (token # tokens, u)" using token(1) t(1) u(1) by simp
    ultimately show ?thesis using same t(2) u(2) by (metis (no_types, lifting))
  qed
qed

lemma tokenize_effect:
  assumes line: "c_text (userBytes s) buffer line" "buffer \<noteq> 0"
  shows "\<exists>tokens t. tokenize buffer max_tokens s = Inr (tokens, t) \<and> system t = system s \<and>
    list_all2 (c_text (userBytes t)) tokens (take max_tokens (words {0x20, 0x09, 0x0D, 0x0A} line)) \<and>
    (\<forall>x. unat x < unat buffer \<or> unat buffer + length line \<le> unat x \<longrightarrow> userBytes t x = userBytes s x)"
proof -
  from Tokenize_effect [OF line(1) _ line(2) delim_set(2), of buffer, folded delim_set(1)] line(2) obtain token t rest where
    t: "StringTokenize buffer delim s = Inr (token, t)" "system t = system s" "c_text (userBytes t) (olds t) rest"
      "unat buffer \<le> unat (olds t)" "unat (olds t) + length rest = unat buffer + length line"
      "\<And>x. unat x < unat buffer \<or> unat buffer + length line \<le> unat x \<Longrightarrow> userBytes t x = userBytes s x"
    and next_word: "case words blanks line of [] \<Rightarrow> token = 0 \<and> words blanks rest = []
     | w # ws \<Rightarrow> token \<noteq> 0 \<and> c_text (userBytes t) token w \<and> words blanks rest = ws \<and>
         unat buffer \<le> unat token \<and> unat token + length w < unat (olds t) + (if rest = [] then 1 else 0)"
    by auto
  have "olds t \<noteq> 0" using t(4) line(2) by (metis le_zero_eq unat_eq_zero)
  then have "between token t (words blanks line) rest" using t(3) next_word by (auto simp: between_def split: list.splits)
  from Tokens_effect [OF this, of max_tokens] obtain tokens u where
    u: "sTokens max_tokens token t = Inr (tokens, u)" "system u = system t" "list_all2 (c_text (userBytes u)) tokens (take max_tokens (words blanks line))"
      "\<And>x. unat x < unat (olds t) \<or> unat (olds t) + length rest \<le> unat x \<Longrightarrow> userBytes u x = userBytes t x" by blast
  have "userBytes u x = userBytes s x" if "unat x < unat buffer \<or> unat buffer + length line \<le> unat x" for x
    using u(4) [of x] t(6) [OF that] t(4,5) that by auto
  then show ?thesis using t(1,2) u(1,2,3) by (intro exI [of _ tokens] exI [of _ u]) (simp add: tokenize_def)
qed

text \<open>C38: The parser breaks a line in memory into its words, at blanks, tabs and line ends: the tokens it returns are strings that
  hold the first words of the line, as many as the caller allows, and outside the line no byte changes.\<close>

theorem tokenize_correct:
  assumes line: "c_text (userBytes s) buffer line" "buffer \<noteq> 0"
  shows "\<exists>tokens t. tokenize buffer max_tokens s = Inr (tokens, t) \<and>
    list_all2 (c_text (userBytes t)) tokens (take max_tokens (words {0x20, 0x09, 0x0D, 0x0A} line)) \<and>
    (\<forall>x. unat x < unat buffer \<or> unat buffer + length line \<le> unat x \<longrightarrow> userBytes t x = userBytes s x)"
  using tokenize_effect [OF line] by metis

text \<open>The line \<open>a b\<close> in memory.\<close>

lemma tokenize_correct_witness:
  "\<exists>tokens t. tokenize 0x1000 512 (small_user\<lparr>userBytes := (\<lambda>_. 0)(0x1000 := 0x61, 0x1001 := 0x20, 0x1002 := 0x62)\<rparr>) = Inr (tokens, t) \<and>
    list_all2 (c_text (userBytes t)) tokens [[0x61], [0x62]]"
proof -
  let ?s = "small_user\<lparr>userBytes := (\<lambda>_. 0)(0x1000 := 0x61, 0x1001 := 0x20, 0x1002 := 0x62)\<rparr>"
  have line: "c_text (userBytes ?s) 0x1000 [0x61, 0x20, 0x62]" by simp
  have "words {0x20, 0x09, 0x0D, 0x0A} [0x61, 0x20, 0x62] = [[0x61], [0x62]]" by (simp add: words.simps)
  then show ?thesis using tokenize_correct [OF line, of 512] by auto
qed

end
