(* ===== verification/LibConsole.thy ===== *)
theory LibConsole
  imports LibString
begin

text \<open>
  Formatting and the console of a process, \<^verbatim>\<open>userspace/libterm/src/Console.c\<close> and the formatting half of
  \<^verbatim>\<open>userspace/libterm/src/String.c\<close>. The system calls a program makes are the functions of a record
  \<open>services\<close>, an argument of the operations. Formatted text is compared with \<open>formatted\<close>, the text of each
  directive in turn, cut at the size of the buffer.
\<close>

unbundle bit_operations_syntax

section \<open>System calls of a process\<close>

text \<open>
  What the library calls of the kernel, with the bytes the kernel reads from the process or writes to it: the
  result comes with the bytes read.
\<close>

record 'k services =
  serviceWrite :: "UInt64 \<Rightarrow> UInt8 list \<Rightarrow> 'k \<Rightarrow> fault + UInt64 \<times> 'k"
  serviceRead :: "UInt64 \<Rightarrow> UInt64 \<Rightarrow> 'k \<Rightarrow> fault + (UInt64 \<times> UInt8 list) \<times> 'k"
  serviceSpawn :: "UInt8 list \<Rightarrow> 'k \<Rightarrow> fault + Int32 \<times> 'k"
  serviceWait :: "UInt64 \<Rightarrow> 'k \<Rightarrow> fault + Int32 \<times> 'k"

text \<open>The bytes of a buffer that a system call is given.\<close>

definition user_bytes :: "'k user \<Rightarrow> UInt64 \<Rightarrow> UInt64 \<Rightarrow> UInt8 list" where
  "user_bytes s buffer count = map (\<lambda>i. userBytes s (buffer + of_nat i)) [0..<unat count]"

definition write_service :: "'k services \<Rightarrow> UInt64 \<Rightarrow> UInt8 list \<Rightarrow> 'k user \<Rightarrow> fault + UInt64 \<times> 'k user" where
  "write_service services fileDescriptor contents s =
     bindE (serviceWrite services fileDescriptor contents (system s)) (\<lambda>(n, k). Inr (n, s\<lparr>system := k\<rparr>))"

section \<open>Formatting\<close>

text \<open>Memory and the count of what was produced so far; what does not fit is only counted.\<close>

definition sConsoleBufferAdd :: "UInt64 \<Rightarrow> UInt64 \<Rightarrow> UInt8 \<Rightarrow> UInt64 \<times> memory \<Rightarrow> UInt64 \<times> memory" where
  "sConsoleBufferAdd string sz character = (\<lambda>(written, m).
     (written + 1, if written < sz - 1 \<and> sz > 0 then m(string + written := character) else m))"

fun sConsoleBufferAddString :: "UInt64 \<Rightarrow> UInt64 \<Rightarrow> UInt8 list \<Rightarrow> UInt64 \<times> memory \<Rightarrow> fault + UInt64 \<times> memory" where
  "sConsoleBufferAddString string sz [] st = Inl OutOfBounds"
| "sConsoleBufferAddString string sz (c # cs) st =
     (if c = 0 then Inr st else sConsoleBufferAddString string sz cs (sConsoleBufferAdd string sz c st))"

text \<open>The digits of a number, least significant first, into \<open>tempBuffer\<close>.\<close>

function sStringDigits :: "UInt64 \<Rightarrow> (UInt64 \<Rightarrow> UInt8) \<Rightarrow> UInt64 \<Rightarrow> UInt8 list \<Rightarrow> nat \<Rightarrow> fault + UInt8 list \<times> nat" where
  "sStringDigits base digit unsignedNumber tempBuffer filled =
     (if unsignedNumber > 0 \<and> 1 < base
      then bindE (array_set tempBuffer filled (digit (unsignedNumber mod base))) (\<lambda>tempBuffer.
             sStringDigits base digit (unsignedNumber div base) tempBuffer (filled + 1))
      else Inr (tempBuffer, filled))"
  by pat_completeness auto
termination
proof (relation "measure (\<lambda>(base, digit, n, buffer, i). unat n)")
  fix base n :: UInt64 and digit :: "UInt64 \<Rightarrow> UInt8" and buffer b :: "UInt8 list" and i :: nat
  assume "n > 0 \<and> 1 < base"
  then have "unat (n div base) < unat n" by (simp add: unat_div word_less_nat_alt)
  then show "((base, digit, n div base, b, i + 1), base, digit, n, buffer, i) \<in> measure (\<lambda>(base, digit, n, buffer, i). unat n)"
    by simp
qed simp

declare sStringDigits.simps [simp del]

text \<open>Zeros up to the pad.\<close>

function sStringPad :: "nat \<Rightarrow> UInt8 list \<Rightarrow> nat \<Rightarrow> fault + UInt8 list \<times> nat" where
  "sStringPad pad tempBuffer filled =
     (if filled < pad
      then bindE (array_set tempBuffer filled (asc CHR ''0'')) (\<lambda>tempBuffer. sStringPad pad tempBuffer (filled + 1))
      else Inr (tempBuffer, filled))"
  by pat_completeness auto
termination by (relation "measure (\<lambda>(pad, buffer, filled). pad - filled)") auto

declare sStringPad.simps [simp del]

fun sConsoleBufferAddBackwards :: "UInt64 \<Rightarrow> UInt64 \<Rightarrow> UInt8 list \<Rightarrow> nat \<Rightarrow> UInt64 \<times> memory \<Rightarrow> fault + UInt64 \<times> memory" where
  "sConsoleBufferAddBackwards string sz tempBuffer 0 st = Inr st"
| "sConsoleBufferAddBackwards string sz tempBuffer (Suc filled) st =
     bindE (array_get tempBuffer filled) (\<lambda>c.
       sConsoleBufferAddBackwards string sz tempBuffer filled (sConsoleBufferAdd string sz c st))"

definition sStringFormatDecimal :: "UInt64 \<Rightarrow> UInt64 \<Rightarrow> UInt64 \<Rightarrow> UInt64 \<times> memory \<Rightarrow> fault + UInt64 \<times> memory" where
  "sStringFormatDecimal string sz argument st =
     (let number = scast (ucast argument :: Int32) :: Int64;
          (number, st) = (if number <s 0 then (- number, sConsoleBufferAdd string sz (asc CHR ''-'') st) else (number, st));
          unsignedNumber = ucast number :: UInt64
      in bindE (if unsignedNumber = 0 then bindE (array_set (replicate 32 0) 0 (asc CHR ''0'')) (\<lambda>b. Inr (b, 1)) else Inr (replicate 32 0, 0)) (\<lambda>(tempBuffer, filled).
         bindE (sStringDigits 10 (\<lambda>d. ucast d + asc CHR ''0'') unsignedNumber tempBuffer filled) (\<lambda>(tempBuffer, filled).
           sConsoleBufferAddBackwards string sz tempBuffer filled st)))"

definition sStringFormatHexadecimal :: "UInt64 \<Rightarrow> UInt64 \<Rightarrow> nat \<Rightarrow> UInt64 \<Rightarrow> UInt64 \<times> memory \<Rightarrow> fault + UInt64 \<times> memory" where
  "sStringFormatHexadecimal string sz pad unsignedNumber st =
     bindE (if unsignedNumber = 0 \<and> pad = 0 then bindE (array_set (replicate 32 0) 0 (asc CHR ''0'')) (\<lambda>b. Inr (b, 1)) else Inr (replicate 32 0, 0)) (\<lambda>(tempBuffer, filled).
     bindE (sStringDigits 16 (\<lambda>d. bytes ''0123456789ABCDEF'' ! unat d) unsignedNumber tempBuffer filled) (\<lambda>(tempBuffer, filled).
     bindE (sStringPad pad tempBuffer filled) (\<lambda>(tempBuffer, filled).
       sConsoleBufferAddBackwards string sz tempBuffer filled st)))"

definition sStringDirective ::
  "UInt64 \<Rightarrow> UInt64 \<Rightarrow> UInt8 \<Rightarrow> va_arg list \<Rightarrow> UInt64 \<times> memory \<Rightarrow> fault + va_arg list \<times> (UInt64 \<times> memory)" where
  "sStringDirective string sz c args st =
     (if c = asc CHR ''s''
      then bindE (va_string args) (\<lambda>(x, args).
           bindE (sConsoleBufferAddString string sz (case x of None \<Rightarrow> literal ''(null)'' | Some x \<Rightarrow> x) st) (\<lambda>st. Inr (args, st)))
      else if c = asc CHR ''c''
      then bindE (va_number args) (\<lambda>(n, args). Inr (args, sConsoleBufferAdd string sz (ucast n) st))
      else if c = asc CHR ''d''
      then bindE (va_number args) (\<lambda>(n, args). bindE (sStringFormatDecimal string sz n st) (\<lambda>st. Inr (args, st)))
      else if c = asc CHR ''x'' \<or> c = asc CHR ''X''
      then bindE (va_number args) (\<lambda>(n, args).
           bindE (sStringFormatHexadecimal string sz (if c = asc CHR ''X'' then 16 else 0) n st) (\<lambda>st. Inr (args, st)))
      else if c = asc CHR ''%'' then Inr (args, sConsoleBufferAdd string sz (asc CHR ''%'') st)
      else Inr (args, sConsoleBufferAdd string sz c (sConsoleBufferAdd string sz (asc CHR ''%'') st)))"

fun sStringFormatLoop :: "UInt64 \<Rightarrow> UInt64 \<Rightarrow> UInt8 list \<Rightarrow> va_arg list \<Rightarrow> UInt64 \<times> memory \<Rightarrow> fault + UInt64 \<times> memory" where
  "sStringFormatLoop string sz [] args st = Inl OutOfBounds"
| "sStringFormatLoop string sz (c # fmt) args st =
     (if c = 0 then Inr st
      else if c = asc CHR ''%''
      then (case fmt of
              [] \<Rightarrow> Inl OutOfBounds
            | d # fmt \<Rightarrow> if d = 0 then Inr st
                else bindE (sStringDirective string sz d args st) (\<lambda>(args, st). sStringFormatLoop string sz fmt args st))
      else sStringFormatLoop string sz fmt args (sConsoleBufferAdd string sz c st))"

definition sStringFormatVariadic :: "UInt64 \<Rightarrow> UInt64 \<Rightarrow> UInt8 list \<Rightarrow> va_arg list \<Rightarrow> 'k user \<Rightarrow> fault + Int32 \<times> 'k user" where
  "sStringFormatVariadic string sz fmt args s =
     bindE (sStringFormatLoop string sz fmt args (0, userBytes s)) (\<lambda>(written, m).
       let m = (if sz > 0
                then if written < sz then m(string + written := 0) else m(string + (sz - 1) := 0)
                else m)
       in Inr (ucast written, s\<lparr>userBytes := m\<rparr>))"

definition StringFormat :: "UInt64 \<Rightarrow> UInt64 \<Rightarrow> UInt8 list \<Rightarrow> va_arg list \<Rightarrow> 'k user \<Rightarrow> fault + Int32 \<times> 'k user" where
  "StringFormat destination sz fmt args s = sStringFormatVariadic destination sz fmt args s"

section \<open>The console of a process\<close>

abbreviation kConsoleDefaultBufferSize :: UInt64 where
  "kConsoleDefaultBufferSize \<equiv> 1024"

abbreviation kConsoleEOF :: Int32 where
  "kConsoleEOF \<equiv> - 1"

text \<open>\<open>buffer\<close> is where the frame of the call lies on the stack.\<close>

definition ConsolePrint :: "'k services \<Rightarrow> UInt64 \<Rightarrow> UInt8 list \<Rightarrow> va_arg list \<Rightarrow> 'k user \<Rightarrow> fault + Int32 \<times> 'k user" where
  "ConsolePrint services buffer fmt args s =
     bindE (sStringFormatVariadic buffer kConsoleDefaultBufferSize fmt args s) (\<lambda>(n, s).
       let writeLength = (if (scast n :: UInt64) < kConsoleDefaultBufferSize then scast n else kConsoleDefaultBufferSize - 1)
       in bindE (write_service services 1 (user_bytes s buffer writeLength) s) (\<lambda>(_, s). Inr (ucast writeLength, s)))"

definition sConsoleWriteCharacter :: "'k services \<Rightarrow> UInt8 \<Rightarrow> 'k user \<Rightarrow> fault + 'k user" where
  "sConsoleWriteCharacter services character s = bindE (write_service services 1 [character] s) (\<lambda>(_, s). Inr s)"

definition ConsoleGetCharacter :: "'k services \<Rightarrow> 'k user \<Rightarrow> fault + Int32 \<times> 'k user" where
  "ConsoleGetCharacter services s =
     bindE (serviceRead services 0 1 (system s)) (\<lambda>((serviceCallResult, contents), k).
       let s = s\<lparr>system := k\<rparr>
       in if serviceCallResult \<le> 0 then Inr (kConsoleEOF, s)
          else bindE (array_get contents 0) (\<lambda>character. Inr (ucast character, s)))"

partial_function (option) sConsoleReadLine ::
  "'k services \<Rightarrow> UInt64 \<Rightarrow> UInt64 \<Rightarrow> UInt64 \<Rightarrow> UInt64 \<Rightarrow> 'k user \<Rightarrow> (fault + UInt64 \<times> 'k user) option" where
  "sConsoleReadLine services frame string sz i s =
     (if i < sz - 1
      then case ConsoleGetCharacter services s of
             Inl e \<Rightarrow> Some (Inl e)
           | Inr (character, s) \<Rightarrow>
               if character = kConsoleEOF \<or> character = 0x0A \<or> character = 0x0D then Some (Inr (i, s))
               else if character = 0x08
               then if i > 0
                    then case ConsolePrint services frame [0x08, 0x20, 0x08, 0] [] s of
                           Inl e \<Rightarrow> Some (Inl e)
                         | Inr (_, s) \<Rightarrow> sConsoleReadLine services frame string sz (i - 1) s
                    else sConsoleReadLine services frame string sz i s
               else (case sConsoleWriteCharacter services (ucast character) (s\<lparr>userBytes := (userBytes s)(string + i := ucast character)\<rparr>) of
                       Inl e \<Rightarrow> Some (Inl e)
                     | Inr s \<Rightarrow> sConsoleReadLine services frame string sz (i + 1) s)
      else Some (Inr (i, s)))"

definition ConsoleReadLine :: "'k services \<Rightarrow> UInt64 \<Rightarrow> UInt64 \<Rightarrow> UInt64 \<Rightarrow> 'k user \<Rightarrow> fault + 'k user" where
  "ConsoleReadLine services frame string sz s =
     (if sz = 0 then Inr s
      else bindE (returns (sConsoleReadLine services frame string sz 0 s)) (\<lambda>(i, s).
             sConsoleWriteCharacter services 0x0A (s\<lparr>userBytes := (userBytes s)(string + i := 0)\<rparr>)))"

section \<open>What a format produces\<close>

text \<open>Hexadecimal numbers come without \<^verbatim>\<open>0x\<close>, padded with zeros.\<close>

definition hexadecimal_digits :: "nat \<Rightarrow> nat \<Rightarrow> UInt8 list" where
  "hexadecimal_digits pad n =
     (let ds = (if n = 0 \<and> 0 < pad then [] else number_digits 16 n)
      in replicate (pad - length ds) (asc CHR ''0'') @ map digit_char (rev ds))"

definition directive_text :: "UInt8 \<Rightarrow> va_arg list \<Rightarrow> (UInt8 list \<times> va_arg list) option" where
  "directive_text d args =
     (if d \<in> set (bytes ''scdxX'')
      then (case args of
              VAString x # args \<Rightarrow>
                if d = asc CHR ''s''
                then case x of None \<Rightarrow> Some (bytes ''(null)'', args)
                     | Some buf \<Rightarrow> if 0 \<in> set buf then Some (takeWhile (\<lambda>c. c \<noteq> 0) buf, args) else None
                else None
            | VANumber n # args \<Rightarrow>
                if d = asc CHR ''c'' then Some ([ucast n], args)
                else if d = asc CHR ''d'' then Some (decimal (sint (ucast n :: Int32)), args)
                else if d = asc CHR ''x'' then Some (hexadecimal_digits 0 (unat n), args)
                else if d = asc CHR ''X'' then Some (hexadecimal_digits 16 (unat n), args)
                else None
            | [] \<Rightarrow> None)
      else if d = asc CHR ''%'' then Some ([d], args)
      else Some ([asc CHR ''%'', d], args))"

fun formatted :: "UInt8 list \<Rightarrow> va_arg list \<Rightarrow> UInt8 list option" where
  "formatted [] args = None"
| "formatted (c # fmt) args =
     (if c = 0 then Some []
      else if c = asc CHR ''%''
      then (case fmt of
              [] \<Rightarrow> None
            | d # fmt \<Rightarrow> if d = 0 then Some []
                else (case directive_text d args of
                        None \<Rightarrow> None
                      | Some (out, args) \<Rightarrow> map_option ((@) out) (formatted fmt args)))
      else map_option ((#) c) (formatted fmt args))"

section \<open>Producing a text\<close>

definition add_all :: "UInt64 \<Rightarrow> UInt64 \<Rightarrow> UInt8 list \<Rightarrow> UInt64 \<times> memory \<Rightarrow> UInt64 \<times> memory" where
  "add_all string sz out st = foldl (\<lambda>st c. sConsoleBufferAdd string sz c st) st out"

lemma add_all_simps [simp]:
  "add_all string sz [] st = st"
  "add_all string sz (c # cs) st = add_all string sz cs (sConsoleBufferAdd string sz c st)"
  "add_all string sz (xs @ ys) st = add_all string sz ys (add_all string sz xs st)"
  by (simp_all add: add_all_def)

text \<open>After a text the memory holds what fits of it.\<close>

lemma add_all_effect:
  assumes "length out < 2 ^ 64"
  shows "add_all string sz out (0, m) =
    (of_nat (length out), \<lambda>x. if unat (x - string) < min (length out) (unat sz - 1) then out ! unat (x - string) else m x)"
  using assms
proof (induction out rule: rev_induct)
  case Nil
  then show ?case by simp
next
  case (snoc c out)
  let ?n = "of_nat (length out) :: UInt64"
  have n: "unat ?n = length out" using snoc.prems by (simp add: unsigned_of_nat take_bit_nat_eq_self)
  have fits: "?n < sz - 1 \<and> sz > 0 \<longleftrightarrow> length out < unat sz - 1"
  proof (cases "sz = 0")
    case False
    then have "unat (sz - 1) = unat sz - 1" by (simp add: unat_minus_one)
    then show ?thesis using False n by (auto simp: word_less_nat_alt)
  qed simp
  have place: "x = string + ?n \<longleftrightarrow> unat (x - string) = length out" for x :: UInt64
  proof
    assume "unat (x - string) = length out"
    then have "x - string = ?n" using n by (metis word_unat_eq_iff)
    then show "x = string + ?n" by (simp add: diff_eq_eq add.commute)
  qed (simp add: n)
  show ?case using snoc fits place
    by (auto simp: sConsoleBufferAdd_def nth_append fun_eq_iff min_def)
qed

lemma AddString_effect: "0 \<in> set buf \<Longrightarrow> sConsoleBufferAddString string sz buf st = Inr (add_all string sz (takeWhile (\<lambda>c. c \<noteq> 0) buf) st)"
proof (induction buf arbitrary: st)
  case (Cons c buf)
  then show ?case by (cases "c = 0") simp_all
qed simp

lemma AddBackwards_effect:
  "i \<le> length buf \<Longrightarrow> sConsoleBufferAddBackwards string sz buf i st = Inr (add_all string sz (rev (take i buf)) st)"
  by (induction i arbitrary: st) (simp_all add: array_get_def take_Suc_conv_app_nth)

lemma StringDigits_same:
  "0 < n \<Longrightarrow> 1 < base \<Longrightarrow> sStringDigits base digit n buffer i = sIOConsoleDigits base digit n buffer i"
proof (induction base digit n buffer i rule: sStringDigits.induct)
  case (1 base digit n buffer i)
  show ?case
  proof (cases "array_set buffer i (digit (n mod base))")
    case (Inl e)
    then show ?thesis using 1 by (subst sStringDigits.simps, subst sIOConsoleDigits.simps) simp
  next
    case (Inr b)
    have "sStringDigits base digit (n div base) b (i + 1) = (if n div base > 0 then sIOConsoleDigits base digit (n div base) b (i + 1) else Inr (b, i + 1))"
    proof (cases "n div base > 0")
      case True
      then show ?thesis using "1.IH" [OF _ Inr] "1.prems" by simp
    next
      case False
      then show ?thesis by (subst sStringDigits.simps) simp
    qed
    then show ?thesis using 1 Inr by (subst sStringDigits.simps, subst sIOConsoleDigits.simps) simp
  qed
qed

lemma FormatPad_effect:
  "i \<le> length buffer \<Longrightarrow> pad \<le> length buffer \<Longrightarrow>
   sStringPad pad buffer i = Inr (take i buffer @ replicate (pad - i) (asc CHR ''0'') @ drop (max i pad) buffer, max i pad)"
proof (induction pad buffer i rule: sStringPad.induct)
  case (1 pad buffer i)
  show ?case
  proof (cases "i < pad")
    case False
    then show ?thesis by (subst sStringPad.simps) simp
  next
    case True
    let ?b = "buffer[i := asc CHR ''0'']"
    have set: "array_set buffer i (asc CHR ''0'') = Inr ?b" using True "1.prems" by (simp add: array_set_def)
    have "sStringPad pad ?b (i + 1) = Inr (take (i + 1) ?b @ replicate (pad - (i + 1)) (asc CHR ''0'') @ drop (max (i + 1) pad) ?b, max (i + 1) pad)"
      by (rule "1.IH" [OF True set]) (use True "1.prems" in simp_all)
    moreover have "take (i + 1) ?b = take i buffer @ [asc CHR ''0'']" using True "1.prems" by (simp add: take_Suc_conv_app_nth)
    moreover have "pad - i = Suc (pad - (i + 1))" "max (i + 1) pad = pad" "max i pad = pad" using True by simp_all
    moreover have "drop pad ?b = drop pad buffer" using True by simp
    ultimately show ?thesis using True "1.prems" by (subst sStringPad.simps) (simp add: array_set_def)
  qed
qed

lemma low_digit: "d < 16 \<Longrightarrow> bytes ''0123456789ABCDEF'' ! d = digit_char d"
  by (auto simp: bytes_def digit_char_def numeral_eq_Suc less_Suc_eq)

lemma Digits_text:
  assumes base: "base = 10 \<or> base = 16" and n: "0 < n" and digit: "\<And>d. d < unat base \<Longrightarrow> digit (of_nat d) = digit_char d"
  shows "sStringDigits base digit n (replicate 32 0) 0 =
    (let ds = map digit_char (number_digits (unat base) (unat n)) in Inr (ds @ drop (length ds) (replicate 32 0), length ds)) \<and>
    length (number_digits (unat base) (unat n)) \<le> 20"
proof -
  have b: "1 < base" "1 < unat base" using base by auto
  have "unat n < 2 ^ 64" using unsigned_less [of n, where ?'a = nat] by simp
  then have "unat n < 10 ^ Suc 19" "unat n < 16 ^ Suc 19" by simp_all
  then have len: "length (number_digits (unat base) (unat n)) \<le> 20" using length_number_digits [of "unat base" "unat n" 19] base by auto
  have ds: "map (\<lambda>d. digit (of_nat d)) (number_digits (unat base) (unat n)) = map digit_char (number_digits (unat base) (unat n))"
    using digit number_digits_below [OF b(2)] by simp
  have "0 + length (number_digits (unat base) (unat n)) \<le> length (replicate 32 (0 :: UInt8))" using len by simp
  from Digits_effect [OF b(2) this, of digit] show ?thesis
    unfolding StringDigits_same [OF n b(1)] ds Let_def using len by simp
qed

lemma FormatHexadecimal_effect:
  assumes "pad = 0 \<or> pad = 16"
  shows "sStringFormatHexadecimal string sz pad n st = Inr (add_all string sz (hexadecimal_digits pad (unat n)) st)"
proof (cases "n = 0")
  case True
  have none: "sStringDigits 16 digit 0 b i = Inr (b, i)" for digit b i by (subst sStringDigits.simps) simp
  have one: "number_digits 16 0 = [0]" by (subst number_digits.simps) simp
  have z: "digit_char 0 = asc CHR ''0''" by (simp add: digit_char_def)
  show ?thesis
  proof (cases "pad = 0")
    case True
    have cons: "(replicate 32 0 :: UInt8 list) = 0 # replicate 31 0" by (simp add: numeral_eq_Suc)
    show ?thesis using True \<open>n = 0\<close> FormatPad_effect [of 1 "asc CHR ''0'' # replicate 31 0" 0]
      unfolding sStringFormatHexadecimal_def cons by (simp add: none array_set_def array_get_def hexadecimal_digits_def one z)
  next
    case False
    with \<open>n = 0\<close> assms show ?thesis
      using AddBackwards_effect [of 16 "replicate 16 (asc CHR ''0'') @ drop 16 (replicate 32 0)" string sz st] FormatPad_effect [of 0 "replicate 32 0" 16]
      by (simp add: sStringFormatHexadecimal_def none hexadecimal_digits_def)
  qed
next
  case False
  let ?ds = "map digit_char (number_digits 16 (unat n))"
  have pos: "0 < n" "unat n \<noteq> 0" using False by (simp_all add: word_neq_0_conv unat_eq_zero)
  have digits: "sStringDigits 16 (\<lambda>d. bytes ''0123456789ABCDEF'' ! unat d) n (replicate 32 0) 0 =
      Inr (?ds @ drop (length ?ds) (replicate 32 0), length ?ds)" and len: "length ?ds \<le> 20"
    using Digits_text [of 16 n "\<lambda>d. bytes ''0123456789ABCDEF'' ! unat d"] pos(1) low_digit
    by (simp_all add: Let_def unsigned_of_nat take_bit_nat_eq_self)
  let ?b = "?ds @ drop (length ?ds) (replicate 32 0)"
  have pad: "sStringPad pad ?b (length ?ds) = Inr (?ds @ replicate (pad - length ?ds) (asc CHR ''0'') @ drop (max (length ?ds) pad) ?b, max (length ?ds) pad)"
    using FormatPad_effect [of "length ?ds" ?b pad] assms len by auto
  have "take (max (length ?ds) pad) (?ds @ replicate (pad - length ?ds) (asc CHR ''0'') @ drop (max (length ?ds) pad) ?b) =
      ?ds @ replicate (pad - length ?ds) (asc CHR ''0'')" by (auto simp: max_def)
  moreover have "max (length ?ds) pad \<le> length (?ds @ replicate (pad - length ?ds) (asc CHR ''0'') @ drop (max (length ?ds) pad) ?b)"
    by (auto simp: max_def)
  ultimately show ?thesis
    using AddBackwards_effect [of "max (length ?ds) pad" "?ds @ replicate (pad - length ?ds) (asc CHR ''0'') @ drop (max (length ?ds) pad) ?b" string sz st]
    unfolding sStringFormatHexadecimal_def
    using False digits pad pos(2) by (simp add: hexadecimal_digits_def rev_map Let_def del: drop_append drop_replicate)
qed


lemma Decimal_effect: "sStringFormatDecimal string sz n st = Inr (add_all string sz (decimal (sint (ucast n :: Int32))) st)"
proof -
  let ?w = "ucast n :: Int32"
  let ?number = "scast ?w :: Int64"
  define v where "v = (if ?number <s 0 then - ?number else ?number)"
  define st' where "st' = (if ?number <s 0 then sConsoleBufferAdd string sz (asc CHR ''-'') st else st)"
  have sint: "sint ?number = sint ?w"
  proof -
    have "signed_take_bit 63 (sint ?w) = sint ?w" using sint_bounds [of ?w] by (intro signed_take_bit_int_eq_self) simp_all
    then show ?thesis unfolding scast_eq sint_sbintrunc' by simp
  qed
  have sign: "?number <s 0 \<longleftrightarrow> sint ?w < 0" by (simp add: word_sless_alt sint)
  have v: "unat (ucast v :: UInt64) = nat \<bar>sint ?w\<bar>"
  proof -
    have number: "?number = word_of_int (sint ?w)" unfolding sint [symmetric] by simp
    have "v = word_of_int \<bar>sint ?w\<bar>"
    proof (cases "sint ?w < 0")
      case True
      then have "v = - ?number" using sign by (simp add: v_def)
      then show ?thesis unfolding number using True by simp
    next
      case False
      then have "v = ?number" using sign by (simp add: v_def)
      then show ?thesis unfolding number using False by simp
    qed
    moreover have "unat (word_of_int \<bar>sint ?w\<bar> :: UInt64) = nat \<bar>sint ?w\<bar>"
      using sint_bounds [of ?w] by (simp add: unsigned_of_int take_bit_int_eq_self)
    ultimately show ?thesis by simp
  qed
  have run: "sStringFormatDecimal string sz n st =
    bindE (if v = 0 then bindE (array_set (replicate 32 0) 0 (asc CHR ''0'')) (\<lambda>b. Inr (b, 1)) else Inr (replicate 32 0, 0)) (\<lambda>(tempBuffer, filled).
    bindE (sStringDigits 10 (\<lambda>d. ucast d + asc CHR ''0'') (ucast v) tempBuffer filled) (\<lambda>(tempBuffer, filled).
      sConsoleBufferAddBackwards string sz tempBuffer filled st'))"
    by (simp add: sStringFormatDecimal_def v_def st'_def Let_def split: if_splits)
  have spelled: "decimal (sint ?w) = (if sint ?w < 0 then [asc CHR ''-''] else []) @ map digit_char (rev (number_digits 10 (unat (ucast v :: UInt64))))"
    by (simp only: decimal_def v)
  have out: "add_all string sz (map digit_char (rev (number_digits 10 (unat (ucast v :: UInt64))))) st' = add_all string sz (decimal (sint ?w)) st"
    unfolding spelled st'_def sign by simp
  show ?thesis
  proof (cases "v = 0")
    case True
    have none: "sStringDigits 10 digit 0 b i = Inr (b, i)" for digit b i by (subst sStringDigits.simps) simp
    have one: "number_digits 10 0 = [0]" by (subst number_digits.simps) simp
    have cons: "(replicate 32 0 :: UInt8 list) = 0 # replicate 31 0" by (simp add: numeral_eq_Suc)
    show ?thesis unfolding run out [symmetric] cons using True by (simp add: none one array_set_def array_get_def digit_char_def)
  next
    case False
    have low: "ucast (of_nat d :: UInt64) + asc CHR ''0'' = digit_char d" if "d < 10" for d
    proof -
      have "ucast (of_nat d :: UInt64) = (of_nat d :: UInt8)"
        using that by (simp add: word_unat_eq_iff unsigned_ucast_eq unsigned_of_nat take_bit_nat_eq_self)
      then show ?thesis using that by (simp add: digit_char_def)
    qed
    have pos: "0 < (ucast v :: UInt64)" using False by (simp add: word_neq_0_conv)
    let ?ds = "map digit_char (number_digits 10 (unat (ucast v :: UInt64)))"
    have digits: "sStringDigits 10 (\<lambda>d. ucast d + asc CHR ''0'') (ucast v) (replicate 32 0) 0 =
        Inr (?ds @ drop (length ?ds) (replicate 32 0), length ?ds)"
      using Digits_text [of 10 "ucast v :: UInt64" "\<lambda>d. ucast d + asc CHR ''0''"] pos low by (simp add: Let_def)
    show ?thesis unfolding run out [symmetric]
      using False digits AddBackwards_effect [of "length ?ds" "?ds @ drop (length ?ds) (replicate 32 0)" string sz st'] by (simp add: rev_map)
  qed
qed

lemma Directive_text:
  assumes "directive_text d args = Some (out, args')" "d \<noteq> 0"
  shows "sStringDirective string sz d args st = Inr (args', add_all string sz out st)"
proof -
  have undefined: "sConsoleBufferAddString string sz (literal ''(null)'') st = Inr (add_all string sz (bytes ''(null)'') st)"
    using AddString_effect [of "literal ''(null)''" string sz st] by (simp add: literal_def bytes_def)
  show ?thesis
    using assms undefined
    by (auto simp: directive_text_def sStringDirective_def va_string_def va_number_def bytes_def AddString_effect Decimal_effect
        FormatHexadecimal_effect split: if_splits list.splits va_arg.splits option.splits)
qed

lemma FormatLoop_effect:
  "formatted fmt args = Some out \<Longrightarrow> sStringFormatLoop string sz fmt args st = Inr (add_all string sz out st)"
proof (induction fmt args arbitrary: out st rule: formatted.induct)
  case (2 c fmt args)
  consider (stop) "c = 0" | (plain) "c \<noteq> 0" "c \<noteq> asc CHR ''%''" | (directive) "c \<noteq> 0" "c = asc CHR ''%''" by blast
  then show ?case
  proof cases
    case stop
    then show ?thesis using "2.prems" by simp
  next
    case plain
    then obtain z where z: "formatted fmt args = Some z" "out = c # z" using "2.prems" by auto
    have "sStringFormatLoop string sz fmt args st = Inr (add_all string sz z st)" for st
      using "2.IH" plain z(1) by metis
    then show ?thesis using plain z(2) by simp
  next
    case directive
    then obtain d fmt' where fmt: "fmt = d # fmt'" using "2.prems" by (auto split: list.splits)
    show ?thesis
    proof (cases "d = 0")
      case True
      then show ?thesis using directive fmt "2.prems" by simp
    next
      case d: False
      then obtain a args' b where parts: "directive_text d args = Some (a, args')" "formatted fmt' args' = Some b" "out = a @ b"
        using directive fmt "2.prems" by (auto split: option.splits)
      have "sStringFormatLoop string sz fmt' args' st = Inr (add_all string sz b st)" for st
        by (rule "2.IH"(1) [OF directive fmt d parts(1) refl parts(2)])
      then show ?thesis using directive fmt d parts(3) Directive_text [OF parts(1) d, of string sz st] by simp
    qed
  qed
qed simp

section \<open>Formatting into a buffer\<close>

lemma StringFormat_effect:
  assumes out: "formatted fmt args = Some out" and len: "length out < 2 ^ 64"
  shows "\<exists>m. StringFormat destination sz fmt args s = Inr (of_nat (length out), s\<lparr>userBytes := m\<rparr>) \<and>
    (if sz = 0 then m = userBytes s
     else let n = min (length out) (unat sz - 1)
       in (\<forall>i < n. m (destination + of_nat i) = out ! i) \<and> m (destination + of_nat n) = 0 \<and>
         (\<forall>x. n < unat (x - destination) \<longrightarrow> m x = userBytes s x))"
proof -
  let ?w = "of_nat (length out) :: UInt64" and ?n = "min (length out) (unat sz - 1)"
  let ?m = "\<lambda>x. if unat (x - destination) < ?n then out ! unat (x - destination) else userBytes s x"
  have w: "unat ?w = length out" using len by (simp add: unsigned_of_nat take_bit_nat_eq_self)
  have n64: "?n < 2 ^ 64" using len by simp
  have loop: "sStringFormatLoop destination sz fmt args (0, userBytes s) = Inr (?w, ?m)"
    unfolding FormatLoop_effect [OF out] add_all_effect [OF len] ..
  have short: "(ucast ?w :: Int32) = of_nat (length out)" by (simp add: unsigned_of_nat word_of_nat_eq_iff)
  show ?thesis
  proof (cases "sz = 0")
    case True
    then show ?thesis using loop by (intro exI [of _ "userBytes s"]) (simp add: StringFormat_def sStringFormatVariadic_def short)
  next
    case False
    have pred: "unat (sz - 1) = unat sz - 1" using False by (simp add: unat_minus_one)
    have pos: "0 < unat sz" using False by (simp add: unat_gt_0)
    have place: "(if ?w < sz then destination + ?w else destination + (sz - 1)) = destination + of_nat ?n"
    proof (cases "?w < sz")
      case True
      then have "?n = length out" using w pos by (simp add: word_less_nat_alt)
      then show ?thesis using True by simp
    next
      case False
      then have "?n = unat (sz - 1)" using w pred by (simp add: word_less_nat_alt)
      then show ?thesis using False by simp
    qed
    let ?m' = "?m(destination + of_nat ?n := 0)"
    have at_i: "unat (destination + of_nat i - destination) = i" if "i \<le> ?n" for i
    proof -
      have "i < 2 ^ 64" using that len by simp
      then show ?thesis by (simp add: unsigned_of_nat take_bit_nat_eq_self)
    qed
    have "StringFormat destination sz fmt args s = Inr (of_nat (length out), s\<lparr>userBytes := ?m'\<rparr>)"
      using loop False unfolding place [symmetric]
      by (simp add: StringFormat_def sStringFormatVariadic_def short word_neq_0_conv [symmetric])
    moreover have "?m' (destination + of_nat i) = out ! i" if "i < ?n" for i
    proof -
      have "destination + of_nat i \<noteq> destination + of_nat ?n" using at_i [of i] at_i [of ?n] that by (metis less_imp_le less_irrefl order_refl)
      then show ?thesis using at_i [of i] that by simp
    qed
    moreover have "?m' x = userBytes s x" if "?n < unat (x - destination)" for x
      using that at_i [of ?n] by auto
    ultimately show ?thesis using False by (intro exI [of _ ?m']) (simp add: Let_def)
  qed
qed

text \<open>C37: Formatting produces what the format and its arguments say, and returns its length; of it the buffer gets what fits with a
  terminator, which is always there unless the buffer has no byte at all, and no byte outside the buffer changes.\<close>

theorem StringFormat_correct:
  assumes out: "formatted fmt args = Some out" and len: "length out < 2 ^ 64"
  shows "\<exists>m. StringFormat destination sz fmt args s = Inr (of_nat (length out), s\<lparr>userBytes := m\<rparr>) \<and>
    (if sz = 0 then m = userBytes s
     else let n = min (length out) (unat sz - 1)
       in (\<forall>i < n. m (destination + of_nat i) = out ! i) \<and> m (destination + of_nat n) = 0 \<and>
         (\<forall>x. n < unat (x - destination) \<longrightarrow> m x = userBytes s x))"
  by (rule StringFormat_effect [OF assms])

lemma StringFormat_correct_witness:
  "\<exists>m. StringFormat 0x1000 8 (literal ''%d and %s'') [VANumber 42, VAString (Some (literal ''more''))] small_user = Inr (11, small_user\<lparr>userBytes := m\<rparr>) \<and>
    m 0x1007 = 0 \<and> m 0x1008 = 0"
proof -
  have "decimal 42 = bytes ''42''" by (simp add: decimal_def number_digits.simps digit_char_def bytes_def)
  then have out: "formatted (literal ''%d and %s'') [VANumber 42, VAString (Some (literal ''more''))] = Some (bytes ''42 and more'')"
    by (simp add: literal_def bytes_def directive_text_def)
  have "length (bytes ''42 and more'') < 2 ^ 64" by (simp add: bytes_def)
  from StringFormat_correct [OF out this, where destination = "0x1000" and sz = 8 and s = small_user] show ?thesis
    by (auto simp: bytes_def Let_def small_user_def)
qed

end
