(* ===== verification/Termosh.thy ===== *)
theory Termosh
  imports LibConsole
begin

text \<open>
  The programs: the user shell \<^verbatim>\<open>userspace/termosh\<close>, the first process \<^verbatim>\<open>userspace/init\<close> and the test
  \<^verbatim>\<open>userspace/debug\<close>, over the libraries of LibConsole and the process calls of \<^verbatim>\<open>userspace/libterm/src/Process.c\<close>.
\<close>

unbundle bit_operations_syntax

section \<open>Processes\<close>

definition ProcessSpawn :: "'k services \<Rightarrow> UInt8 list \<Rightarrow> 'k user \<Rightarrow> fault + Int32 \<times> 'k user" where
  "ProcessSpawn services executable s =
     bindE (serviceSpawn services executable (system s)) (\<lambda>(pid, k). Inr (pid, s\<lparr>system := k\<rparr>))"

definition ProcessWait :: "'k services \<Rightarrow> UInt64 \<Rightarrow> 'k user \<Rightarrow> fault + Int32 \<times> 'k user" where
  "ProcessWait services pid s =
     bindE (serviceWait services pid (system s)) (\<lambda>(result, k). Inr (result, s\<lparr>system := k\<rparr>))"

section \<open>Commands of \<^verbatim>\<open>termosh\<close>\<close>

datatype termosh_token = TOKEN_EMPTY | TOKEN_NULL | TOKEN_ILLEGAL | TOKEN_QUIT | TOKEN_CLEAR | TOKEN_HELP | TOKEN_SPAWN

definition token_map :: "(UInt8 list option \<times> termosh_token) list" where
  "token_map =
    [(Some (literal ''q''), TOKEN_QUIT),
     (Some (literal ''quit''), TOKEN_QUIT),
     (Some (literal ''exit''), TOKEN_QUIT),
     (Some (literal ''clear''), TOKEN_CLEAR),
     (Some (literal ''help''), TOKEN_HELP),
     (Some (literal ''spawn''), TOKEN_SPAWN),
     (None, TOKEN_NULL)]"

fun find_token :: "(UInt8 list option \<times> termosh_token) list \<Rightarrow> UInt8 list \<Rightarrow> fault + termosh_token" where
  "find_token [] token = Inl OutOfBounds"
| "find_token ((None, t) # entries) token = Inr TOKEN_ILLEGAL"
| "find_token ((Some str, t) # entries) token =
     bindE (StringCompare token str) (\<lambda>different. if different = 0 then Inr t else find_token entries token)"

definition char2token :: "UInt8 list \<Rightarrow> fault + termosh_token" where
  "char2token token = find_token token_map token"

text \<open>The string a pointer of the process refers to, with its terminator.\<close>

partial_function (option) string_from_user :: "memory \<Rightarrow> UInt64 \<Rightarrow> UInt8 list \<Rightarrow> (fault + UInt8 list) option" where
  "string_from_user m a cs = (if m a = 0 then Some (Inr (cs @ [0])) else string_from_user m (a + 1) (cs @ [m a]))"

definition string_object :: "memory \<Rightarrow> UInt64 \<Rightarrow> fault + UInt8 list" where
  "string_object m a = returns (string_from_user m a [])"

definition not_implemented_yet :: "'k services \<Rightarrow> UInt64 \<Rightarrow> 'k user \<Rightarrow> fault + 'k user" where
  "not_implemented_yet services frame s =
     bindE (ConsolePrint services frame (bytes ''Not implemented yet!'' @ [0x0A, 0]) [] s) (\<lambda>(_, s). Inr s)"

definition cmd_spawn :: "'k services \<Rightarrow> UInt64 \<Rightarrow> UInt64 \<Rightarrow> 'k user \<Rightarrow> fault + 'k user" where
  "cmd_spawn services frame executable s =
     bindE (string_object (userBytes s) executable) (\<lambda>name.
     bindE (ProcessSpawn services name s) (\<lambda>(pid, s).
       if pid <s 0
       then bindE (if pid = - 1
                   then ConsolePrint services frame ([0x22] @ bytes ''%s'' @ [0x22] @ bytes '' not found.'' @ [0x0A, 0]) [VAString (Some name)] s
                   else ConsolePrint services frame (bytes ''failed to spawn (%d)'' @ [0x0A, 0]) [VANumber (scast pid)] s) (\<lambda>(_, s). Inr s)
       else bindE (ProcessWait services (scast pid) s) (\<lambda>(_, s). Inr s)))"

section \<open>The loop of \<^verbatim>\<open>termosh\<close>\<close>

abbreviation BUFFER_SIZE :: UInt64 where
  "BUFFER_SIZE \<equiv> 512"

text \<open>
  What a turn does with the line it has read. \<open>cmdbuff\<close>, \<open>buff\<close> and \<open>frame\<close> are where the arrays of the
  turn and the frames of the calls lie on the stack; the result is what \<^verbatim>\<open>main\<close> returns, when it does.
\<close>

definition termosh_execute ::
  "'k services \<Rightarrow> UInt64 \<Rightarrow> UInt64 \<Rightarrow> UInt64 \<Rightarrow> 'k user \<Rightarrow> fault + Int32 option \<times> 'k user" where
  "termosh_execute services cmdbuff buff frame s =
     bindE (tokenize cmdbuff (unat BUFFER_SIZE) s) (\<lambda>(tokens, s).
       if length tokens < 1 then Inr (None, s)
       else bindE (string_object (userBytes s) (tokens ! 0)) (\<lambda>first.
            bindE (char2token first) (\<lambda>token.
              case token of
                TOKEN_QUIT \<Rightarrow> Inr (Some 0, s)
              | TOKEN_CLEAR \<Rightarrow> bindE (not_implemented_yet services frame s) (\<lambda>s. Inr (None, s))
              | TOKEN_HELP \<Rightarrow> bindE (not_implemented_yet services frame s) (\<lambda>s. Inr (None, s))
              | TOKEN_SPAWN \<Rightarrow> if length tokens \<ge> 2 then bindE (cmd_spawn services frame (tokens ! 1) s) (\<lambda>s. Inr (None, s))
                  else Inr (None, s)
              | _ \<Rightarrow> bindE (StringFormat buff 256 (literal ''/System/CoreServices/%s'') [VAString (Some first)] s) (\<lambda>(_, s).
                     bindE (cmd_spawn services frame buff s) (\<lambda>s. Inr (None, s))))))"

text \<open>\<^verbatim>\<open>main\<close> for a number of turns.\<close>

fun termosh_main ::
  "'k services \<Rightarrow> UInt64 \<Rightarrow> UInt64 \<Rightarrow> UInt64 \<Rightarrow> nat \<Rightarrow> 'k user \<Rightarrow> fault + Int32 option \<times> 'k user" where
  "termosh_main services cmdbuff buff frame 0 s = Inr (None, s)"
| "termosh_main services cmdbuff buff frame (Suc turns) s =
     bindE (ConsolePrint services frame (literal ''termosh_> '') [] s) (\<lambda>(_, s).
     bindE (ConsoleReadLine services frame cmdbuff BUFFER_SIZE s) (\<lambda>s.
     bindE (termosh_execute services cmdbuff buff frame s) (\<lambda>(exit_code, s).
       case exit_code of Some c \<Rightarrow> Inr (Some c, s) | None \<Rightarrow> termosh_main services cmdbuff buff frame turns s)))"

section \<open>The first process\<close>

fun init_main :: "'k services \<Rightarrow> nat \<Rightarrow> 'k user \<Rightarrow> fault + Int32 option \<times> 'k user" where
  "init_main services 0 s = Inr (None, s)"
| "init_main services (Suc turns) s =
     bindE (ProcessSpawn services (literal ''/System/CoreServices/termosh'') s) (\<lambda>(pid, s).
       if pid <s 0 then Inr (Some pid, s)
       else bindE (ProcessWait services (scast pid) s) (\<lambda>(_, s). init_main services turns s))"

text \<open>
  The process that spawns itself a hundred times. It keeps the result of \<^verbatim>\<open>ProcessSpawn\<close> in a \<^verbatim>\<open>UInt64\<close>, which is
  never negative, so it never reports an error.
\<close>

fun debug_spawns :: "'k services \<Rightarrow> UInt64 \<Rightarrow> nat \<Rightarrow> 'k user \<Rightarrow> fault + 'k user" where
  "debug_spawns services frame 0 s = Inr s"
| "debug_spawns services frame (Suc i) s =
     bindE (ProcessSpawn services (literal ''/System/CoreServices/debug'') s) (\<lambda>(result, s).
       let pid = (scast result :: UInt64)
       in bindE (if pid < 0
                 then ConsolePrint services frame (bytes ''[PIDSPAMMER] Error %d'' @ [0x0A, 0]) [VANumber pid] s
                 else ConsolePrint services frame (bytes ''[PIDSPAMMER] %d spawned'' @ [0x0A, 0]) [VANumber pid] s) (\<lambda>(_, s).
            debug_spawns services frame i s))"

definition debug_main :: "'k services \<Rightarrow> UInt64 \<Rightarrow> 'k user \<Rightarrow> fault + 'k user" where
  "debug_main services frame s = debug_spawns services frame 100 s"

section \<open>What a line does\<close>

lemma string_from_effect: "c_text m a xs \<Longrightarrow> string_from_user m a cs = Some (Inr (cs @ xs @ [0]))"
proof (induction xs arbitrary: a cs)
  case Nil
  then show ?case by (subst string_from_user.simps) simp
next
  case (Cons x xs)
  then show ?case by (subst string_from_user.simps) auto
qed

lemma string_object_effect: "c_text m a xs \<Longrightarrow> string_object m a = Inr (xs @ [0])"
  by (simp add: string_object_def string_from_effect)

definition builtins :: "(UInt8 list \<times> termosh_token) list" where
  "builtins = [(bytes ''q'', TOKEN_QUIT), (bytes ''quit'', TOKEN_QUIT), (bytes ''exit'', TOKEN_QUIT), (bytes ''clear'', TOKEN_CLEAR),
     (bytes ''help'', TOKEN_HELP), (bytes ''spawn'', TOKEN_SPAWN)]"

lemma char2token_effect:
  assumes "0 \<notin> set w"
  shows "char2token (w @ [0]) = Inr (case map_of builtins w of Some token \<Rightarrow> token | None \<Rightarrow> TOKEN_ILLEGAL)"
proof -
  have "c_string (w @ [0]) w" by (rule c_string_buffer [OF assms])
  have find: "\<forall>(name, token) \<in> set es. 0 \<notin> set name \<Longrightarrow> find_token (map (\<lambda>(name, token). (Some (name @ [0]), token)) es @ [(None, TOKEN_NULL)]) (w @ [0]) =
    Inr (case map_of es w of Some token \<Rightarrow> token | None \<Rightarrow> TOKEN_ILLEGAL)" for es
  proof (induction es)
    case (Cons e es)
    obtain name token where e: "e = (name, token)" by (cases e)
    then have "0 \<notin> set name" using Cons.prems by simp
    then have "c_string (name @ [0]) name" by (rule c_string_buffer)
    from StringCompare_effect [OF \<open>c_string (w @ [0]) w\<close> this] obtain r where
      r: "StringCompare (w @ [0]) (name @ [0]) = Inr r" "r = 0 \<longleftrightarrow> w = name" by blast
    then show ?case using Cons e by auto
  qed simp
  have "token_map = map (\<lambda>(name, token). (Some (name @ [0]), token)) builtins @ [(None, TOKEN_NULL)]"
    by (simp add: token_map_def builtins_def literal_def)
  then show ?thesis using find [of builtins] by (simp add: char2token_def builtins_def bytes_def)
qed

section \<open>The program a line starts\<close>

definition program_of :: "UInt8 list list \<Rightarrow> UInt8 list option" where
  "program_of ws =
     (case ws of [] \<Rightarrow> None
      | w # vs \<Rightarrow> (case map_of builtins w of
            None \<Rightarrow> Some (bytes ''/System/CoreServices/'' @ w)
          | Some token \<Rightarrow> if token = TOKEN_SPAWN \<and> vs \<noteq> [] then Some (hd vs) else None))"

lemma c_text_intro:
  "(\<And>i. i < length xs \<Longrightarrow> m (a + of_nat i) = xs ! i) \<Longrightarrow> m (a + of_nat (length xs)) = 0 \<Longrightarrow> 0 \<notin> set xs \<Longrightarrow>
   unat a + length xs < 2 ^ 64 \<Longrightarrow> c_text m a xs"
proof (induction xs arbitrary: a)
  case (Cons x xs)
  have "m a = x" using Cons.prems(1) [of 0] by simp
  moreover have "a + 1 \<noteq> 0"
  proof
    assume "a + 1 = 0"
    then have "a = - 1" by (simp add: eq_neg_iff_add_eq_0)
    then have "unat a = 2 ^ 64 - 1" by (simp add: unsigned_minus_1_eq_mask mask_eq_exp_minus_1)
    then show False using Cons.prems(4) by simp
  qed
  moreover have "c_text m (a + 1) xs"
  proof (rule Cons.IH)
    show "m (a + 1 + of_nat i) = xs ! i" if "i < length xs" for i
      using Cons.prems(1) [of "Suc i"] that by (simp add: algebra_simps)
    show "unat (a + 1) + length xs < 2 ^ 64" using unat_next [OF \<open>a + 1 \<noteq> 0\<close>] Cons.prems(4) by simp
  qed (use Cons.prems in \<open>simp_all add: algebra_simps\<close>)
  ultimately show ?case using Cons.prems(3) by auto
qed simp

lemma takeWhile_terminated: "0 \<notin> set w \<Longrightarrow> takeWhile (\<lambda>c. c \<noteq> 0) (w @ [0 :: UInt8]) = w"
  by (induction w) auto

lemma path_formatted:
  "0 \<notin> set w \<Longrightarrow> formatted (literal ''/System/CoreServices/%s'') [VAString (Some (w @ [0]))] = Some (bytes ''/System/CoreServices/'' @ w)"
proof -
  assume "0 \<notin> set w"
  then have "takeWhile (\<lambda>c. c \<noteq> 0) (w @ [0]) = w" by (rule takeWhile_terminated)
  then show ?thesis by (simp add: literal_def bytes_def directive_text_def)
qed

text \<open>A path in memory is spawned and waited for.\<close>

lemma cmd_spawn_effect:
  assumes "c_text (userBytes s) p name" "serviceSpawn services (name @ [0]) (system s) = Inr (pid, k)" "0 \<le>s pid"
    and "serviceWait services (scast pid) k = Inr (r, k')"
  shows "\<exists>t. cmd_spawn services frame p s = Inr t \<and> system t = k'"
proof -
  have "\<not> pid <s 0" using assms(3) by (simp add: word_sle_eq word_sless_alt)
  then show ?thesis using assms by (simp add: cmd_spawn_def string_object_effect ProcessSpawn_def ProcessWait_def)
qed

text \<open>The default case of the loop: the path is put together in \<open>buff\<close>.\<close>

lemma default_effect:
  assumes w: "0 \<notin> set w" "length (bytes ''/System/CoreServices/'' @ w) < 256" and room: "unat buff + 256 < 2 ^ 64"
    and spawn: "serviceSpawn services (bytes ''/System/CoreServices/'' @ w @ [0]) (system s) = Inr (pid, k)" "0 \<le>s pid"
      "serviceWait services (scast pid) k = Inr (r, k')"
  shows "\<exists>t. bindE (StringFormat buff 256 (literal ''/System/CoreServices/%s'') [VAString (Some (w @ [0]))] s) (\<lambda>(_, s).
      bindE (cmd_spawn services frame buff s) (\<lambda>s. Inr (None, s))) = Inr (None, t) \<and> system t = k'"
proof -
  let ?name = "bytes ''/System/CoreServices/'' @ w"
  have short: "length ?name < 2 ^ 64" "min (length ?name) (unat (256 :: UInt64) - 1) = length ?name" using w(2) by simp_all
  from StringFormat_effect [OF path_formatted [OF w(1)] short(1), of buff 256 s] obtain m where
    m: "StringFormat buff 256 (literal ''/System/CoreServices/%s'') [VAString (Some (w @ [0]))] s = Inr (of_nat (length ?name), s\<lparr>userBytes := m\<rparr>)"
      "\<And>i. i < length ?name \<Longrightarrow> m (buff + of_nat i) = ?name ! i" "m (buff + of_nat (length ?name)) = 0"
    unfolding short(2) Let_def by auto
  have "c_text m buff ?name"
    using m(2,3) w room by (intro c_text_intro) (auto simp: bytes_def)
  from cmd_spawn_effect [of "s\<lparr>userBytes := m\<rparr>" buff ?name services pid k r k' frame] this spawn obtain t where
    "cmd_spawn services frame buff (s\<lparr>userBytes := m\<rparr>) = Inr t" "system t = k'" by auto
  then show ?thesis using m(1) by simp
qed

lemma termosh_program:
  assumes line: "c_text (userBytes s) cmdbuff line" "cmdbuff \<noteq> 0" and room: "unat buff + 256 < 2 ^ 64"
    and name: "program_of (words {0x20, 0x09, 0x0D, 0x0A} line) = Some name" "length name < 256"
    and spawn: "serviceSpawn services (name @ [0]) (system s) = Inr (pid, k)" "0 \<le>s pid" "serviceWait services (scast pid) k = Inr (r, k')"
  shows "\<exists>t. termosh_execute services cmdbuff buff frame s = Inr (None, t) \<and> system t = k'"
proof -
  let ?ws = "words {0x20, 0x09, 0x0D, 0x0A} line"
  from name(1) obtain w vs where ws: "?ws = w # vs" by (cases ?ws) (auto simp: program_of_def)
  from tokenize_effect [OF line, of 512] obtain tokens t where
    t: "tokenize cmdbuff 512 s = Inr (tokens, t)" "system t = system s" "list_all2 (c_text (userBytes t)) tokens (take 512 (w # vs))"
    unfolding ws by blast
  then obtain p ps where ps: "tokens = p # ps" "c_text (userBytes t) p w" "list_all2 (c_text (userBytes t)) ps (take 511 vs)"
    by (cases tokens) (auto simp: take_Cons')
  have w0: "0 \<notin> set w" by (rule c_text_no_null [OF ps(2)])
  note first = string_object_effect [OF ps(2)] char2token_effect [OF w0]
  show ?thesis
  proof (cases "map_of builtins w")
    case None
    then have n: "name = bytes ''/System/CoreServices/'' @ w" using name(1) ws by (simp add: program_of_def)
    have "termosh_execute services cmdbuff buff frame s = bindE (StringFormat buff 256 (literal ''/System/CoreServices/%s'') [VAString (Some (w @ [0]))] t)
        (\<lambda>(_, s). bindE (cmd_spawn services frame buff s) (\<lambda>s. Inr (None, s)))"
      using t(1) ps(1) first None by (simp add: termosh_execute_def)
    then show ?thesis
      using default_effect [OF w0 name(2) [unfolded n] room, of services t pid k r k' frame] spawn t(2) unfolding n by simp
  next
    case (Some token)
    then obtain v vs' where v: "token = TOKEN_SPAWN" "vs = v # vs'" "name = v"
      using name(1) ws by (cases vs) (auto simp: program_of_def split: if_splits)
    then obtain q qs where q: "ps = q # qs" "c_text (userBytes t) q v" using ps(3) by (cases ps) (auto simp: take_Cons')
    from cmd_spawn_effect [OF q(2), of services pid k r k' frame] spawn t(2) v(3) obtain u where
      "cmd_spawn services frame q t = Inr u" "system u = k'" by auto
    then show ?thesis using t(1) ps(1) q(1) first Some v(1) by (simp add: termosh_execute_def)
  qed
qed

lemma termosh_leaves:
  assumes line: "c_text (userBytes s) cmdbuff line" "cmdbuff \<noteq> 0"
    and ws: "words {0x20, 0x09, 0x0D, 0x0A} line = [] \<or> map_of builtins (hd (words {0x20, 0x09, 0x0D, 0x0A} line)) = Some TOKEN_QUIT"
  shows "\<exists>t. termosh_execute services cmdbuff buff frame s =
      Inr (if words {0x20, 0x09, 0x0D, 0x0A} line = [] then None else Some 0, t) \<and> system t = system s"
proof -
  let ?ws = "words {0x20, 0x09, 0x0D, 0x0A} line"
  from tokenize_effect [OF line, of 512] obtain tokens t where
    t: "tokenize cmdbuff 512 s = Inr (tokens, t)" "system t = system s" "list_all2 (c_text (userBytes t)) tokens (take 512 ?ws)" by blast
  show ?thesis
  proof (cases ?ws)
    case Nil
    then show ?thesis using t by (simp add: termosh_execute_def)
  next
    case (Cons w vs)
    then obtain p ps where ps: "tokens = p # ps" "c_text (userBytes t) p w" using t(3) by (cases tokens) (auto simp: take_Cons')
    have "map_of builtins w = Some TOKEN_QUIT" using ws Cons by simp
    then show ?thesis using t(1,2) ps(1) string_object_effect [OF ps(2)] char2token_effect [OF c_text_no_null [OF ps(2)]] Cons
      by (simp add: termosh_execute_def)
  qed
qed

text \<open>C39: A line of the user shell does what its words say: an unknown first word starts the program of that name in
  \<^verbatim>\<open>/System/CoreServices\<close>, \<^verbatim>\<open>spawn\<close> the program its second word names, and the shell waits for it; \<^verbatim>\<open>q\<close>, \<^verbatim>\<open>quit\<close> and
  \<^verbatim>\<open>exit\<close> end the shell with 0, and an empty line does nothing; in these cases nothing is asked of the system.\<close>

theorem termosh_line:
  assumes line: "c_text (userBytes s) cmdbuff line" "cmdbuff \<noteq> 0" and room: "unat buff + 256 < 2 ^ 64"
    and ws: "ws = words {0x20, 0x09, 0x0D, 0x0A} line"
  shows "(\<forall>name pid k r k'. program_of ws = Some name \<and> length name < 256 \<and> serviceSpawn services (name @ [0]) (system s) = Inr (pid, k) \<and>
        0 \<le>s pid \<and> serviceWait services (scast pid) k = Inr (r, k') \<longrightarrow>
      (\<exists>t. termosh_execute services cmdbuff buff frame s = Inr (None, t) \<and> system t = k')) \<and>
    (ws = [] \<or> map_of builtins (hd ws) = Some TOKEN_QUIT \<longrightarrow>
      (\<exists>t. termosh_execute services cmdbuff buff frame s = Inr (if ws = [] then None else Some 0, t) \<and> system t = system s))"
  using termosh_program [OF line room] termosh_leaves [OF line] unfolding ws by blast

text \<open>Services that count what is spawned, and the line \<^verbatim>\<open>ls\<close>.\<close>

definition small_services :: "nat services" where
  "small_services = \<lparr>serviceWrite = \<lambda>_ contents k. Inr (of_nat (length contents), k), serviceRead = \<lambda>_ _ k. Inr ((0, []), k),
     serviceSpawn = \<lambda>executable k. Inr (if executable = literal ''/System/CoreServices/ls'' then 2 else - 1, k + 1),
     serviceWait = \<lambda>_ k. Inr (0, k)\<rparr>"

definition small_line :: "nat user" where
  "small_line = \<lparr>userBytes = (\<lambda>_. 0)(0x1000 := 0x6C, 0x1001 := 0x73), memoryHeaders = \<lambda>_. undefined, sMemoryHeapListHead = 0, olds = 0, system = 0\<rparr>"

lemma termosh_line_witness:
  "\<exists>t. termosh_execute small_services 0x1000 0x2000 0x3000 small_line = Inr (None, t) \<and> system t = 1"
proof -
  have line: "c_text (userBytes small_line) 0x1000 [0x6C, 0x73]" by (simp add: small_line_def)
  have words: "words {0x20, 0x09, 0x0D, 0x0A} [0x6C, 0x73] = [[0x6C, 0x73]]" by (simp add: words.simps)
  have "program_of [[0x6C, 0x73]] = Some (bytes ''/System/CoreServices/ls'')" by (simp add: program_of_def builtins_def bytes_def)
  moreover have "serviceSpawn small_services (bytes ''/System/CoreServices/ls'' @ [0]) (system small_line) = Inr (2, 1)"
    by (simp add: small_services_def small_line_def literal_def)
  moreover have "serviceWait small_services (scast (2 :: Int32)) 1 = Inr (0, 1)" by (simp add: small_services_def)
  moreover have "0 \<le>s (2 :: Int32)" by (simp add: word_sle_eq)
  moreover have "length (bytes ''/System/CoreServices/ls'') < 256" by (simp add: bytes_def)
  ultimately show ?thesis
    using termosh_line [OF line, where buff = "0x2000" and services = small_services and frame = "0x3000"] unfolding words by simp
qed

end
