(* ===== verification/BootLoader.thy ===== *)
theory BootLoader
  imports Boot
begin

text \<open>
  The boot loader, \<^verbatim>\<open>bootloader/src/main.c\<close>: it finds the kernel and the initial archive on the boot volume, puts
  them into memory, describes them, the screen and the memory in a \<^verbatim>\<open>Bootinfo\<close>, leaves the firmware and
  enters the kernel. The firmware is not part of the sources: its services are a record of functions over its
  own state, an argument of the model, and what the UEFI specification documents of them is stated as predicates.
\<close>

unbundle bit_operations_syntax

section \<open>The firmware\<close>

text \<open>A status is an error when its highest bit is set.\<close>

type_synonym efi_status = UInt64

definition EFI_ERROR :: "efi_status \<Rightarrow> bool" where
  "EFI_ERROR a \<longleftrightarrow> a <s 0"

abbreviation EFI_SUCCESS :: efi_status where
  "EFI_SUCCESS \<equiv> 0"

abbreviation EFI_BUFFER_TOO_SMALL :: efi_status where
  "EFI_BUFFER_TOO_SMALL \<equiv> 0x8000000000000005"

datatype efi_allocate_type = AllocateAnyPages | AllocateMaxAddress | AllocateAddress | MaxAllocateType

datatype efi_gop_pixel_format =
    PixelRedGreenBlueReserved8BitPerColor | PixelBlueGreenRedReserved8BitPerColor | PixelBitMask | PixelBltOnly | PixelFormatMax

record efi_gop_pixel_bitmask =
  RedMask :: UInt32
  GreenMask :: UInt32
  BlueMask :: UInt32
  ReservedMask :: UInt32

record efi_gop_mode_info =
  modeVersion :: UInt32
  HorizontalResolution :: UInt32
  VerticalResolution :: UInt32
  PixelFormat :: efi_gop_pixel_format
  PixelInformation :: efi_gop_pixel_bitmask
  PixelsPerScanLine :: UInt32

record efi_gop_mode =
  MaxMode :: UInt32
  currentMode :: UInt32
  modeInformation :: efi_gop_mode_info
  SizeOfInfo :: UInt64
  FrameBufferBase :: UInt64
  FrameBufferSize :: UInt64

text \<open>What \<^verbatim>\<open>GetMemoryMap\<close> reports beside its status: the descriptors it puts into the buffer, and four numbers.\<close>

record efi_memory_map =
  efiDescriptors :: "OSMemoryDescriptor list"
  efiMapSize :: UInt64
  efiMapKey :: UInt64
  efiDescriptorSize :: UInt64
  efiDescriptorVersion :: UInt32

text \<open>
  The services the loader calls, over the state \<open>'f\<close> of the firmware. Protocols and files are opaque numbers;
  where the loader does not look at the status, \<open>None\<close> says that its pointer was not set. \<open>getInfo\<close> also tells
  the size of the file it has written into the buffer, \<open>readFile\<close> the bytes.
\<close>

record 'f efi =
  outputString :: "string \<Rightarrow> 'f \<Rightarrow> 'f"
  stall :: "UInt64 \<Rightarrow> 'f \<Rightarrow> 'f"
  locateGraphics :: "'f \<Rightarrow> efi_gop_mode option \<times> 'f"
  handleLoadedImage :: "'f \<Rightarrow> UInt64 option \<times> 'f"
  handleFileSystem :: "UInt64 \<Rightarrow> 'f \<Rightarrow> UInt64 option \<times> 'f"
  openVolume :: "UInt64 \<Rightarrow> 'f \<Rightarrow> UInt64 option \<times> 'f"
  openFile :: "UInt64 \<Rightarrow> string \<Rightarrow> 'f \<Rightarrow> (efi_status \<times> UInt64) \<times> 'f"
  getInfo :: "UInt64 \<Rightarrow> UInt64 \<Rightarrow> UInt64 \<Rightarrow> 'f \<Rightarrow> (efi_status \<times> UInt64 \<times> UInt64) \<times> 'f"
  readFile :: "UInt64 \<Rightarrow> UInt64 \<Rightarrow> 'f \<Rightarrow> UInt8 list \<times> 'f"
  allocatePool :: "UInt64 \<Rightarrow> 'f \<Rightarrow> (efi_status \<times> UInt64) \<times> 'f"
  allocatePages :: "efi_allocate_type \<Rightarrow> UInt64 \<Rightarrow> UInt64 \<Rightarrow> 'f \<Rightarrow> (efi_status \<times> UInt64) \<times> 'f"
  getMemoryMap :: "UInt64 \<Rightarrow> UInt64 \<Rightarrow> 'f \<Rightarrow> (efi_status \<times> efi_memory_map) \<times> 'f"
  exitBootServices :: "UInt64 \<Rightarrow> 'f \<Rightarrow> efi_status \<times> 'f"

section \<open>The loader\<close>

text \<open>The firmware, and the memory the loader has files read into.\<close>

record 'f loader =
  firmware :: 'f
  loaderMemory :: memory

definition call :: "('f \<Rightarrow> 'a \<times> 'f) \<Rightarrow> 'f loader \<Rightarrow> 'a \<times> 'f loader" where
  "call service s = (case service (firmware s) of (x, f) \<Rightarrow> (x, s\<lparr>firmware := f\<rparr>))"

text \<open>A pointer that was never set must not be used.\<close>

definition pointer_set :: "'a option \<Rightarrow> fault + 'a" where
  "pointer_set p = (case p of None \<Rightarrow> Inl OutOfBounds | Some x \<Rightarrow> Inr x)"

definition efi_print :: "'f efi \<Rightarrow> string \<Rightarrow> 'f loader \<Rightarrow> 'f loader" where
  "efi_print efi msg s = s\<lparr>firmware := outputString efi msg (firmware s)\<rparr>"

definition print_initramfs_warning :: "'f efi \<Rightarrow> string \<Rightarrow> 'f loader \<Rightarrow> 'f loader" where
  "print_initramfs_warning efi reason s =
     (let s = efi_print efi (''WARNING: Failed to load initramfs file!! Only kernel emergency shell available..'' @
            [CHR 0x0D, CHR 0x0A] @ ''Reason: '') s;
          s = efi_print efi reason s;
          s = efi_print efi [CHR 0x0D, CHR 0x0A] s
      in s\<lparr>firmware := stall efi (2 * 1000 * 1000) (firmware s)\<rparr>)"

text \<open>A pool allocation sets the pointer only when it succeeds; the pointers are null before.\<close>

definition allocate_pool :: "'f efi \<Rightarrow> UInt64 \<Rightarrow> 'f loader \<Rightarrow> (efi_status \<times> UInt64) \<times> 'f loader" where
  "allocate_pool efi n s =
     (case call (allocatePool efi n) s of ((status, p), s) \<Rightarrow> ((status, if EFI_ERROR status then 0 else p), s))"

text \<open>The information on an open file: the status, the pointer to the information, and the size of the file in it.\<close>

definition file_info :: "'f efi \<Rightarrow> UInt64 \<Rightarrow> 'f loader \<Rightarrow> (efi_status \<times> UInt64 \<times> UInt64) \<times> 'f loader" where
  "file_info efi file s =
     (case call (getInfo efi file 0 0) s of ((status, info_size, file_size), s) \<Rightarrow>
        if status = EFI_BUFFER_TOO_SMALL
        then case allocate_pool efi info_size s of ((_, info), s) \<Rightarrow>
             case call (getInfo efi file info_size info) s of ((status, _, file_size), s) \<Rightarrow> ((status, info, file_size), s)
        else ((status, 0, file_size), s))"

text \<open>At most as many bytes as asked for arrive at the address.\<close>

definition read_file :: "'f efi \<Rightarrow> UInt64 \<Rightarrow> UInt64 \<Rightarrow> UInt64 \<Rightarrow> 'f loader \<Rightarrow> 'f loader" where
  "read_file efi file n address s =
     (case call (readFile efi file n) s of (contents, s) \<Rightarrow>
        s\<lparr>loaderMemory := \<lambda>a. if unat (a - address) < min (unat n) (length contents) then contents ! unat (a - address)
                                  else loaderMemory s a\<rparr>)"

text \<open>The protocols: the mode of the screen, if there is one, and the root of the boot volume.\<close>

definition main_protocols :: "'f efi \<Rightarrow> 'f loader \<Rightarrow> fault + (efi_gop_mode option \<times> UInt64) \<times> 'f loader" where
  "main_protocols efi s =
     (case call (locateGraphics efi) s of (gop, s) \<Rightarrow>
      case call (handleLoadedImage efi) s of (loaded_image, s) \<Rightarrow>
      bindE (pointer_set loaded_image) (\<lambda>device.
      case call (handleFileSystem efi device) s of (fs, s) \<Rightarrow>
      bindE (pointer_set fs) (\<lambda>fs.
      case call (openVolume efi fs) s of (root, s) \<Rightarrow>
      bindE (pointer_set root) (\<lambda>root. Inr ((gop, root), s)))))"

text \<open>
  The kernel is read to the address it is linked for, with 32 pages behind it. Where the loader prints a message and
  loops for ever, the model has \<open>Panic\<close> with the message.
\<close>

definition main_kernel :: "'f efi \<Rightarrow> UInt64 \<Rightarrow> 'f loader \<Rightarrow> fault + UInt64 \<times> 'f loader" where
  "main_kernel efi root s =
     (case call (openFile efi root ''kernel.bin'') s of ((status, kernel_file), s) \<Rightarrow>
      if EFI_ERROR status then Inl (Panic ''Kernel not found :('')
      else case file_info efi kernel_file s of ((status, kfile_info, kernel_size), s) \<Rightarrow>
      if EFI_ERROR status then Inl (Panic ''Failed to allocate memory for buffer!!'')
      else if kfile_info = 0 then Inl OutOfBounds
      else let kernel_pages = (kernel_size + 0xFFF) div 0x1000 + 32
      in case call (allocatePages efi AllocateAddress kernel_pages 0x100000) s of ((status, kernel_addr), s) \<Rightarrow>
      if EFI_ERROR status then Inl (Panic (''Memory 0x100000 busy!'' @ [CHR 0x0D, CHR 0x0A]))
      else Inr (kernel_addr, read_file efi kernel_file kernel_size kernel_addr s))"

text \<open>The archive: when it cannot be loaded the kernel is started without it.\<close>

definition main_initramfs :: "'f efi \<Rightarrow> UInt64 \<Rightarrow> Bootinfo \<Rightarrow> 'f loader \<Rightarrow> fault + Bootinfo \<times> 'f loader" where
  "main_initramfs efi root boot_info s =
     (case call (openFile efi root ''StartupVolume.cpio'') s of ((status, initramfs_file), s) \<Rightarrow>
      if EFI_ERROR status
      then let s = print_initramfs_warning efi ''StartupVolume.cpio is missing'' s
           in Inr (boot_info\<lparr>bootInitramfs := \<lparr>initramfsAddress = 0, initramfsSize = 0\<rparr>\<rparr>, s)
      else case file_info efi initramfs_file s of ((status, ifile_info, initramfs_size), s) \<Rightarrow>
      if EFI_ERROR status
      then Inr (boot_info, print_initramfs_warning efi ''failed to allocate memory for initramfs buffer!!'' s)
      else if ifile_info = 0 then Inl OutOfBounds
      else let initramfs_pages = (initramfs_size + 0xFFF) div 0x1000
      in case call (allocatePages efi AllocateAnyPages initramfs_pages 0) s of ((status, initramfs_addr), s) \<Rightarrow>
      if EFI_ERROR status
      then Inr (boot_info, print_initramfs_warning efi ''failed to allocate memory for initramfs itself!!'' s)
      else Inr (boot_info\<lparr>bootInitramfs := \<lparr>initramfsAddress = initramfs_addr, initramfsSize = initramfs_size\<rparr>\<rparr>,
                read_file efi initramfs_file initramfs_size initramfs_addr s))"

definition main_framebuffer :: "efi_gop_mode option \<Rightarrow> Bootinfo \<Rightarrow> fault + Bootinfo" where
  "main_framebuffer gop boot_info =
     bindE (pointer_set gop) (\<lambda>mode.
       Inr (boot_info\<lparr>bootFramebuffer :=
         \<lparr>framebufferBase = FrameBufferBase mode, baseSize = FrameBufferSize mode,
          framebufferWidth = ucast (HorizontalResolution (modeInformation mode)),
          framebufferHeight = ucast (VerticalResolution (modeInformation mode)),
          framebufferPitch = ucast (PixelsPerScanLine (modeInformation mode))\<rparr>\<rparr>))"

text \<open>
  The loop that gets the memory map and leaves the firmware with its key, which is refused when the map has changed in
  between. The kernel keeps the low half of the key.
\<close>

definition described_map :: "efi_memory_map \<Rightarrow> BIMemoryMap" where
  "described_map r = \<lparr>memoryDescriptors = efiDescriptors r, mapSize = efiMapSize r, descriptorSize = efiDescriptorSize r,
     mapKey = ucast (efiMapKey r), descriptorVersion = efiDescriptorVersion r\<rparr>"

partial_function (option) sLeaveFirmware ::
  "'f efi \<Rightarrow> UInt64 \<Rightarrow> UInt64 \<Rightarrow> Bootinfo \<Rightarrow> 'f loader \<Rightarrow> (fault + Bootinfo \<times> 'f loader) option" where
  "sLeaveFirmware efi map_size map_buffer boot_info s =
     (case call (getMemoryMap efi map_size map_buffer) s of ((status, r), s) \<Rightarrow>
        if EFI_ERROR status then Some (Inr (boot_info, s))
        else case call (exitBootServices efi (efiMapKey r)) s of (status, s) \<Rightarrow>
        if EFI_ERROR status
        then sLeaveFirmware efi (efiMapSize r + 2 * efiDescriptorSize r) map_buffer (boot_info\<lparr>bootMemoryMap := described_map r\<rparr>) s
        else Some (Inr (boot_info\<lparr>bootMemoryMap := described_map r\<rparr>, s)))"

definition main_memory_map :: "'f efi \<Rightarrow> Bootinfo \<Rightarrow> 'f loader \<Rightarrow> fault + Bootinfo \<times> 'f loader" where
  "main_memory_map efi boot_info s =
     (let s = efi_print efi (''Almost ready to jump :D. Working with memory map'' @ [CHR 0x0D, CHR 0x0A]) s
      in case call (getMemoryMap efi 0 0) s of ((_, r), s) \<Rightarrow>
      let map_size = efiMapSize r + 4096
      in case allocate_pool efi map_size s of ((status, map_buffer), s) \<Rightarrow>
      let s = (if EFI_ERROR status then efi_print efi ''Failed to allocate pool'' s else s)
      in returns (sLeaveFirmware efi map_size map_buffer boot_info s))"

text \<open>
  \<^verbatim>\<open>main\<close>: where the kernel is entered, and with what. \<open>pool\<close> is what the memory of the \<^verbatim>\<open>Bootinfo\<close> holds when the
  loader gets it.
\<close>

definition boot_main :: "'f efi \<Rightarrow> Bootinfo \<Rightarrow> 'f loader \<Rightarrow> fault + (UInt64 \<times> Bootinfo) \<times> 'f loader" where
  "boot_main efi pool s =
     bindE (main_protocols efi s) (\<lambda>((gop, root), s).
     bindE (main_kernel efi root s) (\<lambda>(kernel_addr, s).
     case allocate_pool efi 96 s of ((_, boot_info), s) \<Rightarrow>
     if boot_info = 0 then Inl OutOfBounds
     else bindE (main_initramfs efi root (pool\<lparr>bootMagic := BOOTINFO_MAGIC\<rparr>) s) (\<lambda>(info, s).
          bindE (main_framebuffer gop info) (\<lambda>info.
          bindE (main_memory_map efi info s) (\<lambda>(info, s). Inr ((kernel_addr, info), s))))))"

section \<open>What the firmware documents\<close>

text \<open>
  A view of the firmware's state: how many more page allocations there is room for, the pages handed out, the memory map
  it would report, the number of events that may still change it, whether the loader has left; and, fixed, the mode of the screen and
  the files of the boot volume.
\<close>

record 'f firmware_view =
  roomFor :: "nat \<Rightarrow> 'f \<Rightarrow> bool"
  allocated :: "'f \<Rightarrow> UInt64 set"
  currentMap :: "'f \<Rightarrow> efi_memory_map"
  pendingEvents :: "'f \<Rightarrow> nat"
  bootServicesLeft :: "'f \<Rightarrow> bool"
  screenMode :: efi_gop_mode
  volumeRoot :: UInt64
  volumeFiles :: "string \<Rightarrow> UInt8 list option"
  fileHandle :: "string \<Rightarrow> UInt64"

text \<open>A service whose answer is \<open>x\<close>, and that hands out no pages.\<close>

definition answers :: "'f firmware_view \<Rightarrow> ('f \<Rightarrow> 'a \<times> 'f) \<Rightarrow> 'a \<Rightarrow> bool" where
  "answers v service x \<longleftrightarrow> (\<forall>n f. roomFor v n f \<longrightarrow>
     (\<exists>f'. service f = (x, f') \<and> roomFor v n f' \<and> allocated v f' = allocated v f))"

definition protocols_documented :: "'f efi \<Rightarrow> 'f firmware_view \<Rightarrow> bool" where
  "protocols_documented efi v \<longleftrightarrow>
     (\<forall>msg. answers v (\<lambda>f. ((), outputString efi msg f)) ()) \<and> (\<forall>n. answers v (\<lambda>f. ((), stall efi n f)) ()) \<and>
     answers v (locateGraphics efi) (Some (screenMode v)) \<and>
     (\<exists>device fs. answers v (handleLoadedImage efi) (Some device) \<and> answers v (handleFileSystem efi device) (Some fs) \<and>
        answers v (openVolume efi fs) (Some (volumeRoot v)))"

definition file_documented :: "'f efi \<Rightarrow> 'f firmware_view \<Rightarrow> string \<Rightarrow> bool" where
  "file_documented efi v name \<longleftrightarrow>
     (case volumeFiles v name of
        None \<Rightarrow> (\<exists>status h. EFI_ERROR status \<and> answers v (openFile efi (volumeRoot v) name) (status, h))
      | Some contents \<Rightarrow> answers v (openFile efi (volumeRoot v) name) (EFI_SUCCESS, fileHandle v name) \<and>
          (\<exists>needed x. answers v (getInfo efi (fileHandle v name) 0 0) (EFI_BUFFER_TOO_SMALL, needed, x) \<and>
             (\<forall>b. b \<noteq> 0 \<longrightarrow> answers v (getInfo efi (fileHandle v name) needed b) (EFI_SUCCESS, needed, of_nat (length contents)))) \<and>
          answers v (readFile efi (fileHandle v name) (of_nat (length contents))) contents)"

definition pages_at :: "UInt64 \<Rightarrow> UInt64 \<Rightarrow> UInt64 set" where
  "pages_at a n = {b. unat (b - a) < 4096 * unat n}"

text \<open>The pages a file of \<open>n\<close> bytes needs, as the loader computes them; the kernel gets 32 more.\<close>

definition pages_for :: "nat \<Rightarrow> UInt64" where
  "pages_for n = (of_nat n + 0xFFF) div 0x1000"

definition kernel_pages :: "'f firmware_view \<Rightarrow> UInt64" where
  "kernel_pages v = (case volumeFiles v ''kernel.bin'' of None \<Rightarrow> 0 | Some contents \<Rightarrow> pages_for (length contents)) + 32"

definition archive_pages :: "'f firmware_view \<Rightarrow> UInt64" where
  "archive_pages v = (case volumeFiles v ''StartupVolume.cpio'' of None \<Rightarrow> 0 | Some contents \<Rightarrow> pages_for (length contents))"

text \<open>
  Pools are granted, and change the map by less than a page. There is room for the kernel where it is linked, if those
  pages are free, and then for the archive, which gets pages nobody has.
\<close>

definition allocation_documented :: "'f efi \<Rightarrow> 'f firmware_view \<Rightarrow> bool" where
  "allocation_documented efi v \<longleftrightarrow>
     (\<forall>n f sz. roomFor v n f \<longrightarrow> (\<exists>p f'. allocatePool efi sz f = ((EFI_SUCCESS, p), f') \<and> p \<noteq> 0 \<and> roomFor v n f' \<and>
        allocated v f' = allocated v f \<and> efiMapSize (currentMap v f') \<le> efiMapSize (currentMap v f) + 4096)) \<and>
     (\<forall>f. roomFor v 2 f \<and> pages_at 0x100000 (kernel_pages v) \<inter> allocated v f = {} \<longrightarrow>
        (\<exists>f'. allocatePages efi AllocateAddress (kernel_pages v) 0x100000 f = ((EFI_SUCCESS, 0x100000), f') \<and> roomFor v 1 f' \<and>
          allocated v f' = allocated v f \<union> pages_at 0x100000 (kernel_pages v))) \<and>
     (\<forall>f. roomFor v 1 f \<longrightarrow>
        (\<exists>a f'. allocatePages efi AllocateAnyPages (archive_pages v) 0 f = ((EFI_SUCCESS, a), f') \<and> roomFor v 0 f' \<and>
          pages_at a (archive_pages v) \<inter> allocated v f = {} \<and> allocated v f' = allocated v f \<union> pages_at a (archive_pages v)))"

text \<open>
  The memory map is reported when the buffer is large enough for it. Leaving with the key of the current map may still
  be refused, but only as often as events are pending, and each adds at most two descriptors to the map.
\<close>

definition memory_map_documented :: "'f efi \<Rightarrow> 'f firmware_view \<Rightarrow> bool" where
  "memory_map_documented efi v \<longleftrightarrow>
     (\<forall>n f. roomFor v n f \<longrightarrow> (\<exists>r f'. getMemoryMap efi 0 0 f = ((EFI_BUFFER_TOO_SMALL, r), f') \<and> roomFor v n f' \<and>
        efiMapSize r = efiMapSize (currentMap v f) \<and> currentMap v f' = currentMap v f)) \<and>
     (\<forall>n f b sz. roomFor v n f \<and> b \<noteq> 0 \<and> efiMapSize (currentMap v f) \<le> sz \<longrightarrow>
        (\<exists>f'. getMemoryMap efi sz b f = ((EFI_SUCCESS, currentMap v f), f') \<and> roomFor v n f' \<and>
          currentMap v f' = currentMap v f \<and> pendingEvents v f' = pendingEvents v f)) \<and>
     (\<forall>n f. roomFor v n f \<longrightarrow> (\<exists>status f'. exitBootServices efi (efiMapKey (currentMap v f)) f = (status, f') \<and>
        (if EFI_ERROR status
         then roomFor v n f' \<and> pendingEvents v f' < pendingEvents v f \<and>
              efiMapSize (currentMap v f') \<le> efiMapSize (currentMap v f) + 2 * efiDescriptorSize (currentMap v f)
         else bootServicesLeft v f' \<and> currentMap v f' = currentMap v f)))"

definition firmware_documented :: "'f efi \<Rightarrow> 'f firmware_view \<Rightarrow> bool" where
  "firmware_documented efi v \<longleftrightarrow> protocols_documented efi v \<and> file_documented efi v ''kernel.bin'' \<and>
     file_documented efi v ''StartupVolume.cpio'' \<and> allocation_documented efi v \<and> memory_map_documented efi v"

section \<open>The loader with such a firmware\<close>

definition placed :: "memory \<Rightarrow> UInt64 \<Rightarrow> UInt8 list \<Rightarrow> bool" where
  "placed m a contents \<longleftrightarrow> (\<forall>i < length contents. m (a + of_nat i) = contents ! i)"

text \<open>The firmware is ready for \<open>n\<close> page allocations, and has handed out \<open>A\<close>.\<close>

definition firmware_at :: "'f firmware_view \<Rightarrow> nat \<Rightarrow> UInt64 set \<Rightarrow> 'f loader \<Rightarrow> bool" where
  "firmware_at v n A s \<longleftrightarrow> roomFor v n (firmware s) \<and> allocated v (firmware s) = A"

lemma call_answers:
  assumes "answers v service x" "firmware_at v n A s"
  shows "\<exists>t. call service s = (x, t) \<and> firmware_at v n A t \<and> loaderMemory t = loaderMemory s"
proof -
  obtain f where "service (firmware s) = (x, f)" "roomFor v n f" "allocated v f = allocated v (firmware s)"
    using assms unfolding answers_def firmware_at_def by blast
  then show ?thesis using assms(2) by (simp add: call_def firmware_at_def)
qed

lemma print_ready:
  assumes "protocols_documented efi v" "firmware_at v n A s"
  shows "firmware_at v n A (efi_print efi msg s)" "loaderMemory (efi_print efi msg s) = loaderMemory s"
  using assms by (auto simp: protocols_documented_def answers_def firmware_at_def efi_print_def)

lemma stall_ready:
  assumes "protocols_documented efi v" "firmware_at v n A s"
  shows "firmware_at v n A (s\<lparr>firmware := stall efi k (firmware s)\<rparr>)"
  using assms by (auto simp: protocols_documented_def answers_def firmware_at_def)

lemma warning_ready:
  assumes "protocols_documented efi v" "firmware_at v n A s"
  shows "firmware_at v n A (print_initramfs_warning efi msg s)" "loaderMemory (print_initramfs_warning efi msg s) = loaderMemory s"
  unfolding print_initramfs_warning_def Let_def
  by (intro stall_ready print_ready assms) (simp add: efi_print_def)

lemma not_error_success [simp]: "\<not> EFI_ERROR EFI_SUCCESS"
  by (simp add: EFI_ERROR_def)

lemma pool_ready:
  assumes "allocation_documented efi v" "firmware_at v n A s"
  shows "\<exists>p t. allocate_pool efi sz s = ((EFI_SUCCESS, p), t) \<and> p \<noteq> 0 \<and> firmware_at v n A t \<and> loaderMemory t = loaderMemory s \<and>
    efiMapSize (currentMap v (firmware t)) \<le> efiMapSize (currentMap v (firmware s)) + 4096"
proof -
  obtain p f where "allocatePool efi sz (firmware s) = ((EFI_SUCCESS, p), f)" "p \<noteq> 0" "roomFor v n f" "allocated v f = A"
    "efiMapSize (currentMap v f) \<le> efiMapSize (currentMap v (firmware s)) + 4096"
    using assms unfolding allocation_documented_def firmware_at_def by meson
  then show ?thesis by (simp add: allocate_pool_def call_def firmware_at_def)
qed

lemma file_info_ready:
  assumes "allocation_documented efi v" "file_documented efi v name" "volumeFiles v name = Some contents" "firmware_at v n A s"
  shows "\<exists>p t. file_info efi (fileHandle v name) s = ((EFI_SUCCESS, p, of_nat (length contents)), t) \<and> p \<noteq> 0 \<and> firmware_at v n A t \<and>
    loaderMemory t = loaderMemory s"
proof -
  obtain needed x where info: "answers v (getInfo efi (fileHandle v name) 0 0) (EFI_BUFFER_TOO_SMALL, needed, x)"
      "\<And>b. b \<noteq> 0 \<Longrightarrow> answers v (getInfo efi (fileHandle v name) needed b) (EFI_SUCCESS, needed, of_nat (length contents))"
    using assms(2,3) by (auto simp: file_documented_def)
  from call_answers [OF info(1) assms(4)] obtain s1 where
    s1: "call (getInfo efi (fileHandle v name) 0 0) s = ((EFI_BUFFER_TOO_SMALL, needed, x), s1)" "firmware_at v n A s1"
    "loaderMemory s1 = loaderMemory s" by blast
  from pool_ready [OF assms(1) s1(2)] obtain p s2 where
    s2: "allocate_pool efi needed s1 = ((EFI_SUCCESS, p), s2)" "p \<noteq> 0" "firmware_at v n A s2" "loaderMemory s2 = loaderMemory s1" by blast
  from call_answers [OF info(2) [OF s2(2)] s2(3)] obtain s3 where
    "call (getInfo efi (fileHandle v name) needed p) s2 = ((EFI_SUCCESS, needed, of_nat (length contents)), s3)" "firmware_at v n A s3"
    "loaderMemory s3 = loaderMemory s2" by blast
  then show ?thesis using s1 s2 by (simp add: file_info_def)
qed

lemma read_ready:
  fixes a :: UInt64
  assumes "file_documented efi v name" "volumeFiles v name = Some contents" "firmware_at v n A s" "length contents < 2 ^ 64"
  defines "t \<equiv> read_file efi (fileHandle v name) (of_nat (length contents)) a s"
  shows "firmware_at v n A t" "placed (loaderMemory t) a contents"
    "\<And>b. length contents \<le> unat (b - a) \<Longrightarrow> loaderMemory t b = loaderMemory s b"
proof -
  have "answers v (readFile efi (fileHandle v name) (of_nat (length contents))) contents"
    using assms(1,2) by (simp add: file_documented_def)
  from call_answers [OF this assms(3)] obtain u where
    u: "call (readFile efi (fileHandle v name) (of_nat (length contents))) s = (contents, u)" "firmware_at v n A u" "loaderMemory u = loaderMemory s"
    by blast
  have n: "unat (of_nat (length contents) :: UInt64) = length contents" using assms(4) by (simp add: unsigned_of_nat take_bit_nat_eq_self)
  have t: "t = u\<lparr>loaderMemory := \<lambda>b. if unat (b - a) < length contents then contents ! unat (b - a) else loaderMemory u b\<rparr>"
    unfolding t_def read_file_def u(1) by (simp add: n)
  show "firmware_at v n A t" using u(2) by (simp add: t firmware_at_def)
  show "placed (loaderMemory t) a contents" using assms(4) by (auto simp: placed_def t unsigned_of_nat take_bit_nat_eq_self)
  show "loaderMemory t b = loaderMemory s b" if "length contents \<le> unat (b - a)" for b using that u(3) by (simp add: t)
qed

lemma protocols_ready:
  assumes "protocols_documented efi v" "firmware_at v n A s"
  shows "\<exists>t. main_protocols efi s = Inr ((Some (screenMode v), volumeRoot v), t) \<and> firmware_at v n A t \<and> loaderMemory t = loaderMemory s"
proof -
  obtain device fs where p: "answers v (locateGraphics efi) (Some (screenMode v))" "answers v (handleLoadedImage efi) (Some device)"
    "answers v (handleFileSystem efi device) (Some fs)" "answers v (openVolume efi fs) (Some (volumeRoot v))"
    using assms(1) by (auto simp: protocols_documented_def)
  from call_answers [OF p(1) assms(2)] obtain s1 where
    s1: "call (locateGraphics efi) s = (Some (screenMode v), s1)" "firmware_at v n A s1" "loaderMemory s1 = loaderMemory s" by blast
  from call_answers [OF p(2) s1(2)] obtain s2 where
    s2: "call (handleLoadedImage efi) s1 = (Some device, s2)" "firmware_at v n A s2" "loaderMemory s2 = loaderMemory s1" by blast
  from call_answers [OF p(3) s2(2)] obtain s3 where
    s3: "call (handleFileSystem efi device) s2 = (Some fs, s3)" "firmware_at v n A s3" "loaderMemory s3 = loaderMemory s2" by blast
  from call_answers [OF p(4) s3(2)] obtain s4 where
    "call (openVolume efi fs) s3 = (Some (volumeRoot v), s4)" "firmware_at v n A s4" "loaderMemory s4 = loaderMemory s3" by blast
  then show ?thesis using s1 s2 s3 by (simp add: main_protocols_def pointer_set_def)
qed

lemma pages_for_nat: "n < 2 ^ 63 \<Longrightarrow> unat (pages_for n) = (n + 4095) div 4096"
  by (simp add: pages_for_def unat_div unat_word_ariths unsigned_of_nat take_bit_nat_eq_self)

lemma pages_cover:
  assumes "n < 2 ^ 63" "unat (b - a) < n"
  shows "b \<in> pages_at a (pages_for n)" "b \<in> pages_at a (pages_for n + 32)"
proof -
  have p: "unat (pages_for n + 32) = (n + 4095) div 4096 + 32"
    using assms(1) by (simp add: pages_for_nat unat_word_ariths)
  have "n \<le> 4096 * ((n + 4095) div 4096)" using div_mult_mod_eq [of "n + 4095" 4096] mod_less_divisor [of 4096 "n + 4095"] by linarith
  then show "b \<in> pages_at a (pages_for n)" "b \<in> pages_at a (pages_for n + 32)"
    using assms by (simp_all add: pages_at_def pages_for_nat p)
qed

lemma kernel_ready:
  assumes doc: "allocation_documented efi v" "file_documented efi v ''kernel.bin''"
    and kernel: "volumeFiles v ''kernel.bin'' = Some dewar" "length dewar < 2 ^ 63"
    and s: "firmware_at v 2 A s" and free: "pages_at 0x100000 (kernel_pages v) \<inter> A = {}"
  shows "\<exists>t. main_kernel efi (volumeRoot v) s = Inr (0x100000, t) \<and>
    firmware_at v 1 (A \<union> pages_at 0x100000 (kernel_pages v)) t \<and> placed (loaderMemory t) 0x100000 dewar"
proof -
  have pages: "kernel_pages v = pages_for (length dewar) + 32" using kernel(1) by (simp add: kernel_pages_def)
  have "answers v (openFile efi (volumeRoot v) ''kernel.bin'') (EFI_SUCCESS, fileHandle v ''kernel.bin'')"
    using doc(2) kernel(1) by (simp add: file_documented_def)
  from call_answers [OF this s] obtain s1 where
    s1: "call (openFile efi (volumeRoot v) ''kernel.bin'') s = ((EFI_SUCCESS, fileHandle v ''kernel.bin''), s1)" "firmware_at v 2 A s1"
    by blast
  from file_info_ready [OF doc kernel(1) s1(2)] obtain p s2 where
    s2: "file_info efi (fileHandle v ''kernel.bin'') s1 = ((EFI_SUCCESS, p, of_nat (length dewar)), s2)" "p \<noteq> 0"
    "firmware_at v 2 A s2" by blast
  obtain f where f: "allocatePages efi AllocateAddress (kernel_pages v) 0x100000 (firmware s2) = ((EFI_SUCCESS, 0x100000), f)"
    "roomFor v 1 f" "allocated v f = A \<union> pages_at 0x100000 (kernel_pages v)"
    using doc(1) s2(3) free unfolding allocation_documented_def firmware_at_def by meson
  let ?s = "s2\<lparr>firmware := f\<rparr>"
  have "main_kernel efi (volumeRoot v) s = Inr (0x100000, read_file efi (fileHandle v ''kernel.bin'') (of_nat (length dewar)) 0x100000 ?s)"
    using s1(1) s2(1,2) f(1) unfolding pages by (simp add: main_kernel_def call_def pages_for_def)
  moreover have "firmware_at v 1 (A \<union> pages_at 0x100000 (kernel_pages v)) ?s" using f by (simp add: firmware_at_def)
  moreover have "length dewar < 2 ^ 64" using kernel(2) by simp
  ultimately show ?thesis using read_ready(1,2) [OF doc(2) kernel(1)] by simp
qed

text \<open>Other pages are not touched.\<close>

lemma placed_apart:
  assumes "placed m a contents" "length contents < 2 ^ 63" "\<And>b. unat (b - a) < length contents \<Longrightarrow> m' b = m b"
  shows "placed m' a contents"
  using assms by (auto simp: placed_def unsigned_of_nat take_bit_nat_eq_self)

lemma initramfs_ready:
  assumes doc: "protocols_documented efi v" "allocation_documented efi v" "file_documented efi v ''StartupVolume.cpio''"
    and archive: "\<And>archive. volumeFiles v ''StartupVolume.cpio'' = Some archive \<Longrightarrow> length archive < 2 ^ 63"
    and s: "firmware_at v 1 A s"
  shows "\<exists>a sz t n B. main_initramfs efi (volumeRoot v) info s = Inr (info\<lparr>bootInitramfs := \<lparr>initramfsAddress = a, initramfsSize = sz\<rparr>\<rparr>, t) \<and>
    firmware_at v n B t \<and> (\<forall>b \<in> A. loaderMemory t b = loaderMemory s b) \<and>
    (case volumeFiles v ''StartupVolume.cpio'' of None \<Rightarrow> a = 0 \<and> sz = 0
     | Some archive \<Rightarrow> sz = of_nat (length archive) \<and> placed (loaderMemory t) a archive)"
proof (cases "volumeFiles v ''StartupVolume.cpio''")
  case None
  then obtain status h where "EFI_ERROR status" "answers v (openFile efi (volumeRoot v) ''StartupVolume.cpio'') (status, h)"
    using doc(3) by (auto simp: file_documented_def)
  moreover from call_answers [OF this(2) s] obtain t where
    t: "call (openFile efi (volumeRoot v) ''StartupVolume.cpio'') s = ((status, h), t)" "firmware_at v 1 A t" "loaderMemory t = loaderMemory s" by blast
  ultimately show ?thesis using None warning_ready [OF doc(1) t(2)] by (simp add: main_initramfs_def) blast
next
  case (Some archive)
  have len: "length archive < 2 ^ 63" "length archive < 2 ^ 64" using archive [OF Some] by auto
  have "answers v (openFile efi (volumeRoot v) ''StartupVolume.cpio'') (EFI_SUCCESS, fileHandle v ''StartupVolume.cpio'')"
    using doc(3) Some by (simp add: file_documented_def)
  from call_answers [OF this s] obtain s1 where
    s1: "call (openFile efi (volumeRoot v) ''StartupVolume.cpio'') s = ((EFI_SUCCESS, fileHandle v ''StartupVolume.cpio''), s1)"
    "firmware_at v 1 A s1" "loaderMemory s1 = loaderMemory s" by blast
  from file_info_ready [OF doc(2,3) Some s1(2)] obtain p s2 where
    s2: "file_info efi (fileHandle v ''StartupVolume.cpio'') s1 = ((EFI_SUCCESS, p, of_nat (length archive)), s2)" "p \<noteq> 0"
    "firmware_at v 1 A s2" "loaderMemory s2 = loaderMemory s1" by blast
  have pages: "archive_pages v = pages_for (length archive)" using Some by (simp add: archive_pages_def)
  obtain a f where f: "allocatePages efi AllocateAnyPages (archive_pages v) 0 (firmware s2) = ((EFI_SUCCESS, a), f)"
    "roomFor v 0 f" "pages_at a (archive_pages v) \<inter> A = {}" "allocated v f = A \<union> pages_at a (archive_pages v)"
    using doc(2) s2(3) unfolding allocation_documented_def firmware_at_def by meson
  let ?s = "s2\<lparr>firmware := f\<rparr>"
  let ?t = "read_file efi (fileHandle v ''StartupVolume.cpio'') (of_nat (length archive)) a ?s"
  have "firmware_at v 0 (A \<union> pages_at a (archive_pages v)) ?s" using f by (simp add: firmware_at_def)
  note t = read_ready [OF doc(3) Some this len(2), where a = a]
  have "loaderMemory ?t b = loaderMemory s b" if "b \<in> A" for b
  proof -
    have "\<not> unat (b - a) < length archive" using pages_cover(1) [OF len(1)] f(3) [unfolded pages] that by blast
    then show ?thesis using t(3) [where b = b] s1(3) s2(4) by simp
  qed
  moreover have "main_initramfs efi (volumeRoot v) info s =
      Inr (info\<lparr>bootInitramfs := \<lparr>initramfsAddress = a, initramfsSize = of_nat (length archive)\<rparr>\<rparr>, ?t)"
    using s1(1) s2(1,2) f(1) unfolding pages by (simp add: main_initramfs_def call_def pages_for_def)
  ultimately show ?thesis using t(1,2) Some by auto
qed

text \<open>The loop ends: every refusal uses up a pending event, and the buffer it then asks for is large enough.\<close>

lemma leave_firmware:
  assumes doc: "memory_map_documented efi v" "b \<noteq> 0"
    and s: "roomFor v n (firmware s)" "efiMapSize (currentMap v (firmware s)) \<le> sz"
  shows "\<exists>t. sLeaveFirmware efi sz b info s = Some (Inr (info\<lparr>bootMemoryMap := described_map (currentMap v (firmware t))\<rparr>, t)) \<and>
    bootServicesLeft v (firmware t) \<and> loaderMemory t = loaderMemory s"
  using s
proof (induction "pendingEvents v (firmware s)" arbitrary: s sz info rule: less_induct)
  case less
  let ?m = "currentMap v (firmware s)"
  obtain f where f: "getMemoryMap efi sz b (firmware s) = ((EFI_SUCCESS, ?m), f)" "roomFor v n f" "currentMap v f = ?m"
    "pendingEvents v f = pendingEvents v (firmware s)"
    using doc less.prems unfolding memory_map_documented_def by meson
  obtain status g where g: "exitBootServices efi (efiMapKey ?m) f = (status, g)"
    "if EFI_ERROR status then roomFor v n g \<and> pendingEvents v g < pendingEvents v f \<and>
        efiMapSize (currentMap v g) \<le> efiMapSize ?m + 2 * efiDescriptorSize ?m
     else bootServicesLeft v g \<and> currentMap v g = ?m"
    using doc(1) f(2,3) unfolding memory_map_documented_def by metis
  let ?info = "info\<lparr>bootMemoryMap := described_map ?m\<rparr>" and ?s = "s\<lparr>firmware := g\<rparr>"
  show ?case
  proof (cases "EFI_ERROR status")
    case True
    have step: "sLeaveFirmware efi sz b info s = sLeaveFirmware efi (efiMapSize ?m + 2 * efiDescriptorSize ?m) b ?info ?s"
      by (subst sLeaveFirmware.simps) (simp add: call_def f(1) g(1) True)
    have "pendingEvents v (firmware ?s) < pendingEvents v (firmware s)" "roomFor v n (firmware ?s)"
      "efiMapSize (currentMap v (firmware ?s)) \<le> efiMapSize ?m + 2 * efiDescriptorSize ?m"
      using g(2) True f(4) by simp_all
    from less.hyps [OF this, of ?info] show ?thesis unfolding step by simp
  next
    case False
    then have "sLeaveFirmware efi sz b info s = Some (Inr (?info, ?s))"
      by (subst sLeaveFirmware.simps) (simp add: call_def f(1) g(1))
    then show ?thesis using g(2) False by simp
  qed
qed

lemma memory_map_ready:
  assumes doc: "protocols_documented efi v" "allocation_documented efi v" "memory_map_documented efi v" and s: "firmware_at v n A s"
  shows "\<exists>t. main_memory_map efi info s = Inr (info\<lparr>bootMemoryMap := described_map (currentMap v (firmware t))\<rparr>, t) \<and>
    bootServicesLeft v (firmware t) \<and> loaderMemory t = loaderMemory s"
proof -
  let ?s = "efi_print efi (''Almost ready to jump :D. Working with memory map'' @ [CHR 0x0D, CHR 0x0A]) s"
  note s0 = print_ready [OF doc(1) s, of "''Almost ready to jump :D. Working with memory map'' @ [CHR 0x0D, CHR 0x0A]"]
  obtain r f where r: "getMemoryMap efi 0 0 (firmware ?s) = ((EFI_BUFFER_TOO_SMALL, r), f)" "roomFor v n f"
    "efiMapSize r = efiMapSize (currentMap v (firmware ?s))" "currentMap v f = currentMap v (firmware ?s)"
    using doc(3) s0(1) unfolding memory_map_documented_def firmware_at_def by meson
  let ?u = "?s\<lparr>firmware := f\<rparr>"
  have "firmware_at v n (allocated v f) ?u" using r(2) by (simp add: firmware_at_def)
  from pool_ready [OF doc(2) this, of "efiMapSize r + 4096"] obtain p t where
    t: "allocate_pool efi (efiMapSize r + 4096) ?u = ((EFI_SUCCESS, p), t)" "p \<noteq> 0" "roomFor v n (firmware t)"
    "loaderMemory t = loaderMemory s" "efiMapSize (currentMap v (firmware t)) \<le> efiMapSize r + 4096"
    using r(3,4) s0(2) by (auto simp: firmware_at_def)
  have "main_memory_map efi info s = returns (sLeaveFirmware efi (efiMapSize r + 4096) p info t)"
    unfolding main_memory_map_def Let_def call_def r(1) prod.case t(1) by simp
  then show ?thesis using leave_firmware [OF doc(3) t(2,3,5), of info] t(4) by auto
qed


text \<open>When the archive is there but its pages are refused, the boot information keeps whatever its memory held.\<close>

lemma initramfs_left_unset:
  assumes "call (openFile efi root ''StartupVolume.cpio'') s = ((EFI_SUCCESS, file), s1)"
    and "file_info efi file s1 = ((EFI_SUCCESS, p, n), s2)" "p \<noteq> 0"
    and "call (allocatePages efi AllocateAnyPages ((n + 0xFFF) div 0x1000) 0) s2 = ((status, a), s3)" "EFI_ERROR status"
  shows "\<exists>t. main_initramfs efi root info s = Inr (info, t)"
  using assms by (simp add: main_initramfs_def)

text \<open>When the memory map is not delivered, the kernel is entered with the firmware still running and no memory map.\<close>

lemma firmware_not_left:
  assumes "call (getMemoryMap efi sz b) s = ((status, r), t)" "EFI_ERROR status"
  shows "sLeaveFirmware efi sz b info s = Some (Inr (info, t))"
  using assms by (subst sLeaveFirmware.simps) simp

text \<open>
  A firmware that works as documented: its state counts the refusals still to come and says whether it was left, the
  kernel is three bytes and the archive one, which always goes to the second gigabyte.
\<close>

record small_state =
  refusals :: nat
  handedOut :: nat
  leftNow :: bool

definition small_memory_map :: "nat \<Rightarrow> efi_memory_map" where
  "small_memory_map n = \<lparr>efiDescriptors = [], efiMapSize = 48, efiMapKey = of_nat n, efiDescriptorSize = 48, efiDescriptorVersion = 1\<rparr>"

definition small_mode :: efi_gop_mode where
  "small_mode = \<lparr>MaxMode = 1, currentMode = 0,
     modeInformation = \<lparr>modeVersion = 0, HorizontalResolution = 64, VerticalResolution = 32, PixelFormat = PixelBlueGreenRedReserved8BitPerColor,
       PixelInformation = \<lparr>RedMask = 0, GreenMask = 0, BlueMask = 0, ReservedMask = 0\<rparr>, PixelsPerScanLine = 64\<rparr>,
     SizeOfInfo = 36, FrameBufferBase = 0xC0000000, FrameBufferSize = 8192\<rparr>"

definition small_files :: "string \<Rightarrow> UInt8 list option" where
  "small_files = [''kernel.bin'' \<mapsto> [1, 2, 3], ''StartupVolume.cpio'' \<mapsto> [7]]"

definition small_efi :: "small_state efi" where
  "small_efi = \<lparr>outputString = \<lambda>_ f. f, stall = \<lambda>_ f. f, locateGraphics = Pair (Some small_mode), handleLoadedImage = Pair (Some 1),
     handleFileSystem = \<lambda>_. Pair (Some 2), openVolume = \<lambda>_. Pair (Some 3),
     openFile = \<lambda>_ name. Pair (EFI_SUCCESS, if name = ''kernel.bin'' then 4 else 5),
     getInfo = \<lambda>h n b. Pair (if b = 0 then (EFI_BUFFER_TOO_SMALL, 80, 0) else (EFI_SUCCESS, 80, if h = 4 then 3 else 1)),
     readFile = \<lambda>h n. Pair (if h = 4 then [1, 2, 3] else [7]), allocatePool = \<lambda>_. Pair (EFI_SUCCESS, 0x5000),
     allocatePages = \<lambda>kind p a f. ((EFI_SUCCESS, if kind = AllocateAddress then a else 0x40000000), f\<lparr>handedOut := Suc (handedOut f)\<rparr>),
     getMemoryMap = \<lambda>sz b f. ((if b = 0 then EFI_BUFFER_TOO_SMALL else EFI_SUCCESS, small_memory_map (refusals f)), f),
     exitBootServices = \<lambda>_ f. if 0 < refusals f then (0x8000000000000002, f\<lparr>refusals := refusals f - 1\<rparr>) else (EFI_SUCCESS, f\<lparr>leftNow := True\<rparr>)\<rparr>"

definition small_view :: "small_state firmware_view" where
  "small_view = \<lparr>roomFor = \<lambda>n f. handedOut f + n = 2,
     allocated = \<lambda>f. (if 0 < handedOut f then pages_at 0x100000 33 else {}) \<union> (if 1 < handedOut f then pages_at 0x40000000 1 else {}),
     currentMap = \<lambda>f. small_memory_map (refusals f), pendingEvents = refusals, bootServicesLeft = leftNow,
     screenMode = small_mode, volumeRoot = 3, volumeFiles = small_files, fileHandle = \<lambda>name. if name = ''kernel.bin'' then 4 else 5\<rparr>"

lemma small_pages [simp]: "kernel_pages small_view = 33" "archive_pages small_view = 1"
  by (simp_all add: kernel_pages_def archive_pages_def small_view_def small_files_def pages_for_def word_of_nat_eq_iff)

lemma small_pages_apart: "pages_at 0x40000000 1 \<inter> pages_at 0x100000 33 = {}"
proof -
  have False if "unat (b - 0x40000000) < 4096" "unat (b - 0x100000) < 135168" for b :: UInt64
  proof -
    have "b - 0x100000 = (b - 0x40000000) + 0x3FF00000" by simp
    then have "unat (b - 0x100000) = (unat (b - 0x40000000) + 0x3FF00000) mod 2 ^ 64" by (simp only: unat_word_ariths) simp
    then show False using that by simp
  qed
  then show ?thesis by (auto simp: pages_at_def)
qed

lemma small_firmware_documented: "firmware_documented small_efi small_view"
proof -
  have "protocols_documented small_efi small_view"
    by (auto simp: protocols_documented_def answers_def small_efi_def small_view_def)
  moreover have "file_documented small_efi small_view ''kernel.bin''"
    by (auto simp: file_documented_def answers_def small_efi_def small_view_def small_files_def)
  moreover have "file_documented small_efi small_view ''StartupVolume.cpio''"
    by (auto simp: file_documented_def answers_def small_efi_def small_view_def small_files_def)
  moreover have "allocation_documented small_efi small_view"
    unfolding allocation_documented_def small_pages
    using small_pages_apart by (auto simp: small_efi_def small_view_def small_memory_map_def)
  moreover have "memory_map_documented small_efi small_view"
    by (auto simp: memory_map_documented_def small_efi_def small_view_def small_memory_map_def EFI_ERROR_def word_sless_alt)
  ultimately show ?thesis by (simp add: firmware_documented_def)
qed


end
