(* ===== verification/KernelSpace.thy ===== *)
theory KernelSpace
  imports VirtualMemory
begin

text \<open>
  How the kernel's own address space is set up, \<^verbatim>\<open>VMVirtualMemoryInitialize\<close> of \<^verbatim>\<open>kernel/src/VM/VMM.c\<close> (the operation itself
  is in VirtualMemory). Its three loops map a range of pages each; the pages they map are told apart by their numbers.
\<close>

unbundle bit_operations_syntax

section \<open>Pages by their number\<close>

lemma unat_index: "unat (drop_bit n v AND 0x1FF) = unat v div 2 ^ n mod 512" for v :: UInt64
proof -
  have "(0x1FF :: UInt64) = mask 9" by (simp add: mask_eq_exp_minus_1)
  then have "drop_bit n v AND 0x1FF = take_bit 9 (drop_bit n v)" by (simp only: take_bit_eq_mask)
  then have "unat (drop_bit n v AND 0x1FF) = take_bit 9 (drop_bit n (unat v))" by (simp only: unsigned_take_bit_eq unat_drop_bit_eq)
  then show ?thesis by (simp only: take_bit_eq_mod drop_bit_eq_div) simp
qed

lemma mod_digits: "a mod (512 * m) = b mod (512 * m) \<longleftrightarrow> a mod 512 = b mod 512 \<and> a div 512 mod m = b div 512 mod m" for a b m :: nat
proof
  assume eq: "a mod (512 * m) = b mod (512 * m)"
  have "x mod (512 * m) mod 512 = x mod 512" "x mod (512 * m) div 512 = x div 512 mod m" for x by (simp_all add: mod_mult2_eq)
  then show "a mod 512 = b mod 512 \<and> a div 512 mod m = b div 512 mod m" using eq by metis
qed (simp add: mod_mult2_eq)

lemma same_page_number: "same_page v w \<longleftrightarrow> unat v div 4096 mod 2 ^ 36 = unat w div 4096 mod 2 ^ 36"
proof -
  have idx: "unat (VMM_PT_INDEX x) = unat x div 4096 mod 512" "unat (VMM_PD_INDEX x) = unat x div 4096 div 512 mod 512"
    "unat (VMM_PDPT_INDEX x) = unat x div 4096 div 512 div 512 mod 512" "unat (VMM_PML4_INDEX x) = unat x div 4096 div 512 div 512 div 512 mod 512" for x
    by (simp_all add: VMM_PT_INDEX_def VMM_PD_INDEX_def VMM_PDPT_INDEX_def VMM_PML4_INDEX_def unat_index div_mult2_eq [symmetric])
  have "(2 :: nat) ^ 36 = 512 * (512 * (512 * 512))" by simp
  then show ?thesis
    unfolding same_page_def table_path_def list.inject word_unat_eq_iff idx by (simp only: mod_digits) blast
qed

lemma same_page_sym: "same_page v w \<longleftrightarrow> same_page w v"
  by (auto simp: same_page_def)

lemma same_page_trans: "same_page u v \<Longrightarrow> same_page v w \<Longrightarrow> same_page u w"
  by (simp add: same_page_def)

lemma same_page_refl [simp]: "same_page v v"
  by (simp add: same_page_def)

text \<open>In the upper half of the canonical addresses the page number decides.\<close>

abbreviation upper_half :: UInt64 where
  "upper_half \<equiv> 0xFFFF800000000000"

lemma same_page_upper:
  assumes "upper_half \<le> v" "upper_half \<le> w"
  shows "same_page v w \<longleftrightarrow> unat v div 4096 = unat w div 4096"
proof -
  have "unat x div 4096 mod 2 ^ 36 = unat x div 4096 - 0xFFFF * 2 ^ 36" if "upper_half \<le> x" for x
  proof -
    have "0xFFFF800000000 \<le> unat x div 4096" using that by (simp add: word_le_nat_alt) 
    moreover have "unat x div 4096 < 2 ^ 52" using unsigned_less [of x, where ?'a = nat] by simp
    ultimately show ?thesis using mod_nat_eqI [of "unat x div 4096 - 0xFFFF * 2 ^ 36" "2 ^ 36" "unat x div 4096"] by simp
  qed
  then have "same_page v w \<longleftrightarrow> unat v div 4096 - 0xFFFF * 2 ^ 36 = unat w div 4096 - 0xFFFF * 2 ^ 36"
    using assms by (simp only: same_page_number)
  moreover have "0xFFFF * 2 ^ 36 \<le> unat x div 4096" if "upper_half \<le> x" for x :: UInt64
  proof -
    have "0xFFFF800000000 * 4096 \<le> unat x" using that by (simp add: word_le_nat_alt)
    then have "0xFFFF800000000 \<le> unat x div 4096" by (simp only: less_eq_div_iff_mult_less_eq [of 4096 "0xFFFF800000000" "unat x"])
    then show ?thesis by simp
  qed
  note this [OF assms(1)] this [OF assms(2)]
  ultimately show ?thesis by arith
qed

lemma not_same_page_user:
  assumes "unat (VMM_PML4_INDEX v) < 256" "upper_half \<le> w"
  shows "\<not> same_page v w"
proof
  assume "same_page v w"
  then have "unat (VMM_PML4_INDEX w) < 256" using assms(1) by (simp add: same_page_def table_path_def)
  then have "unat w div 2 ^ 39 mod 512 < 256" by (simp add: VMM_PML4_INDEX_def unat_index)
  moreover have "0xFFFF * 512 + 256 \<le> unat w div 2 ^ 39" using assms(2) by (simp add: word_le_nat_alt)
  moreover have "unat w div 2 ^ 39 < 0x10000 * 512" using unsigned_less [of w, where ?'a = nat] by simp
  ultimately show False using mod_nat_eqI [of "unat w div 2 ^ 39 - 0xFFFF * 512" 512 "unat w div 2 ^ 39"] by simp
qed

definition page_start :: "UInt64 \<Rightarrow> UInt64" where
  "page_start v = v AND NOT 0xFFF"

lemma page_start_nat: "unat (page_start v) = unat v div 4096 * 4096"
proof -
  have m: "(0xFFF :: UInt64) = mask 12" by (simp add: mask_eq_exp_minus_1)
  have "page_start v = push_bit 12 (drop_bit 12 v)"
    unfolding page_start_def m by (rule bit_word_eqI) (auto simp: bit_simps)
  moreover have "unat v div 4096 * 4096 < 2 ^ 64"
    by (rule le_less_trans [OF div_times_less_eq_dividend]) (use unsigned_less [of v, where ?'a = nat] in simp)
  ultimately show ?thesis by (simp add: push_bit_eq_mult drop_bit_eq_div unat_word_ariths unat_div)
qed

lemma page_start_aligned [simp]: "frame_aligned (page_start v)"
  by (simp add: frame_aligned_def page_start_nat)

lemma page_start_le: "page_start v \<le> v"
  by (simp add: word_le_nat_alt page_start_nat)

lemma page_start_between: "frame_aligned a \<Longrightarrow> a \<le> v \<Longrightarrow> a \<le> page_start v"
  unfolding word_le_nat_alt page_start_nat frame_aligned_def by (auto elim!: dvdE simp: less_eq_div_iff_mult_less_eq mult.commute)

section \<open>The mapping loops\<close>

text \<open>
  What such a loop leaves behind, up to the address \<open>a\<close>: the page at \<open>virt i\<close> is mapped to \<open>phys i\<close>, writable and for the
  kernel alone, and all other pages are as before.
\<close>

abbreviation kernel_flags :: UInt64 where
  "kernel_flags \<equiv> PTE_PRESENT OR PTE_RW"

definition range_mapped :: "(UInt64 \<Rightarrow> UInt64) \<Rightarrow> (UInt64 \<Rightarrow> UInt64) \<Rightarrow> UInt64 \<Rightarrow> UInt64 \<Rightarrow> UInt64 \<Rightarrow> memory \<Rightarrow> memory \<Rightarrow> bool" where
  "range_mapped phys virt root start a m m' \<longleftrightarrow>
     (\<forall>i v. frame_aligned i \<longrightarrow> start \<le> i \<longrightarrow> i < a \<longrightarrow> same_page v (virt i) \<longrightarrow> translate m' root v = Some (phys i OR kernel_flags)) \<and>
     (\<forall>v. (\<forall>i. frame_aligned i \<longrightarrow> start \<le> i \<longrightarrow> i < a \<longrightarrow> \<not> same_page v (virt i)) \<longrightarrow> translate m' root v = translate m root v)"

lemma range_mapped_step:
  assumes before: "range_mapped phys virt root start a m m'" and a: "frame_aligned a" "start \<le> a" "a < a + 4096"
    and apart: "\<And>i. frame_aligned i \<Longrightarrow> start \<le> i \<Longrightarrow> i < a \<Longrightarrow> \<not> same_page (virt i) (virt a)"
    and tr: "\<And>v. translate m'' root v = (if same_page v (virt a) then Some (phys a OR kernel_flags) else translate m' root v)"
  shows "range_mapped phys virt root start (a + 4096) m m''"
proof -
  have up: "i < a + 4096 \<longleftrightarrow> i < a \<or> i = a" if i: "frame_aligned i" for i
  proof -
    obtain k where k: "unat i = 4096 * k" using i by (auto simp: frame_aligned_def)
    obtain l where kl: "unat i = 4096 * k" "unat a = 4096 * l" using k a(1) by (auto simp: frame_aligned_def)
    have "unat (a + 4096) = unat a + 4096"
      using a(3) unsigned_less [of a, where ?'a = nat] by (auto simp: word_less_nat_alt unat_word_ariths unat_of_nat mod_if split: if_splits)
    then show ?thesis using kl by (auto simp: word_less_nat_alt word_unat_eq_iff)
  qed
  show ?thesis
    unfolding range_mapped_def
  proof (intro conjI allI impI)
    fix i v assume i: "frame_aligned i" "start \<le> i" "i < a + 4096" "same_page v (virt i)"
    show "translate m'' root v = Some (phys i OR kernel_flags)"
    proof (cases "i = a")
      case False
      then have "i < a" using i up by blast
      then have "\<not> same_page v (virt a)" using apart [OF i(1,2)] i(4) same_page_trans same_page_sym by blast
      moreover have "translate m' root v = Some (phys i OR kernel_flags)" using before i \<open>i < a\<close> unfolding range_mapped_def by blast
      ultimately show ?thesis by (simp add: tr)
    qed (use i tr in simp)
  next
    fix v assume v: "\<forall>i. frame_aligned i \<longrightarrow> start \<le> i \<longrightarrow> i < a + 4096 \<longrightarrow> \<not> same_page v (virt i)"
    then have "\<not> same_page v (virt a)" "\<forall>i. frame_aligned i \<longrightarrow> start \<le> i \<longrightarrow> i < a \<longrightarrow> \<not> same_page v (virt i)"
      using a up by blast+
    then show "translate m'' root v = translate m root v" using before unfolding range_mapped_def by (simp add: tr)
  qed
qed

lemma present_kernel: "present (x OR kernel_flags)"
proof -
  have "x OR kernel_flags = PTE_PRESENT OR (x OR PTE_RW)" by (rule bit_word_eqI) (auto simp only: bit_or_iff)
  then show ?thesis using present_OR [of PTE_PRESENT "x OR PTE_RW"] by simp
qed

lemma map_range_effect:
  fixes s :: "'a vmm_scheme"
  assumes ready: "vmm_ready s root" "gVMKernelPML4 s = root"
    and start: "frame_aligned start" and room: "unat limit + 4096 \<le> 2 ^ 64"
    and apart: "\<And>i j. frame_aligned i \<Longrightarrow> frame_aligned j \<Longrightarrow> start \<le> i \<Longrightarrow> i < j \<Longrightarrow> j < limit \<Longrightarrow> \<not> same_page (virt i) (virt j)"
  shows "\<exists>t. for_range start limit kVMPageSize (map_each phys virt) s = Inr t \<and> vmm_ready t root \<and> vmm_frame s t \<and>
    free_frames t \<subseteq> free_frames s \<and> (free_frames t \<noteq> {} \<longrightarrow> range_mapped phys virt root start limit (mem s) (mem t))"
proof -
  define I where "I = (\<lambda>a t. frame_aligned a \<and> start \<le> a \<and> vmm_ready t root \<and> vmm_frame s t \<and> free_frames t \<subseteq> free_frames s \<and>
    (free_frames t \<noteq> {} \<longrightarrow> range_mapped phys virt root start a (mem s) (mem t)))"
  have "I start s" using ready(1) start by (auto simp: I_def vmm_frame_refl range_mapped_def)
  moreover have "\<exists>u. map_each phys virt a t = Inr u \<and> I (a + kVMPageSize) u"
    if a: "start \<le> a" "a < limit" and I: "I a t" for a and t :: "'a vmm_scheme"
  proof -
    have t: "vmm_ready t root" "vmm_frame s t" "frame_aligned a" "free_frames t \<subseteq> free_frames s"
      "free_frames t \<noteq> {} \<longrightarrow> range_mapped phys virt root start a (mem s) (mem t)"
      using I by (simp_all add: I_def)
    have k: "gVMKernelPML4 t = root" using t(2) ready(2) by (auto simp: vmm_frame_def)
    obtain r u where u: "VMVirtualMemoryMapPage root (phys a) (virt a) kernel_flags t = Inr (r, u)" "vmm_ready u root" "vmm_frame t u"
      "free_frames u \<subseteq> free_frames t"
      "r = 0 \<and> free_frames u = {} \<and> (\<forall>v. translate (mem u) root v = translate (mem t) root v) \<or>
       r = virt a \<and> (\<forall>v. translate (mem u) root v =
         (if same_page v (virt a) then Some (phys a OR kernel_flags) else translate (mem t) root v))"
      using MapPage_effect [OF t(1) present_kernel] by blast
    have na: "unat (a + 4096) = unat a + 4096" "a < a + 4096"
      using a(2) room by (simp_all add: word_less_nat_alt unat_word_ariths)
    have al: "frame_aligned (a + 4096)" using t(3) by (auto simp: frame_aligned_def na(1))
    have "range_mapped phys virt root start (a + 4096) (mem s) (mem u)" if more: "free_frames u \<noteq> {}"
    proof (rule range_mapped_step [OF _ t(3) a(1) na(2)])
      show "range_mapped phys virt root start a (mem s) (mem t)" using t(5) more u(4) by auto
      show "\<not> same_page (virt i) (virt a)" if "frame_aligned i" "start \<le> i" "i < a" for i
        by (rule apart [OF that(1) t(3) that(2,3) a(2)])
      show "translate (mem u) root v = (if same_page v (virt a) then Some (phys a OR kernel_flags) else translate (mem t) root v)" for v
        using u(5) more by simp
    qed
    then have "I (a + 4096) u"
      unfolding I_def using al a(1) na(2) u(2,4) t(4) vmm_frame_trans [OF t(2) u(3)] by auto
    then show ?thesis using u(1) k by (simp add: map_each_def)
  qed
  ultimately obtain t a where t: "for_range start limit kVMPageSize (map_each phys virt) s = Inr t" "I a t" "limit \<le> a"
    "a = start \<or> (\<exists>b. start \<le> b \<and> b < limit \<and> a = b + kVMPageSize)"
    using for_range_total [of limit kVMPageSize I start s "map_each phys virt"] room by auto
  have "range_mapped phys virt root start limit m m'" if "range_mapped phys virt root start a m m'" for m m'
  proof -
    have "i < limit \<longleftrightarrow> i < a" if i: "frame_aligned i" "start \<le> i" for i
    proof -
      have False if "i < a" "\<not> i < limit"
      proof -
        from t(4) that i obtain b where b: "b < limit" "a = b + 4096" by auto
        have nb: "unat (b + 4096) = unat b + 4096" using b(1) room by (simp add: word_less_nat_alt unat_word_ariths)
        have "4096 dvd unat a" "4096 dvd unat i" using t(2) i(1) by (simp_all add: I_def frame_aligned_def)
        then obtain k l where "unat a = 4096 * k" "unat i = 4096 * l" by (elim dvdE)
        then show False using that b nb by (simp add: word_less_nat_alt)
      qed
      then show ?thesis using t(3) by (auto intro: less_le_trans)
    qed
    then show ?thesis using that unfolding range_mapped_def by blast
  qed
  then show ?thesis using t(1,2) unfolding I_def by blast
qed

section \<open>The kernel's address space\<close>

text \<open>A cleared frame is an empty tree.\<close>

lemma empty_root:
  assumes "frame_aligned r"
  shows "valid_path p \<Longrightarrow> resolve (MemorySet m r 0 4096) r p = Some f \<longleftrightarrow> p = [] \<and> f = r"
    "translate (MemorySet m r 0 4096) r v = None"
proof -
  have none: "table_entry (MemorySet m r 0 4096) r i = 0" if "i < 512" for i
    by (simp add: table_entry_clear [OF assms assms that])
  show "resolve (MemorySet m r 0 4096) r p = Some f \<longleftrightarrow> p = [] \<and> f = r" if "valid_path p"
    using that none by (cases p) (auto simp: valid_path_def)
  show "translate (MemorySet m r 0 4096) r v = None"
    using none [OF index_bound(4)] by (simp add: translate_def table_path_def)
qed

lemma new_kernel_root:
  fixes s :: "'a vmm_scheme"
  assumes pmm: "pmm_inv s" "free_frames s \<noteq> {}" and lock: "lock_free (sVMVMMlock s)"
  defines "r \<equiv> frame_address (Min (free_frames s))"
  shows "\<exists>u bm. u = s\<lparr>gVMPhycalMemoryBitmap := bm\<rparr> \<and> VMPhysicalMemoryAllocatePage s = Inr (r, u) \<and>
    (let t = u\<lparr>gVMKernelPML4Physical := r, gVMKernelPML4 := r, mem := MemorySet (mem u) r 0 kVMPageSize\<rparr> in
     vmm_ready t r \<and> free_frames t \<subseteq> free_frames s \<and> (\<forall>v. translate (mem t) r v = None) \<and>
     gVMPhycalMemoryTotalMemorySize t = gVMPhycalMemoryTotalMemorySize s)"
proof -
  let ?p = "Min (free_frames s)"
  from AllocatePage_takes_least [OF pmm] obtain bm where
    alloc: "VMPhysicalMemoryAllocatePage s = Inr (r, s\<lparr>gVMPhycalMemoryBitmap := bm\<rparr>)"
    and bm: "length bm = length (gVMPhycalMemoryBitmap s)" "bitmap_free bm = free_frames s - {?p}"
    unfolding r_def by blast
  have r: "frame_aligned r" by (simp add: r_def)
  have p: "?p \<in> free_frames s" using pmm(2) by simp
  let ?t = "s\<lparr>gVMPhycalMemoryBitmap := bm, gVMKernelPML4Physical := r, gVMKernelPML4 := r, mem := MemorySet (mem s) r 0 4096\<rparr>"
  have free: "free_frames ?t = free_frames s - {?p}" using bm(2) by (simp add: free_frames_def)
  have "r \<in> used_frames ?t" using r free_frames_bound [OF pmm(1) p] using free by (simp add: used_frames_def r_def)
  then have "tables_ok (mem ?t) r (used_frames ?t)" unfolding tables_ok_def using empty_root(1) [OF r] r by auto
  moreover have "pmm_inv ?t" using pmm(1) bm(1) free by (auto simp: pmm_inv_def)
  ultimately have "vmm_ready ?t r" using lock by (simp add: vmm_ready_def address_space_ok_def)
  moreover have "translate (mem ?t) r v = None" for v using empty_root(2) [OF r, of "mem s" v] by simp
  ultimately show ?thesis using alloc free
    by (intro exI [of _ "s\<lparr>gVMPhycalMemoryBitmap := bm\<rparr>"] exI [of _ bm]) (simp add: Let_def)
qed

text \<open>Where the regions of the kernel's half lie; the numbers are those of their pages.\<close>

abbreviation direct_limit :: UInt64 where
  "direct_limit \<equiv> 0x400000000000"

lemma direct_address: "i \<le> direct_limit \<Longrightarrow> unat (PHYS_TO_HHDM i) = unat i + 0xFFFF888000000 * 4096"
  by (simp add: PHYS_TO_HHDM_def word_le_nat_alt unat_word_ariths)

lemma screen_address: "i < 0x4000000 \<Longrightarrow> unat (FB_VIRT_BASE + i) = unat i + 0xFFFFFFFFFC000 * 4096"
  by (simp add: word_less_nat_alt unat_word_ariths)

lemma direct_page: "i \<le> direct_limit \<Longrightarrow> unat (PHYS_TO_HHDM i) div 4096 = unat i div 4096 + 0xFFFF888000000"
  by (simp only: direct_address div_mult_self1)

lemma screen_page: "i < 0x4000000 \<Longrightarrow> unat (FB_VIRT_BASE + i) div 4096 = unat i div 4096 + 0xFFFFFFFFFC000"
  by (simp only: screen_address div_mult_self1)

lemma aligned_apart: "frame_aligned i \<Longrightarrow> frame_aligned j \<Longrightarrow> i < j \<Longrightarrow> unat i div 4096 \<noteq> unat j div 4096"
  by (auto simp: frame_aligned_def word_less_nat_alt)

lemma upper_half_pages:
  "i \<le> direct_limit \<Longrightarrow> upper_half \<le> PHYS_TO_HHDM i" "i < 0x4000000 \<Longrightarrow> upper_half \<le> FB_VIRT_BASE + i"
  "KERNEL_VMA \<le> v \<Longrightarrow> upper_half \<le> v"
  using direct_address [of i] screen_address [of i] by (auto simp: word_le_nat_alt)

lemma direct_pages_apart:
  assumes "frame_aligned i" "frame_aligned j" "i < j" "j < direct_limit"
  shows "\<not> same_page (PHYS_TO_HHDM i) (PHYS_TO_HHDM j)"
proof -
  have "i \<le> direct_limit" "j \<le> direct_limit" using assms(3,4) by auto
  then have "same_page (PHYS_TO_HHDM i) (PHYS_TO_HHDM j) \<longleftrightarrow> unat i div 4096 = unat j div 4096"
    by (simp only: same_page_upper upper_half_pages direct_page add_right_cancel)
  then show ?thesis using aligned_apart [OF assms(1-3)] by simp
qed

lemma screen_pages_apart:
  assumes "frame_aligned i" "frame_aligned j" "i < j" "j < 0x4000000"
  shows "\<not> same_page (FB_VIRT_BASE + i) (FB_VIRT_BASE + j)"
proof -
  have "i < 0x4000000" using assms(3,4) by auto
  then have "same_page (FB_VIRT_BASE + i) (FB_VIRT_BASE + j) \<longleftrightarrow> unat i div 4096 = unat j div 4096"
    using assms(4) by (simp only: same_page_upper upper_half_pages screen_page add_right_cancel)
  then show ?thesis using aligned_apart [OF assms(1-3)] by simp
qed

lemma kernel_pages_apart:
  assumes "frame_aligned i" "frame_aligned j" "i < j" "KERNEL_VMA \<le> i"
  shows "\<not> same_page i j"
proof -
  have "upper_half \<le> i" "upper_half \<le> j" using upper_half_pages(3) assms(3,4) by (auto intro: order_trans less_imp_le)
  then show ?thesis using aligned_apart [OF assms(1-3)] by (simp add: same_page_upper)
qed

text \<open>
  What the processor finds in the kernel's address space: all of memory at \<open>HHDM_OFFSET\<close>, the kernel where it is linked
  except the page under its stack, the frame buffer at \<open>FB_VIRT_BASE\<close>, each writable and closed to user mode; and nothing in the lower half.
\<close>

definition kernel_mapped :: "UInt64 \<Rightarrow> UInt64 \<Rightarrow> UInt64 \<Rightarrow> UInt64 \<Rightarrow> BIFramebuffer \<Rightarrow> memory \<Rightarrow> UInt64 \<Rightarrow> bool" where
  "kernel_mapped max_mem kernel_start kernel_end stack_guard fb m root \<longleftrightarrow>
     (\<forall>a. a < max_mem \<longrightarrow> translate m root (PHYS_TO_HHDM a) = Some (page_start a OR kernel_flags)) \<and>
     (\<forall>v. kernel_start \<le> v \<and> v < kernel_end \<and> \<not> same_page v stack_guard \<longrightarrow>
        translate m root v = Some (KERNEL_VIRT_TO_PHYS (page_start v) OR kernel_flags)) \<and>
     (\<forall>i. i < baseSize fb \<longrightarrow> translate m root (FB_VIRT_BASE + i) = Some ((framebufferBase fb + page_start i) OR kernel_flags)) \<and>
     translate m root stack_guard = None \<and>
     (\<forall>v. unat (VMM_PML4_INDEX v) < 256 \<longrightarrow> translate m root v = None)"

lemma same_page_start [simp]: "frame_aligned v \<Longrightarrow> page_start v = v"
  by (simp add: word_unat_eq_iff page_start_nat frame_aligned_def)

lemma page_start_page: "unat (page_start v) div 4096 = unat v div 4096"
  by (simp add: page_start_nat)

lemma kernel_mapped_intro:
  assumes layout: "max_mem \<le> direct_limit" "frame_aligned kernel_start" "KERNEL_VMA \<le> kernel_start" "kernel_end \<le> FB_VIRT_BASE"
      "kernel_start \<le> stack_guard" "stack_guard < kernel_end" "baseSize fb \<le> 0x4000000"
    and empty: "\<And>v. translate m0 root v = None"
    and direct: "range_mapped (\<lambda>i. i) PHYS_TO_HHDM root 0 max_mem m0 m1"
    and kern: "range_mapped KERNEL_VIRT_TO_PHYS (\<lambda>i. i) root kernel_start kernel_end m1 m2"
    and screen: "range_mapped (\<lambda>i. framebufferBase fb + i) (\<lambda>i. FB_VIRT_BASE + i) root 0 (baseSize fb) m2 m3"
    and guard: "\<And>v. translate m4 root v = (if same_page v stack_guard then None else translate m3 root v)"
  shows "kernel_mapped max_mem kernel_start kernel_end stack_guard fb m4 root"
proof -
  have kpage: "0xFFFFFFFF80000 \<le> unat i div 4096" "unat i div 4096 < 0xFFFFFFFFFC000" "upper_half \<le> i"
    if "kernel_start \<le> i" "i < kernel_end" for i
  proof -
    have "KERNEL_VMA \<le> i" "i < FB_VIRT_BASE" using that layout(3,4) by (auto intro: order_trans less_le_trans)
    then show "0xFFFFFFFF80000 \<le> unat i div 4096" "unat i div 4096 < 0xFFFFFFFFFC000" "upper_half \<le> i"
      by (simp_all add: word_le_nat_alt word_less_nat_alt less_eq_div_iff_mult_less_eq div_less_iff_less_mult)
  qed
  have dpage: "unat (PHYS_TO_HHDM i) div 4096 < 0xFFFFFFFF80000" "upper_half \<le> PHYS_TO_HHDM i" if "i < max_mem" for i
  proof -
    have i: "i \<le> direct_limit" using that layout(1) by auto
    then have "unat i div 4096 \<le> 0x400000000" by (simp add: word_le_nat_alt div_le_mono [of "unat i" "0x400000000000" 4096, simplified])
    then show "unat (PHYS_TO_HHDM i) div 4096 < 0xFFFFFFFF80000" "upper_half \<le> PHYS_TO_HHDM i"
      using direct_page [OF i] upper_half_pages(1) [OF i] by simp_all
  qed
  have spage: "0xFFFFFFFFFC000 \<le> unat (FB_VIRT_BASE + i) div 4096" "upper_half \<le> FB_VIRT_BASE + i" if "i < baseSize fb" for i
  proof -
    have "i < 0x4000000" using that layout(7) by auto
    then show "0xFFFFFFFFFC000 \<le> unat (FB_VIRT_BASE + i) div 4096" "upper_half \<le> FB_VIRT_BASE + i"
      using screen_page upper_half_pages(2) by simp_all
  qed
  note gpage = kpage [OF layout(5,6)]
  have sp: "same_page v w \<longleftrightarrow> unat v div 4096 = unat w div 4096" if "upper_half \<le> v" "upper_half \<le> w" for v w
    by (rule same_page_upper [OF that])
  have t4: "translate m4 root v = translate m3 root v" if "\<not> same_page v stack_guard" for v using guard that by simp
  have t3: "translate m3 root v = translate m2 root v" if "\<And>i. i < baseSize fb \<Longrightarrow> \<not> same_page v (FB_VIRT_BASE + i)" for v
    using screen that unfolding range_mapped_def by blast
  have t2: "translate m2 root v = translate m1 root v" if "\<And>i. kernel_start \<le> i \<Longrightarrow> i < kernel_end \<Longrightarrow> \<not> same_page v i" for v
    using kern that unfolding range_mapped_def by blast
  have t1: "translate m1 root v = None" if "\<And>i. i < max_mem \<Longrightarrow> \<not> same_page v (PHYS_TO_HHDM i)" for v
    using direct that empty unfolding range_mapped_def by metis
  have "translate m4 root (PHYS_TO_HHDM a) = Some (page_start a OR kernel_flags)" if a: "a < max_mem" for a
  proof -
    have p: "page_start a < max_mem" using page_start_le a by (rule le_less_trans)
    have le: "a \<le> direct_limit" "page_start a \<le> direct_limit" using a p layout(1) by auto
    have "same_page (PHYS_TO_HHDM a) (PHYS_TO_HHDM (page_start a))"
      using le by (simp only: sp upper_half_pages direct_page page_start_page)
    then have "translate m1 root (PHYS_TO_HHDM a) = Some (page_start a OR kernel_flags)"
      using direct p page_start_aligned [of a] unfolding range_mapped_def by fastforce
    moreover have "\<not> same_page (PHYS_TO_HHDM a) stack_guard" using dpage [OF a] gpage by (simp add: sp)
    moreover have "\<not> same_page (PHYS_TO_HHDM a) (FB_VIRT_BASE + i)" if "i < baseSize fb" for i
      using dpage [OF a] spage [OF that] by (simp add: sp)
    moreover have "\<not> same_page (PHYS_TO_HHDM a) i" if "kernel_start \<le> i" "i < kernel_end" for i
      using dpage [OF a] kpage [OF that] by (simp add: sp)
    ultimately show ?thesis by (simp add: t4 t3 t2)
  qed
  moreover have "translate m4 root v = Some (KERNEL_VIRT_TO_PHYS (page_start v) OR kernel_flags)"
    if v: "kernel_start \<le> v" "v < kernel_end" "\<not> same_page v stack_guard" for v
  proof -
    have p: "kernel_start \<le> page_start v" "page_start v < kernel_end"
      using page_start_between [OF layout(2) v(1)] le_less_trans [OF page_start_le v(2)] by auto
    have "same_page v (page_start v)" using kpage(3) [OF v(1,2)] kpage(3) [OF p] by (simp add: sp page_start_page)
    then have "translate m2 root v = Some (KERNEL_VIRT_TO_PHYS (page_start v) OR kernel_flags)"
      using kern p page_start_aligned [of v] unfolding range_mapped_def by blast
    moreover have "\<not> same_page v (FB_VIRT_BASE + i)" if "i < baseSize fb" for i
      using kpage [OF v(1,2)] spage [OF that] by (simp add: sp)
    ultimately show ?thesis using v(3) by (simp add: t4 t3)
  qed
  moreover have "translate m4 root (FB_VIRT_BASE + i) = Some ((framebufferBase fb + page_start i) OR kernel_flags)" if i: "i < baseSize fb" for i
  proof -
    have p: "page_start i < baseSize fb" using page_start_le i by (rule le_less_trans)
    have less: "i < 0x4000000" "page_start i < 0x4000000" using i p layout(7) by auto
    have "same_page (FB_VIRT_BASE + i) (FB_VIRT_BASE + page_start i)"
      using less by (simp only: sp upper_half_pages screen_page page_start_page)
    then have "translate m3 root (FB_VIRT_BASE + i) = Some ((framebufferBase fb + page_start i) OR kernel_flags)"
      using screen p page_start_aligned [of i] unfolding range_mapped_def by fastforce
    moreover have "\<not> same_page (FB_VIRT_BASE + i) stack_guard" using spage [OF i] gpage by (simp add: sp)
    ultimately show ?thesis by (simp add: t4)
  qed
  moreover have "translate m4 root stack_guard = None" using guard by simp
  moreover have "translate m4 root v = None" if v: "unat (VMM_PML4_INDEX v) < 256" for v
  proof -
    note user = not_same_page_user [OF v]
    show ?thesis using user gpage(3) user [OF spage(2)] user [OF kpage(3)] user [OF dpage(2)] by (simp add: t4 t3 t2 t1)
  qed
  ultimately show ?thesis unfolding kernel_mapped_def by blast
qed

lemma vmm_frame_root: "vmm_frame s t \<Longrightarrow> gVMKernelPML4 t = gVMKernelPML4 s \<and> gVMKernelPML4Physical t = gVMKernelPML4Physical s"
  by (auto simp: vmm_frame_def)

lemma map_regions:
  fixes s :: "'a vmm_scheme"
  assumes layout: "max_mem \<le> direct_limit" "frame_aligned kernel_start" "KERNEL_VMA \<le> kernel_start" "kernel_end \<le> FB_VIRT_BASE"
      "kernel_start \<le> stack_guard" "stack_guard < kernel_end" "baseSize fb \<le> 0x4000000"
    and ready: "vmm_ready s root" "gVMKernelPML4 s = root" and empty: "\<And>v. translate (mem s) root v = None"
  shows "\<exists>t1 t2 t3 t. for_range 0 max_mem kVMPageSize (map_each (\<lambda>i. i) PHYS_TO_HHDM) s = Inr t1 \<and>
    for_range kernel_start kernel_end kVMPageSize (map_each KERNEL_VIRT_TO_PHYS (\<lambda>i. i)) t1 = Inr t2 \<and>
    for_range 0 (baseSize fb) kVMPageSize (map_each (\<lambda>i. framebufferBase fb + i) (\<lambda>i. FB_VIRT_BASE + i)) t2 = Inr t3 \<and>
    gVMKernelPML4 t3 = root \<and> VMVirtualMemoryUnmapPage root stack_guard t3 = Inr ((), t) \<and>
    vmm_ready t root \<and> vmm_frame s t \<and> free_frames t \<subseteq> free_frames s \<and>
    (free_frames t \<noteq> {} \<longrightarrow> kernel_mapped max_mem kernel_start kernel_end stack_guard fb (mem t) root)"
proof -
  have zero: "frame_aligned 0" by (simp add: frame_aligned_def)
  have "\<not> same_page (PHYS_TO_HHDM i) (PHYS_TO_HHDM j)" if "frame_aligned i" "frame_aligned j" "0 \<le> i" "i < j" "j < max_mem" for i j
    using direct_pages_apart [OF that(1,2,4)] less_le_trans [OF that(5) layout(1)] by blast
  then obtain t1 where t1: "for_range 0 max_mem kVMPageSize (map_each (\<lambda>i. i) PHYS_TO_HHDM) s = Inr t1" "vmm_ready t1 root" "vmm_frame s t1"
    "free_frames t1 \<subseteq> free_frames s" "free_frames t1 \<noteq> {} \<longrightarrow> range_mapped (\<lambda>i. i) PHYS_TO_HHDM root 0 max_mem (mem s) (mem t1)"
    using map_range_effect [OF ready zero, of max_mem PHYS_TO_HHDM "\<lambda>i. i"] layout(1) by (auto simp: word_le_nat_alt)
  have "\<not> same_page i j" if "frame_aligned i" "frame_aligned j" "kernel_start \<le> i" "i < j" "j < kernel_end" for i j
    using kernel_pages_apart [OF that(1,2,4)] order_trans [OF layout(3) that(3)] by blast
  moreover have "gVMKernelPML4 t1 = root" using vmm_frame_root [OF t1(3)] ready(2) by simp
  ultimately obtain t2 where t2: "for_range kernel_start kernel_end kVMPageSize (map_each KERNEL_VIRT_TO_PHYS (\<lambda>i. i)) t1 = Inr t2"
    "vmm_ready t2 root" "vmm_frame t1 t2" "free_frames t2 \<subseteq> free_frames t1"
    "free_frames t2 \<noteq> {} \<longrightarrow> range_mapped KERNEL_VIRT_TO_PHYS (\<lambda>i. i) root kernel_start kernel_end (mem t1) (mem t2)"
    using map_range_effect [OF t1(2) _ layout(2), of kernel_end "\<lambda>i. i" KERNEL_VIRT_TO_PHYS] layout(4) by (auto simp: word_le_nat_alt)
  have "\<not> same_page (FB_VIRT_BASE + i) (FB_VIRT_BASE + j)" if "frame_aligned i" "frame_aligned j" "0 \<le> i" "i < j" "j < baseSize fb" for i j
    using screen_pages_apart [OF that(1,2,4)] less_le_trans [OF that(5) layout(7)] by blast
  moreover have "gVMKernelPML4 t2 = root" using vmm_frame_root [OF t2(3)] vmm_frame_root [OF t1(3)] ready(2) by simp
  ultimately obtain t3 where t3: "for_range 0 (baseSize fb) kVMPageSize (map_each (\<lambda>i. framebufferBase fb + i) (\<lambda>i. FB_VIRT_BASE + i)) t2 = Inr t3"
    "vmm_ready t3 root" "vmm_frame t2 t3" "free_frames t3 \<subseteq> free_frames t2"
    "free_frames t3 \<noteq> {} \<longrightarrow> range_mapped (\<lambda>i. framebufferBase fb + i) (\<lambda>i. FB_VIRT_BASE + i) root 0 (baseSize fb) (mem t2) (mem t3)"
    using map_range_effect [OF t2(2) _ zero, of "baseSize fb" "\<lambda>i. FB_VIRT_BASE + i" "\<lambda>i. framebufferBase fb + i"] layout(7)
    by (auto simp: word_le_nat_alt)
  obtain t where t: "VMVirtualMemoryUnmapPage root stack_guard t3 = Inr ((), t)" "vmm_ready t root" "vmm_frame t3 t"
    "free_frames t = free_frames t3" "\<forall>v. translate (mem t) root v = (if same_page v stack_guard then None else translate (mem t3) root v)"
    using UnmapPage_effect [OF t3(2)] by blast
  have "kernel_mapped max_mem kernel_start kernel_end stack_guard fb (mem t) root" if "free_frames t \<noteq> {}"
    using that t1(5) t2(4,5) t3(4,5) t(4,5)
    by (intro kernel_mapped_intro [OF layout empty, of "mem t1" "mem t2" "mem t3"]) auto
  moreover have "vmm_frame s t" using vmm_frame_trans t1(3) t2(3) t3(3) t(3) by blast
  moreover have "gVMKernelPML4 t3 = root" using vmm_frame_root t1(3) t2(3) t3(3) ready(2) by metis
  moreover have "free_frames t \<subseteq> free_frames s" using t1(4) t2(4) t3(4) t(4) by blast
  ultimately show ?thesis using t1(1) t2(1) t3(1) t(1,2) by blast
qed

text \<open>What setting up paging changes, and what the processor then finds.\<close>

definition paging_frame :: "'a vmm_scheme \<Rightarrow> 'a vmm_scheme \<Rightarrow> bool" where
  "paging_frame s t \<longleftrightarrow> (\<exists>b m i a r. t = s\<lparr>gVMKernelPML4Physical := r, gVMKernelPML4 := r, gVMPhycalMemoryBitmap := b, mem := m,
     invalidated := i, gVMPhycalMemoryBitmapAddress := a, cr3 := r, isInitialized := True\<rparr>)"

lemma VMInitialize_effect:
  fixes s :: "'a vmm_scheme"
  assumes pmm: "pmm_inv s" "free_frames s \<noteq> {}" and lock: "lock_free (sVMVMMlock s)"
    and layout: "gVMPhycalMemoryTotalMemorySize s \<le> direct_limit" "frame_aligned kernel_start" "KERNEL_VMA \<le> kernel_start"
      "kernel_end \<le> FB_VIRT_BASE" "kernel_start \<le> stack_guard" "stack_guard < kernel_end" "baseSize fb \<le> 0x4000000"
  shows "\<exists>t. VMVirtualMemoryInitialize kernel_start kernel_end stack_guard fb s = Inr (fb\<lparr>framebufferBase := FB_VIRT_BASE\<rparr>, t) \<and>
    paging_frame s t \<and>
    isInitialized t \<and> vmm_ready t (cr3 t) \<and> gVMKernelPML4 t = cr3 t \<and> gVMKernelPML4Physical t = cr3 t \<and>
    (free_frames t \<noteq> {} \<longrightarrow>
      kernel_mapped (gVMPhycalMemoryTotalMemorySize s) kernel_start kernel_end stack_guard fb (mem t) (cr3 t))"
proof -
  let ?r = "frame_address (Min (free_frames s))"
  obtain u bm where bm: "u = s\<lparr>gVMPhycalMemoryBitmap := bm\<rparr>" and u: "VMPhysicalMemoryAllocatePage s = Inr (?r, u)"
    and u': "let t = u\<lparr>gVMKernelPML4Physical := ?r, gVMKernelPML4 := ?r, mem := MemorySet (mem u) ?r 0 kVMPageSize\<rparr> in
     vmm_ready t ?r \<and> free_frames t \<subseteq> free_frames s \<and> (\<forall>v. translate (mem t) ?r v = None) \<and>
     gVMPhycalMemoryTotalMemorySize t = gVMPhycalMemoryTotalMemorySize s"
    using new_kernel_root [OF pmm lock] by blast
  let ?s = "u\<lparr>gVMKernelPML4Physical := ?r, gVMKernelPML4 := ?r, mem := MemorySet (mem u) ?r 0 kVMPageSize\<rparr>"
  have s: "vmm_ready ?s ?r" "\<And>v. translate (mem ?s) ?r v = None" "gVMPhycalMemoryTotalMemorySize ?s = gVMPhycalMemoryTotalMemorySize s"
    "gVMKernelPML4 ?s = ?r" "gVMKernelPML4Physical ?s = ?r" using u' by (simp_all add: Let_def)
  obtain t1 t2 t3 t where t: "for_range 0 (gVMPhycalMemoryTotalMemorySize s) kVMPageSize (map_each (\<lambda>i. i) PHYS_TO_HHDM) ?s = Inr t1"
    "for_range kernel_start kernel_end kVMPageSize (map_each KERNEL_VIRT_TO_PHYS (\<lambda>i. i)) t1 = Inr t2"
    "for_range 0 (baseSize fb) kVMPageSize (map_each (\<lambda>i. framebufferBase fb + i) (\<lambda>i. FB_VIRT_BASE + i)) t2 = Inr t3"
    "gVMKernelPML4 t3 = ?r" "VMVirtualMemoryUnmapPage ?r stack_guard t3 = Inr ((), t)" "vmm_ready t ?r" "vmm_frame ?s t"
    "free_frames t \<noteq> {} \<longrightarrow> kernel_mapped (gVMPhycalMemoryTotalMemorySize s) kernel_start kernel_end stack_guard fb (mem t) ?r"
    using map_regions [OF layout s(1,4,2)] by blast
  have root: "gVMKernelPML4 t = ?r" "gVMKernelPML4Physical t = ?r" using vmm_frame_root [OF t(7)] s(4,5) by simp_all
  let ?t = "(VMLoadCR3 ?r (t\<lparr>gVMPhycalMemoryBitmapAddress := PHYS_TO_HHDM (gVMPhycalMemoryBitmapAddress t)\<rparr>))\<lparr>isInitialized := True\<rparr>"
  have "VMVirtualMemoryInitialize kernel_start kernel_end stack_guard fb s = Inr (fb\<lparr>framebufferBase := FB_VIRT_BASE\<rparr>, ?t)"
    using t(1) s(3)
    by (simp add: VMVirtualMemoryInitialize_def u VMPhysicalMemoryGetTotalMemorySize_def t(2-5) root Let_def)
  moreover have "vmm_ready ?t (cr3 ?t)" "free_frames ?t = free_frames t"
    using t(6) by (simp_all add: vmm_ready_def address_space_ok_def pmm_inv_def used_frames_def free_frames_def VMLoadCR3_def)
  moreover have "paging_frame s ?t"
  proof -
    from t(7) obtain b m i where f: "t = ?s\<lparr>gVMPhycalMemoryBitmap := b, mem := m, invalidated := i\<rparr>" by (auto simp: vmm_frame_def)
    show ?thesis unfolding paging_frame_def
      by (rule exI [of _ b], rule exI [of _ m], rule exI [of _ i],
        rule exI [of _ "PHYS_TO_HHDM (gVMPhycalMemoryBitmapAddress s)"], rule exI [of _ ?r]) (simp add: f bm VMLoadCR3_def)
  qed
  ultimately show ?thesis using t(8) root by (intro exI [of _ ?t]) (simp add: VMLoadCR3_def)
qed



end
