(* ===== verification/SchedulerStart.thy ===== *)
theory SchedulerStart
  imports Scheduler
begin

text \<open>
  How the scheduler starts, \<^verbatim>\<open>OSSchedulerInitialize\<close> of \<^verbatim>\<open>kernel/src/OS/OSScheduler.c\<close> (the operation itself is in
  Scheduler): the heap of a kernel that has just started is one free block, so the addresses of the first
  tasks and stacks are known, and three tasks run in a ring.
\<close>

unbundle bit_operations_syntax

lemma registers_at_cong:
  assumes "\<And>k. k < 176 \<Longrightarrow> m (a + of_nat k) = m' (a + of_nat k)"
  shows "registers_at m a = registers_at m' a"
proof -
  have "load64 m (a + of_nat n) = load64 m' (a + of_nat n)" if "n \<le> 168" for n
  proof (rule load64_cong)
    fix i :: nat assume "i < 8"
    then show "m (a + of_nat n + of_nat i) = m' (a + of_nat n + of_nat i)" using assms [of "n + i"] that by (simp add: add.assoc)
  qed
  from this [of 0] this [of 8] this [of 16] this [of 24] this [of 32] this [of 40] this [of 48] this [of 56] this [of 64] this [of 72]
    this [of 80] this [of 88] this [of 96] this [of 104] this [of 112] this [of 120] this [of 128] this [of 136] this [of 144]
    this [of 152] this [of 160] this [of 168]
  show ?thesis unfolding registers_at_def by simp
qed

text \<open>The heap of a kernel that has just started, as the scheduler carves its tasks and stacks out of it.\<close>

abbreviation task_block :: "UInt64 \<Rightarrow> block" where
  "task_block a \<equiv> Block a 64 False"

abbreviation stack_block :: "UInt64 \<Rightarrow> block" where
  "stack_block a \<equiv> Block a 16384 False"

abbreviation startup_blocks :: "block list" where
  "startup_blocks \<equiv> [task_block 0xFFFFFFFFC0000000, task_block 0xFFFFFFFFC0000068, stack_block 0xFFFFFFFFC00000D0,
     task_block 0xFFFFFFFFC00040F8, stack_block 0xFFFFFFFFC0004160, Block 0xFFFFFFFFC0008188 0x3F7E50 True]"

abbreviation kernel_task_address :: UInt64 where
  "kernel_task_address \<equiv> 0xFFFFFFFFC0000028"

abbreviation idle_task_address :: UInt64 where
  "idle_task_address \<equiv> 0xFFFFFFFFC0000090"

abbreviation collector_task_address :: UInt64 where
  "collector_task_address \<equiv> 0xFFFFFFFFC0004120"

lemma startup_task:
  fixes s :: "'a scheduler_scheme"
  assumes heap: "heap_inv s bs" and lock: "lock_free (sOSSchedulerLock s)" and c: "gOSSchedulerCurrentTask s = kernel_task_address"
    and blocks: "alloc_blocks 64 bs = Some (task - 40, bs1)" "alloc_blocks 16384 bs1 = Some (stack - 40, bs2)"
    and ne: "task \<noteq> 0" "stack \<noteq> 0" "task \<noteq> kernel_task_address"
  shows "\<exists>st m. OSSchedulerSpawn interrupt32 entry owner False 0 s = Inr (task, s\<lparr>heapHeaders := st, heapBytes := m,
       tasks := (tasks s)(task := spawned task stack owner s, kernel_task_address := (tasks s kernel_task_address)\<lparr>nextTask := task\<rparr>)\<rparr>) \<and>
    heap_inv (s\<lparr>heapHeaders := st\<rparr>) bs2 \<and>
    registers_at m (stack + 16384 - 176) = frame_registers entry False 0 (stack + 16384) \<and>
    (\<forall>x. \<not> x - stack < 16384 \<longrightarrow> m x = heapBytes s x)"
proof -
  have a: "align16 64 = 64" "align16 16384 = 16384" by simp_all
  from Allocate_effect [OF heap, of 64] blocks(1) obtain st1 where
    s1: "VMHeapAllocate 64 s = Inr (task, s\<lparr>heapHeaders := st1\<rparr>)" "heap_inv (s\<lparr>heapHeaders := st1\<rparr>) bs1" by auto
  from Allocate_effect [OF s1(2), of 16384] blocks(2) obtain st2 where
    s2: "VMHeapAllocate 16384 (s\<lparr>heapHeaders := st1\<rparr>) = Inr (stack, s\<lparr>heapHeaders := st1\<rparr>\<lparr>heapHeaders := st2\<rparr>)"
      "heap_inv (s\<lparr>heapHeaders := st1\<rparr>\<lparr>heapHeaders := st2\<rparr>) bs2" by auto
  have ne': "task \<noteq> gOSSchedulerCurrentTask s" using ne(3) c by simp
  from Spawn_state [OF heap lock s1(1) ne(1) ne' s2(1) ne(2) refl refl, of interrupt32 entry owner False 0] s2(2) c show ?thesis
    by (intro exI [of _ st2]) auto
qed

text \<open>What starting the scheduler changes.\<close>

definition start_frame :: "'a scheduler_scheme \<Rightarrow> 'a scheduler_scheme \<Rightarrow> bool" where
  "start_frame s t \<longleftrightarrow> (\<exists>p st m T. t = s\<lparr>processes := p, heapHeaders := st, heapBytes := m, tasks := T,
       gOSSchedulerCurrentTask := kernel_task_address, sOSSchedulerGarbageCollectorTask := collector_task_address\<rparr>)"

lemma Initialize_effect:
  fixes s :: "'a scheduler_scheme"
  assumes heap: "heap_inv s [initial_block]" and lock: "lock_free (sOSSchedulerLock s)"
    and name: "6 < length (processName (processes s (kernelSymbol s SymKernelProcess)))"
  shows "\<exists>t. OSSchedulerInitialize interrupt32 s = Inr t \<and> heap_inv t startup_blocks \<and>
    gOSSchedulerCurrentTask t = kernel_task_address \<and> sOSSchedulerGarbageCollectorTask t = collector_task_address \<and>
    sched_inv t [collector_task_address, idle_task_address] \<and>
    (\<forall>a \<in> {kernel_task_address, idle_task_address, collector_task_address}. taskState (tasks t a) = kOSProcessStateRunning \<and>
       sleepTicks (tasks t a) = 0 \<and> taskId (tasks t a) = 0 \<and> taskProcess (tasks t a) = kernelSymbol s SymKernelProcess) \<and>
    registers_at (heapBytes t) (stackPointer (tasks t idle_task_address)) =
      frame_registers (kernelSymbol s SymIdleTask) False 0 0xFFFFFFFFC00040F8 \<and>
    registers_at (heapBytes t) (stackPointer (tasks t collector_task_address)) =
      frame_registers (kernelSymbol s SymGarbageCollector) False 0 0xFFFFFFFFC0008188 \<and>
    physicalPML4 (processes t (kernelSymbol s SymKernelProcess)) = gVMKernelPML4Physical s \<and>
    processId (processes t (kernelSymbol s SymKernelProcess)) = 0 \<and>
    c_string (processName (processes t (kernelSymbol s SymKernelProcess))) (bytes ''kernel'') \<and>
    start_frame s t"
proof -
  let ?kp = "kernelSymbol s SymKernelProcess"
  have lit: "c_string (literal ''kernel'') (bytes ''kernel'')" unfolding literal_def by (rule c_string_buffer) (simp add: bytes_def)
  have len: "length (bytes ''kernel'') = 6" by (simp add: bytes_def)
  let ?name = "bytes ''kernel'' @ 0 # drop 7 (processName (processes s ?kp))"
  have copy: "StringCopy (processName (processes s ?kp)) (literal ''kernel'') = Inr ?name"
    using StringCopy_effect [OF lit, of "processName (processes s ?kp)"] name len by (simp add: numeral_eq_Suc)
  let ?P = "(processes s)(?kp := (processes s ?kp)\<lparr>processId := 0, processState := kOSProcessStateRunning,
      physicalPML4 := gVMKernelPML4Physical s, processName := ?name\<rparr>)"
  let ?s0 = "s\<lparr>processes := ?P\<rparr>"
  have "heap_inv ?s0 [initial_block]" using heap by (simp add: heap_inv_def heap_blocks_def)
  from Allocate_effect [OF this, of 64] obtain st where
    k: "VMHeapAllocate 64 ?s0 = Inr (kernel_task_address, ?s0\<lparr>heapHeaders := st\<rparr>)"
      "heap_inv (?s0\<lparr>heapHeaders := st\<rparr>) [task_block 0xFFFFFFFFC0000000, Block 0xFFFFFFFFC0000068 0x3FFF70 True]"
    by (auto simp: take_block_def)
  let ?K = "zero_task\<lparr>taskId := 0, taskProcess := ?kp, sleepTicks := 0, nextTask := kernel_task_address,
      taskState := kOSProcessStateRunning, waitingForProcess := - 1\<rparr>"
  define s1 where "s1 = ?s0\<lparr>heapHeaders := st, tasks := (tasks s)(kernel_task_address := ?K), gOSSchedulerCurrentTask := kernel_task_address\<rparr>"
  have h1: "heap_inv s1 [task_block 0xFFFFFFFFC0000000, Block 0xFFFFFFFFC0000068 0x3FFF70 True]" "lock_free (sOSSchedulerLock s1)"
    "gOSSchedulerCurrentTask s1 = kernel_task_address"
    using k(2) lock by (simp_all add: heap_inv_def heap_blocks_def s1_def)
  have b1: "alloc_blocks 64 [task_block 0xFFFFFFFFC0000000, Block 0xFFFFFFFFC0000068 0x3FFF70 True] =
      Some (idle_task_address - 40, [task_block 0xFFFFFFFFC0000000, task_block 0xFFFFFFFFC0000068, Block 0xFFFFFFFFC00000D0 0x3FFF08 True])"
    "alloc_blocks 16384 [task_block 0xFFFFFFFFC0000000, task_block 0xFFFFFFFFC0000068, Block 0xFFFFFFFFC00000D0 0x3FFF08 True] =
      Some (0xFFFFFFFFC00000F8 - 40, [task_block 0xFFFFFFFFC0000000, task_block 0xFFFFFFFFC0000068, stack_block 0xFFFFFFFFC00000D0,
        Block 0xFFFFFFFFC00040F8 0x3FBEE0 True])"
    by (simp_all add: take_block_def)
  from startup_task [OF h1 b1, of interrupt32 "kernelSymbol s SymIdleTask" ?kp] obtain st2 m2 where
    i: "OSSchedulerSpawn interrupt32 (kernelSymbol s SymIdleTask) ?kp False 0 s1 = Inr (idle_task_address, s1\<lparr>heapHeaders := st2, heapBytes := m2,
       tasks := (tasks s1)(idle_task_address := spawned idle_task_address 0xFFFFFFFFC00000F8 ?kp s1,
         kernel_task_address := (tasks s1 kernel_task_address)\<lparr>nextTask := idle_task_address\<rparr>)\<rparr>)"
      "heap_inv (s1\<lparr>heapHeaders := st2\<rparr>) [task_block 0xFFFFFFFFC0000000, task_block 0xFFFFFFFFC0000068, stack_block 0xFFFFFFFFC00000D0,
        Block 0xFFFFFFFFC00040F8 0x3FBEE0 True]"
      "registers_at m2 0xFFFFFFFFC0004048 = frame_registers (kernelSymbol s SymIdleTask) False 0 0xFFFFFFFFC00040F8" by auto
  define s2 where "s2 = s1\<lparr>heapHeaders := st2, heapBytes := m2,
       tasks := (tasks s1)(idle_task_address := spawned idle_task_address 0xFFFFFFFFC00000F8 ?kp s1,
         kernel_task_address := (tasks s1 kernel_task_address)\<lparr>nextTask := idle_task_address\<rparr>)\<rparr>"
  have h2: "heap_inv s2 [task_block 0xFFFFFFFFC0000000, task_block 0xFFFFFFFFC0000068, stack_block 0xFFFFFFFFC00000D0,
        Block 0xFFFFFFFFC00040F8 0x3FBEE0 True]" "lock_free (sOSSchedulerLock s2)" "gOSSchedulerCurrentTask s2 = kernel_task_address"
    using i(2) h1(2,3) by (simp_all add: heap_inv_def heap_blocks_def s2_def)
  have b2: "alloc_blocks 64 [task_block 0xFFFFFFFFC0000000, task_block 0xFFFFFFFFC0000068, stack_block 0xFFFFFFFFC00000D0,
        Block 0xFFFFFFFFC00040F8 0x3FBEE0 True] =
      Some (collector_task_address - 40, [task_block 0xFFFFFFFFC0000000, task_block 0xFFFFFFFFC0000068, stack_block 0xFFFFFFFFC00000D0,
        task_block 0xFFFFFFFFC00040F8, Block 0xFFFFFFFFC0004160 0x3FBE78 True])"
    "alloc_blocks 16384 [task_block 0xFFFFFFFFC0000000, task_block 0xFFFFFFFFC0000068, stack_block 0xFFFFFFFFC00000D0,
        task_block 0xFFFFFFFFC00040F8, Block 0xFFFFFFFFC0004160 0x3FBE78 True] = Some (0xFFFFFFFFC0004188 - 40, startup_blocks)"
    by (simp_all add: take_block_def)
  from startup_task [OF h2 b2, of interrupt32 "kernelSymbol s SymGarbageCollector" ?kp] obtain st3 m3 where
    g: "OSSchedulerSpawn interrupt32 (kernelSymbol s SymGarbageCollector) ?kp False 0 s2 = Inr (collector_task_address, s2\<lparr>heapHeaders := st3, heapBytes := m3,
       tasks := (tasks s2)(collector_task_address := spawned collector_task_address 0xFFFFFFFFC0004188 ?kp s2,
         kernel_task_address := (tasks s2 kernel_task_address)\<lparr>nextTask := collector_task_address\<rparr>)\<rparr>)"
      "heap_inv (s2\<lparr>heapHeaders := st3\<rparr>) startup_blocks"
      "registers_at m3 0xFFFFFFFFC00080D8 = frame_registers (kernelSymbol s SymGarbageCollector) False 0 0xFFFFFFFFC0008188"
      "\<forall>x. \<not> x - 0xFFFFFFFFC0004188 < 16384 \<longrightarrow> m3 x = heapBytes s2 x" by auto
  let ?T = "(tasks s2)(collector_task_address := spawned collector_task_address 0xFFFFFFFFC0004188 ?kp s2,
         kernel_task_address := (tasks s2 kernel_task_address)\<lparr>nextTask := collector_task_address\<rparr>)"
  let ?t = "s2\<lparr>heapHeaders := st3, heapBytes := m3, tasks := ?T, sOSSchedulerGarbageCollectorTask := collector_task_address\<rparr>"
  have sym: "kernelSymbol s1 = kernelSymbol s" "kernelSymbol s2 = kernelSymbol s" "processes s1 = ?P" "processes s2 = ?P"
    by (simp_all add: s1_def s2_def)
  have run: "OSSchedulerInitialize interrupt32 s = Inr ?t"
    unfolding OSSchedulerInitialize_def Let_def copy bindE_Inr k(1) prod.case
    using i(1) g(1) sym by (simp add: s1_def [symmetric] s2_def [symmetric])
  have m3: "registers_at m3 0xFFFFFFFFC0004048 = registers_at m2 0xFFFFFFFFC0004048"
  proof (rule registers_at_cong)
    fix n :: nat assume n: "n < 176"
    have "unat (of_nat n - 320 :: UInt64) = n + 2 ^ 64 - 320"
      using n by (simp add: unat_sub_if' unsigned_of_nat take_bit_nat_eq_self)
    then have "\<not> of_nat n - 320 < (16384 :: UInt64)" unfolding word_less_nat_alt by simp
    then have "\<not> (0xFFFFFFFFC0004048 + of_nat n) - 0xFFFFFFFFC0004188 < (16384 :: UInt64)" by simp
    then show "m3 (0xFFFFFFFFC0004048 + of_nat n) = m2 (0xFFFFFFFFC0004048 + of_nat n)" using g(4) by (simp add: s2_def)
  qed
  have T: "?T kernel_task_address = ?K\<lparr>nextTask := collector_task_address\<rparr>"
    "?T idle_task_address = spawned idle_task_address 0xFFFFFFFFC00000F8 ?kp s1"
    "?T collector_task_address = spawned collector_task_address 0xFFFFFFFFC0004188 ?kp s2"
    by (simp_all add: s2_def s1_def)
  have links: "nextTask (?T idle_task_address) = kernel_task_address" "nextTask (?T collector_task_address) = idle_task_address"
    "nextTask (?T kernel_task_address) = collector_task_address"
    unfolding T unfolding spawned_def Let_def by (simp_all add: h1(3) h2(3)) (simp_all add: s1_def s2_def)
  have owner: "(if ?kp = 0 then kernelSymbol s1 SymKernelProcess else ?kp) = ?kp" "(if ?kp = 0 then kernelSymbol s2 SymKernelProcess else ?kp) = ?kp"
    by (simp_all add: sym)
  define started where "started = (\<lambda>task :: OSTask. taskState task = kOSProcessStateRunning \<and> sleepTicks task = 0 \<and> taskId task = 0 \<and> taskProcess task = ?kp)"
  have "started (?T kernel_task_address)" unfolding T(1) started_def by simp
  moreover have "started (?T idle_task_address)" unfolding T(2) unfolding spawned_def Let_def owner by (simp add: started_def sym)
  moreover have "started (?T collector_task_address)" unfolding T(3) unfolding spawned_def Let_def owner by (simp add: started_def sym)
  ultimately have fresh: "\<forall>a \<in> {kernel_task_address, idle_task_address, collector_task_address}. started (?T a)"
    by (simp only: ball_simps simp_thms)
  have stacks: "stackPointer (?T idle_task_address) = 0xFFFFFFFFC0004048" "stackPointer (?T collector_task_address) = 0xFFFFFFFFC00080D8"
    unfolding T(2,3) unfolding spawned_def Let_def by simp_all
  have lock2: "lock_free (sOSSchedulerLock s2)" by (rule h2(2))
  have "ring ?T kernel_task_address [collector_task_address, idle_task_address]"
    unfolding ring_def by (simp add: links del: fun_upd_apply)
  then have "sched_inv ?t [collector_task_address, idle_task_address]" using lock2 h2(3) by (simp add: sched_inv_def del: fun_upd_apply)
  moreover have "heap_inv ?t startup_blocks" using g(2) by (simp add: heap_inv_def heap_blocks_def)
  moreover have "processes ?t = ?P" by (simp add: sym)
  moreover have "gOSSchedulerCurrentTask ?t = kernel_task_address" using h2(3) by simp
  moreover have "c_string ?name (bytes ''kernel'')" by (rule c_string_buffer) (simp add: bytes_def)
  moreover have "start_frame s ?t" unfolding start_frame_def
    by (rule exI [of _ ?P], rule exI [of _ st3], rule exI [of _ m3], rule exI [of _ ?T]) (simp add: s2_def s1_def)
  ultimately show ?thesis using run fresh [unfolded started_def] stacks g(3) i(3) m3 by (intro exI [of _ ?t]) (simp del: fun_upd_apply add: fun_upd_same)
qed

end
