(* ===== verification/Bringup.thy ===== *)
theory Bringup
  imports Boot KernelSpace SchedulerStart
begin

text \<open>
  The start of the kernel across the components it brings up, \<open>kmain\<close> of \<open>Boot\<close>: the processor, then the free frames, paging,
  the timer, the heap, the scheduler and system calls. Each stage leaves alone what the next one needs, and the heap's
  pages lie outside the kernel's other pages.
\<close>

unbundle bit_operations_syntax

section \<open>What each step leaves alone\<close>

lemma PMM_frame:
  assumes "VMPhysicalMemoryInitialize kernel_start kernel_end memoryMap s = Inr t"
  shows "\<exists>a b c d. t = s\<lparr>gVMPhycalMemoryTotalMemorySize := a, gVMPhycalMemoryBitmapAddress := b, gVMPhycalMemoryBitmapSize := c,
    gVMPhycalMemoryBitmap := d\<rparr>"
  using assms unfolding VMPhysicalMemoryInitialize_def Let_def
  by (clarsimp simp: bindE_eq_Inr split: option.splits) ((rule exI)+, rule refl)

text \<open>The pages of the heap, and every other page.\<close>

definition in_heap_pages :: "UInt64 \<Rightarrow> bool" where
  "in_heap_pages v \<longleftrightarrow> (\<exists>j < 1024. same_page v (kVMKernelHeapStart + j * kVMPageSize))"

lemma heap_page_other:
  fixes s :: "'a heap_scheme"
  assumes ready: "vmm_ready s root" "gVMKernelPML4 s = root" and i: "i < 1024" and run: "heap_page i s = Inr t"
  shows "vmm_frame s t \<and> vmm_ready t root \<and> free_frames t \<subseteq> free_frames s \<and>
    (free_frames t \<noteq> {} \<longrightarrow> (\<forall>v. \<not> in_heap_pages v \<longrightarrow> translate (mem t) root v = translate (mem s) root v))"
proof (cases "free_frames s = {}")
  case True
  have "pmm_inv s" using ready by (simp add: vmm_ready_def address_space_ok_def)
  with True run show ?thesis by (simp add: AllocatePage_exhausted)
next
  case False
  let ?v = "kVMKernelHeapStart + i * kVMPageSize"
  from alloc_ready [OF ready(1) False] obtain p bm where p: "frame_address p \<noteq> 0"
    and alloc: "VMPhysicalMemoryAllocatePage s = Inr (frame_address p, s\<lparr>gVMPhycalMemoryBitmap := bm\<rparr>)"
    and u: "vmm_ready (s\<lparr>gVMPhycalMemoryBitmap := bm\<rparr>) root" "free_frames (s\<lparr>gVMPhycalMemoryBitmap := bm\<rparr>) \<subset> free_frames s" by blast
  let ?u = "s\<lparr>gVMPhycalMemoryBitmap := bm\<rparr>"
  from MapPage_effect [OF u(1) present_kernel [of "frame_address p"], of ?v] obtain r t' where
    map: "VMVirtualMemoryMapPage root (frame_address p) ?v 3 ?u = Inr (r, t')"
    and t: "vmm_ready t' root" "vmm_frame ?u t'" "free_frames t' \<subseteq> free_frames ?u"
    and tr: "r = 0 \<and> free_frames t' = {} \<and> (\<forall>v. translate (mem t') root v = translate (mem ?u) root v) \<or>
     r = ?v \<and> (\<forall>v. translate (mem t') root v = (if same_page v ?v then Some (frame_address p OR 3) else translate (mem ?u) root v))"
    by auto
  have "t' = t" using run alloc p map ready(2) by simp
  moreover have "vmm_frame s ?u"
    unfolding vmm_frame_def by (intro exI [of _ bm] exI [of _ "mem s"] exI [of _ "invalidated s"]) simp
  moreover have "\<not> same_page v ?v" if "\<not> in_heap_pages v" for v using that i by (auto simp: in_heap_pages_def)
  ultimately show ?thesis using t tr u(2) vmm_frame_trans [of s ?u t'] by auto
qed

lemma HeapInitialize_other:
  fixes s :: "'a heap_scheme"
  assumes ready: "vmm_ready s root" "gVMKernelPML4 s = root" and run: "VMHeapInitialize s = Inr t"
  shows "\<exists>u h st. vmm_frame s u \<and> t = u\<lparr>sVMHeapListHead := h, heapHeaders := st\<rparr> \<and> free_frames t \<subseteq> free_frames s \<and>
    (free_frames t \<noteq> {} \<longrightarrow> (\<forall>v. \<not> in_heap_pages v \<longrightarrow> translate (mem t) root v = translate (mem s) root v))"
proof -
  define I where "I = (\<lambda>(i :: UInt64) t. vmm_frame s t \<and> vmm_ready t root \<and> free_frames t \<subseteq> free_frames s \<and>
    (free_frames t \<noteq> {} \<longrightarrow> (\<forall>v. \<not> in_heap_pages v \<longrightarrow> translate (mem t) root v = translate (mem s) root v)))"
  have "I 0 s" using ready by (simp add: I_def vmm_frame_refl)
  moreover have "case heap_page i t of Inl e \<Rightarrow> True | Inr u \<Rightarrow> I (i + 1) u" if "i < 1024" "I i t" for i and t :: "'a heap_scheme"
  proof (cases "heap_page i t")
    case (Inr u)
    have t: "vmm_frame s t" "vmm_ready t root" "free_frames t \<subseteq> free_frames s"
      "free_frames t \<noteq> {} \<longrightarrow> (\<forall>v. \<not> in_heap_pages v \<longrightarrow> translate (mem t) root v = translate (mem s) root v)" using that(2) by (simp_all add: I_def)
    have "gVMKernelPML4 t = root" using vmm_frameD [OF t(1)] ready(2) by simp
    from heap_page_other [OF t(2) this that(1) Inr] t vmm_frame_trans [OF t(1)] Inr show ?thesis by (auto simp: I_def)
  qed simp
  ultimately have "case for_range 0 1024 1 heap_page s of Inl e \<Rightarrow> True | Inr t \<Rightarrow> \<exists>i. I i t \<and> 1024 \<le> i"
    by (intro for_range_rule [where I = I]) simp_all
  moreover obtain u where u: "for_range 0 1024 1 heap_page s = Inr u"
    "t = u\<lparr>sVMHeapListHead := kVMKernelHeapStart, heapHeaders := (heapHeaders u)(kVMKernelHeapStart :=
                     \<lparr>blockMagic = kVMHeapBlockHeaderMagic, nextBlock = 0, previousBlock = 0,
                      blockSize = kVMHeapSizePages * kVMPageSize - sizeof_VMHeapBlockHeader, isFree = True\<rparr>)\<rparr>"
    using run by (auto simp: VMHeapInitialize_def bindE_eq_Inr)
  ultimately obtain i where "I i u" by auto
  then show ?thesis using u(2) unfolding I_def by (intro exI [of _ u]) (auto simp: free_frames_def)
qed

text \<open>So the heap does not disturb the kernel's address space.\<close>

lemma heap_page_number:
  assumes "j < 1024"
  shows "upper_half \<le> kVMKernelHeapStart + j * kVMPageSize" "unat (kVMKernelHeapStart + j * kVMPageSize) div 4096 = 0xFFFFFFFFC0000 + unat j"
proof -
  have "unat (kVMKernelHeapStart + j * kVMPageSize) = 0xFFFFFFFFC0000 * 4096 + 4096 * unat j"
    using assms by (simp add: unat_word_ariths word_less_nat_alt)
  then show "upper_half \<le> kVMKernelHeapStart + j * kVMPageSize" "unat (kVMKernelHeapStart + j * kVMPageSize) div 4096 = 0xFFFFFFFFC0000 + unat j"
    by (simp_all add: word_le_nat_alt)
qed

lemma not_in_heap_pages:
  assumes "upper_half \<le> v" "unat v div 4096 < 0xFFFFFFFFC0000 \<or> 0xFFFFFFFFC0400 \<le> unat v div 4096"
  shows "\<not> in_heap_pages v"
proof
  assume "in_heap_pages v"
  then obtain j where j: "j < 1024" "same_page v (kVMKernelHeapStart + j * kVMPageSize)" by (auto simp: in_heap_pages_def)
  then have "unat v div 4096 = 0xFFFFFFFFC0000 + unat j" using same_page_upper [OF assms(1) heap_page_number(1)] heap_page_number(2) by simp
  then show False using assms(2) j(1) by (simp add: word_less_nat_alt)
qed

lemma kernel_mapped_heap:
  assumes before: "kernel_mapped max_mem kernel_start kernel_end stack_guard fb m root"
    and layout: "max_mem \<le> direct_limit" "KERNEL_VMA \<le> kernel_start" "kernel_end \<le> kVMKernelHeapStart" "kernel_start \<le> stack_guard"
      "stack_guard < kernel_end" "baseSize fb \<le> 0x4000000"
    and same: "\<And>v. \<not> in_heap_pages v \<Longrightarrow> translate m' root v = translate m root v"
  shows "kernel_mapped max_mem kernel_start kernel_end stack_guard fb m' root"
proof -
  have direct: "\<not> in_heap_pages (PHYS_TO_HHDM a)" if "a < max_mem" for a
  proof -
    have a: "a \<le> direct_limit" using that layout(1) by auto
    then have "unat a div 4096 \<le> 0x400000000" by (simp add: word_le_nat_alt div_le_mono [of "unat a" "0x400000000000" 4096, simplified])
    then show ?thesis using direct_page [OF a] upper_half_pages(1) [OF a] by (intro not_in_heap_pages) simp_all
  qed
  have kern: "\<not> in_heap_pages v" if "kernel_start \<le> v" "v < kernel_end" for v
  proof -
    have "KERNEL_VMA \<le> v" "v < kVMKernelHeapStart" using that layout(2,3) by (auto intro: order_trans less_le_trans)
    then have "upper_half \<le> v" "unat v div 4096 < 0xFFFFFFFFC0000"
      using upper_half_pages(3) by (simp_all add: word_less_nat_alt div_less_iff_less_mult)
    then show ?thesis by (intro not_in_heap_pages) simp_all
  qed
  have screen: "\<not> in_heap_pages (FB_VIRT_BASE + i)" if "i < baseSize fb" for i
  proof -
    have "i < 0x4000000" using that layout(6) by auto
    then show ?thesis using screen_page upper_half_pages(2) by (intro not_in_heap_pages) simp_all
  qed
  have user: "\<not> in_heap_pages v" if "unat (VMM_PML4_INDEX v) < 256" for v
    using not_same_page_user [OF that heap_page_number(1)] by (auto simp: in_heap_pages_def)
  show ?thesis
    using before unfolding kernel_mapped_def by (simp add: same direct kern [OF layout(4,5)] screen user kern)
qed

section \<open>The stages\<close>

text \<open>What every stage up to the heap leaves alone.\<close>

definition steady :: "'a scheduler_scheme \<Rightarrow> 'a scheduler_scheme \<Rightarrow> bool" where
  "steady s t \<longleftrightarrow> portInput t = portInput s \<and> sIOGraphicsContextPointer t = sIOGraphicsContextPointer s \<and>
     sVMVMMlock t = sVMVMMlock s \<and> sVMHeapLock t = sVMHeapLock s \<and> sOSSchedulerLock t = sOSSchedulerLock s \<and>
     kernelSymbol t = kernelSymbol s \<and> gOSBootCPU t = gOSBootCPU s \<and> processes t = processes s"

lemma steady_trans: "steady s t \<Longrightarrow> steady t u \<Longrightarrow> steady s u"
  by (simp add: steady_def)

lemma steady_early: "steady s t \<Longrightarrow> early_ok s \<Longrightarrow> early_ok t"
  by (simp add: steady_def early_ok_def transmit_ready_def)

text \<open>A line of the log changes nothing the memory is made of.\<close>

lemma early_printed_keeps:
  fixes s :: "'a scheduler_scheme"
  assumes "early_printed s out t" "early_ok s"
  shows "steady s t" "mem t = mem s" "cr3 t = cr3 s" "gVMKernelPML4 t = gVMKernelPML4 s" "isInitialized t = isInitialized s"
    "free_frames t = free_frames s" "pmm_inv t = pmm_inv s" "vmm_ready t root = vmm_ready s root" "heap_inv t bs = heap_inv s bs"
    "heap_mapped t n = heap_mapped s n" "sched_inv t others = sched_inv s others"
    "gOSSchedulerCurrentTask t = gOSSchedulerCurrentTask s" "gVMPhycalMemoryTotalMemorySize t = gVMPhycalMemoryTotalMemorySize s"
    "gOSBootCPU t = gOSBootCPU s"
proof -
  from assms(1) obtain r w p b where t: "t = s\<lparr>portReads := r, portWrites := w, sIOGraphicsContextPointer := Some blank_context,
      sIOConsoleCursorPosition := p, sIOConsoleBackgroundColor := b\<rparr>" by (auto simp: early_printed_def)
  have c: "sIOGraphicsContextPointer s = Some blank_context" using assms(2) by (simp add: early_ok_def)
  show "steady s t" by (simp add: steady_def t c)
  show "mem t = mem s" "cr3 t = cr3 s" "gVMKernelPML4 t = gVMKernelPML4 s" "isInitialized t = isInitialized s"
    "gOSSchedulerCurrentTask t = gOSSchedulerCurrentTask s" "gVMPhycalMemoryTotalMemorySize t = gVMPhycalMemoryTotalMemorySize s"
    "gOSBootCPU t = gOSBootCPU s" by (simp_all add: t)
  show f: "free_frames t = free_frames s" by (simp add: t free_frames_def)
  show p: "pmm_inv t = pmm_inv s" using f by (simp add: t pmm_inv_def)
  show "vmm_ready t root = vmm_ready s root" using f p by (simp add: t vmm_ready_def address_space_ok_def used_frames_def)
  show "heap_inv t bs = heap_inv s bs" by (simp add: t heap_inv_def heap_blocks_def)
  show "heap_mapped t n = heap_mapped s n" by (simp add: t heap_mapped_def)
  show "sched_inv t others = sched_inv s others" by (simp add: t sched_inv_def)
qed

lemma reported:
  fixes s :: "'a scheduler_scheme"
  assumes "early_ok s" "steady s u" "serial_output u = serial_output s"
    and "0 \<notin> set (bytes message)" "asc CHR ''%'' \<notin> set (bytes message)" "asc CHR ''^'' \<notin> set (bytes message)"
  obtains t where "report message u = Inr t" "early_printed u (bytes message @ [0x0A]) t" "early_ok u" "early_ok t" "steady s t"
    "serial_output t = serial_output s @ bytes message @ [0x0A]"
proof -
  have u: "early_ok u" using steady_early assms by blast
  from report_effect [OF u assms(4-6)] obtain t where t: "report message u = Inr t" "early_printed u (bytes message @ [0x0A]) t" by blast
  show ?thesis
    using that [OF t u early_printed_ok [OF t(2) u] steady_trans [OF assms(2) early_printed_keeps(1) [OF t(2) u]]] serial_early [OF t(2)] assms(3)
    by simp
qed

lemma steady_PMM:
  fixes s :: "'a scheduler_scheme"
  assumes "VMPhysicalMemoryInitialize kernel_start kernel_end memoryMap s = Inr t"
  shows "steady s t" "serial_output t = serial_output s"
  using PMM_frame [OF assms] by (auto simp: steady_def serial_output_def)

lemma PMM_size:
  assumes "VMPhysicalMemoryInitialize kernel_start kernel_end memoryMap s = Inr t" "memory_map_descriptors memoryMap = Inr ds"
  shows "gVMPhycalMemoryBitmapSize t = (sVMMaxPhysicalAddress ds 0 div kVMPageSize + 7) div 8"
  using assms unfolding VMPhysicalMemoryInitialize_def Let_def by (clarsimp simp: bindE_eq_Inr split: option.splits)

lemma Timer_effect:
  fixes s :: "'a scheduler_scheme"
  shows "\<exists>t. IOTimerInitialize 1000 s = Inr t \<and> steady s t \<and> serial_output t = serial_output s \<and>
    (\<exists>r w. t = s\<lparr>portReads := r, portWrites := w\<rparr>)"
  by (simp add: IOTimerInitialize_def Let_def IOPortWrite8_def IOPortRead8_def steady_def serial_output_def) blast

text \<open>What the stage needs of the memory map, the linker and the frame buffer: descriptors that do not wrap, room for the bitmap, the
  kernel in memory and below the heap, the direct mapping within its part of the address space, and a frame that is free.\<close>

definition memory_layout :: "linker_symbols \<Rightarrow> Bootinfo \<Rightarrow> OSMemoryDescriptor list \<Rightarrow> OSMemoryDescriptor \<Rightarrow> bool" where
  "memory_layout l info ds host \<longleftrightarrow>
     memory_map_descriptors (bootMemoryMap info) = Inr ds \<and> (\<forall>d \<in> set ds. descriptor_ok d) \<and>
     sVMBitmapHost ds ((sVMMaxPhysicalAddress ds 0 div kVMPageSize + 7) div 8) = Some host \<and>
     sVMMaxPhysicalAddress ds 0 \<le> direct_limit \<and> frame_aligned (kernelStart l) \<and> KERNEL_VMA \<le> kernelStart l \<and>
     kernelEnd l \<le> kVMKernelHeapStart \<and> KERNEL_VIRT_TO_PHYS (kernelEnd l) \<le> sVMMaxPhysicalAddress ds 0 \<and>
     kernelStart l \<le> stackGuard l \<and> stackGuard l < kernelEnd l \<and> baseSize (bootFramebuffer info) \<le> 0x4000000 \<and>
     initially_free ds (KERNEL_VIRT_TO_PHYS (kernelStart l)) (KERNEL_VIRT_TO_PHYS (kernelEnd l)) (physicalStart host)
       ((sVMMaxPhysicalAddress ds 0 div kVMPageSize + 7) div 8) \<noteq> {}"

lemma kernel_physical_aligned: "frame_aligned v \<Longrightarrow> KERNEL_VMA \<le> v \<Longrightarrow> 4096 dvd unat (KERNEL_VIRT_TO_PHYS v)"
  unfolding frame_aligned_def KERNEL_VIRT_TO_PHYS_def by (simp add: unat_sub word_le_nat_alt dvd_diff_nat)

lemma steady_VMM:
  fixes s :: "'a scheduler_scheme"
  assumes "paging_frame s t"
  shows "steady s t" "serial_output t = serial_output s"
  using assms by (auto simp: paging_frame_def steady_def serial_output_def)

lemma steady_timer:
  fixes s :: "'a scheduler_scheme"
  obtains t where "IOTimerInitialize 1000 s = Inr t" "steady s t" "serial_output t = serial_output s"
    "mem t = mem s" "cr3 t = cr3 s" "gVMKernelPML4 t = gVMKernelPML4 s" "isInitialized t = isInitialized s"
    "free_frames t = free_frames s" "vmm_ready t root = vmm_ready s root"
proof -
  obtain t r w where t: "IOTimerInitialize 1000 s = Inr t" "steady s t" "serial_output t = serial_output s" "t = s\<lparr>portReads := r, portWrites := w\<rparr>"
    using Timer_effect [of s] by blast
  show thesis using that [OF t(1-3)] by (simp add: t(4) free_frames_def vmm_ready_def address_space_ok_def pmm_inv_def used_frames_def)
qed

lemma paging_stage:
  fixes s :: "'a scheduler_scheme"
  assumes early: "early_ok s" and layout: "memory_layout l info ds host"
    and locks: "lock_free (sVMPMMLock s)" "lock_free (sVMVMMlock s)"
  obtains a b c d e f where
    "VMPhysicalMemoryInitialize (kernelStart l) (kernelEnd l) (bootMemoryMap info) s = Inr a" "report ''PMM initialized'' a = Inr b"
    "VMVirtualMemoryInitialize (kernelStart l) (kernelEnd l) (stackGuard l) (bootFramebuffer info) b =
       Inr ((bootFramebuffer info)\<lparr>framebufferBase := FB_VIRT_BASE\<rparr>, c)" "report ''VMM initialized'' c = Inr d"
    "IOTimerInitialize 1000 d = Inr e" "report ''Timer initialized'' e = Inr f"
    "steady s f" "early_ok f" "serial_output f = serial_output s @ bytes ''PMM initialized'' @ [0x0A] @ bytes ''VMM initialized'' @ [0x0A] @
       bytes ''Timer initialized'' @ [0x0A]"
    "isInitialized f" "vmm_ready f (cr3 f)" "gVMKernelPML4 f = cr3 f"
    "free_frames f \<noteq> {} \<longrightarrow> kernel_mapped (sVMMaxPhysicalAddress ds 0) (kernelStart l) (kernelEnd l) (stackGuard l) (bootFramebuffer info) (mem f) (cr3 f)"
proof -
  note lay = layout [unfolded memory_layout_def]
  have ks: "4096 dvd unat (KERNEL_VIRT_TO_PHYS (kernelStart l))" using lay kernel_physical_aligned by blast
  have top: "kernelEnd l \<le> FB_VIRT_BASE" using lay by (auto simp: word_le_nat_alt)
  obtain a where a: "VMPhysicalMemoryInitialize (kernelStart l) (kernelEnd l) (bootMemoryMap info) s = Inr a" "pmm_inv a"
    "gVMPhycalMemoryTotalMemorySize a = sVMMaxPhysicalAddress ds 0"
    "free_frames a = initially_free ds (KERNEL_VIRT_TO_PHYS (kernelStart l)) (KERNEL_VIRT_TO_PHYS (kernelEnd l)) (physicalStart host) (gVMPhycalMemoryBitmapSize a)"
    using PMM_initialize_free [OF _ _ _ ks _ locks(1), of "bootMemoryMap info" ds host "kernelEnd l"] lay by blast
  have free: "free_frames a \<noteq> {}" using a(4) PMM_size [OF a(1)] lay by simp
  obtain b where b: "report ''PMM initialized'' a = Inr b" "early_printed a (bytes ''PMM initialized'' @ [0x0A]) b" "early_ok a" "early_ok b" "steady s b"
    "serial_output b = serial_output s @ bytes ''PMM initialized'' @ [0x0A]"
    by (rule reported [OF early steady_PMM [OF a(1)], of "''PMM initialized''"]) (simp_all add: bytes_def)
  note kb = early_printed_keeps [OF b(2,3)]
  have "lock_free (sVMVMMlock b)" using b(5) locks(2) by (simp add: steady_def)
  then obtain c where c: "VMVirtualMemoryInitialize (kernelStart l) (kernelEnd l) (stackGuard l) (bootFramebuffer info) b =
       Inr ((bootFramebuffer info)\<lparr>framebufferBase := FB_VIRT_BASE\<rparr>, c)"
    "paging_frame b c"
    "isInitialized c" "vmm_ready c (cr3 c)" "gVMKernelPML4 c = cr3 c"
    "free_frames c \<noteq> {} \<longrightarrow> kernel_mapped (sVMMaxPhysicalAddress ds 0) (kernelStart l) (kernelEnd l) (stackGuard l) (bootFramebuffer info) (mem c) (cr3 c)"
    using VMInitialize_effect [of b "kernelStart l" "kernelEnd l" "stackGuard l" "bootFramebuffer info"] kb(6,7,13) a(2,3) free lay top by auto
  obtain d where d: "report ''VMM initialized'' c = Inr d" "early_printed c (bytes ''VMM initialized'' @ [0x0A]) d" "early_ok c" "early_ok d" "steady b d"
    "serial_output d = serial_output b @ bytes ''VMM initialized'' @ [0x0A]"
    by (rule reported [OF b(4) steady_VMM [OF c(2)], of "''VMM initialized''"]) (simp_all add: bytes_def)
  note kd = early_printed_keeps [OF d(2,3)]
  obtain e where e: "IOTimerInitialize 1000 d = Inr e" "steady d e" "serial_output e = serial_output d"
    "mem e = mem d" "cr3 e = cr3 d" "gVMKernelPML4 e = gVMKernelPML4 d" "isInitialized e = isInitialized d"
    "free_frames e = free_frames d" "vmm_ready e (cr3 c) = vmm_ready d (cr3 c)" by (rule steady_timer)
  obtain f where f: "report ''Timer initialized'' e = Inr f" "early_printed e (bytes ''Timer initialized'' @ [0x0A]) f" "early_ok e" "early_ok f" "steady d f"
    "serial_output f = serial_output d @ bytes ''Timer initialized'' @ [0x0A]"
    by (rule reported [OF d(4) e(2,3), of "''Timer initialized''"]) (simp_all add: bytes_def)
  note kf = early_printed_keeps [OF f(2,3)]
  show thesis
  proof (rule that [OF a(1) b(1) c(1) d(1) e(1) f(1) _ f(4)])
    show "steady s f" using steady_trans [OF b(5) steady_trans [OF d(5) f(5)]] .
    show "serial_output f = serial_output s @ bytes ''PMM initialized'' @ [0x0A] @ bytes ''VMM initialized'' @ [0x0A] @
       bytes ''Timer initialized'' @ [0x0A]" using b(6) d(6) f(6) by simp
    show "isInitialized f" "vmm_ready f (cr3 f)" "gVMKernelPML4 f = cr3 f" using c(3-5) kd kf e by simp_all
    show "free_frames f \<noteq> {} \<longrightarrow> kernel_mapped (sVMMaxPhysicalAddress ds 0) (kernelStart l) (kernelEnd l) (stackGuard l) (bootFramebuffer info) (mem f) (cr3 f)"
      using c(6) kd kf e by simp
  qed
qed

lemma heap_stage:
  fixes s :: "'a scheduler_scheme"
  assumes ready: "vmm_ready s (cr3 s)" "gVMKernelPML4 s = cr3 s" and lock: "lock_free (sVMHeapLock s)"
    and layout: "memory_layout l info ds host"
    and mapped: "free_frames s \<noteq> {} \<longrightarrow>
      kernel_mapped (sVMMaxPhysicalAddress ds 0) (kernelStart l) (kernelEnd l) (stackGuard l) (bootFramebuffer info) (mem s) (cr3 s)"
    and run: "VMHeapInitialize s = Inr t"
  shows "steady s t" "serial_output t = serial_output s" "isInitialized t = isInitialized s" "cr3 t = cr3 s" "gVMKernelPML4 t = cr3 t"
    "vmm_ready t (cr3 t)" "heap_inv t [initial_block]"
    "free_frames t \<noteq> {} \<longrightarrow> heap_mapped t kVMHeapSizePages \<and>
      kernel_mapped (sVMMaxPhysicalAddress ds 0) (kernelStart l) (kernelEnd l) (stackGuard l) (bootFramebuffer info) (mem t) (cr3 t)"
proof -
  note lay = layout [unfolded memory_layout_def]
  obtain u h st where u: "vmm_frame s u" "t = u\<lparr>sVMHeapListHead := h, heapHeaders := st\<rparr>" "free_frames t \<subseteq> free_frames s"
    "free_frames t \<noteq> {} \<longrightarrow> (\<forall>v. \<not> in_heap_pages v \<longrightarrow> translate (mem t) (cr3 s) v = translate (mem s) (cr3 s) v)"
    using HeapInitialize_other [OF ready run] by blast
  show "steady s t" "serial_output t = serial_output s" "isInitialized t = isInitialized s" and cr3: "cr3 t = cr3 s" and root: "gVMKernelPML4 t = cr3 t"
    using u(1,2) ready(2) by (auto simp: vmm_frame_def steady_def serial_output_def)
  have t: "heap_inv t [initial_block]" "vmm_ready t (gVMKernelPML4 t)" "free_frames t \<noteq> {} \<longrightarrow> heap_mapped t kVMHeapSizePages"
    using HeapInitialize_effect [of s] ready lock run by simp_all
  then show "heap_inv t [initial_block]" "vmm_ready t (cr3 t)" using root by simp_all
  have "kernel_mapped (sVMMaxPhysicalAddress ds 0) (kernelStart l) (kernelEnd l) (stackGuard l) (bootFramebuffer info) (mem t) (cr3 s)"
    if "free_frames t \<noteq> {}"
  proof (rule kernel_mapped_heap [where m = "mem s"])
    show "kernel_mapped (sVMMaxPhysicalAddress ds 0) (kernelStart l) (kernelEnd l) (stackGuard l) (bootFramebuffer info) (mem s) (cr3 s)"
      using that u(3) mapped by blast
    show "sVMMaxPhysicalAddress ds 0 \<le> direct_limit" "KERNEL_VMA \<le> kernelStart l" "kernelEnd l \<le> kVMKernelHeapStart"
      "kernelStart l \<le> stackGuard l" "stackGuard l < kernelEnd l" "baseSize (bootFramebuffer info) \<le> 0x4000000" using lay by simp_all
    show "translate (mem t) (cr3 s) v = translate (mem s) (cr3 s) v" if "\<not> in_heap_pages v" for v
      using u(4) that \<open>free_frames t \<noteq> {}\<close> by blast
  qed
  then show "free_frames t \<noteq> {} \<longrightarrow> heap_mapped t kVMHeapSizePages \<and>
      kernel_mapped (sVMMaxPhysicalAddress ds 0) (kernelStart l) (kernelEnd l) (stackGuard l) (bootFramebuffer info) (mem t) (cr3 t)"
    using t(3) cr3 by simp
qed

text \<open>What the last stages leave alone: memory, paging and the heap's pages.\<close>

definition settled :: "'a scheduler_scheme \<Rightarrow> 'a scheduler_scheme \<Rightarrow> bool" where
  "settled s t \<longleftrightarrow> mem t = mem s \<and> cr3 t = cr3 s \<and> gVMKernelPML4 t = gVMKernelPML4 s \<and> isInitialized t = isInitialized s \<and>
     free_frames t = free_frames s \<and> (\<forall>root. vmm_ready t root = vmm_ready s root) \<and> (\<forall>n. heap_mapped t n = heap_mapped s n)"

lemma settled_trans: "settled s t \<Longrightarrow> settled t u \<Longrightarrow> settled s u"
  by (simp add: settled_def)

lemma settled_early: "early_printed s out t \<Longrightarrow> early_ok s \<Longrightarrow> settled s t"
  for s :: "'a scheduler_scheme"
  unfolding settled_def by (intro conjI allI early_printed_keeps)

lemma settled_start:
  fixes s :: "'a scheduler_scheme"
  assumes "start_frame s t"
  shows "settled s t" "serial_output t = serial_output s" "early_ok s \<Longrightarrow> early_ok t" "gOSBootCPU t = gOSBootCPU s"
  using assms by (auto simp: start_frame_def settled_def serial_output_def early_ok_def transmit_ready_def free_frames_def
      vmm_ready_def address_space_ok_def pmm_inv_def used_frames_def heap_mapped_def)

lemma Services_effect:
  fixes s :: "'a scheduler_scheme"
  assumes "kernelStackPointer (gOSBootCPU s) \<noteq> 0"
  obtains t where "OSServicesInitialize s = Inr t" "settled s t" "serial_output t = serial_output s" "early_ok t = early_ok s"
    "\<forall>bs. heap_inv t bs = heap_inv s bs" "\<forall>others. sched_inv t others = sched_inv s others"
    "gOSSchedulerCurrentTask t = gOSSchedulerCurrentTask s"
proof -
  obtain m where m: "OSServicesInitialize s = Inr (s\<lparr>msr := m\<rparr>)"
    using assms by (simp add: OSServicesInitialize_def WRMSR_eq Let_def)
  show thesis
    by (rule that [OF m]) (simp_all add: settled_def serial_output_def early_ok_def transmit_ready_def free_frames_def
      vmm_ready_def address_space_ok_def pmm_inv_def used_frames_def heap_mapped_def heap_inv_def heap_blocks_def sched_inv_def)
qed

lemma tasks_stage:
  fixes s :: "'a scheduler_scheme"
  assumes early: "early_ok s" and heap: "heap_inv s [initial_block]" and lock: "lock_free (sOSSchedulerLock s)"
    and name: "6 < length (processName (processes s (kernelSymbol s SymKernelProcess)))"
    and stack: "kernelStackPointer (gOSBootCPU s) \<noteq> 0"
  obtains a b c d where
    "OSSchedulerInitialize interrupt32 s = Inr a" "report ''Scheduler initialized'' a = Inr b" "OSServicesInitialize b = Inr c"
    "IOConsoleLog (literal ''Syscalls initialized'') [] c = Inr d" "settled s d" "early_ok d"
    "serial_output d = serial_output s @ bytes ''Scheduler initialized'' @ [0x0A] @ bytes ''Syscalls initialized''"
    "heap_inv d startup_blocks" "sched_inv d [collector_task_address, idle_task_address]" "gOSSchedulerCurrentTask d = kernel_task_address"
proof -
  obtain a where a: "OSSchedulerInitialize interrupt32 s = Inr a" "heap_inv a startup_blocks" "gOSSchedulerCurrentTask a = kernel_task_address"
    "sched_inv a [collector_task_address, idle_task_address]" "start_frame s a"
    using Initialize_effect [OF heap lock name] by blast
  note fa = settled_start [OF a(5)]
  obtain b where b: "report ''Scheduler initialized'' a = Inr b" "early_printed a (bytes ''Scheduler initialized'' @ [0x0A]) b"
    using report_effect [OF fa(3) [OF early], of "''Scheduler initialized''"] by (auto simp: bytes_def)
  note kb = early_printed_keeps [OF b(2) fa(3) [OF early]] and sb = serial_early [OF b(2)] and eb = early_printed_ok [OF b(2) fa(3) [OF early]]
  have "kernelStackPointer (gOSBootCPU b) \<noteq> 0" using stack fa(4) kb(14) by simp
  then obtain c where c: "OSServicesInitialize b = Inr c" "settled b c" "serial_output c = serial_output b" "early_ok c = early_ok b"
    "\<forall>bs. heap_inv c bs = heap_inv b bs" "\<forall>others. sched_inv c others = sched_inv b others"
    "gOSSchedulerCurrentTask c = gOSSchedulerCurrentTask b" by (rule Services_effect)
  have ec: "early_ok c" using c(4) eb by simp
  obtain d where d: "IOConsoleLog (literal ''Syscalls initialized'') [] c = Inr d" "early_printed c (bytes ''Syscalls initialized'') d"
    using early_log [OF ec, of "bytes ''Syscalls initialized''"] by (auto simp: bytes_def literal_def)
  note kd = early_printed_keeps [OF d(2) ec]
  show thesis
  proof (rule that [OF a(1) b(1) c(1) d(1)])
    show "settled s d"
      using settled_trans [OF fa(1)] settled_trans [OF settled_early [OF b(2) fa(3) [OF early]]] settled_trans [OF c(2)]
        settled_early [OF d(2) ec] by blast
    show "early_ok d" by (rule early_printed_ok [OF d(2) ec])
    show "serial_output d = serial_output s @ bytes ''Scheduler initialized'' @ [0x0A] @ bytes ''Syscalls initialized''"
      using serial_early [OF d(2)] c(3) sb fa(2) by simp
    show "heap_inv d startup_blocks" "sched_inv d [collector_task_address, idle_task_address]" "gOSSchedulerCurrentTask d = kernel_task_address"
      using kd kb c(5-7) a(2-4) by simp_all
  qed
qed

text \<open>With a memory map that has room for the kernel, the memory stage of start-up panics only when the frames run out under the
  heap. Otherwise it says on the serial line what it has brought up and leaves a working kernel: paging is on with a
  well-formed tree of tables, the heap holds exactly the first tasks and stacks, three tasks run in a ring, the frame buffer is given
  where it is mapped; and if a frame is left, the kernel's address space is complete, the heap's pages included.\<close>

lemma kmain_memory_effect:
  fixes s :: "'a scheduler_scheme"
  assumes early: "early_ok s" and layout: "memory_layout l info ds host"
    and locks: "lock_free (sVMPMMLock s)" "lock_free (sVMVMMlock s)" "lock_free (sVMHeapLock s)" "lock_free (sOSSchedulerLock s)"
    and name: "6 < length (processName (processes s (kernelSymbol s SymKernelProcess)))"
    and stack: "kernelStackPointer (gOSBootCPU s) \<noteq> 0"
  shows "case kmain_memory l interrupt32 info s of
      Inl e \<Rightarrow> e = Panic ''OOM during heap init''
    | Inr (info', t) \<Rightarrow>
        info' = info\<lparr>bootFramebuffer := (bootFramebuffer info)\<lparr>framebufferBase := FB_VIRT_BASE\<rparr>\<rparr> \<and> early_ok t \<and>
        serial_output t = serial_output s @ bytes ''PMM initialized'' @ [0x0A] @ bytes ''VMM initialized'' @ [0x0A] @
          bytes ''Timer initialized'' @ [0x0A] @ bytes ''Heap initialized'' @ [0x0A] @ bytes ''Scheduler initialized'' @ [0x0A] @
          bytes ''Syscalls initialized'' \<and>
        isInitialized t \<and> vmm_ready t (cr3 t) \<and> gVMKernelPML4 t = cr3 t \<and> heap_inv t startup_blocks \<and>
        gOSSchedulerCurrentTask t = kernel_task_address \<and> sched_inv t [collector_task_address, idle_task_address] \<and>
        (free_frames t \<noteq> {} \<longrightarrow> heap_mapped t kVMHeapSizePages \<and>
           kernel_mapped (sVMMaxPhysicalAddress ds 0) (kernelStart l) (kernelEnd l) (stackGuard l) (bootFramebuffer info) (mem t) (cr3 t))"
proof -
  obtain a b c d e f where
    p: "VMPhysicalMemoryInitialize (kernelStart l) (kernelEnd l) (bootMemoryMap info) s = Inr a" "report ''PMM initialized'' a = Inr b"
    "VMVirtualMemoryInitialize (kernelStart l) (kernelEnd l) (stackGuard l) (bootFramebuffer info) b =
       Inr ((bootFramebuffer info)\<lparr>framebufferBase := FB_VIRT_BASE\<rparr>, c)" "report ''VMM initialized'' c = Inr d"
    "IOTimerInitialize 1000 d = Inr e" "report ''Timer initialized'' e = Inr f"
    and f: "steady s f" "early_ok f" "serial_output f = serial_output s @ bytes ''PMM initialized'' @ [0x0A] @ bytes ''VMM initialized'' @ [0x0A] @
       bytes ''Timer initialized'' @ [0x0A]"
    "isInitialized f" "vmm_ready f (cr3 f)" "gVMKernelPML4 f = cr3 f"
    "free_frames f \<noteq> {} \<longrightarrow> kernel_mapped (sVMMaxPhysicalAddress ds 0) (kernelStart l) (kernelEnd l) (stackGuard l) (bootFramebuffer info) (mem f) (cr3 f)"
    by (rule paging_stage [OF early layout locks(1,2)])
  have lockf: "lock_free (sVMHeapLock f)" using f(1) locks(3) by (simp add: steady_def)
  show ?thesis
  proof (cases "VMHeapInitialize f")
    case (Inl e)
    then have "e = Panic ''OOM during heap init''" using HeapInitialize_effect [of f] f(5,6) lockf by simp
    then show ?thesis by (simp add: kmain_memory_def p Inl Let_def)
  next
    case (Inr g)
    note g = heap_stage [OF f(5,6) lockf layout f(7) Inr]
    obtain h where h: "report ''Heap initialized'' g = Inr h" "early_printed g (bytes ''Heap initialized'' @ [0x0A]) h" "early_ok g" "early_ok h"
      "steady f h" "serial_output h = serial_output f @ bytes ''Heap initialized'' @ [0x0A]"
      by (rule reported [OF f(2) g(1,2), of "''Heap initialized''"]) (simp_all add: bytes_def)
    note kh = early_printed_keeps [OF h(2,3)]
    have sh: "steady s h" by (rule steady_trans [OF f(1) h(5)])
    then have prem: "heap_inv h [initial_block]" "lock_free (sOSSchedulerLock h)" "6 < length (processName (processes h (kernelSymbol h SymKernelProcess)))"
      "kernelStackPointer (gOSBootCPU h) \<noteq> 0" using g(7) kh(9) locks(4) name stack by (simp_all add: steady_def)
    obtain i j k t where q: "OSSchedulerInitialize interrupt32 h = Inr i" "report ''Scheduler initialized'' i = Inr j" "OSServicesInitialize j = Inr k"
        "IOConsoleLog (literal ''Syscalls initialized'') [] k = Inr t"
      and t: "settled h t" "early_ok t"
        "serial_output t = serial_output h @ bytes ''Scheduler initialized'' @ [0x0A] @ bytes ''Syscalls initialized''"
        "heap_inv t startup_blocks" "sched_inv t [collector_task_address, idle_task_address]" "gOSSchedulerCurrentTask t = kernel_task_address"
      by (rule tasks_stage [OF h(4) prem])
    have run: "kmain_memory l interrupt32 info s =
        Inr (info\<lparr>bootFramebuffer := (bootFramebuffer info)\<lparr>framebufferBase := FB_VIRT_BASE\<rparr>\<rparr>, t)"
      by (simp add: kmain_memory_def p Inr h(1) q Let_def)
    have "vmm_ready t (cr3 t)" "isInitialized t" "gVMKernelPML4 t = cr3 t" "free_frames t = free_frames g" "mem t = mem g" "cr3 t = cr3 g"
      "heap_mapped t kVMHeapSizePages = heap_mapped g kVMHeapSizePages"
      using t(1) kh g(3-6) f(4) by (simp_all add: settled_def)
    then show ?thesis using t(2-6) h(6) f(3) g(8) by (simp add: run)
  qed
qed

text \<open>Three megabytes of conventional memory above the first, the kernel at two megabytes, as the linker and the boot loader describe it.\<close>

definition small_linker :: linker_symbols where
  "small_linker = \<lparr>kernelStart = 0xFFFFFFFF80200000, kernelEnd = 0xFFFFFFFF80210000, stackGuard = 0xFFFFFFFF80208000\<rparr>"

definition starting_info :: Bootinfo where
  "starting_info = small_bootinfo\<lparr>bootMagic := BOOTINFO_MAGIC, bootMemoryMap := \<lparr>memoryDescriptors = [small_memory], mapSize = 48,
     descriptorSize = 48, mapKey = 1, descriptorVersion = 1\<rparr>\<rparr>"

lemma starting_layout: "memory_layout small_linker starting_info [small_memory] small_memory"
proof -
  have "0x101 \<in> initially_free [small_memory] (KERNEL_VIRT_TO_PHYS 0xFFFFFFFF80200000) (KERNEL_VIRT_TO_PHYS 0xFFFFFFFF80210000) 0x100000
      ((sVMMaxPhysicalAddress [small_memory] 0 div kVMPageSize + 7) div 8)"
    by (simp add: initially_free_def small_memory_def descriptor_covers_def KERNEL_VIRT_TO_PHYS_def)
  then show ?thesis
    by (auto simp: memory_layout_def small_linker_def starting_info_def small_bootinfo_def memory_map_descriptors_def sVMBitmapHost_def
        descriptor_ok_def KERNEL_VIRT_TO_PHYS_def frame_aligned_def small_memory_def)
qed


definition small_start :: filesystem where
  "small_start = small_shell\<lparr>kernelSymbol := (kernelSymbol small_shell)(SymStackTop := 0xFFFFFFFF8020F000)\<rparr>"


end
