(* ===== verification/LibBytes.thy ===== *)
theory LibBytes
  imports LibString
begin

text \<open>
  The routines \<^verbatim>\<open>userspace/libterm/src/String.c\<close> shares with the kernel, over the bytes of the process: pointers are
  addresses, strings may lie anywhere and overlap. The kernel's are modelled over objects in Strings, where a read
  past the end is a fault; here what lies behind a string is just more memory.
\<close>

unbundle bit_operations_syntax

section \<open>The routines\<close>

text \<open>\<^verbatim>\<open>MemorySet\<close> and \<^verbatim>\<open>MemoryCopy\<close> have the same loops as in the kernel.\<close>

definition MemorySet_user :: "UInt64 \<Rightarrow> UInt8 \<Rightarrow> UInt64 \<Rightarrow> 'k user \<Rightarrow> UInt64 \<times> 'k user" where
  "MemorySet_user destination v count s = (destination, s\<lparr>userBytes := MemorySet (userBytes s) destination v count\<rparr>)"

definition MemoryCopy_user :: "UInt64 \<Rightarrow> UInt64 \<Rightarrow> UInt64 \<Rightarrow> 'k user \<Rightarrow> UInt64 \<times> 'k user" where
  "MemoryCopy_user destination source count s = (destination, s\<lparr>userBytes := MemoryCopy (userBytes s) destination source count\<rparr>)"

partial_function (option) sStringCompareFrom :: "memory \<Rightarrow> UInt64 \<Rightarrow> UInt64 \<Rightarrow> (fault + Int32) option" where
  "sStringCompareFrom m firstString secondString =
     (if m firstString \<noteq> 0 \<and> m firstString = m secondString then sStringCompareFrom m (firstString + 1) (secondString + 1)
      else Some (Inr (ucast (m firstString) - ucast (m secondString))))"

definition StringCompare_user :: "UInt64 \<Rightarrow> UInt64 \<Rightarrow> 'k user \<Rightarrow> fault + Int32" where
  "StringCompare_user firstString secondString s = returns (sStringCompareFrom (userBytes s) firstString secondString)"

function sStringCompareLimited :: "memory \<Rightarrow> UInt64 \<Rightarrow> UInt64 \<Rightarrow> UInt64 \<Rightarrow> Int32" where
  "sStringCompareLimited m firstString secondString limit =
     (if limit > 0
      then if m firstString \<noteq> m secondString then ucast (m firstString) - ucast (m secondString)
           else if m firstString = 0 then 0
           else sStringCompareLimited m (firstString + 1) (secondString + 1) (limit - 1)
      else 0)"
  by pat_completeness auto
termination
  by (relation "measure (\<lambda>(m, firstString, secondString, limit). unat limit)") (auto simp: unat_minus_one unat_gt_0 word_gt_0)

definition StringCompareWithLimit_user :: "UInt64 \<Rightarrow> UInt64 \<Rightarrow> UInt64 \<Rightarrow> 'k user \<Rightarrow> Int32" where
  "StringCompareWithLimit_user firstString secondString limit s = sStringCompareLimited (userBytes s) firstString secondString limit"

partial_function (option) sStringCopyFrom :: "memory \<Rightarrow> UInt64 \<Rightarrow> UInt64 \<Rightarrow> (fault + memory) option" where
  "sStringCopyFrom m destination source =
     (if m source \<noteq> 0 then sStringCopyFrom (m(destination := m source)) (destination + 1) (source + 1)
      else Some (Inr (m(destination := 0))))"

definition StringCopy_user :: "UInt64 \<Rightarrow> UInt64 \<Rightarrow> 'k user \<Rightarrow> fault + UInt64 \<times> 'k user" where
  "StringCopy_user destination source s =
     bindE (returns (sStringCopyFrom (userBytes s) destination source)) (\<lambda>m. Inr (destination, s\<lparr>userBytes := m\<rparr>))"

function sStringZero :: "memory \<Rightarrow> UInt64 \<Rightarrow> UInt64 \<Rightarrow> memory" where
  "sStringZero m destination limit = (if limit > 0 then sStringZero (m(destination := 0)) (destination + 1) (limit - 1) else m)"
  by pat_completeness auto
termination
  by (relation "measure (\<lambda>(m, destination, limit). unat limit)") (auto simp: unat_minus_one unat_gt_0 word_gt_0)

function sStringCopyLimited :: "memory \<Rightarrow> UInt64 \<Rightarrow> UInt64 \<Rightarrow> UInt64 \<Rightarrow> memory" where
  "sStringCopyLimited m destination source limit =
     (if m source \<noteq> 0 \<and> limit > 0
      then sStringCopyLimited (m(destination := m source)) (destination + 1) (source + 1) (limit - 1)
      else sStringZero m destination limit)"
  by pat_completeness auto
termination
  by (relation "measure (\<lambda>(m, destination, source, limit). unat limit)") (auto simp: unat_minus_one unat_gt_0 word_gt_0)

declare sStringCompareLimited.simps [simp del] sStringZero.simps [simp del] sStringCopyLimited.simps [simp del]

definition StringCopyWithLimit_user :: "UInt64 \<Rightarrow> UInt64 \<Rightarrow> UInt64 \<Rightarrow> 'k user \<Rightarrow> UInt64 \<times> 'k user" where
  "StringCopyWithLimit_user destination source limit s =
     (destination, s\<lparr>userBytes := sStringCopyLimited (userBytes s) destination source limit\<rparr>)"

section \<open>What they compute\<close>

lemma Compare_text:
  "c_text m a xs \<Longrightarrow> c_text m b ys \<Longrightarrow>
   \<exists>r. sStringCompareFrom m a b = Some (Inr r) \<and> (r = 0 \<longleftrightarrow> xs = ys) \<and> (r <s 0 \<longleftrightarrow> byte_less xs ys)"
proof (induction xs arbitrary: a b ys)
  case Nil
  then show ?case using byte_difference [of 0] by (subst sStringCompareFrom.simps) (cases ys; auto simp: word_gt_0)
next
  case (Cons x xs)
  show ?case
  proof (cases ys)
    case Nil
    with Cons.prems show ?thesis using byte_difference [of _ 0] by (subst sStringCompareFrom.simps) auto
  next
    case (Cons y ys')
    with Cons.prems Cons.IH [of "a + 1" "b + 1" ys'] show ?thesis by (subst sStringCompareFrom.simps) (auto simp: byte_difference byte_same)
  qed
qed

lemma CompareWithLimit_text:
  "c_text m a xs \<Longrightarrow> c_text m b ys \<Longrightarrow> let r = sStringCompareLimited m a b n in
     (r = 0 \<longleftrightarrow> take (unat n) xs = take (unat n) ys) \<and> (r <s 0 \<longleftrightarrow> byte_less (take (unat n) xs) (take (unat n) ys))"
proof (induction xs arbitrary: a b ys n)
  case Nil
  show ?case
  proof (cases "n = 0")
    case False
    then have n: "unat n = Suc (unat (n - 1))" by (simp add: unat_minus_one unat_gt_0)
    from Nil False show ?thesis using byte_difference [of 0] unfolding n
      by (subst sStringCompareLimited.simps) (cases ys; auto simp: word_gt_0)
  qed (simp add: sStringCompareLimited.simps)
next
  case (Cons x xs)
  show ?case
  proof (cases "n = 0")
    case False
    then have n: "unat n = Suc (unat (n - 1))" by (simp add: unat_minus_one unat_gt_0)
    show ?thesis
    proof (cases ys)
      case Nil
      with Cons.prems False show ?thesis using byte_difference [of _ 0] unfolding n
        by (subst sStringCompareLimited.simps) (auto simp: word_gt_0 Let_def)
    next
      case (Cons y ys')
      with Cons.prems Cons.IH [of "a + 1" "b + 1" ys' "n - 1"] False show ?thesis
        unfolding n by (subst sStringCompareLimited.simps) (auto simp: byte_difference byte_same word_gt_0 Let_def)
    qed
  qed (simp add: sStringCompareLimited.simps)
qed

text \<open>Copying forwards is right unless the destination starts inside the source.\<close>

definition starts_inside :: "UInt64 \<Rightarrow> UInt64 \<Rightarrow> nat \<Rightarrow> bool" where
  "starts_inside destination source n \<longleftrightarrow> 0 < unat (destination - source) \<and> unat (destination - source) \<le> n"

lemma copy_step:
  assumes "c_text m a (x # xs)" "\<not> starts_inside d a (length (x # xs))"
  shows "c_text (m(d := x)) (a + 1) xs" "\<not> starts_inside (d + 1) (a + 1) (length xs)"
proof -
  show "c_text (m(d := x)) (a + 1) xs"
  proof (rule c_text_cong)
    fix i assume i: "i \<le> length xs"
    have "unat (a + of_nat (Suc i)) = unat a + Suc i" by (rule c_text_place [OF assms(1)]) (use i in simp)
    then have "unat (of_nat (Suc i) :: UInt64) = Suc i"
      using c_text_bound [OF assms(1)] i by (simp add: unsigned_of_nat take_bit_nat_eq_self del: of_nat_Suc)
    then have "a + 1 + of_nat i \<noteq> d" using assms(2) i by (auto simp: starts_inside_def add.assoc simp del: unsigned_of_nat)
    then show "(m(d := x)) (a + 1 + of_nat i) = m (a + 1 + of_nat i)" by simp
  qed (use assms(1) in simp)
  show "\<not> starts_inside (d + 1) (a + 1) (length xs)" using assms(2) by (auto simp: starts_inside_def)
qed

lemma unat_before:
  fixes x d :: UInt64
  assumes "x \<noteq> d"
  shows "unat (x - d) = Suc (unat (x - (d + 1)))"
proof -
  have "x - (d + 1) + 1 \<noteq> 0" using assms by simp
  from unat_next [OF this] show ?thesis by simp
qed

lemma Copy_text:
  "c_text m a xs \<Longrightarrow> \<not> starts_inside d a (length xs) \<Longrightarrow>
   sStringCopyFrom m d a = Some (Inr (\<lambda>x. if unat (x - d) \<le> length xs then (xs @ [0]) ! unat (x - d) else m x))"
proof (induction xs arbitrary: m a d)
  case Nil
  have "m(d := 0) = (\<lambda>x. if unat (x - d) \<le> length [] then ([] @ [0]) ! unat (x - d) else m x)" by (auto simp: fun_eq_iff unat_eq_0)
  with Nil show ?case by (subst sStringCopyFrom.simps) simp
next
  case (Cons c xs)
  from Cons.IH [OF copy_step [OF Cons.prems]] Cons.prems(1)
  have "sStringCopyFrom m d a = Some (Inr (\<lambda>x. if unat (x - (d + 1)) \<le> length xs then (xs @ [0]) ! unat (x - (d + 1)) else (m(d := c)) x))"
    by (subst sStringCopyFrom.simps) (simp del: fun_upd_apply)
  moreover have "(if unat (x - (d + 1)) \<le> length xs then (xs @ [0]) ! unat (x - (d + 1)) else (m(d := c)) x) =
      (if unat (x - d) \<le> length (c # xs) then ((c # xs) @ [0]) ! unat (x - d) else m x)" for x
  proof (cases "x = d")
    case True
    have "length xs < unat (- 1 :: UInt64)"
      using c_text_bound [OF Cons.prems(1)] by (simp add: unsigned_minus_1_eq_mask mask_eq_exp_minus_1)
    with True show ?thesis by simp
  next
    case False
    from unat_before [OF this] False show ?thesis by simp
  qed
  ultimately show ?case by simp
qed

lemma Zero_set: "sStringZero m d n = MemorySet m d 0 n"
  by (induction m d n rule: sStringZero.induct) (subst sStringZero.simps, subst MemorySet.simps, simp add: word_gt_0 del: fun_upd_apply)

lemma CopyWithLimit_text:
  "c_text m a xs \<Longrightarrow> \<not> starts_inside d a (length xs) \<Longrightarrow>
   sStringCopyLimited m d a n = (\<lambda>x. if x - d < n then (if unat (x - d) < length xs then xs ! unat (x - d) else 0) else m x)"
proof (induction xs arbitrary: m a d n)
  case Nil
  then show ?case by (subst sStringCopyLimited.simps) (auto simp: Zero_set MemorySet_effect)
next
  case (Cons c xs)
  show ?case
  proof (cases "n = 0")
    case True
    then show ?thesis by (subst sStringCopyLimited.simps) (simp add: Zero_set MemorySet_effect)
  next
    case False
    then have n: "unat n = Suc (unat (n - 1))" by (simp add: unat_minus_one unat_gt_0)
    from Cons.IH [OF copy_step [OF Cons.prems], of "n - 1"] Cons.prems(1) False
    have "sStringCopyLimited m d a n = (\<lambda>x. if x - (d + 1) < n - 1
        then (if unat (x - (d + 1)) < length xs then xs ! unat (x - (d + 1)) else 0) else (m(d := c)) x)"
      by (subst sStringCopyLimited.simps) (simp add: word_gt_0 del: fun_upd_apply)
    moreover have "(if x - (d + 1) < n - 1 then (if unat (x - (d + 1)) < length xs then xs ! unat (x - (d + 1)) else 0) else (m(d := c)) x) =
      (if x - d < n then (if unat (x - d) < length (c # xs) then (c # xs) ! unat (x - d) else 0) else m x)" for x
    proof (cases "x = d")
      case True
      have "\<not> (- 1 :: UInt64) < n - 1" by (simp add: not_less)
      with True False show ?thesis by (simp add: word_gt_0)
    next
      case neq: False
      have "x - (d + 1) < n - 1 \<longleftrightarrow> x - d < n" using unat_before [OF neq] n by (simp add: word_less_nat_alt)
      with unat_before [OF neq] neq show ?thesis by simp
    qed
    ultimately show ?thesis by simp
  qed
qed

text \<open>C40: The string routines of user programs on two strings anywhere in the memory of the process: comparison decides equality and
  the lexicographic order of bytes, with a limit that of their first bytes. Copying to any place that does not start
  inside the source leaves the source's bytes and a terminator there; with a limit it writes exactly so many bytes, cut or padded
  with zeros. No other byte changes.\<close>

theorem string_routines_correct:
  assumes strings: "c_text (userBytes s) a xs" "c_text (userBytes s) b ys" and apart: "\<not> starts_inside d a (length xs)"
  shows "(\<exists>r. StringCompare_user a b s = Inr r \<and> (r = 0 \<longleftrightarrow> xs = ys) \<and> (r <s 0 \<longleftrightarrow> byte_less xs ys)) \<and>
    (let r = StringCompareWithLimit_user a b n s in
      (r = 0 \<longleftrightarrow> take (unat n) xs = take (unat n) ys) \<and> (r <s 0 \<longleftrightarrow> byte_less (take (unat n) xs) (take (unat n) ys))) \<and>
    StringCopy_user d a s = Inr (d, s\<lparr>userBytes := \<lambda>x. if unat (x - d) \<le> length xs then (xs @ [0]) ! unat (x - d) else userBytes s x\<rparr>) \<and>
    StringCopyWithLimit_user d a n s = (d, s\<lparr>userBytes := \<lambda>x. if x - d < n
       then (if unat (x - d) < length xs then xs ! unat (x - d) else 0) else userBytes s x\<rparr>)"
  using Compare_text [OF strings] CompareWithLimit_text [OF strings, of n] Copy_text [OF strings(1) apart]
    CopyWithLimit_text [OF strings(1) apart, of n]
  by (auto simp: StringCompare_user_def StringCompareWithLimit_user_def StringCopy_user_def StringCopyWithLimit_user_def returns_def)

text \<open>The strings \<open>ab\<close> and \<open>b\<close>; the first is moved one byte down, over its own start.\<close>

lemma string_routines_correct_witness:
  "let s = small_user\<lparr>userBytes := (\<lambda>_. 0)(0x1000 := 0x61, 0x1001 := 0x62)\<rparr> in
   \<exists>r. StringCompare_user 0x1000 0x1001 s = Inr r \<and> r <s 0 \<and>
     (\<exists>t. StringCopy_user 0xFFF 0x1000 s = Inr (0xFFF, t) \<and> userBytes t 0xFFF = 0x61 \<and> userBytes t 0x1000 = 0x62 \<and> userBytes t 0x1001 = 0)"
proof -
  let ?s = "small_user\<lparr>userBytes := (\<lambda>_. 0)(0x1000 := 0x61, 0x1001 := 0x62)\<rparr>"
  have strings: "c_text (userBytes ?s) 0x1000 [0x61, 0x62]" "c_text (userBytes ?s) 0x1001 [0x62]" by simp_all
  have "\<not> starts_inside 0xFFF 0x1000 (length [0x61 :: UInt8, 0x62])" by (simp add: starts_inside_def unsigned_minus_1_eq_mask mask_eq_exp_minus_1)
  from string_routines_correct [OF strings this, of 0] show ?thesis by auto
qed

end
