(* ===== verification/Spec2Isabelle.thy ===== *)
theory Spec2Isabelle
  imports Boot Termosh BootLoader Bringup LibBytes
begin

text \<open>
  A verification library for termOS, a small x86_64 operating system: its kernel \<^verbatim>\<open>Dewar\<close>
  (\<^verbatim>\<open>kernel/\<close>), the data the boot loader hands over (\<^verbatim>\<open>common/\<close>) and its user space (\<^verbatim>\<open>userspace/\<close>).
  File names below are relative to the root of the sources.

  \<^bold>\<open>The program.\<close> The boot loader jumps to \<^verbatim>\<open>kmain\<close>, which brings up the serial line, the processor's
  tables, the allocator of physical frames, paging, the timer, the heap, the scheduler and the system calls,
  mounts the initial archive as a file system, clears the screen and spawns the first task: the kernel's
  rescue shell, or the loader of the first user program. From then on everything is driven by interrupts (the timer
  calls the scheduler, the keyboard fills a ring), by system calls and by exceptions, which kill a user
  task or halt the machine on the panic screen.

  \<^bold>\<open>How it is modelled.\<close> The state is one record, extended from theory to theory in the order in
  which the components build on each other: \<open>machine\<close> (physical memory, CR3, the interrupt flag, port
  writes, invalidated pages), \<open>pmm\<close>, \<open>vmm\<close>, \<open>heap\<close>, \<open>devices\<close>, \<open>console\<close>, \<open>arch\<close>,
  \<open>scheduler\<close>, \<open>filesystem\<close>. Its fields are the globals of the C files, under their names. An operation
  takes the state and gives it back updated, or a \<open>fault\<close>: a panic with its message, an access out of an
  array, a division by zero, or a loop that never ends. Operations are polymorphic in the rest of the
  record, so that each component is stated over the state it uses and applies to the whole. Integers
  have their width and wrap. Loops are recursion: structural where the bound is in the data,
  with a measure where it is in a counter, and \<open>partial_function\<close> where the loop may run for ever
  (waiting for the serial line, for a key, around the ring of tasks, over an archive), so that a property
  that says such a loop returns proves it. There is no fuel except in the shells' endless loops, which
  are given a number of turns.

  \<^bold>\<open>Theories.\<close>
  \<^item> \<open>Prelude\<close>: errors as values and their monad, loops, words, lists; the collections of lemmas the others share.
  \<^item> \<open>Machine\<close>: the state every component shares, memory with its loads and stores, \<^verbatim>\<open>MemorySet\<close> and
    \<^verbatim>\<open>MemoryCopy\<close> (\<^verbatim>\<open>kernel/src/lib/String.c\<close>), addresses (\<^verbatim>\<open>kernel/inc/VM/VMM.h\<close>).
  \<^item> \<open>Spinlock\<close> (\<^verbatim>\<open>OS/OSSpinlock.c\<close>): the lock as operations on the state and as a step relation of
    many processors with interrupts: mutual exclusion and no deadlock with an interrupt handler. The locale
    \<open>lock_field\<close> states what every lock of the state shares.
  \<^item> \<open>PhysicalMemory\<close> (\<^verbatim>\<open>VM/PMM.c\<close>): the bitmap of frames refines a set of free frames; initialisation from
    the memory map.
  \<^item> \<open>VirtualMemory\<close> (\<^verbatim>\<open>VM/VMM.c\<close>): page tables as words in memory. \<open>translate\<close> walks them as the processor
    does; mapping and unmapping change the translation of one page, a new address space shares the kernel half,
    the user stack is mapped.
  \<^item> \<open>KernelSpace\<close> (\<^verbatim>\<open>VM/VMM.c\<close>): what \<^verbatim>\<open>VMVirtualMemoryInitialize\<close> maps; from then on the processor finds all of memory, the
    kernel and the frame buffer at their places and nothing in the lower half.
  \<^item> \<open>BlockList\<close> and \<open>KernelHeap\<close> (\<^verbatim>\<open>VM/Heap.c\<close>): an abstract list of blocks with first fit, and the
    headers linked through memory that refine it.
  \<^item> \<open>Strings\<close> (\<^verbatim>\<open>lib/String.c\<close>), \<open>Devices\<close> (\<^verbatim>\<open>arch/x86_64/IO.h\<close>, \<^verbatim>\<open>IO/IOSerial.c\<close>,
    \<^verbatim>\<open>IO/IOTimer.c\<close>, \<^verbatim>\<open>IO/IOKeyboard.c\<close>), \<open>VGAFont\<close> (\<^verbatim>\<open>inc/Data/VGAFont.h\<close>), \<open>Graphics\<close> (\<^verbatim>\<open>IO/IOGraphics.c\<close>),
    \<open>Console\<close> (\<^verbatim>\<open>IO/IOConsole.c\<close>): C strings, ports, the keyboard's ring as a queue, clipped drawing, and formatted
    output on screen and serial line.
  \<^item> \<open>Arch\<close> (\<^verbatim>\<open>arch/x86_64/GDT.c\<close>, \<^verbatim>\<open>IDT.c\<close>, \<^verbatim>\<open>PIC.c\<close>, \<^verbatim>\<open>OSCPU.c\<close>, \<^verbatim>\<open>lib/Rand.c\<close>, the registers set up in
    \<^verbatim>\<open>syscall.c\<close>): descriptor tables, interrupt gates, processor features, random numbers.
  \<^item> \<open>Scheduler\<close> (\<^verbatim>\<open>OS/OSScheduler.c\<close>): the circular list of tasks as a ring; timer interrupts, sleeping,
    waiting, spawning, terminating and collecting tasks. \<open>SchedulerStart\<close> follows \<^verbatim>\<open>OSSchedulerInitialize\<close> from the fresh heap
    to the first three tasks.
  \<^item> \<open>FileSystem\<close> (\<^verbatim>\<open>FS/CPIO.c\<close>, \<^verbatim>\<open>FS/VFS.c\<close>): archives, the nodes made of them, lookup and reading.
  \<^item> \<open>Loader\<close> (\<^verbatim>\<open>OS/Exec/*.c\<close>), \<open>Services\<close> (\<^verbatim>\<open>OS/Services/*.c\<close>, \<^verbatim>\<open>arch/x86_64/syscall.c\<close>),
    \<open>PanicScreen\<close> (\<^verbatim>\<open>OS/OSPanic.c\<close>, \<^verbatim>\<open>arch/x86_64/interrupts.c\<close>): starting a program, system calls, exceptions.
  \<^item> \<open>Logo\<close> (\<^verbatim>\<open>inc/Data/logo.h\<close>), \<open>Shell\<close> (\<^verbatim>\<open>KSH/*.c\<close>, \<^verbatim>\<open>lib/Splash.c\<close>, \<^verbatim>\<open>inc/Data/cats.h\<close>), \<open>Boot\<close>
    (\<^verbatim>\<open>kmain.c\<close>, \<^verbatim>\<open>common/bootinfo.h\<close>): the rescue shell and the start of the kernel.
    \<open>Bringup\<close> composes the components' initialisations as \<^verbatim>\<open>kmain\<close> does: after them the invariants of all hold at once.
  \<^item> \<open>BootLoader\<close> (\<^verbatim>\<open>bootloader/src/main.c\<close>): the boot loader over the services of the firmware, which are a record of
    functions; what the UEFI specification documents of them is \<open>firmware_documented\<close>.
  \<^item> \<open>LibMemory\<close> (\<^verbatim>\<open>userspace/libterm/src/Memory.c\<close>), \<open>LibString\<close> and \<open>LibBytes\<close> (\<^verbatim>\<open>libterm/src/String.c\<close>, the parser of
    \<^verbatim>\<open>termosh\<close>), \<open>LibConsole\<close> (\<^verbatim>\<open>libterm/src/Console.c\<close>), \<open>Termosh\<close> (\<^verbatim>\<open>libterm/src/Process.c\<close>,
    \<^verbatim>\<open>userspace/termosh\<close>, \<^verbatim>\<open>userspace/init\<close>, \<^verbatim>\<open>userspace/debug\<close>): the library of user programs and the programs.
    Their state is the record \<open>user\<close> of a process; its last field is the system, which only system calls change.

  \<^bold>\<open>Interfaces.\<close> Components meet at invariants that the lower one keeps and the upper one relies on:
  \<open>pmm_inv\<close> with \<open>free_frames\<close>, \<open>vmm_ready\<close> and \<open>address_space_ok\<close>, \<open>heap_inv\<close> (a list of blocks
  that the headers represent), \<open>console_ok\<close>, the ring of tasks. The locales state what several operations
  or clients share and are interpreted on the model's own definitions; \<open>memory_service\<close>, what the heap of a process
  asks of the kernel, is interpreted on the system call of \<open>Services\<close>.

  \<^bold>\<open>Parameters.\<close> What the hardware answers (ports, time stamps, random numbers, \<^verbatim>\<open>cpuid\<close>) and where the
  linker puts symbols are fields of the state about which nothing is assumed except where a property says
  so. The timer interrupt a task is waiting for, giving up the processor, and the run of a loaded user program are arguments of the
  operations that reach them. The boot loader takes the firmware's services and the programs the system calls they make as a record of functions,
  \<open>efi\<close> and \<open>services\<close>,
  and the places of their arrays on the stack as arguments.

  \<^bold>\<open>Not modelled.\<close> The assembly stubs (\<^verbatim>\<open>entry.asm\<close>, \<^verbatim>\<open>interrupts.asm\<close>, \<^verbatim>\<open>syscall.asm\<close>, \<^verbatim>\<open>OSServices.asm\<close>,
  \<^verbatim>\<open>RuntimeEntry.asm\<close>), whose effect on registers is what their callers in C expect; the vendored UEFI library
  (\<^verbatim>\<open>bootloader/src/uefi\<close>), which is third-party code;
  the build files; cycle-level behaviour of the hardware, and
  compiler-dependent reordering. Interrupts happen at the points where the code enables them, not between any
  two instructions; the step relation of \<open>Spinlock\<close> is where they interleave freely.
\<close>

end
